(* ===== verification/Prelude.thy ===== *)
theory Prelude
  imports Main "HOL-Library.Word" "HOL-Library.AList"
begin

text \<open>
  Shared vocabulary of the development: bytes, the functions of Go's standard packages
  \<open>strings\<close> and \<open>fmt\<close> that the SDK calls, and the lemmas on split keys, decimal
  numerals and association lists that every component uses. A Go \<open>string\<close> is a byte
  sequence, so it is a HOL \<open>string\<close> (a list of 8-bit characters); a Go map whose
  iteration order matters is an association list.
\<close>

named_theorems key_simps \<open>how the composed keys split at their dots\<close>

type_synonym byte = "8 word"
type_synonym bytes = "byte list"

section \<open>Splitting at a separator character: strings.Split\<close>

fun split_on :: "char \<Rightarrow> string \<Rightarrow> string list" where
  "split_on c [] = [[]]"
| "split_on c (x # xs) =
     (if x = c then [] # split_on c xs
      else (case split_on c xs of [] \<Rightarrow> [[x]] | t # ts \<Rightarrow> (x # t) # ts))"

abbreviation split_dot :: "string \<Rightarrow> string list" where
  "split_dot \<equiv> split_on (CHR ''.'')"

fun join_on :: "char \<Rightarrow> string list \<Rightarrow> string" where
  "join_on c [] = []"
| "join_on c [t] = t"
| "join_on c (t # u # ts) = t @ c # join_on c (u # ts)"

definition dot_free :: "string \<Rightarrow> bool" where
  "dot_free s \<longleftrightarrow> CHR ''.'' \<notin> set s"

lemma split_on_not_Nil [simp]: "split_on c s \<noteq> []"
  by (induction s) (auto split: list.splits)

lemma split_on_cases: obtains t ts where "split_on c s = t # ts"
  by (cases "split_on c s") auto

lemma split_on_free: "c \<notin> set s \<Longrightarrow> split_on c s = [s]"
  by (induction s) auto

lemma split_on_append: "split_on c (a @ c # b) = split_on c a @ split_on c b"
proof (induction a)
  case (Cons x a)
  then show ?case
    by (cases "split_on c a") auto
qed simp

lemma join_on_Cons: "ts \<noteq> [] \<Longrightarrow> join_on c (t # ts) = t @ c # join_on c ts"
  by (cases ts) auto

lemma join_on_snoc: "ts \<noteq> [] \<Longrightarrow> join_on c (ts @ [t]) = join_on c ts @ c # t"
proof (induction ts)
  case (Cons u ts)
  then show ?case by (cases "ts = []") (auto simp: join_on_Cons)
qed simp

lemma join_split [simp]: "join_on c (split_on c s) = s"
proof (induction s)
  case (Cons x s)
  obtain t ts where st: "split_on c s = t # ts" by (rule split_on_cases)
  with Cons show ?case
    by (cases ts) (auto simp: join_on_Cons)
qed simp

lemma split_on_inject [simp]: "split_on c a = split_on c b \<longleftrightarrow> a = b"
  by (metis join_split)

lemma split_on_token_free: "t \<in> set (split_on c s) \<Longrightarrow> c \<notin> set t"
  by (induction s arbitrary: t) (auto split: if_splits list.splits)

lemma split_join: "ts \<noteq> [] \<Longrightarrow> \<forall>t\<in>set ts. c \<notin> set t \<Longrightarrow> split_on c (join_on c ts) = ts"
  by (induction c ts rule: join_on.induct) (auto simp: split_on_append split_on_free)

lemma dot_free_Nil [simp]: "dot_free []"
  by (simp add: dot_free_def)

lemma dot_free_append [simp]: "dot_free (a @ b) \<longleftrightarrow> dot_free a \<and> dot_free b"
  by (auto simp: dot_free_def)

lemma split_dot_free [key_simps]: "dot_free s \<Longrightarrow> split_dot s = [s]"
  by (simp add: dot_free_def split_on_free)

lemma split_dot_last_free: "dot_free (last (split_dot s))"
  by (metis dot_free_def last_in_set split_on_not_Nil split_on_token_free)

lemma split_dot_append [key_simps]:
  "split_dot (a @ CHR ''.'' # b) = split_dot a @ split_dot b"
  by (rule split_on_append)

lemma join_split_append:
  assumes "split_dot k = split_dot p @ rest" and "rest \<noteq> []"
  shows "k = p @ CHR ''.'' # join_on (CHR ''.'') rest"
proof -
  have "\<forall>t\<in>set rest. CHR ''.'' \<notin> set t"
    using assms(1) split_on_token_free by (metis Un_iff set_append)
  with assms(2) have "split_dot (join_on (CHR ''.'') rest) = rest"
    by (intro split_join) auto
  with assms(1) have "split_dot k = split_dot (p @ CHR ''.'' # join_on (CHR ''.'') rest)"
    by (simp add: split_dot_append)
  then show ?thesis by simp
qed

lemma split_last_append: "last (split_on c (a @ c # b)) = last (split_on c b)"
  by (simp add: split_on_append)

section \<open>Other functions of package strings\<close>

definition has_prefix :: "string \<Rightarrow> string \<Rightarrow> bool" where
  "has_prefix s p \<longleftrightarrow> take (length p) s = p"

definition trim_prefix :: "string \<Rightarrow> string \<Rightarrow> string" where
  "trim_prefix s p = (if has_prefix s p then drop (length p) s else s)"

text \<open>\<open>strings.Split\<close>, \<open>strings.Count\<close>, \<open>strings.Replace(s, old, new, 1)\<close>
  and \<open>strings.ReplaceAll\<close> for a non-empty separator.\<close>

function split_str :: "string \<Rightarrow> string \<Rightarrow> string list" where
  "split_str sep s =
     (if sep = [] \<or> s = [] then [s]
      else if has_prefix s sep then [] # split_str sep (drop (length sep) s)
      else (case split_str sep (tl s) of [] \<Rightarrow> [[hd s]] | t # ts \<Rightarrow> (hd s # t) # ts))"
  by pat_completeness auto
termination
  by (relation "measure (\<lambda>(sep, s). length s)") auto

declare split_str.simps [simp del]

definition count_str :: "string \<Rightarrow> string \<Rightarrow> nat" where
  "count_str s sep = length (split_str sep s) - 1"

fun replace_first :: "string \<Rightarrow> string \<Rightarrow> string \<Rightarrow> string" where
  "replace_first [] old new = (if old = [] then new else [])"
| "replace_first (x # xs) old new =
     (if has_prefix (x # xs) old then new @ drop (length old) (x # xs)
      else x # replace_first xs old new)"

fun intersperse_str :: "string \<Rightarrow> string list \<Rightarrow> string" where
  "intersperse_str new [] = []"
| "intersperse_str new [t] = t"
| "intersperse_str new (t # u # ts) = t @ new @ intersperse_str new (u # ts)"

definition replace_all :: "string \<Rightarrow> string \<Rightarrow> string \<Rightarrow> string" where
  "replace_all s old new = intersperse_str new (split_str old s)"

lemma has_prefix_append [simp]: "has_prefix (p @ s) p"
  by (simp add: has_prefix_def)

lemma has_prefix_Nil [simp]: "has_prefix s []"
  by (simp add: has_prefix_def)

lemma trim_prefix_append [simp]: "trim_prefix (p @ s) p = s"
  by (simp add: trim_prefix_def)

lemma has_prefixD: "has_prefix s p \<Longrightarrow> s = p @ drop (length p) s"
  by (metis append_take_drop_id has_prefix_def)

lemma replace_first_prefix [simp]: "p \<noteq> [] \<Longrightarrow> replace_first (p @ s) p new = new @ s"
  by (cases p) (auto simp: has_prefix_def)

section \<open>Decimal numerals: the verb d of fmt.Sprintf\<close>

definition dec_digit :: "nat \<Rightarrow> char" where
  "dec_digit d = char_of (48 + d)"

fun dec_nat :: "nat \<Rightarrow> string" where
  "dec_nat n = (if n < 10 then [dec_digit n] else dec_nat (n div 10) @ [dec_digit (n mod 10)])"

declare dec_nat.simps [simp del]

definition sprintf_d :: "int \<Rightarrow> string" where
  "sprintf_d i = (if i < 0 then CHR ''-'' # dec_nat (nat (- i)) else dec_nat (nat i))"

definition dec_value :: "string \<Rightarrow> nat" where
  "dec_value s = foldl (\<lambda>a c. 10 * a + (of_char c - 48)) 0 s"

lemma of_char_dec_digit: "d < 10 \<Longrightarrow> (of_char (dec_digit d) :: nat) = 48 + d"
  by (simp add: dec_digit_def)

lemma dec_value_dec_nat: "dec_value (dec_nat n) = n"
proof (induction n rule: dec_nat.induct)
  case (1 n)
  show ?case
  proof (cases "n < 10")
    case True
    then show ?thesis
      by (subst dec_nat.simps) (simp add: dec_value_def of_char_dec_digit)
  next
    case False
    with 1 have "dec_value (dec_nat (n div 10)) = n div 10" by simp
    with False show ?thesis
      by (subst dec_nat.simps) (simp add: dec_value_def of_char_dec_digit)
  qed
qed

lemma dec_nat_inject [simp]: "dec_nat m = dec_nat n \<longleftrightarrow> m = n"
  by (metis dec_value_dec_nat)

lemma dec_nat_not_Nil [simp]: "dec_nat n \<noteq> []"
  by (subst dec_nat.simps) simp

lemma dec_nat_digits: "c \<in> set (dec_nat n) \<Longrightarrow> \<exists>d<10. c = dec_digit d"
proof (induction n rule: dec_nat.induct)
  case (1 n)
  show ?case
  proof (cases "n < 10")
    case True
    with 1 show ?thesis by (subst (asm) dec_nat.simps) auto
  next
    case False
    with "1.prems" consider "c \<in> set (dec_nat (n div 10))" | "c = dec_digit (n mod 10)"
      by (subst (asm) (2) dec_nat.simps) auto
    then show ?thesis
    proof cases
      case 1
      with False "1.IH" show ?thesis by simp
    next
      case 2
      then show ?thesis by (metis mod_less_divisor zero_less_numeral)
    qed
  qed
qed

section \<open>Association lists\<close>

lemma map_of_update [simp]: "map_of (AList.update k v al) = (map_of al)(k \<mapsto> v)"
  by (rule update_conv')

lemma map_of_delete [simp]: "map_of (AList.delete k al) = (map_of al)(k := None)"
  by (rule delete_conv')

lemma map_of_SomeE: "map_of al k = Some v \<Longrightarrow> (k, v) \<in> set al"
  by (rule map_of_SomeD)

lemma map_of_eq_mem:
  "distinct (map fst al) \<Longrightarrow> map_of al k = Some v \<longleftrightarrow> (k, v) \<in> set al"
  by simp

end
