(* ===== verification/Transitions.thy ===== *)
theory Transitions
  imports Prelude
begin

text \<open>
  Reachable states of a transition system, optionally along a run whose states all satisfy an
  environment condition, and the interface \<open>invariant_system\<close>: a start predicate, a step
  relation and an invariant that the steps keep. The protocols of the SDK interpret it.
\<close>

inductive reachable_under :: "('s \<Rightarrow> bool) \<Rightarrow> ('s \<Rightarrow> bool) \<Rightarrow> ('s \<Rightarrow> 's \<Rightarrow> bool) \<Rightarrow> 's \<Rightarrow> bool"
  for env :: "'s \<Rightarrow> bool" and init :: "'s \<Rightarrow> bool" and step :: "'s \<Rightarrow> 's \<Rightarrow> bool" where
  reach_start: "init s \<Longrightarrow> reachable_under env init step s"
| reach_step: "reachable_under env init step s \<Longrightarrow> env s \<Longrightarrow> step s t \<Longrightarrow> reachable_under env init step t"

abbreviation reachable_from :: "('s \<Rightarrow> bool) \<Rightarrow> ('s \<Rightarrow> 's \<Rightarrow> bool) \<Rightarrow> 's \<Rightarrow> bool" where
  "reachable_from \<equiv> reachable_under (\<lambda>_. True)"

lemma reach_next: "reachable_from init step s \<Longrightarrow> step s t \<Longrightarrow> reachable_from init step t"
  by (rule reach_step) auto

locale invariant_system =
  fixes env :: "'s \<Rightarrow> bool" and init :: "'s \<Rightarrow> bool"
    and step :: "'s \<Rightarrow> 's \<Rightarrow> bool" and inv :: "'s \<Rightarrow> bool"
  assumes inv_init: "init s \<Longrightarrow> inv s"
    and inv_step: "inv s \<Longrightarrow> env s \<Longrightarrow> step s t \<Longrightarrow> inv t"
begin

lemma reach_inv: "reachable_under env init step s \<Longrightarrow> inv s"
  by (induction rule: reachable_under.induct) (auto intro: inv_init inv_step)

lemma reach_imp: "reachable_under env init step s \<Longrightarrow> (\<And>t. inv t \<Longrightarrow> P t) \<Longrightarrow> P s"
  by (blast intro: reach_inv)

end

end
