(* ===== verification/DimChannel.thy ===== *)
theory DimChannel
  imports Transitions "HOL-Library.Sublist"
begin

text \<open>
  \<open>CreateDimSizeChannel\<close> of \<open>statefun/system/system.go\<close>: an unbounded buffered channel
  made of an input channel, a puller goroutine that appends to a shared buffer, a pusher goroutine
  that hands the buffer's head to the output channel, and an unbuffered notifier channel on which
  an idle pusher waits. The program counters are the points where a goroutine can be interleaved
  with the other one; a critical section of the mutex is one step. \<open>sent\<close> and
  \<open>delivered\<close> record what went into and came out of the channel.
\<close>

datatype puller_pc = PRecv | PNotify | PExited
datatype 'a pusher_pc = QLock | QGap | QWait | QSend 'a | QExited

record 'a dim_channel =
  buffer :: "'a list"
  puller :: puller_pc
  pusher :: "'a pusher_pc"
  in_closed :: bool
  overflows :: nat
  sent :: "'a list"
  delivered :: "'a list"

definition CreateDimSizeChannel :: "'a dim_channel" where
  "CreateDimSizeChannel =
     \<lparr>buffer = [], puller = PRecv, pusher = QLock, in_closed = False, overflows = 0,
      sent = [], delivered = []\<rparr>"

inductive dim_step :: "nat \<Rightarrow> 'a dim_channel \<Rightarrow> 'a dim_channel \<Rightarrow> bool"
  for maxBufferElements :: nat where
  dim_send: "puller c = PRecv \<Longrightarrow> \<not> in_closed c \<Longrightarrow> b = buffer c @ [v] \<Longrightarrow>
     dim_step maxBufferElements c
       (c\<lparr>buffer := b, puller := PNotify, sent := sent c @ [v],
          overflows := (if length b > maxBufferElements then Suc (overflows c) else overflows c)\<rparr>)"
| dim_close: "\<not> in_closed c \<Longrightarrow> dim_step maxBufferElements c (c\<lparr>in_closed := True\<rparr>)"
| pull_exit: "puller c = PRecv \<Longrightarrow> in_closed c \<Longrightarrow>
     dim_step maxBufferElements c (c\<lparr>puller := PExited\<rparr>)"
| pull_notify: "puller c = PNotify \<Longrightarrow> pusher c = QWait \<Longrightarrow>
     dim_step maxBufferElements c (c\<lparr>puller := PRecv, pusher := QLock\<rparr>)"
| pull_default: "puller c = PNotify \<Longrightarrow> pusher c \<noteq> QWait \<Longrightarrow>
     dim_step maxBufferElements c (c\<lparr>puller := PRecv\<rparr>)"
| push_empty: "pusher c = QLock \<Longrightarrow> buffer c = [] \<Longrightarrow>
     dim_step maxBufferElements c (c\<lparr>pusher := QGap\<rparr>)"
| push_gap: "pusher c = QGap \<Longrightarrow> dim_step maxBufferElements c (c\<lparr>pusher := QWait\<rparr>)"
| push_take: "pusher c = QLock \<Longrightarrow> buffer c = v # vs \<Longrightarrow>
     dim_step maxBufferElements c (c\<lparr>buffer := vs, pusher := QSend v\<rparr>)"
| push_out: "pusher c = QSend v \<Longrightarrow>
     dim_step maxBufferElements c (c\<lparr>delivered := delivered c @ [v], pusher := QLock\<rparr>)"
| push_exit: "pusher c = QWait \<Longrightarrow> puller c = PExited \<Longrightarrow>
     dim_step maxBufferElements c (c\<lparr>pusher := QExited\<rparr>)"

definition dim_init :: "'a dim_channel \<Rightarrow> bool" where
  "dim_init c \<longleftrightarrow> c = CreateDimSizeChannel"

fun in_hand :: "'a pusher_pc \<Rightarrow> 'a list" where
  "in_hand (QSend v) = [v]"
| "in_hand _ = []"

definition dim_inv :: "'a dim_channel \<Rightarrow> bool" where
  "dim_inv c \<longleftrightarrow> sent c = delivered c @ in_hand (pusher c) @ buffer c"

lemma dim_step_inv: "dim_inv c \<Longrightarrow> dim_step mx c d \<Longrightarrow> dim_inv d"
  by (erule dim_step.cases) (auto simp: dim_inv_def)

lemma dim_init_inv: "dim_init c \<Longrightarrow> dim_inv c"
  by (simp add: dim_init_def CreateDimSizeChannel_def dim_inv_def)

interpretation dim: invariant_system "\<lambda>_. True" dim_init "dim_step mx" dim_inv for mx
  by unfold_locales (auto intro: dim_init_inv dim_step_inv)

section \<open>What the channel promises\<close>

text \<open>
  C20: in every interleaving of the two goroutines the channel is a queue: what came out, the value
  in the pusher's hand and the buffer are together exactly what was sent, in order. So what comes
  out is a prefix of what was sent, without gaps, duplicates or reordering. That all of it comes out
  is not claimed: an element can stay in the buffer (\<open>dim\_channel\_strands\_element\<close>).
\<close>

theorem dim_channel_fifo:
  assumes "reachable_from dim_init (dim_step mx) c"
  shows "sent c = delivered c @ in_hand (pusher c) @ buffer c"
  using dim.reach_inv[OF assms] by (simp add: dim_inv_def)

text \<open>A run of one element through the channel, and the run that strands it.\<close>

definition dim_one :: "'a \<Rightarrow> 'a pusher_pc \<Rightarrow> puller_pc \<Rightarrow> 'a list \<Rightarrow> 'a list \<Rightarrow> bool \<Rightarrow> 'a dim_channel" where
  "dim_one v q p b d cl = \<lparr>buffer = b, puller = p, pusher = q, in_closed = cl, overflows = 0,
      sent = [v], delivered = d\<rparr>"

lemma dim_reach_send:
  assumes "0 < mx"
  shows "reachable_from dim_init (dim_step mx) (dim_one v QGap PNotify [v] [] False)"
proof -
  have "reachable_from dim_init (dim_step mx) CreateDimSizeChannel"
    by (rule reach_start) (simp add: dim_init_def)
  then have "reachable_from dim_init (dim_step mx) (CreateDimSizeChannel\<lparr>pusher := QGap\<rparr>)"
    by (rule reach_next) (rule push_empty, simp_all add: CreateDimSizeChannel_def)
  moreover have "dim_step mx (CreateDimSizeChannel\<lparr>pusher := QGap\<rparr>) (dim_one v QGap PNotify [v] [] False)"
    using dim_send[of "CreateDimSizeChannel\<lparr>pusher := QGap\<rparr>" "[v]" v mx] assms
    by (simp add: CreateDimSizeChannel_def dim_one_def)
  ultimately show ?thesis by (rule reach_next)
qed

lemma dim_reach_delivered:
  assumes "0 < mx"
  shows "reachable_from dim_init (dim_step mx) (dim_one v QLock PRecv [] [v] False)"
proof -
  from dim_reach_send[OF assms]
  have "reachable_from dim_init (dim_step mx) (dim_one v QWait PNotify [v] [] False)"
    by (rule reach_next) (use push_gap[of "dim_one v QGap PNotify [v] [] False" mx] in \<open>simp add: dim_one_def\<close>)
  then have "reachable_from dim_init (dim_step mx) (dim_one v QLock PRecv [v] [] False)"
    by (rule reach_next) (use pull_notify[of "dim_one v QWait PNotify [v] [] False" mx] in \<open>simp add: dim_one_def\<close>)
  then have "reachable_from dim_init (dim_step mx) (dim_one v (QSend v) PRecv [] [] False)"
    by (rule reach_next) (use push_take[of "dim_one v QLock PRecv [v] [] False" v "[]" mx] in \<open>simp add: dim_one_def\<close>)
  then show ?thesis
    by (rule reach_next) (use push_out[of "dim_one v (QSend v) PRecv [] [] False" v mx] in \<open>simp add: dim_one_def\<close>)
qed

theorem dim_channel_fifo_witness:
  "sent (dim_one (7::nat) QLock PRecv [] [7] False) = [7::nat] @ in_hand QLock @ []"
  using dim_channel_fifo[OF dim_reach_delivered[of 1 "7::nat"]] by (simp add: dim_one_def)

text \<open>
  An element can be lost. The notification is dropped when the puller signals between the pusher's emptiness test and its
  wait; closing the input channel then ends the pusher with the element still in the buffer.
\<close>

lemma dim_channel_strands_element:
  assumes "0 < mx"
  shows "reachable_from dim_init (dim_step mx) (dim_one v QExited PExited [v] [] True)"
proof -
  from dim_reach_send[OF assms]
  have "reachable_from dim_init (dim_step mx) (dim_one v QGap PRecv [v] [] False)"
    by (rule reach_next) (use pull_default[of "dim_one v QGap PNotify [v] [] False" mx] in \<open>simp add: dim_one_def\<close>)
  then have "reachable_from dim_init (dim_step mx) (dim_one v QWait PRecv [v] [] False)"
    by (rule reach_next) (use push_gap[of "dim_one v QGap PRecv [v] [] False" mx] in \<open>simp add: dim_one_def\<close>)
  then have "reachable_from dim_init (dim_step mx) (dim_one v QWait PRecv [v] [] True)"
    by (rule reach_next) (use dim_close[of "dim_one v QWait PRecv [v] [] False" mx] in \<open>simp add: dim_one_def\<close>)
  then have "reachable_from dim_init (dim_step mx) (dim_one v QWait PExited [v] [] True)"
    by (rule reach_next) (use pull_exit[of "dim_one v QWait PRecv [v] [] True" mx] in \<open>simp add: dim_one_def\<close>)
  then show ?thesis
    by (rule reach_next) (use push_exit[of "dim_one v QWait PExited [v] [] True" mx] in \<open>simp add: dim_one_def\<close>)
qed

lemma dim_channel_strands_element_witness:
  "\<exists>c. reachable_from dim_init (dim_step 1) c \<and> pusher c = QExited \<and> buffer c = [7::nat] \<and> delivered c = []"
  using dim_channel_strands_element[of 1 "7::nat"]
  by (intro exI[of _ "dim_one 7 QExited PExited [7] [] True"]) (simp add: dim_one_def)

section \<open>An open channel and its reader\<close>

text \<open>
  The channel while it is fed with the values \<open>xs\<close> and not closed. It is stranded when a
  value is in the buffer, the puller has given up notifying and the pusher goes to its wait: then
  only another send moves it.
\<close>

definition dim_open :: "'a list \<Rightarrow> 'a dim_channel \<Rightarrow> bool" where
  "dim_open xs c \<longleftrightarrow> dim_inv c \<and> prefix (sent c) xs \<and> \<not> in_closed c \<and> puller c \<noteq> PExited \<and> pusher c \<noteq> QExited"

definition dim_feed :: "nat \<Rightarrow> 'a list \<Rightarrow> 'a dim_channel \<Rightarrow> 'a dim_channel \<Rightarrow> bool" where
  "dim_feed mx xs c d \<longleftrightarrow> dim_step mx c d \<and> delivered d = delivered c \<and> \<not> in_closed d \<and> prefix (sent d) xs"

definition dim_stranded :: "'a dim_channel \<Rightarrow> bool" where
  "dim_stranded c \<longleftrightarrow> buffer c \<noteq> [] \<and> puller c = PRecv \<and> (pusher c = QGap \<or> pusher c = QWait)"

definition dim_read :: "'a \<Rightarrow> 'a dim_channel \<Rightarrow> 'a dim_channel" where
  "dim_read v c = c\<lparr>delivered := delivered c @ [v], pusher := QLock\<rparr>"

lemma dim_open_start [simp]: "dim_open xs CreateDimSizeChannel"
  by (simp add: dim_open_def CreateDimSizeChannel_def dim_inv_def)

lemma dim_open_mono: "dim_open xs c \<Longrightarrow> prefix xs ys \<Longrightarrow> dim_open ys c"
  unfolding dim_open_def by (blast intro: prefix_order.trans)

lemma dim_feed_open:
  assumes "dim_open xs c" and "dim_feed mx xs c d"
  shows "dim_open xs d"
proof -
  have "dim_step mx c d" "\<not> in_closed d" "prefix (sent d) xs" using assms(2) by (simp_all add: dim_feed_def)
  moreover have "dim_inv d" using dim_step_inv[of c mx d] assms(1) calculation(1) by (simp add: dim_open_def)
  moreover have "puller d \<noteq> PExited \<and> pusher d \<noteq> QExited"
    using calculation(1) assms(1) by cases (auto simp: dim_open_def)
  ultimately show ?thesis by (simp add: dim_open_def)
qed

lemma dim_in_hand:
  assumes "dim_open xs c" and "pusher c = QSend v"
  shows "length (delivered c) < length xs" and "v = xs ! length (delivered c)" and "dim_open xs (dim_read v c)"
proof -
  have s1: "sent c = delivered c @ v # buffer c" using assms by (simp add: dim_open_def dim_inv_def)
  have s2: "prefix (sent c) xs" using assms(1) by (simp add: dim_open_def)
  note s = s1 s2
  from s2 s1 obtain zs where "xs = delivered c @ v # buffer c @ zs" by (auto simp: prefix_def)
  then show "length (delivered c) < length xs" "v = xs ! length (delivered c)" by simp_all
  have "dim_inv (dim_read v c)" using s(1) by (simp add: dim_inv_def dim_read_def)
  moreover have "prefix (sent (dim_read v c)) xs" using s(2) by (simp add: dim_read_def)
  ultimately show "dim_open xs (dim_read v c)" using assms(1) by (simp add: dim_open_def) (simp add: dim_read_def)
qed

lemma dim_send_next:
  assumes "dim_open xs c" and "puller c = PRecv" and "sent c \<noteq> xs"
  shows "\<exists>d. dim_feed mx xs c d \<and> puller d = PNotify \<and> pusher d = pusher c \<and> buffer d \<noteq> []"
proof -
  obtain zs where "xs = sent c @ zs" "zs \<noteq> []" using assms(1,3) by (auto simp: dim_open_def prefix_def)
  then obtain v zs' where x: "xs = sent c @ v # zs'" by (cases zs) auto
  let ?d = "c\<lparr>buffer := buffer c @ [v], puller := PNotify, sent := sent c @ [v],
    overflows := (if length (buffer c @ [v]) > mx then Suc (overflows c) else overflows c)\<rparr>"
  have "dim_step mx c ?d" using assms(1,2) by (intro dim_send) (simp_all add: dim_open_def)
  moreover have "\<not> in_closed c" using assms(1) by (simp add: dim_open_def)
  ultimately have "dim_feed mx xs c ?d" unfolding dim_feed_def by (simp add: x)
  then show ?thesis by (intro exI[of _ ?d]) simp
qed

lemma dim_moves:
  assumes "dim_open xs c"
  shows "pusher c = QLock \<Longrightarrow> buffer c = v # vs \<Longrightarrow> dim_feed mx xs c (c\<lparr>buffer := vs, pusher := QSend v\<rparr>)"
    and "pusher c = QGap \<Longrightarrow> dim_feed mx xs c (c\<lparr>pusher := QWait\<rparr>)"
    and "puller c = PNotify \<Longrightarrow> pusher c = QWait \<Longrightarrow> dim_feed mx xs c (c\<lparr>puller := PRecv, pusher := QLock\<rparr>)"
    and "puller c = PNotify \<Longrightarrow> pusher c \<noteq> QWait \<Longrightarrow> dim_feed mx xs c (c\<lparr>puller := PRecv\<rparr>)"
  using assms by (auto simp: dim_feed_def dim_open_def intro: push_take push_gap pull_notify pull_default)

abbreviation dim_feeds :: "nat \<Rightarrow> 'a list \<Rightarrow> 'a dim_channel \<Rightarrow> 'a dim_channel \<Rightarrow> bool" where
  "dim_feeds mx xs \<equiv> (dim_feed mx xs)\<^sup>*\<^sup>*"

definition dim_can_hand :: "nat \<Rightarrow> 'a list \<Rightarrow> 'a dim_channel \<Rightarrow> bool" where
  "dim_can_hand mx xs c \<longleftrightarrow> (\<exists>d v. dim_feeds mx xs c d \<and> pusher d = QSend v)"

lemma dim_can_hand_step: "dim_feed mx xs c d \<Longrightarrow> dim_can_hand mx xs d \<Longrightarrow> dim_can_hand mx xs c"
  unfolding dim_can_hand_def by (meson converse_rtranclp_into_rtranclp)

lemma dim_hand_locked:
  assumes o: "dim_open xs c" and q: "pusher c = QLock" and rest: "length (delivered c) < length xs"
  shows "dim_can_hand mx xs c"
proof -
  have take: "dim_can_hand mx xs d" if "dim_open xs d" "pusher d = QLock" "buffer d \<noteq> []" for d
  proof -
    obtain v vs where b: "buffer d = v # vs" using \<open>buffer d \<noteq> []\<close> by (cases "buffer d") auto
    from dim_moves(1)[OF that(1,2) b] show ?thesis
      by (rule dim_can_hand_step) (auto simp: dim_can_hand_def)
  qed
  have recv: "dim_can_hand mx xs d"
    if d: "dim_open xs d" "pusher d = QLock" "buffer d = []" "puller d = PRecv" "delivered d = delivered c" for d
  proof -
    have "sent d \<noteq> xs" using d rest by (auto simp: dim_open_def dim_inv_def)
    from dim_send_next[OF d(1,4) this] obtain e where e: "dim_feed mx xs d e" "pusher e = QLock" "buffer e \<noteq> []"
      using d(2) by auto
    from e(1) take[OF dim_feed_open[OF d(1) e(1)] e(2,3)] show ?thesis by (rule dim_can_hand_step)
  qed
  show ?thesis
  proof (cases "buffer c = []")
    case True
    show ?thesis
    proof (cases "puller c")
      case PNotify
      have s: "dim_feed mx xs c (c\<lparr>puller := PRecv\<rparr>)" using PNotify q by (intro dim_moves(4)[OF o]) simp_all
      from recv[OF dim_feed_open[OF o s]] True q have "dim_can_hand mx xs (c\<lparr>puller := PRecv\<rparr>)" by simp
      with s show ?thesis by (rule dim_can_hand_step)
    qed (use o True q recv in \<open>auto simp: dim_open_def\<close>)
  qed (use take[OF o q] in simp)
qed

text \<open>Unless it is stranded with everything sent, the channel can hand over its next value.\<close>

lemma dim_hand_over:
  assumes o: "dim_open xs c" and rest: "length (delivered c) < length xs"
    and live: "sent c = xs \<Longrightarrow> \<not> dim_stranded c"
  shows "dim_can_hand mx xs c"
proof -
  have wake: "dim_can_hand mx xs d"
    if d: "dim_open xs d" "puller d = PNotify" "pusher d = QWait" "delivered d = delivered c" for d
  proof -
    from dim_moves(3)[OF d(1-3)] have s: "dim_feed mx xs d (d\<lparr>puller := PRecv, pusher := QLock\<rparr>)" .
    from dim_hand_locked[OF dim_feed_open[OF d(1) s], of mx] rest d(4)
    have "dim_can_hand mx xs (d\<lparr>puller := PRecv, pusher := QLock\<rparr>)" by simp
    with s show ?thesis by (rule dim_can_hand_step)
  qed
  have waiting: "dim_can_hand mx xs d"
    if d: "dim_open xs d" "pusher d = QWait" "delivered d = delivered c" "sent d = sent c" "puller d = puller c"
      "buffer d = buffer c" "pusher c = QGap \<or> pusher c = QWait" for d
  proof (cases "puller d")
    case PRecv
    have "sent d \<noteq> xs"
    proof
      assume "sent d = xs"
      with live d PRecv have "buffer d = []" by (auto simp: dim_stranded_def)
      with d rest \<open>sent d = xs\<close> show False by (auto simp: dim_open_def dim_inv_def)
    qed
    from dim_send_next[OF d(1) PRecv this] d(2) obtain e where e: "dim_feed mx xs d e" "puller e = PNotify" "pusher e = QWait"
      by auto
    moreover have "delivered e = delivered c" using e(1) d(3) by (simp add: dim_feed_def)
    ultimately show ?thesis using wake[OF dim_feed_open[OF d(1) e(1)]] dim_can_hand_step by blast
  next
    case PNotify
    then show ?thesis using wake d by simp
  qed (use d in \<open>auto simp: dim_open_def\<close>)
  show ?thesis
  proof (cases "pusher c")
    case QLock
    then show ?thesis using dim_hand_locked o rest by blast
  next
    case QGap
    note s = dim_moves(2)[OF o QGap, of mx]
    from waiting[OF dim_feed_open[OF o s]] QGap have "dim_can_hand mx xs (c\<lparr>pusher := QWait\<rparr>)" by simp
    with s show ?thesis by (rule dim_can_hand_step)
  next
    case QWait
    then show ?thesis using waiting[OF o] by simp
  next
    case (QSend v)
    then show ?thesis by (auto simp: dim_can_hand_def)
  qed (use o in \<open>auto simp: dim_open_def\<close>)
qed

lemma dim_feeds_open:
  "dim_feeds mx xs c d \<Longrightarrow> dim_open xs c \<Longrightarrow> dim_open xs d \<and> delivered d = delivered c"
proof (induction rule: rtranclp_induct)
  case (step d e)
  then show ?case using dim_feed_open by (metis dim_feed_def)
qed simp

lemma dim_start_strands:
  "\<exists>c. dim_feeds mx [v] CreateDimSizeChannel c \<and> dim_stranded c \<and> sent c = [v]"
proof -
  let ?c1 = "CreateDimSizeChannel\<lparr>pusher := QGap\<rparr> :: 'a dim_channel"
  have s1: "dim_feed mx [v] CreateDimSizeChannel ?c1"
    using push_empty[of "CreateDimSizeChannel :: 'a dim_channel" mx] by (simp add: dim_feed_def CreateDimSizeChannel_def)
  note o1 = dim_feed_open[OF dim_open_start s1]
  obtain d where d: "dim_feed mx [v] ?c1 d" "puller d = PNotify" "pusher d = QGap" "buffer d \<noteq> []"
    using dim_send_next[OF o1, of mx] by (auto simp: CreateDimSizeChannel_def)
  note o2 = dim_feed_open[OF o1 d(1)]
  have s3: "dim_feed mx [v] d (d\<lparr>puller := PRecv\<rparr>)" using d(2,3) by (intro dim_moves(4)[OF o2]) simp_all
  have "sent d = delivered d @ buffer d" using o2 d(3) by (simp add: dim_open_def dim_inv_def)
  moreover have "prefix (sent d) [v]" using o2 by (simp add: dim_open_def)
  ultimately have "sent d = [v]" using d(4) by (auto simp: prefix_Cons)
  with d s1 s3 show ?thesis
    by (intro exI[of _ "d\<lparr>puller := PRecv\<rparr>"]) (auto simp: dim_stranded_def intro: rtranclp.rtrancl_into_rtrancl)
qed

lemma dim_stranded_stays:
  "dim_stranded c \<Longrightarrow> dim_step mx c d \<Longrightarrow> sent d = sent c \<Longrightarrow> \<not> in_closed d \<Longrightarrow> dim_stranded d \<and> delivered d = delivered c"
  by (erule dim_step.cases) (auto simp: dim_stranded_def)

end
