(* ===== verification/LocalKeyMutex.thy ===== *)
theory LocalKeyMutex
  imports Transitions
begin

text \<open>
  \<open>KeyMutex\<close> of \<open>statefun/system/system.go\<close>: one mutex per key, kept in a concurrent map
  from the key to a \<open>sync.Mutex\<close>. \<open>Lock\<close> publishes a fresh mutex of its own
  (\<open>LoadOrStore\<close>), locks whichever mutex the map holds, and is done when that is its own;
  otherwise it unlocks and tries again. \<open>Unlock\<close> removes the key from the map and unlocks
  the mutex it found there. A goroutine is a number, a mutex the number it was allocated with;
  operations on the concurrent map and on a mutex are atomic steps. Goroutines call
  \<open>Unlock\<close> after a \<open>Lock\<close> of the same key that returned, as \<open>sendMsg\<close> and
  \<open>gc\<close> do.
\<close>

datatype 'k km_pc =
  KIdle
| KWant 'k
| KBlocked 'k nat nat
| KTook 'k nat
| KHolding 'k
| KUnlocking 'k nat

record 'k key_mutex =
  km_map :: "'k \<rightharpoonup> nat"
  km_locked :: "nat set"
  km_next :: nat
  km_pcs :: "nat \<Rightarrow> 'k km_pc"

definition NewKeyMutex :: "'k key_mutex" where
  "NewKeyMutex = \<lparr>km_map = Map.empty, km_locked = {}, km_next = 0, km_pcs = (\<lambda>_. KIdle)\<rparr>"

definition km_goto :: "nat \<Rightarrow> 'k km_pc \<Rightarrow> 'k key_mutex \<Rightarrow> 'k key_mutex" where
  "km_goto g pc s = s\<lparr>km_pcs := (km_pcs s)(g := pc)\<rparr>"

inductive km_step :: "'k key_mutex \<Rightarrow> 'k key_mutex \<Rightarrow> bool" where
  km_lock: "km_pcs s g = KIdle \<Longrightarrow> km_step s (km_goto g (KWant k) s)"
| km_store: "km_pcs s g = KWant k \<Longrightarrow> km_map s k = None \<Longrightarrow> m = km_next s \<Longrightarrow>
     km_step s (km_goto g (KBlocked k m m) (s\<lparr>km_map := (km_map s)(k \<mapsto> m), km_next := Suc m\<rparr>))"
| km_load: "km_pcs s g = KWant k \<Longrightarrow> km_map s k = Some mm \<Longrightarrow> m = km_next s \<Longrightarrow>
     km_step s (km_goto g (KBlocked k m mm) (s\<lparr>km_next := Suc m\<rparr>))"
| km_acquire_own: "km_pcs s g = KBlocked k m mm \<Longrightarrow> mm \<notin> km_locked s \<Longrightarrow> mm = m \<Longrightarrow>
     km_step s (km_goto g (KHolding k) (s\<lparr>km_locked := insert mm (km_locked s)\<rparr>))"
| km_acquire_other: "km_pcs s g = KBlocked k m mm \<Longrightarrow> mm \<notin> km_locked s \<Longrightarrow> mm \<noteq> m \<Longrightarrow>
     km_step s (km_goto g (KTook k mm) (s\<lparr>km_locked := insert mm (km_locked s)\<rparr>))"
| km_retry: "km_pcs s g = KTook k mm \<Longrightarrow>
     km_step s (km_goto g (KWant k) (s\<lparr>km_locked := km_locked s - {mm}\<rparr>))"
| km_unlock_delete: "km_pcs s g = KHolding k \<Longrightarrow> km_map s k = Some l \<Longrightarrow>
     km_step s (km_goto g (KUnlocking k l) (s\<lparr>km_map := (km_map s)(k := None)\<rparr>))"
| km_unlock: "km_pcs s g = KUnlocking k l \<Longrightarrow>
     km_step s (km_goto g KIdle (s\<lparr>km_locked := km_locked s - {l}\<rparr>))"

text \<open>A goroutine owns the key's map entry from its own store to its own delete.\<close>

fun owns :: "'k km_pc \<Rightarrow> 'k \<Rightarrow> bool" where
  "owns (KBlocked k m mm) k' \<longleftrightarrow> k = k' \<and> m = mm"
| "owns (KHolding k) k' \<longleftrightarrow> k = k'"
| "owns _ _ \<longleftrightarrow> False"

text \<open>
  The invariant: the map's entry for a key is present exactly when some goroutine owns it, and
  only one does; mutexes that exist were allocated; a blocked owner waits for the entry's mutex,
  and the mutex any other goroutine waits for is not its own.
\<close>

definition km_inv :: "'k key_mutex \<Rightarrow> bool" where
  "km_inv s \<longleftrightarrow>
     (\<forall>g h k. owns (km_pcs s g) k \<longrightarrow> owns (km_pcs s h) k \<longrightarrow> g = h) \<and>
     (\<forall>g k. owns (km_pcs s g) k \<longrightarrow> km_map s k \<noteq> None) \<and>
     (\<forall>k m. km_map s k = Some m \<longrightarrow> m < km_next s) \<and>
     (\<forall>g k m mm. km_pcs s g = KBlocked k m mm \<longrightarrow> mm < km_next s)"

definition km_init :: "'k key_mutex \<Rightarrow> bool" where
  "km_init s \<longleftrightarrow> s = NewKeyMutex"

lemma km_init_inv: "km_init s \<Longrightarrow> km_inv s"
  by (simp add: km_init_def NewKeyMutex_def km_inv_def)

lemma km_invD:
  assumes "km_inv s"
  shows "owns (km_pcs s g) k \<Longrightarrow> owns (km_pcs s h) k \<Longrightarrow> g = h"
    and "owns (km_pcs s g) k \<Longrightarrow> km_map s k \<noteq> None"
    and "km_map s k = Some m \<Longrightarrow> m < km_next s"
    and "km_pcs s g = KBlocked k m mm \<Longrightarrow> mm < km_next s"
  using assms unfolding km_inv_def by blast+

lemma km_inv_goto:
  assumes "km_inv s" and "\<And>k. owns pc k \<Longrightarrow> owns (km_pcs s g) k"
    and "\<And>k m mm. pc = KBlocked k m mm \<Longrightarrow> mm < n" and "km_next s \<le> n"
  shows "km_inv (km_goto g pc (s\<lparr>km_locked := L, km_next := n\<rparr>))"
  unfolding km_inv_def km_goto_def
  using assms(2-4) km_invD[OF assms(1)]
  by (auto split: if_splits dest: order.strict_trans2[OF km_invD(3)[OF assms(1)]]
      order.strict_trans2[OF km_invD(4)[OF assms(1)]]) blast+

lemma km_step_inv: "km_inv s \<Longrightarrow> km_step s t \<Longrightarrow> km_inv t"
proof (erule km_step.cases)
  fix s' :: "'a key_mutex" and g k
  assume "km_inv s" "s = s'" "t = km_goto g (KWant k) s'"
  then show "km_inv t"
    using km_inv_goto[of s "KWant k" g "km_next s" "km_locked s"] by simp
next
  fix s' :: "'a key_mutex" and g k m
  assume *: "km_inv s" "s = s'" "t = km_goto g (KBlocked k m m) (s'\<lparr>km_map := (km_map s')(k \<mapsto> m), km_next := Suc m\<rparr>)"
    "km_pcs s' g = KWant k" "km_map s' k = None" "m = km_next s'"
  then have "\<not> owns (km_pcs s h) k" for h using km_invD(2) by metis
  with * km_invD[OF *(1)] show "km_inv t"
    unfolding km_inv_def km_goto_def by (auto simp: less_Suc_eq split: if_splits)
next
  fix s' :: "'a key_mutex" and g k mm m
  assume *: "km_inv s" "s = s'" "t = km_goto g (KBlocked k m mm) (s'\<lparr>km_next := Suc m\<rparr>)"
    "km_map s' k = Some mm" "m = km_next s'"
  then have "mm < km_next s" using km_invD(3) by metis
  with * show "km_inv t"
    using km_inv_goto[of s "KBlocked k m mm" g "Suc (km_next s)" "km_locked s"] by simp
next
  fix s' :: "'a key_mutex" and g k m mm
  assume "km_inv s" "s = s'" "t = km_goto g (KHolding k) (s'\<lparr>km_locked := insert mm (km_locked s')\<rparr>)"
    "km_pcs s' g = KBlocked k m mm" "mm = m"
  then show "km_inv t"
    using km_inv_goto[of s "KHolding k" g "km_next s" "insert mm (km_locked s)"] by simp
next
  fix s' :: "'a key_mutex" and g k m mm
  assume "km_inv s" "s = s'" "t = km_goto g (KTook k mm) (s'\<lparr>km_locked := insert mm (km_locked s')\<rparr>)"
  then show "km_inv t"
    using km_inv_goto[of s "KTook k mm" g "km_next s" "insert mm (km_locked s)"] by simp
next
  fix s' :: "'a key_mutex" and g k mm
  assume "km_inv s" "s = s'" "t = km_goto g (KWant k) (s'\<lparr>km_locked := km_locked s' - {mm}\<rparr>)"
  then show "km_inv t"
    using km_inv_goto[of s "KWant k" g "km_next s" "km_locked s - {mm}"] by simp
next
  fix s' :: "'a key_mutex" and g k l
  assume *: "km_inv s" "s = s'" "t = km_goto g (KUnlocking k l) (s'\<lparr>km_map := (km_map s')(k := None)\<rparr>)"
    "km_pcs s' g = KHolding k"
  then have "owns (km_pcs s h) k \<Longrightarrow> h = g" for h using km_invD(1)[OF *(1), of h k g] by simp
  with * km_invD[OF *(1)] show "km_inv t"
    unfolding km_inv_def km_goto_def by (auto split: if_splits)
next
  fix s' :: "'a key_mutex" and g k l
  assume "km_inv s" "s = s'" "t = km_goto g KIdle (s'\<lparr>km_locked := km_locked s' - {l}\<rparr>)"
  then show "km_inv t"
    using km_inv_goto[of s KIdle g "km_next s" "km_locked s - {l}"] by simp
qed

interpretation km: invariant_system "\<lambda>_. True" km_init km_step km_inv
  by unfold_locales (auto intro: km_init_inv km_step_inv)

text \<open>
  C19: two goroutines never hold the mutex of the same key at the same time, whatever the
  interleaving of \<open>Lock\<close>, its retries and \<open>Unlock\<close>.
\<close>

theorem key_mutex_exclusive:
  assumes "reachable_from km_init km_step s"
    and "km_pcs s g = KHolding k" and "km_pcs s h = KHolding k"
  shows "g = h"
  using km_invD(1)[OF km.reach_inv[OF assms(1)], of g k h] assms(2,3) by simp

text \<open>A run in which goroutine 4 holds the key \<open>k\<close>.\<close>

lemma km_reach_holding:
  "\<exists>s. reachable_from km_init km_step s \<and> km_pcs s 4 = KHolding k"
proof -
  let ?s0 = "NewKeyMutex :: 'a key_mutex"
  let ?s1 = "km_goto 4 (KWant k) ?s0"
  let ?s2 = "km_goto 4 (KBlocked k 0 0) (?s1\<lparr>km_map := (km_map ?s1)(k \<mapsto> 0), km_next := Suc 0\<rparr>)"
  let ?s3 = "km_goto 4 (KHolding k) (?s2\<lparr>km_locked := insert 0 (km_locked ?s2)\<rparr>)"
  have "reachable_from km_init km_step ?s0"
    by (rule reach_start) (simp add: km_init_def)
  moreover have "km_step ?s0 ?s1"
    by (rule km_lock) (simp add: NewKeyMutex_def)
  moreover have "km_step ?s1 ?s2"
    by (rule km_store) (simp_all add: NewKeyMutex_def km_goto_def)
  moreover have "km_step ?s2 ?s3"
    by (rule km_acquire_own) (simp_all add: NewKeyMutex_def km_goto_def)
  ultimately have "reachable_from km_init km_step ?s3"
    by (rule reach_next[OF reach_next[OF reach_next]])
  then show ?thesis
    by (intro exI[of _ ?s3]) (simp add: km_goto_def)
qed

theorem key_mutex_exclusive_witness:
  "\<exists>s. reachable_from km_init km_step s \<and> km_pcs s 4 = KHolding ''id'' \<and>
     (\<forall>h. km_pcs s h = KHolding ''id'' \<longrightarrow> h = 4)"
proof -
  obtain s :: "string key_mutex" where s: "reachable_from km_init km_step s" "km_pcs s 4 = KHolding ''id''"
    using km_reach_holding[of "''id''"] by (elim exE conjE)
  have "\<forall>h. km_pcs s h = KHolding ''id'' \<longrightarrow> h = 4"
    by (intro allI impI) (rule key_mutex_exclusive[OF s(1) _ s(2)])
  with s show ?thesis by blast
qed

end
