(* ===== verification/SystemUtils.thy ===== *)
theory SystemUtils
  imports Prelude
begin

text \<open>
  The shared helpers of \<open>statefun/system/system.go\<close>: the byte encodings of int64 that
  the key/value records and mutexes use, and the union and intersection of string maps. Also
  the counter of running goroutines of \<open>statefun/system/prometrics.go\<close>.
  \<open>int64\<close> is a 64-bit word read with \<open>sint\<close>.
\<close>

unbundle bit_operations_syntax

section \<open>Fixed-width encodings\<close>

type_synonym i64 = "64 word"

fun le_put :: "nat \<Rightarrow> i64 \<Rightarrow> bytes" where
  "le_put 0 w = []"
| "le_put (Suc n) w = ucast w # le_put n (drop_bit 8 w)"

fun le_get :: "bytes \<Rightarrow> i64" where
  "le_get [] = 0"
| "le_get (b # bs) = ucast b OR push_bit 8 (le_get bs)"

text \<open>\<open>binary.LittleEndian.PutUint64(b, uint64(v))\<close> on eight fresh bytes.\<close>

definition Int64ToBytes :: "i64 \<Rightarrow> bytes" where
  "Int64ToBytes v = le_put 8 v"

definition BytesToInt64 :: "bytes \<Rightarrow> i64" where
  "BytesToInt64 v = (if length v < 8 then 0 else le_get (take 8 v))"

text \<open>The big-endian header of a key/value record (\<open>binary.BigEndian\<close>).\<close>

definition be_put64 :: "i64 \<Rightarrow> bytes" where
  "be_put64 v = rev (le_put 8 v)"

definition be_get64 :: "bytes \<Rightarrow> i64" where
  "be_get64 bs = le_get (rev (take 8 bs))"

lemma length_le_put [simp]: "length (le_put n w) = n"
  by (induction n arbitrary: w) auto

lemma length_Int64ToBytes [simp]: "length (Int64ToBytes v) = 8"
  by (simp add: Int64ToBytes_def)

lemma length_be_put64 [simp]: "length (be_put64 v) = 8"
  by (simp add: be_put64_def)

lemma le_get_put: "le_get (le_put n w) = take_bit (8 * n) w"
proof (induction n arbitrary: w)
  case (Suc n)
  show ?case
    by (rule bit_word_eqI)
      (auto simp: Suc bit_or_iff bit_push_bit_iff bit_take_bit_iff bit_drop_bit_eq bit_ucast_iff)
qed simp

lemma BytesToInt64_Int64ToBytes [simp]: "BytesToInt64 (Int64ToBytes v) = v"
  by (simp add: BytesToInt64_def Int64ToBytes_def le_get_put take_bit_word_eq_self)

lemma be_get_put [simp]: "be_get64 (be_put64 v @ rest) = v"
  by (simp add: be_get64_def be_put64_def le_get_put take_bit_word_eq_self)

lemma le_get_bits: "bit (le_get bs) n \<Longrightarrow> n < 8 * length bs"
proof (induction bs arbitrary: n)
  case (Cons b bs)
  have "bit (ucast b :: i64) n \<Longrightarrow> n < 8"
    by (auto simp: bit_ucast_iff dest: bit_imp_le_length)
  moreover have "bit (push_bit 8 (le_get bs)) n \<Longrightarrow> n - 8 < 8 * length bs"
    by (auto simp: bit_push_bit_iff intro: Cons.IH)
  ultimately show ?case
    using Cons.prems by (fastforce simp: bit_or_iff bit_push_bit_iff)
qed simp

lemma le_put_get: "length bs \<le> 8 \<Longrightarrow> le_put (length bs) (le_get bs) = bs"
proof (induction bs)
  case (Cons b bs)
  have "ucast (ucast b OR push_bit 8 (le_get bs) :: i64) = b"
    by (rule bit_word_eqI) (auto simp: bit_or_iff bit_push_bit_iff bit_ucast_iff)
  moreover have "drop_bit 8 (ucast b OR push_bit 8 (le_get bs) :: i64) = le_get bs"
  proof (rule bit_word_eqI)
    fix n
    assume "n < LENGTH(64)"
    have "bit (ucast b :: i64) (8 + n) = False"
      by (auto simp: bit_ucast_iff dest: bit_imp_le_length)
    moreover have "bit (le_get bs) n \<Longrightarrow> 8 + n < 64"
      using le_get_bits[of bs n] Cons.prems by simp
    ultimately show "bit (drop_bit 8 (ucast b OR push_bit 8 (le_get bs) :: i64)) n = bit (le_get bs) n"
      by (auto simp: bit_drop_bit_eq bit_or_iff bit_push_bit_iff)
  qed
  ultimately show ?case using Cons by simp
qed simp

lemma Int64ToBytes_BytesToInt64: "length bs = 8 \<Longrightarrow> Int64ToBytes (BytesToInt64 bs) = bs"
  using le_put_get[of bs] by (simp add: Int64ToBytes_def BytesToInt64_def)

text \<open>C-style decoding of a timestamp: int64 of the big-endian word.\<close>

definition int64_of :: "i64 \<Rightarrow> int" where
  "int64_of w = sint w"

definition uint64_of :: "int \<Rightarrow> i64" where
  "uint64_of t = word_of_int t"

definition in_int64 :: "int \<Rightarrow> bool" where
  "in_int64 t \<longleftrightarrow> - (2 ^ 63) \<le> t \<and> t < 2 ^ 63"

lemma int64_of_uint64_of [simp]: "in_int64 t \<Longrightarrow> int64_of (uint64_of t) = t"
  by (simp add: int64_of_def uint64_of_def in_int64_def sint_sbintrunc' signed_take_bit_int_eq_self)

lemma int64_of_wraps: "int64_of (uint64_of t) = (t + 2 ^ 63) mod 2 ^ 64 - 2 ^ 63"
  by (simp add: int64_of_def uint64_of_def sint_sbintrunc' signed_take_bit_eq_take_bit_shift take_bit_eq_mod)

lemma int64_of_past_end:
  assumes "2 ^ 63 \<le> t" and "t < 2 ^ 64"
  shows "int64_of (uint64_of t) = t - 2 ^ 64"
proof -
  have "(t + 2 ^ 63) mod 2 ^ 64 = t + 2 ^ 63 - 2 ^ 64"
    using assms by (subst mod_pos_geq) (simp_all add: mod_pos_pos_trivial)
  then show ?thesis by (simp add: int64_of_wraps)
qed

section \<open>Maps with string keys\<close>

text \<open>A Go map is the association list of its entries in iteration order.\<close>

definition MapsUnion :: "(string \<times> 'a) list \<Rightarrow> (string \<times> 'a) list \<Rightarrow> (string \<times> 'a) list" where
  "MapsUnion m1 m2 =
     (let merged = foldl (\<lambda>m (k1, v1). AList.update k1 v1 m) [] m1
      in foldl (\<lambda>m (k2, v2). AList.update k2 v2 m) merged m2)"

definition MapsIntersection ::
  "(string \<times> 'a) list \<Rightarrow> (string \<times> 'a) list \<Rightarrow> bool \<Rightarrow> (string \<times> 'a) list" where
  "MapsIntersection m1 m2 valuesFromMap1 =
     foldl (\<lambda>m (k, v1). case map_of m2 k of
                None \<Rightarrow> m
              | Some v2 \<Rightarrow> AList.update k (if valuesFromMap1 then v1 else v2) m) [] m1"

lemma foldl_update_map:
  "distinct (map fst l) \<Longrightarrow>
   map_of (foldl (\<lambda>m (k, v). AList.update k v m) acc l) = map_of acc ++ map_of l"
proof (induction l arbitrary: acc)
  case (Cons x l)
  obtain k v where x: "x = (k, v)" by (cases x)
  with Cons.prems have "k \<notin> dom (map_of l)" by (simp add: dom_map_of_conv_image_fst)
  with Cons x show ?case by (auto simp: map_add_def fun_eq_iff split: option.splits)
qed simp

lemma map_of_MapsUnion:
  "distinct (map fst m1) \<Longrightarrow> distinct (map fst m2) \<Longrightarrow>
   map_of (MapsUnion m1 m2) = map_of m1 ++ map_of m2"
  by (simp add: MapsUnion_def foldl_update_map)

lemma foldl_update_distinct:
  "distinct (map fst acc) \<Longrightarrow>
   distinct (map fst (foldl (\<lambda>m (k, v). AList.update k v m) acc l))"
  by (induction l arbitrary: acc) (auto simp: distinct_update)

lemma MapsUnion_distinct: "distinct (map fst (MapsUnion m1 m2))"
  by (simp add: MapsUnion_def foldl_update_distinct)

lemma foldl_inter_map:
  "distinct (map fst l) \<Longrightarrow>
   map_of (foldl (\<lambda>m (k, v1). case map_of m2 k of None \<Rightarrow> m
             | Some v2 \<Rightarrow> AList.update k (if b then v1 else v2) m) acc l) k =
   (if k \<in> dom (map_of l) \<inter> dom (map_of m2) then (if b then map_of l k else map_of m2 k)
    else map_of acc k)"
proof (induction l arbitrary: acc)
  case (Cons x l)
  obtain k' v where x: "x = (k', v)" by (cases x)
  with Cons.prems have "k' \<notin> dom (map_of l)" by (simp add: dom_map_of_conv_image_fst)
  with Cons x show ?case by (auto split: option.splits)
qed simp

lemma map_of_MapsIntersection:
  "distinct (map fst m1) \<Longrightarrow>
   map_of (MapsIntersection m1 m2 b) k =
   (if k \<in> dom (map_of m1) \<inter> dom (map_of m2) then (if b then map_of m1 k else map_of m2 k)
    else None)"
  by (simp add: MapsIntersection_def foldl_inter_map)

section \<open>The counter of running goroutines\<close>

text \<open>\<open>RoutinesCounter\<close>: a concurrent map from a routine type name to its counter.\<close>

type_synonym routines_counter = "(string \<times> int) list"

definition Started :: "string \<Rightarrow> routines_counter \<Rightarrow> routines_counter" where
  "Started routineTypeName rc =
     (case map_of rc routineTypeName of
        Some v \<Rightarrow> AList.update routineTypeName (v + 1) rc
      | None \<Rightarrow> AList.update routineTypeName 0 rc)"

definition Stopped :: "string \<Rightarrow> routines_counter \<Rightarrow> routines_counter" where
  "Stopped routineTypeName rc =
     (case map_of rc routineTypeName of
        Some v \<Rightarrow> (if v - 1 < 0 then AList.delete routineTypeName rc
                   else AList.update routineTypeName (v - 1) rc)
      | None \<Rightarrow> rc)"

datatype routine_event = RoutineStarted string | RoutineStopped string

fun rc_step :: "routine_event \<Rightarrow> routines_counter \<Rightarrow> routines_counter" where
  "rc_step (RoutineStarted n) rc = Started n rc"
| "rc_step (RoutineStopped n) rc = Stopped n rc"

text \<open>How many routines of a type run after a history, when every stop follows a start.\<close>

fun running :: "string \<Rightarrow> routine_event list \<Rightarrow> nat" where
  "running n [] = 0"
| "running n (RoutineStarted m # es) = (if m = n then Suc (running n es) else running n es)"
| "running n (RoutineStopped m # es) = (if m = n then running n es - 1 else running n es)"

text \<open>Histories are kept with the latest event first.\<close>

fun rc_after :: "routine_event list \<Rightarrow> routines_counter" where
  "rc_after [] = []"
| "rc_after (e # es) = rc_step e (rc_after es)"

lemma rc_after_running:
  "map_of (rc_after es) n = (if running n es = 0 then None else Some (int (running n es) - 1))"
proof (induction es)
  case (Cons e es)
  then show ?case
    by (cases e) (auto simp: Started_def Stopped_def split: option.splits if_splits)
qed simp

end
