(* ===== verification/Env.thy ===== *)
theory Env
  imports SystemUtils
begin

text \<open>
  The code outside the repository that the SDK calls, as one record of operations that every
  definition takes as its first argument: the JSON package \<open>github.com/foliagecp/easyjson\<close>
  over an abstract type of JSON values, the NATS key/value store over an abstract state, and the
  sources of nondeterminism of the Go runtime (the clock, random identifiers, the iteration order
  of a map). What the SDK relies on is stated once, in the predicates \<open>easyjson_ok\<close>,
  \<open>natskv_ok\<close> and \<open>env_ok\<close>; theorems that need it have it as a hypothesis.
\<close>

section \<open>The JSON package\<close>

record 'j easyjson =
  NewJSONObject :: 'j
  NewJSONArray :: 'j
  NewJSONString :: "string \<Rightarrow> 'j"
  NewJSONBool :: "bool \<Rightarrow> 'j"
  NewJSONNumber :: "int \<Rightarrow> 'j"
  JSONFromArray :: "string list \<Rightarrow> 'j"
  NewJSONMap :: "(string \<times> 'j) list \<Rightarrow> 'j"
  GetByPath :: "'j \<Rightarrow> string \<Rightarrow> 'j"
  SetByPath :: "'j \<Rightarrow> string \<Rightarrow> 'j \<Rightarrow> 'j"
  RemoveByPath :: "'j \<Rightarrow> string \<Rightarrow> 'j"
  PathExists :: "'j \<Rightarrow> string \<Rightarrow> bool"
  IsObject :: "'j \<Rightarrow> bool"
  IsNonEmptyObject :: "'j \<Rightarrow> bool"
  IsArray :: "'j \<Rightarrow> bool"
  IsNonEmptyArray :: "'j \<Rightarrow> bool"
  IsString :: "'j \<Rightarrow> bool"
  AsString :: "'j \<Rightarrow> string option"
  AsStringDefault :: "'j \<Rightarrow> string \<Rightarrow> string"
  AsBool :: "'j \<Rightarrow> bool option"
  AsBoolDefault :: "'j \<Rightarrow> bool \<Rightarrow> bool"
  AsNumeric :: "'j \<Rightarrow> int option"
  AsArrayString :: "'j \<Rightarrow> string list option"
  AsObject :: "'j \<Rightarrow> (string \<times> 'j) list option"
  ArraySize :: "'j \<Rightarrow> nat"
  ArrayElement :: "'j \<Rightarrow> nat \<Rightarrow> 'j"
  AddToArray :: "'j \<Rightarrow> 'j \<Rightarrow> 'j"
  DeepMerge :: "'j \<Rightarrow> 'j \<Rightarrow> 'j"
  ToBytes :: "'j \<Rightarrow> bytes"
  JSONFromBytes :: "bytes \<Rightarrow> 'j option"

text \<open>A path of one key: not empty, and no dot in it.\<close>

definition simple_path :: "string \<Rightarrow> bool" where
  "simple_path p \<longleftrightarrow> p \<noteq> [] \<and> dot_free p"

definition ej_object_laws :: "'j easyjson \<Rightarrow> bool" where
  "ej_object_laws J \<longleftrightarrow>
     IsObject J (NewJSONObject J) \<and>
     (\<forall>j p v. IsObject J j \<longrightarrow> simple_path p \<longrightarrow> IsObject J (SetByPath J j p v)) \<and>
     (\<forall>j p v. IsObject J j \<longrightarrow> simple_path p \<longrightarrow> GetByPath J (SetByPath J j p v) p = v) \<and>
     (\<forall>j p q v. IsObject J j \<longrightarrow> simple_path p \<longrightarrow> simple_path q \<longrightarrow> p \<noteq> q \<longrightarrow>
        GetByPath J (SetByPath J j p v) q = GetByPath J j q)"

definition ej_path_laws :: "'j easyjson \<Rightarrow> bool" where
  "ej_path_laws J \<longleftrightarrow>
     (\<forall>p. simple_path p \<longrightarrow> \<not> PathExists J (NewJSONObject J) p) \<and>
     (\<forall>j p q v. IsObject J j \<longrightarrow> simple_path p \<longrightarrow> simple_path q \<longrightarrow>
        PathExists J (SetByPath J j p v) q = (p = q \<or> PathExists J j q)) \<and>
     (\<forall>j p. \<not> PathExists J j p \<longrightarrow> \<not> IsObject J (GetByPath J j p)) \<and>
     (\<forall>j p. \<not> PathExists J j p \<longrightarrow> \<not> IsArray J (GetByPath J j p)) \<and>
     (\<forall>j p. \<not> PathExists J j p \<longrightarrow> AsString J (GetByPath J j p) = None) \<and>
     (\<forall>j p. \<not> PathExists J j p \<longrightarrow> AsBool J (GetByPath J j p) = None)"

definition ej_scalar_laws :: "'j easyjson \<Rightarrow> bool" where
  "ej_scalar_laws J \<longleftrightarrow>
     (\<forall>s. AsString J (NewJSONString J s) = Some s) \<and>
     (\<forall>s. \<not> IsArray J (NewJSONString J s)) \<and>
     (\<forall>s. \<not> IsObject J (NewJSONString J s)) \<and>
     (\<forall>b. AsBool J (NewJSONBool J b) = Some b) \<and>
     (\<forall>i. AsNumeric J (NewJSONNumber J i) = Some i) \<and>
     (\<forall>j s. AsStringDefault J j s = (case AsString J j of None \<Rightarrow> s | Some t \<Rightarrow> t)) \<and>
     (\<forall>j b. AsBoolDefault J j b = (case AsBool J j of None \<Rightarrow> b | Some c \<Rightarrow> c))"

definition ej_array_laws :: "'j easyjson \<Rightarrow> bool" where
  "ej_array_laws J \<longleftrightarrow>
     (\<forall>j. IsNonEmptyArray J j \<longrightarrow> IsArray J j) \<and>
     (\<forall>ts. IsNonEmptyArray J (JSONFromArray J ts) = (ts \<noteq> [])) \<and>
     (\<forall>ts. AsArrayString J (JSONFromArray J ts) = Some ts) \<and>
     IsArray J (NewJSONArray J) \<and> ArraySize J (NewJSONArray J) = 0 \<and>
     (\<forall>a x. IsArray J a \<longrightarrow> IsArray J (AddToArray J a x)) \<and>
     (\<forall>a x. IsArray J a \<longrightarrow> ArraySize J (AddToArray J a x) = Suc (ArraySize J a)) \<and>
     (\<forall>a x i. IsArray J a \<longrightarrow> i \<le> ArraySize J a \<longrightarrow>
        ArrayElement J (AddToArray J a x) i = (if i = ArraySize J a then x else ArrayElement J a i))"

definition ej_value_laws :: "'j easyjson \<Rightarrow> bool" where
  "ej_value_laws J \<longleftrightarrow>
     (\<forall>j. IsObject J j \<longrightarrow> DeepMerge J (NewJSONObject J) j = j) \<and>
     (\<forall>j k. IsObject J j \<longrightarrow> IsObject J k \<longrightarrow> IsObject J (DeepMerge J j k)) \<and>
     (\<forall>j. JSONFromBytes J (ToBytes J j) = Some j) \<and>
     (\<forall>ts. 2 \<le> length (ToBytes J (JSONFromArray J ts))) \<and>
     (\<forall>m. IsObject J (NewJSONMap J m)) \<and>
     AsObject J (NewJSONObject J) = Some [] \<and>
     (\<forall>m. distinct (map fst m) \<longrightarrow>
        (\<exists>m'. AsObject J (NewJSONMap J m) = Some m' \<and> distinct (map fst m') \<and> map_of m' = map_of m))"

text \<open>A path of two keys goes through the object at the first, which is created when it is missing.\<close>

definition ej_nested_laws :: "'j easyjson \<Rightarrow> bool" where
  "ej_nested_laws J \<longleftrightarrow>
     (\<forall>j p q v. IsObject J j \<longrightarrow> simple_path p \<longrightarrow> simple_path q \<longrightarrow>
        (PathExists J j p \<longrightarrow> IsObject J (GetByPath J j p)) \<longrightarrow>
        SetByPath J j (p @ CHR ''.'' # q) v =
          SetByPath J j p (SetByPath J (if PathExists J j p then GetByPath J j p else NewJSONObject J) q v))"

definition easyjson_ok :: "'j easyjson \<Rightarrow> bool" where
  "easyjson_ok J \<longleftrightarrow> ej_object_laws J \<and> ej_path_laws J \<and> ej_scalar_laws J \<and> ej_array_laws J \<and>
     ej_value_laws J \<and> ej_nested_laws J"

lemma easyjson_ok_object:
  assumes "easyjson_ok J"
  shows ej_obj_new: "IsObject J (NewJSONObject J)"
    and ej_obj_set: "IsObject J j \<Longrightarrow> simple_path p \<Longrightarrow> IsObject J (SetByPath J j p v)"
    and ej_get_set: "IsObject J j \<Longrightarrow> simple_path p \<Longrightarrow> GetByPath J (SetByPath J j p v) p = v"
    and ej_get_other: "IsObject J j \<Longrightarrow> simple_path p \<Longrightarrow> simple_path q \<Longrightarrow> p \<noteq> q \<Longrightarrow>
        GetByPath J (SetByPath J j p v) q = GetByPath J j q"
  using assms unfolding easyjson_ok_def ej_object_laws_def by simp_all

lemma easyjson_ok_path:
  assumes "easyjson_ok J"
  shows ej_exists_new: "simple_path p \<Longrightarrow> \<not> PathExists J (NewJSONObject J) p"
    and ej_exists_set: "IsObject J j \<Longrightarrow> simple_path p \<Longrightarrow> simple_path q \<Longrightarrow>
        PathExists J (SetByPath J j p v) q = (p = q \<or> PathExists J j q)"
    and ej_missing_obj: "\<not> PathExists J j p \<Longrightarrow> \<not> IsObject J (GetByPath J j p)"
    and ej_missing_arr: "\<not> PathExists J j p \<Longrightarrow> \<not> IsArray J (GetByPath J j p)"
    and ej_missing_str: "\<not> PathExists J j p \<Longrightarrow> AsString J (GetByPath J j p) = None"
    and ej_missing_bool: "\<not> PathExists J j p \<Longrightarrow> AsBool J (GetByPath J j p) = None"
  using assms unfolding easyjson_ok_def ej_path_laws_def by simp_all

lemma easyjson_ok_scalar:
  assumes "easyjson_ok J"
  shows ej_str: "AsString J (NewJSONString J s) = Some s"
    and ej_str_arr: "\<not> IsArray J (NewJSONString J s)"
    and ej_str_obj: "\<not> IsObject J (NewJSONString J s)"
    and ej_bool: "AsBool J (NewJSONBool J b) = Some b"
    and ej_num: "AsNumeric J (NewJSONNumber J i) = Some i"
    and ej_str_default: "AsStringDefault J j s = (case AsString J j of None \<Rightarrow> s | Some t \<Rightarrow> t)"
    and ej_bool_default: "AsBoolDefault J j b = (case AsBool J j of None \<Rightarrow> b | Some c \<Rightarrow> c)"
  using assms unfolding easyjson_ok_def ej_scalar_laws_def by simp_all

lemma easyjson_ok_array:
  assumes "easyjson_ok J"
  shows ej_nonempty_arr: "IsNonEmptyArray J j \<Longrightarrow> IsArray J j"
    and ej_array_ne: "IsNonEmptyArray J (JSONFromArray J ts) = (ts \<noteq> [])"
    and ej_array_strings: "AsArrayString J (JSONFromArray J ts) = Some ts"
    and ej_arr_new: "IsArray J (NewJSONArray J)" and ej_size_new: "ArraySize J (NewJSONArray J) = 0"
    and ej_arr_add: "IsArray J a \<Longrightarrow> IsArray J (AddToArray J a x)"
    and ej_size_add: "IsArray J a \<Longrightarrow> ArraySize J (AddToArray J a x) = Suc (ArraySize J a)"
    and ej_elem_add: "IsArray J a \<Longrightarrow> i \<le> ArraySize J a \<Longrightarrow>
        ArrayElement J (AddToArray J a x) i = (if i = ArraySize J a then x else ArrayElement J a i)"
  using assms unfolding easyjson_ok_def ej_array_laws_def by simp_all

lemma easyjson_ok_value:
  assumes "easyjson_ok J"
  shows ej_merge_new: "IsObject J j \<Longrightarrow> DeepMerge J (NewJSONObject J) j = j"
    and ej_merge_obj: "IsObject J j \<Longrightarrow> IsObject J k \<Longrightarrow> IsObject J (DeepMerge J j k)"
    and ej_bytes: "JSONFromBytes J (ToBytes J j) = Some j"
    and ej_array_bytes: "2 \<le> length (ToBytes J (JSONFromArray J ts))"
    and ej_map_obj: "IsObject J (NewJSONMap J m)"
    and ej_new_members: "AsObject J (NewJSONObject J) = Some []"
    and ej_map_members: "distinct (map fst m) \<Longrightarrow>
        \<exists>m'. AsObject J (NewJSONMap J m) = Some m' \<and> distinct (map fst m') \<and> map_of m' = map_of m"
  using assms unfolding easyjson_ok_def ej_value_laws_def by simp_all

lemma ej_set_nested:
  assumes "easyjson_ok J" and "IsObject J j" and "simple_path p" and "simple_path q"
    and "PathExists J j p \<Longrightarrow> IsObject J (GetByPath J j p)"
  shows "SetByPath J j (p @ CHR ''.'' # q) v =
    SetByPath J j p (SetByPath J (if PathExists J j p then GetByPath J j p else NewJSONObject J) q v)"
  using assms unfolding easyjson_ok_def ej_nested_laws_def by simp

section \<open>The NATS key/value store\<close>

text \<open>
  A key/value bucket is a JetStream stream: a successful write is a message with the next sequence
  number, which is the entry's revision; \<open>Update\<close> writes only when the given revision is the
  key's last one. \<open>kv_Watch\<close> gives the updates a watcher receives until it closes the
  iteration (\<open>None\<close> is the nil entry that ends the initial values). A failed call leaves the
  store as it was.
\<close>

definition ErrKeyNotFound :: string where
  "ErrKeyNotFound = ''nats: key not found''"

record 'kv natskv =
  kv_Get :: "string \<Rightarrow> 'kv \<Rightarrow> string + (bytes \<times> nat)"
  kv_Put :: "string \<Rightarrow> bytes \<Rightarrow> 'kv \<Rightarrow> (string + nat) \<times> 'kv"
  kv_Update :: "string \<Rightarrow> bytes \<Rightarrow> nat \<Rightarrow> 'kv \<Rightarrow> (string + nat) \<times> 'kv"
  kv_Watch :: "string \<Rightarrow> 'kv \<Rightarrow> string + (string \<times> bytes) option list"
  kv_Bucket :: "'kv \<Rightarrow> string"
  js_GetLastMsg :: "string \<Rightarrow> string \<Rightarrow> 'kv \<Rightarrow> string + nat"
  js_SecureDeleteMsg :: "string \<Rightarrow> nat \<Rightarrow> 'kv \<Rightarrow> (string + unit) \<times> 'kv"
  kv_Seq :: "'kv \<Rightarrow> nat"

definition natskv_write_laws ::
  "'kv natskv \<Rightarrow> string \<Rightarrow> bytes \<Rightarrow> 'kv \<Rightarrow> (string + nat) \<times> 'kv \<Rightarrow> bool" where
  "natskv_write_laws K k v s res \<longleftrightarrow>
     (case res of
        (Inr r, s') \<Rightarrow> kv_Seq K s < r \<and> kv_Seq K s' = r \<and> kv_Get K k s' = Inr (v, r) \<and>
          (\<forall>k'. k' \<noteq> k \<longrightarrow> kv_Get K k' s' = kv_Get K k' s)
      | (Inl e, s') \<Rightarrow> s' = s)"

definition natskv_ok :: "'kv natskv \<Rightarrow> bool" where
  "natskv_ok K \<longleftrightarrow>
     (\<forall>k s v r. kv_Get K k s = Inr (v, r) \<longrightarrow> 0 < r \<and> r \<le> kv_Seq K s) \<and>
     (\<forall>k v s. natskv_write_laws K k v s (kv_Put K k v s)) \<and>
     (\<forall>k v r s. natskv_write_laws K k v s (kv_Update K k v r s)) \<and>
     (\<forall>k v r0 s r s'. kv_Update K k v r0 s = (Inr r, s') \<longrightarrow> (\<exists>v0. kv_Get K k s = Inr (v0, r0)))"

lemma nk_get_rev: "natskv_ok K \<Longrightarrow> kv_Get K k s = Inr (v, r) \<Longrightarrow> 0 < r \<and> r \<le> kv_Seq K s"
  unfolding natskv_ok_def by blast

lemma nk_put: "natskv_ok K \<Longrightarrow> natskv_write_laws K k v s (kv_Put K k v s)"
  unfolding natskv_ok_def by blast

lemma nk_update: "natskv_ok K \<Longrightarrow> natskv_write_laws K k v s (kv_Update K k v r s)"
  unfolding natskv_ok_def by blast

lemma nk_update_match:
  "natskv_ok K \<Longrightarrow> kv_Update K k v r0 s = (Inr r, s') \<Longrightarrow> \<exists>v0. kv_Get K k s = Inr (v0, r0)"
  unfolding natskv_ok_def by blast

section \<open>The environment of a runtime\<close>

record ('j, 'kv) env =
  ej :: "'j easyjson"
  nk :: "'kv natskv"
  clock :: "nat \<Rightarrow> int"
  uid :: "nat \<Rightarrow> string"
  mapOrder :: "string list \<Rightarrow> string list"
  md5hex :: "string \<Rightarrow> string"

text \<open>
  \<open>clock n\<close> is the n-th reading of \<open>time.Now().UnixNano()\<close>, \<open>uid n\<close> the n-th
  result of \<open>GetUniqueStrID\<close> (hexadecimal digits), \<open>mapOrder\<close> the order in which
  a Go map is iterated, \<open>md5hex\<close> the hash of \<open>GetHashStr\<close>.
\<close>

definition env_ok :: "('j, 'kv) env \<Rightarrow> bool" where
  "env_ok E \<longleftrightarrow>
     easyjson_ok (ej E) \<and>
     (\<forall>n. 0 < clock E n \<and> clock E n < 2 ^ 63) \<and>
     (\<forall>xs. set (mapOrder E xs) = set xs \<and> length (mapOrder E xs) = length xs)"

lemma env_okD:
  assumes "env_ok E"
  shows env_ok_ej: "easyjson_ok (ej E)"
    and env_clock_pos: "0 < clock E n"
    and env_clock_int64: "in_int64 (clock E n)"
    and env_mapOrder_set: "set (mapOrder E xs) = set xs"
proof -
  show "easyjson_ok (ej E)" "set (mapOrder E xs) = set xs"
    using assms unfolding env_ok_def by blast+
  have c: "0 < clock E n \<and> clock E n < 2 ^ 63"
    using assms unfolding env_ok_def by blast
  then show "0 < clock E n" ..
  from c have "- (2 ^ 63) \<le> clock E n" by linarith
  with c show "in_int64 (clock E n)" unfolding in_int64_def by blast
qed

end
