(* ===== verification/SampleEnv.thy ===== *)
theory SampleEnv
  imports Env
begin

text \<open>
  A concrete environment, used only by witnesses: a JSON datatype with a byte codec, a key/value
  store as an association list with a sequence counter, and fixed clocks and identifiers. It shows
  that the hypotheses on the outside code can hold together; no model definition depends on it.
\<close>

section \<open>JSON values\<close>

datatype json =
  JNull
| JBool bool
| JNum int
| JStr string
| JArr "json list"
| JObj "(string \<times> json) list"

fun jget :: "json \<Rightarrow> string list \<Rightarrow> json" where
  "jget j [] = j"
| "jget (JObj m) (t # ts) = (case map_of m t of None \<Rightarrow> JNull | Some x \<Rightarrow> jget x ts)"
| "jget _ (t # ts) = JNull"

fun jexists :: "json \<Rightarrow> string list \<Rightarrow> bool" where
  "jexists j [] = True"
| "jexists (JObj m) (t # ts) = (case map_of m t of None \<Rightarrow> False | Some x \<Rightarrow> jexists x ts)"
| "jexists _ (t # ts) = False"

fun jset :: "json \<Rightarrow> string list \<Rightarrow> json \<Rightarrow> json" where
  "jset j [] v = v"
| "jset (JObj m) (t # ts) v =
     JObj (AList.update t (jset (case map_of m t of None \<Rightarrow> JNull | Some x \<Rightarrow> x) ts v) m)"
| "jset _ (t # ts) v = JObj [(t, jset JNull ts v)]"

fun jdel :: "json \<Rightarrow> string list \<Rightarrow> json" where
  "jdel (JObj m) [t] = JObj (AList.delete t m)"
| "jdel (JObj m) (t # u # ts) =
     (case map_of m t of None \<Rightarrow> JObj m | Some x \<Rightarrow> JObj (AList.update t (jdel x (u # ts)) m))"
| "jdel j _ = j"

fun jmerge :: "json \<Rightarrow> json \<Rightarrow> json" and jmerge_mem :: "(string \<times> json) list \<Rightarrow> (string \<times> json) list \<Rightarrow> (string \<times> json) list" where
  "jmerge (JObj a) (JObj b) = (if a = [] then JObj b else JObj (jmerge_mem a b))"
| "jmerge _ k = k"
| "jmerge_mem a [] = a"
| "jmerge_mem a ((t, x) # b) =
     jmerge_mem (AList.update t (case map_of a t of None \<Rightarrow> x | Some y \<Rightarrow> jmerge y x) a) b"

fun jstr :: "json \<Rightarrow> string option" where
  "jstr (JStr s) = Some s"
| "jstr _ = None"

fun jbool :: "json \<Rightarrow> bool option" where
  "jbool (JBool b) = Some b"
| "jbool _ = None"

fun jnum :: "json \<Rightarrow> int option" where
  "jnum (JNum i) = Some i"
| "jnum _ = None"

fun jelems :: "json \<Rightarrow> json list" where
  "jelems (JArr xs) = xs"
| "jelems _ = []"

fun jmembers :: "json \<Rightarrow> (string \<times> json) list option" where
  "jmembers (JObj m) = Some m"
| "jmembers _ = None"

fun jstrs :: "json list \<Rightarrow> string list option" where
  "jstrs [] = Some []"
| "jstrs (x # xs) =
     (case jstr x of None \<Rightarrow> None | Some s \<Rightarrow> map_option ((#) s) (jstrs xs))"

fun jarr_strs :: "json \<Rightarrow> string list option" where
  "jarr_strs (JArr xs) = jstrs xs"
| "jarr_strs _ = None"

fun is_jobj :: "json \<Rightarrow> bool" where
  "is_jobj (JObj m) = True"
| "is_jobj _ = False"

fun is_jarr :: "json \<Rightarrow> bool" where
  "is_jarr (JArr xs) = True"
| "is_jarr _ = False"

section \<open>A byte codec\<close>

definition enc_nat :: "nat \<Rightarrow> bytes" where
  "enc_nat n = replicate n 1 @ [0]"

fun dec_unary :: "bytes \<Rightarrow> nat \<times> bytes" where
  "dec_unary [] = (0, [])"
| "dec_unary (b # bs) = (if b = 1 then (case dec_unary bs of (n, r) \<Rightarrow> (Suc n, r)) else (0, bs))"

fun enc_str :: "string \<Rightarrow> bytes" where
  "enc_str [] = [0]"
| "enc_str (c # cs) = 1 # of_char c # enc_str cs"

fun dec_str :: "bytes \<Rightarrow> string \<times> bytes" where
  "dec_str (b # c # bs) = (if b = 1 then (case dec_str bs of (s, r) \<Rightarrow> (char_of (unat c) # s, r)) else ([], c # bs))"
| "dec_str bs = ([], tl bs)"

fun enc :: "json \<Rightarrow> bytes" and enc_list :: "json list \<Rightarrow> bytes"
  and enc_mem :: "(string \<times> json) list \<Rightarrow> bytes" where
  "enc JNull = [0]"
| "enc (JBool b) = [1, if b then 1 else 0]"
| "enc (JNum i) = 2 # (if i < 0 then 1 else 0) # enc_nat (nat \<bar>i\<bar>)"
| "enc (JStr s) = 3 # enc_str s"
| "enc (JArr xs) = 4 # enc_list xs"
| "enc (JObj m) = 5 # enc_mem m"
| "enc_list [] = [0]"
| "enc_list (x # xs) = 1 # enc x @ enc_list xs"
| "enc_mem [] = [0]"
| "enc_mem ((k, x) # m) = 1 # enc_str k @ enc x @ enc_mem m"

fun dec :: "nat \<Rightarrow> bytes \<Rightarrow> (json \<times> bytes) option"
  and dec_list :: "nat \<Rightarrow> bytes \<Rightarrow> (json list \<times> bytes) option"
  and dec_mem :: "nat \<Rightarrow> bytes \<Rightarrow> ((string \<times> json) list \<times> bytes) option" where
  "dec 0 bs = None"
| "dec (Suc n) bs = (case bs of
     [] \<Rightarrow> None
   | t # r \<Rightarrow>
      (if t = 0 then Some (JNull, r)
       else if t = 1 then (case r of [] \<Rightarrow> None | b # r' \<Rightarrow> Some (JBool (b = 1), r'))
       else if t = 2 then (case r of [] \<Rightarrow> None | sg # r' \<Rightarrow>
              (case dec_unary r' of (k, r'') \<Rightarrow> Some (JNum (if sg = 1 then - int k else int k), r'')))
       else if t = 3 then (case dec_str r of (s, r') \<Rightarrow> Some (JStr s, r'))
       else if t = 4 then (case dec_list n r of None \<Rightarrow> None | Some (xs, r') \<Rightarrow> Some (JArr xs, r'))
       else (case dec_mem n r of None \<Rightarrow> None | Some (m, r') \<Rightarrow> Some (JObj m, r'))))"
| "dec_list 0 bs = None"
| "dec_list (Suc n) bs = (case bs of
     [] \<Rightarrow> None
   | t # r \<Rightarrow> (if t = 0 then Some ([], r)
      else (case dec n r of None \<Rightarrow> None | Some (x, r') \<Rightarrow>
        (case dec_list n r' of None \<Rightarrow> None | Some (xs, r'') \<Rightarrow> Some (x # xs, r'')))))"
| "dec_mem 0 bs = None"
| "dec_mem (Suc n) bs = (case bs of
     [] \<Rightarrow> None
   | t # r \<Rightarrow> (if t = 0 then Some ([], r)
      else (case dec_str r of (k, r0) \<Rightarrow> (case dec n r0 of None \<Rightarrow> None | Some (x, r') \<Rightarrow>
        (case dec_mem n r' of None \<Rightarrow> None | Some (m, r'') \<Rightarrow> Some ((k, x) # m, r''))))))"

definition json_of_bytes :: "bytes \<Rightarrow> json option" where
  "json_of_bytes bs = map_option fst (dec (Suc (length bs)) bs)"

lemma dec_unary_enc: "dec_unary (enc_nat n @ r) = (n, r)"
  by (induction n) (auto simp: enc_nat_def)

lemma char_of_byte [simp]: "char_of (unat (of_char c :: byte)) = c"
proof -
  have "(of_char c :: byte) = of_nat (of_char c :: nat)"
    by (rule of_nat_of_char [symmetric])
  then have "unat (of_char c :: byte) = of_char c"
    by (simp only: unat_of_nat) (simp add: of_char_mod_256)
  then show ?thesis by simp
qed

lemma dec_str_enc: "dec_str (enc_str s @ r) = (s, r)"
proof (induction s)
  case Nil
  then show ?case by (cases r) auto
qed auto

lemma dec_enc:
  "length (enc j) \<le> n \<Longrightarrow> dec n (enc j @ r) = Some (j, r)"
  "length (enc_list xs) \<le> n \<Longrightarrow> dec_list n (enc_list xs @ r) = Some (xs, r)"
  "length (enc_mem m) \<le> n \<Longrightarrow> dec_mem n (enc_mem m @ r) = Some (m, r)"
proof (induction j and xs and m arbitrary: n r and n r and n r rule: enc_enc_list_enc_mem.induct)
  case (3 i)
  then show ?case by (cases n) (auto simp: dec_unary_enc)
next
  case (4 s)
  then show ?case by (cases n) (auto simp: dec_str_enc)
next
  case (5 xs)
  then show ?case by (cases n) auto
next
  case (6 m)
  then show ?case by (cases n) auto
next
  case (8 x xs)
  then show ?case by (cases n) auto
next
  case (10 k x m)
  then show ?case by (cases n) (auto simp: dec_str_enc)
qed (case_tac n; auto)+

lemma json_of_bytes_enc [simp]: "json_of_bytes (enc j) = Some j"
  using dec_enc(1)[of j "Suc (length (enc j))" "[]"] by (simp add: json_of_bytes_def)

section \<open>The JSON package\<close>

definition sample_json :: "json easyjson" where
  "sample_json = \<lparr>
     NewJSONObject = JObj [],
     NewJSONArray = JArr [],
     NewJSONString = JStr,
     NewJSONBool = JBool,
     NewJSONNumber = JNum,
     JSONFromArray = (\<lambda>ts. JArr (map JStr ts)),
     NewJSONMap = JObj,
     GetByPath = (\<lambda>j p. jget j (split_dot p)),
     SetByPath = (\<lambda>j p v. jset j (split_dot p) v),
     RemoveByPath = (\<lambda>j p. jdel j (split_dot p)),
     PathExists = (\<lambda>j p. jexists j (split_dot p)),
     IsObject = is_jobj,
     IsNonEmptyObject = (\<lambda>j. is_jobj j \<and> jmembers j \<noteq> Some []),
     IsArray = is_jarr,
     IsNonEmptyArray = (\<lambda>j. is_jarr j \<and> jelems j \<noteq> []),
     IsString = (\<lambda>j. jstr j \<noteq> None),
     AsString = jstr,
     AsStringDefault = (\<lambda>j s. case jstr j of None \<Rightarrow> s | Some t \<Rightarrow> t),
     AsBool = jbool,
     AsBoolDefault = (\<lambda>j b. case jbool j of None \<Rightarrow> b | Some c \<Rightarrow> c),
     AsNumeric = jnum,
     AsArrayString = jarr_strs,
     AsObject = jmembers,
     ArraySize = (\<lambda>j. length (jelems j)),
     ArrayElement = (\<lambda>j i. if i < length (jelems j) then jelems j ! i else JNull),
     AddToArray = (\<lambda>j x. JArr (jelems j @ [x])),
     DeepMerge = jmerge,
     ToBytes = enc,
     JSONFromBytes = json_of_bytes\<rparr>"

lemma is_jobjE: "is_jobj j \<Longrightarrow> \<exists>m. j = JObj m"
  by (cases j) auto

lemma jstrs_map [simp]: "jstrs (map JStr ts) = Some ts"
  by (induction ts) auto

lemma jget_missing: "\<not> jexists j ts \<Longrightarrow> jget j ts = JNull"
  by (induction j ts rule: jget.induct) (auto split: option.splits)

lemma simple_path_split: "simple_path p \<Longrightarrow> split_dot p = [p]"
  by (simp add: simple_path_def split_dot_free)

lemma is_jarrE: "is_jarr j \<Longrightarrow> \<exists>xs. j = JArr xs"
  by (cases j) auto

lemma sample_json_object: "ej_object_laws sample_json"
  by (auto simp: ej_object_laws_def sample_json_def simple_path_split dest!: is_jobjE)

lemma sample_json_path: "ej_path_laws sample_json"
  by (auto simp: ej_path_laws_def sample_json_def simple_path_split jget_missing dest!: is_jobjE
      split: if_splits option.splits)

lemma sample_json_scalar: "ej_scalar_laws sample_json"
  by (auto simp: ej_scalar_laws_def sample_json_def)

lemma sample_json_array: "ej_array_laws sample_json"
  by (auto simp: ej_array_laws_def sample_json_def nth_append dest!: is_jarrE)

lemma enc_list_length [simp]: "Suc 0 \<le> length (enc_list xs)"
  by (cases xs) auto

lemma sample_json_value: "ej_value_laws sample_json"
  by (auto simp: ej_value_laws_def sample_json_def dest!: is_jobjE)

lemma sample_json_nested: "ej_nested_laws sample_json"
  by (auto simp: ej_nested_laws_def sample_json_def simple_path_split split_dot_append dest!: is_jobjE
      split: option.splits)

lemma sample_json_ok: "easyjson_ok sample_json"
  by (simp add: easyjson_ok_def sample_json_object sample_json_path sample_json_scalar
      sample_json_array sample_json_value sample_json_nested)

section \<open>The key/value store\<close>

type_synonym sample_kv = "(string \<times> (bytes \<times> nat)) list \<times> nat"

fun match_tokens :: "string list \<Rightarrow> string list \<Rightarrow> bool" where
  "match_tokens [] ts = (ts = [])"
| "match_tokens (p # ps) ts = (case ts of [] \<Rightarrow> False
     | t # ts' \<Rightarrow> (p = ''>'' \<and> ps = []) \<or> ((p = ''*'' \<or> p = t) \<and> match_tokens ps ts'))"

definition sample_seq :: "sample_kv \<Rightarrow> nat" where
  "sample_seq s = foldr (\<lambda>(k, v, n) a. max (Suc n) a) (fst s) (snd s)"

definition sample_put :: "string \<Rightarrow> bytes \<Rightarrow> sample_kv \<Rightarrow> (string + nat) \<times> sample_kv" where
  "sample_put k v s = (Inr (Suc (sample_seq s)), (AList.update k (v, sample_seq s) (fst s), snd s))"

definition sample_get :: "string \<Rightarrow> sample_kv \<Rightarrow> string + (bytes \<times> nat)" where
  "sample_get k s = (case map_of (fst s) k of
      Some (v, n) \<Rightarrow> Inr (v, Suc n) | None \<Rightarrow> Inl ErrKeyNotFound)"

lemma sample_seq_Nil: "sample_seq ([], q) = q"
  by (simp add: sample_seq_def)

lemma sample_seq_Cons: "sample_seq ((k, v, n) # l, q) = max (Suc n) (sample_seq (l, q))"
  by (simp add: sample_seq_def)

lemma sample_seq_get: "map_of l k = Some (v, n) \<Longrightarrow> n < sample_seq (l, q)"
  by (induction l) (auto simp: sample_seq_Cons split: if_splits)

lemma sample_seq_put:
  "sample_seq (l, q) \<le> n \<Longrightarrow> sample_seq (AList.update k (v, n) l, q) = Suc n"
proof (induction l)
  case Nil
  then show ?case by (simp add: sample_seq_Cons sample_seq_Nil)
next
  case (Cons x l)
  obtain k' v' n' where x: "x = (k', v', n')" by (cases x)
  with Cons show ?case by (auto simp: sample_seq_Cons)
qed

definition sample_nats :: "sample_kv natskv" where
  "sample_nats = \<lparr>
     kv_Get = sample_get,
     kv_Put = sample_put,
     kv_Update = (\<lambda>k v r s. case sample_get k s of
         Inr (w, q) \<Rightarrow> (if q = r then sample_put k v s else (Inl ''nats: wrong last sequence'', s))
       | Inl e \<Rightarrow> (Inl ''nats: wrong last sequence'', s)),
     kv_Watch = (\<lambda>p s. Inr (map (\<lambda>(k, v, r). Some (k, v))
         (filter (\<lambda>(k, v, r). match_tokens (split_dot p) (split_dot k)) (fst s)) @ [None])),
     kv_Bucket = (\<lambda>s. ''bucket''),
     js_GetLastMsg = (\<lambda>st subj s. Inl ''not modelled''),
     js_SecureDeleteMsg = (\<lambda>st q s. (Inl ''not modelled'', s)),
     kv_Seq = sample_seq\<rparr>"

lemma sample_put_laws: "natskv_write_laws sample_nats k v s (sample_put k v s)"
  using sample_seq_put[of "fst s" "snd s" "sample_seq s" k v]
  by (auto simp: natskv_write_laws_def sample_put_def sample_nats_def sample_get_def)

lemma sample_get_rev: "sample_get k s = Inr (v, r) \<Longrightarrow> 0 < r \<and> r \<le> sample_seq s"
  using sample_seq_get[of "fst s" k v "r - 1" "snd s"]
  by (auto simp: sample_get_def split: option.splits)

lemma sample_nats_ok: "natskv_ok sample_nats"
proof -
  have "\<forall>k v r s. natskv_write_laws sample_nats k v s (kv_Update sample_nats k v r s)"
  proof (intro allI)
    fix k v r s
    show "natskv_write_laws sample_nats k v s (kv_Update sample_nats k v r s)"
    proof (cases "\<exists>w. sample_get k s = Inr (w, r)")
      case True
      then have "kv_Update sample_nats k v r s = sample_put k v s"
        by (auto simp: sample_nats_def)
      then show ?thesis by (simp add: sample_put_laws)
    next
      case False
      then have "kv_Update sample_nats k v r s = (Inl ''nats: wrong last sequence'', s)"
        by (auto simp: sample_nats_def split: sum.splits)
      then show ?thesis by (simp add: natskv_write_laws_def)
    qed
  qed
  moreover have "\<forall>k v s. natskv_write_laws sample_nats k v s (kv_Put sample_nats k v s)"
    using sample_put_laws by (simp add: sample_nats_def)
  ultimately show ?thesis
    unfolding natskv_ok_def
    using sample_get_rev
    by (auto simp: sample_nats_def split: sum.splits if_splits)
qed

section \<open>The environment of the witnesses\<close>

text \<open>A hash without collisions: two letters for each character.\<close>

definition hex_char :: "char \<Rightarrow> string" where
  "hex_char c = [char_of (97 + of_char c div 16 :: nat), char_of (97 + of_char c mod 16 :: nat)]"

definition sample_hash :: "string \<Rightarrow> string" where
  "sample_hash s = concat (map hex_char s)"

definition sample_env :: "(json, sample_kv) env" where
  "sample_env = \<lparr>ej = sample_json, nk = sample_nats, clock = (\<lambda>n. int (min n 1000) + 1),
     uid = (\<lambda>n. ''id'' @ dec_nat n), mapOrder = (\<lambda>xs. xs), md5hex = sample_hash\<rparr>"

lemma sample_env_sel [simp]:
  "ej sample_env = sample_json" "nk sample_env = sample_nats" "mapOrder sample_env = (\<lambda>xs. xs)"
  by (simp_all add: sample_env_def)

lemma sample_clock_mono: "mono (clock sample_env)"
  by (rule monoI) (simp add: sample_env_def)

lemma sample_env_ok: "env_ok sample_env"
proof -
  have "0 < clock sample_env n \<and> clock sample_env n < 2 ^ 63" for n
    by (simp add: sample_env_def)
  then show ?thesis by (simp add: env_ok_def sample_json_ok)
qed

end
