(* ===== verification/KVMutex.thy ===== *)
theory KVMutex
  imports Transitions SampleEnv
begin

text \<open>
  The mutexes that live in the NATS key/value store, \<open>statefun/kv_mutices.go\<close>: a key's
  mutex is the record \<open>key.mutex\<close>, whose value is the time it was locked at, or 0. The loop
  of \<open>KeyMutexLock\<close> is split into its decision on what it read (\<open>lock_decide\<close>) and
  the calls of the store, so that the same decision serves the sequential functions and the
  protocol of several runtimes whose calls interleave.
\<close>

section \<open>One round of the locking loop\<close>

definition mutexLockedError :: string where
  "mutexLockedError = ''error: mutex is locked''"

definition mutex_key :: "string \<Rightarrow> string" where
  "mutex_key key = key @ ''.mutex''"

definition lock_time :: "bytes \<Rightarrow> int" where
  "lock_time v = int64_of (BytesToInt64 v)"

definition time_bytes :: "int \<Rightarrow> bytes" where
  "time_bytes t = Int64ToBytes (uint64_of t)"

text \<open>The sum is an \<open>int64\<close>: it wraps around when the lifetime is large enough.\<close>

definition lock_is_old :: "nat \<Rightarrow> int \<Rightarrow> int \<Rightarrow> bool" where
  "lock_is_old kvMutexLifeTimeSec lockTime now \<longleftrightarrow>
     int64_of (uint64_of (lockTime + int kvMutexLifeTimeSec * 1000000000)) < now"

datatype lock_action =
  ResetLock
| MereLock nat
| LoopAgain
| LockError string
| WaitForUnlock

definition lock_decide :: "nat \<Rightarrow> bool \<Rightarrow> int \<Rightarrow> bool \<Rightarrow> string + (bytes \<times> nat) \<Rightarrow> lock_action" where
  "lock_decide life errorOnLocked now mutexResetLockNeeded entry =
     (case entry of
        Inl err \<Rightarrow> (if err = ErrKeyNotFound then ResetLock else LockError err)
      | Inr (v, revision) \<Rightarrow>
         (if mutexResetLockNeeded then ResetLock
          else if lock_time v = 0 then MereLock revision
          else if lock_is_old life (lock_time v) now then LoopAgain
          else if errorOnLocked then LockError mutexLockedError
          else WaitForUnlock))"

definition wrong_sequence :: "string \<Rightarrow> bool" where
  "wrong_sequence err \<longleftrightarrow> length (split_str ''nats: wrong last sequence'' err) > 1"

section \<open>The operations run by one runtime\<close>

text \<open>
  \<open>fuel\<close> bounds the rounds of the loop; \<open>None\<close> is a caller that still waits. \<open>k\<close>
  counts the readings of the clock.
\<close>

fun KeyMutexLock ::
  "('j, 'kv) env \<Rightarrow> nat \<Rightarrow> nat \<Rightarrow> string \<Rightarrow> bool \<Rightarrow> bool \<Rightarrow> nat \<Rightarrow> 'kv \<Rightarrow> ((string + nat) \<times> 'kv) option" where
  "KeyMutexLock E life 0 key errorOnLocked reset k s = None"
| "KeyMutexLock E life (Suc fuel) key errorOnLocked reset k s =
     (let now = clock E k;
          keyMutex = mutex_key key
      in (case lock_decide life errorOnLocked now reset (kv_Get (nk E) keyMutex s) of
            ResetLock \<Rightarrow> Some (kv_Put (nk E) keyMutex (time_bytes now) s)
          | MereLock revision \<Rightarrow>
              (case kv_Update (nk E) keyMutex (time_bytes now) revision s of
                 (Inr revId, s') \<Rightarrow> Some (Inr revId, s')
               | (Inl err, s') \<Rightarrow>
                   (if wrong_sequence err then KeyMutexLock E life fuel key errorOnLocked reset (Suc k) s'
                    else Some (Inl err, s')))
          | LoopAgain \<Rightarrow> KeyMutexLock E life fuel key errorOnLocked True (Suc k) s
          | LockError err \<Rightarrow> Some (Inl err, s)
          | WaitForUnlock \<Rightarrow> KeyMutexLock E life fuel key errorOnLocked reset (Suc k) s))"

definition KeyMutexLockUpdate ::
  "('j, 'kv) env \<Rightarrow> string \<Rightarrow> nat \<Rightarrow> nat \<Rightarrow> 'kv \<Rightarrow> (string + nat) \<times> 'kv" where
  "KeyMutexLockUpdate E key lockRevisionID k s =
     (let keyMutex = mutex_key key
      in (case kv_Get (nk E) keyMutex s of
            Inl err \<Rightarrow> (Inl err, s)
          | Inr (v, revision) \<Rightarrow>
             (if lock_time v \<noteq> 0 then kv_Update (nk E) keyMutex (time_bytes (clock E k)) revision s
              else (Inl (''Context mutex for key='' @ key @ '' was already unlocked''), s))))"

definition KeyMutexUnlock ::
  "('j, 'kv) env \<Rightarrow> string \<Rightarrow> nat \<Rightarrow> 'kv \<Rightarrow> string option \<times> 'kv" where
  "KeyMutexUnlock E key lockRevisionID s =
     (let keyMutex = mutex_key key
      in (case kv_Get (nk E) keyMutex s of
            Inl err \<Rightarrow> (Some err, s)
          | Inr (v, revision) \<Rightarrow>
             (if lock_time v \<noteq> 0 then
                (case kv_Update (nk E) keyMutex (Int64ToBytes 0) revision s of
                   (Inl err, s') \<Rightarrow> (Some err, s')
                 | (Inr _, s') \<Rightarrow> (None, s'))
              else (None, s))))"

lemma lock_time_bytes [simp]: "in_int64 t \<Longrightarrow> lock_time (time_bytes t) = t"
  by (simp add: lock_time_def time_bytes_def)

lemma lock_time_zero [simp]: "lock_time (Int64ToBytes 0) = 0"
  by (simp add: lock_time_def int64_of_def)

lemma lock_is_old_in_range:
  "in_int64 (t + int life * 1000000000) \<Longrightarrow> lock_is_old life t now \<longleftrightarrow> t + int life * 1000000000 < now"
  by (simp add: lock_is_old_def)

text \<open>The configurations whose lock times can be compared: no expiry time leaves the range of an
  \<open>int64\<close> (for the clock of today, any lifetime below 237 years).\<close>

definition lifetime_fits :: "('j, 'kv) env \<Rightarrow> nat \<Rightarrow> bool" where
  "lifetime_fits E life \<longleftrightarrow> (\<forall>n. in_int64 (clock E n + int life * 1000000000))"

lemma lock_is_old_mono: "lock_is_old life t now \<Longrightarrow> now \<le> now' \<Longrightarrow> lock_is_old life t now'"
  by (simp add: lock_is_old_def)

section \<open>What a lock leaves behind\<close>

definition locked_since :: "('j, 'kv) env \<Rightarrow> nat \<Rightarrow> string \<Rightarrow> 'kv \<Rightarrow> bool" where
  "locked_since E k0 key s \<longleftrightarrow> (\<exists>j q. k0 \<le> j \<and> kv_Get (nk E) (mutex_key key) s = Inr (time_bytes (clock E j), q))"

lemma mutex_key_inject [simp]: "mutex_key a = mutex_key b \<longleftrightarrow> a = b"
  by (simp add: mutex_key_def)

lemma lock_failed_same:
  assumes K: "natskv_ok (nk E)"
  shows "KeyMutexLock E life fuel key eol reset k s = Some (Inl err, s') \<Longrightarrow> s' = s"
proof (induction fuel arbitrary: reset k s)
  case (Suc fuel)
  show ?case
  proof (cases "lock_decide life eol (clock E k) reset (kv_Get (nk E) (mutex_key key) s)")
    case ResetLock
    with Suc.prems nk_put[OF K, of "mutex_key key" "time_bytes (clock E k)" s] show ?thesis
      by (simp add: Let_def natskv_write_laws_def)
  next
    case (MereLock r)
    obtain x t where "kv_Update (nk E) (mutex_key key) (time_bytes (clock E k)) r s = (x, t)" by fastforce
    with MereLock Suc nk_update[OF K, of "mutex_key key" "time_bytes (clock E k)" s r] show ?thesis
      by (cases x) (auto simp: Let_def natskv_write_laws_def split: if_splits)
  qed (use Suc in \<open>auto simp: Let_def\<close>)
qed simp

lemma lock_record:
  assumes K: "natskv_ok (nk E)"
  shows "KeyMutexLock E life fuel key eol reset k s = Some (Inr revId, s') \<Longrightarrow>
    locked_since E k key s' \<and> (\<forall>k'. k' \<noteq> mutex_key key \<longrightarrow> kv_Get (nk E) k' s' = kv_Get (nk E) k' s)"
proof (induction fuel arbitrary: reset k s)
  case (Suc fuel)
  have later: "locked_since E (Suc k) key s' \<Longrightarrow> locked_since E k key s'"
    unfolding locked_since_def by (meson Suc_leD)
  show ?case
  proof (cases "lock_decide life eol (clock E k) reset (kv_Get (nk E) (mutex_key key) s)")
    case ResetLock
    with Suc.prems nk_put[OF K, of "mutex_key key" "time_bytes (clock E k)" s] show ?thesis
      by (auto simp: Let_def natskv_write_laws_def locked_since_def)
  next
    case (MereLock r)
    obtain x t where u: "kv_Update (nk E) (mutex_key key) (time_bytes (clock E k)) r s = (x, t)" by fastforce
    note law = nk_update[OF K, of "mutex_key key" "time_bytes (clock E k)" s r, unfolded u]
    show ?thesis
    proof (cases x)
      case (Inl e)
      with law have "t = s" by (simp add: natskv_write_laws_def)
      with Inl MereLock u Suc later show ?thesis by (auto simp: Let_def split: if_splits)
    next
      case (Inr q)
      with law MereLock u Suc.prems show ?thesis
        by (auto simp: Let_def natskv_write_laws_def locked_since_def)
    qed
  qed (use Suc later in \<open>auto simp: Let_def\<close>)
qed simp

lemma lock_keeps:
  assumes K: "natskv_ok (nk E)" and "KeyMutexLock E life fuel key eol reset k s = Some (r, s')"
    and "locked_since E k0 other s" and "k0 \<le> k"
  shows "locked_since E k0 other s'"
proof (cases r)
  case (Inl err)
  with assms lock_failed_same[OF K] show ?thesis by blast
next
  case (Inr revId)
  with assms(2) have l: "locked_since E k key s'" "\<forall>k'. k' \<noteq> mutex_key key \<longrightarrow> kv_Get (nk E) k' s' = kv_Get (nk E) k' s"
    using lock_record[OF K] by blast+
  show ?thesis
  proof (cases "other = key")
    case True
    with l(1) assms(4) show ?thesis unfolding locked_since_def by (meson order_trans)
  next
    case False
    with l(2) assms(3) show ?thesis by (simp add: locked_since_def)
  qed
qed

lemma held_lock_refuses:
  assumes "env_ok E" and "mono (clock E)" and "locked_since E k0 key s"
    and "clock E k \<le> clock E k0 + int life * 1000000000" and "lifetime_fits E life"
  shows "KeyMutexLock E life (Suc fuel) key True False k s = Some (Inl mutexLockedError, s)"
proof -
  obtain j q where j: "k0 \<le> j" "kv_Get (nk E) (mutex_key key) s = Inr (time_bytes (clock E j), q)"
    using assms(3) unfolding locked_since_def by blast
  have "clock E k0 \<le> clock E j" using assms(2) j(1) by (rule monoD)
  then have "\<not> lock_is_old life (clock E j) (clock E k)"
    using assms(4,5) by (simp add: lock_is_old_in_range lifetime_fits_def)
  moreover have "lock_time (time_bytes (clock E j)) = clock E j" by (rule lock_time_bytes) (rule env_clock_int64[OF assms(1)])
  moreover have "clock E j \<noteq> 0" using env_clock_pos[OF assms(1), of j] by simp
  ultimately show ?thesis by (simp add: j(2) lock_decide_def)
qed

text \<open>
  C23: a mutex that one runtime locked is refused to the next caller that asks for an error instead of
  waiting, until the lock outlives its lifetime: after a \<open>KeyMutexLock\<close> that returned a
  revision, a second one that reads the clock within the lifetime fails with
  \<open>mutexLockedError\<close> and changes nothing. The clock does not run backwards and the expiry
  times fit an \<open>int64\<close>.
\<close>

theorem locked_mutex_is_refused:
  assumes "env_ok E" and "natskv_ok (nk E)"
    and "KeyMutexLock E life fuel key eol reset k s = Some (Inr revId, s1)"
    and "mono (clock E)" and "clock E k2 \<le> clock E k + int life * 1000000000" and "lifetime_fits E life"
  shows "KeyMutexLock E life (Suc fuel2) key True False k2 s1 = Some (Inl mutexLockedError, s1)"
proof -
  have "locked_since E k key s1" using lock_record[OF assms(2,3)] by blast
  from held_lock_refuses[OF assms(1,4) this assms(5,6)] show ?thesis .
qed

text \<open>
  At the sample store: the first lock creates the record, the second is refused.
\<close>

lemma sample_lock:
  "KeyMutexLock sample_env 120 3 ''fn'' False False 0 ([], 0) =
     Some (Inr 1, ([(''fn.mutex'', time_bytes 1, 0)], 0))"
  by (simp add: numeral_eq_Suc lock_decide_def mutex_key_def sample_env_def sample_nats_def sample_get_def
      sample_put_def sample_seq_def)

lemma sample_lifetime_fits: "life \<le> 1000000 \<Longrightarrow> lifetime_fits sample_env life"
proof -
  assume "life \<le> 1000000"
  then have "in_int64 (int (min n 1000) + 1 + int life * 1000000000)" for n
    by (simp add: in_int64_def)
  then show ?thesis by (simp add: lifetime_fits_def sample_env_def)
qed

theorem locked_mutex_is_refused_witness:
  "KeyMutexLock sample_env 120 1 ''fn'' True False 5 ([(''fn.mutex'', time_bytes 1, 0)], 0) =
     Some (Inl mutexLockedError, ([(''fn.mutex'', time_bytes 1, 0)], 0))"
  using locked_mutex_is_refused[OF sample_env_ok _ sample_lock sample_clock_mono, of 5 0]
  by (simp add: sample_nats_ok sample_lifetime_fits) (simp add: sample_env_def)

text \<open>
  When the expiry time wraps, the mutex protects nothing: the lock is old as soon as it is
  taken, and the next caller takes it over.
\<close>

lemma wrapped_lifetime_expires_at_once:
  assumes "2 ^ 63 \<le> t + int life * 1000000000" and "t + int life * 1000000000 < 2 ^ 64" and "0 \<le> now"
  shows "lock_is_old life t now"
  using int64_of_past_end[OF assms(1,2)] assms(2,3) by (simp add: lock_is_old_def)

text \<open>
  \<open>KeyMutexUnlock\<close> after a lock makes the mutex free: the next \<open>KeyMutexLock\<close>
  decides to take it with the revision it reads.
\<close>

lemma unlocked_mutex_is_free:
  assumes "natskv_ok (nk E)" and "KeyMutexUnlock E key r s = (None, s')"
    and "\<exists>v q. kv_Get (nk E) (mutex_key key) s = Inr (v, q)"
  shows "\<exists>q. lock_decide life eol now False (kv_Get (nk E) (mutex_key key) s') = MereLock q"
proof -
  obtain v q where got: "kv_Get (nk E) (mutex_key key) s = Inr (v, q)" using assms(3) by blast
  show ?thesis
  proof (cases "lock_time v = 0")
    case True
    with got assms(2) have "s' = s" by (simp add: KeyMutexUnlock_def Let_def)
    with True got show ?thesis by (simp add: lock_decide_def)
  next
    case False
    obtain res t where u: "kv_Update (nk E) (mutex_key key) (Int64ToBytes 0) q s = (res, t)"
      by fastforce
    with got False assms(2) obtain q' where "res = Inr q'" and "t = s'"
      by (auto simp: KeyMutexUnlock_def Let_def split: sum.splits)
    with u nk_update[OF assms(1), of "mutex_key key" "Int64ToBytes 0" s q]
    have "kv_Get (nk E) (mutex_key key) s' = Inr (Int64ToBytes 0, q')"
      by (simp add: natskv_write_laws_def)
    then show ?thesis by (simp add: lock_decide_def)
  qed
qed

lemma unlocked_mutex_is_free_witness:
  "\<exists>s'. KeyMutexUnlock sample_env ''fn'' 1 ([(''fn.mutex'', time_bytes 1, 0)], 0) = (None, s') \<and>
     (\<exists>q. lock_decide 120 True 9 False (kv_Get (nk sample_env) (mutex_key ''fn'') s') = MereLock q)"
proof -
  let ?s = "([(''fn.mutex'', time_bytes 1, 0)], 0) :: sample_kv"
  have "lock_time (time_bytes 1) = 1" by (simp add: in_int64_def)
  then obtain s' where u: "KeyMutexUnlock sample_env ''fn'' 1 ?s = (None, s')"
    by (simp add: KeyMutexUnlock_def Let_def mutex_key_def sample_nats_def sample_get_def sample_put_def)
  have "\<exists>v q. kv_Get (nk sample_env) (mutex_key ''fn'') ?s = Inr (v, q)"
    by (simp add: mutex_key_def sample_nats_def sample_get_def)
  with u unlocked_mutex_is_free[of sample_env "''fn''" 1 ?s s' 120 True 9] show ?thesis
    by (simp add: sample_nats_ok)
qed

end
