(* ===== verification/KVMutexProtocol.thy ===== *)
theory KVMutexProtocol
  imports KVMutex
begin

text \<open>
  Several runtimes that lock one key/value mutex (\<open>statefun/kv_mutices.go\<close>): the calls of
  the store are atomic, and between two calls of one client any other client may run. The program
  counter of a client says where it is in \<open>KeyMutexLock\<close> or \<open>KeyMutexUnlock\<close>;
  the decision taken on what was read is \<open>lock_decide\<close> of the sequential model.
\<close>

datatype mx_pc =
  MIdle
| MLoop bool
| MNow bool int
| MDecide bool int "string + (bytes \<times> nat)"
| MWait
| MLocked nat
| MUnlock "string + (bytes \<times> nat)"
| MFailed

record 'kv mx =
  mx_kv :: 'kv
  mx_clock :: int
  mx_pcs :: "nat \<Rightarrow> mx_pc"

definition mx_goto :: "nat \<Rightarrow> mx_pc \<Rightarrow> 'kv mx \<Rightarrow> 'kv mx" where
  "mx_goto c pc s = s\<lparr>mx_pcs := (mx_pcs s)(c := pc)\<rparr>"

inductive mx_step :: "'kv natskv \<Rightarrow> nat \<Rightarrow> bool \<Rightarrow> string \<Rightarrow> 'kv mx \<Rightarrow> 'kv mx \<Rightarrow> bool"
  for K :: "'kv natskv" and life :: nat and errorOnLocked :: bool and key :: string where
  mx_tick: "mx_clock s \<le> t \<Longrightarrow> in_int64 t \<Longrightarrow> mx_step K life errorOnLocked key s (s\<lparr>mx_clock := t\<rparr>)"
| mx_call: "mx_pcs s c = MIdle \<Longrightarrow> mx_step K life errorOnLocked key s (mx_goto c (MLoop False) s)"
| mx_now: "mx_pcs s c = MLoop reset \<Longrightarrow>
     mx_step K life errorOnLocked key s (mx_goto c (MNow reset (mx_clock s)) s)"
| mx_get: "mx_pcs s c = MNow reset now \<Longrightarrow>
     mx_step K life errorOnLocked key s
       (mx_goto c (MDecide reset now (kv_Get K (mutex_key key) (mx_kv s))) s)"
| mx_put: "mx_pcs s c = MDecide reset now got \<Longrightarrow> lock_decide life errorOnLocked now reset got = ResetLock \<Longrightarrow>
     kv_Put K (mutex_key key) (time_bytes now) (mx_kv s) = (res, kv') \<Longrightarrow>
     mx_step K life errorOnLocked key s
       (mx_goto c (case res of Inr r \<Rightarrow> MLocked r | Inl e \<Rightarrow> MFailed) (s\<lparr>mx_kv := kv'\<rparr>))"
| mx_update: "mx_pcs s c = MDecide reset now got \<Longrightarrow>
     lock_decide life errorOnLocked now reset got = MereLock revision \<Longrightarrow>
     kv_Update K (mutex_key key) (time_bytes now) revision (mx_kv s) = (res, kv') \<Longrightarrow>
     mx_step K life errorOnLocked key s
       (mx_goto c (case res of Inr r \<Rightarrow> MLocked r
          | Inl e \<Rightarrow> (if wrong_sequence e then MLoop reset else MFailed)) (s\<lparr>mx_kv := kv'\<rparr>))"
| mx_again: "mx_pcs s c = MDecide reset now got \<Longrightarrow> lock_decide life errorOnLocked now reset got = LoopAgain \<Longrightarrow>
     mx_step K life errorOnLocked key s (mx_goto c (MLoop True) s)"
| mx_error: "mx_pcs s c = MDecide reset now got \<Longrightarrow> lock_decide life errorOnLocked now reset got = LockError e \<Longrightarrow>
     mx_step K life errorOnLocked key s (mx_goto c MFailed s)"
| mx_wait: "mx_pcs s c = MDecide reset now got \<Longrightarrow> lock_decide life errorOnLocked now reset got = WaitForUnlock \<Longrightarrow>
     mx_step K life errorOnLocked key s (mx_goto c MWait s)"
| mx_wake: "mx_pcs s c = MWait \<Longrightarrow> kv_Get K (mutex_key key) (mx_kv s) = Inr (v, r) \<Longrightarrow>
     lock_time v = 0 \<or> lock_is_old life (lock_time v) (mx_clock s) \<Longrightarrow>
     mx_step K life errorOnLocked key s (mx_goto c (MLoop False) s)"
| mx_unlock_get: "mx_pcs s c = MLocked r \<Longrightarrow>
     mx_step K life errorOnLocked key s (mx_goto c (MUnlock (kv_Get K (mutex_key key) (mx_kv s))) s)"
| mx_unlock_update: "mx_pcs s c = MUnlock (Inr (v, revision)) \<Longrightarrow> lock_time v \<noteq> 0 \<Longrightarrow>
     kv_Update K (mutex_key key) (Int64ToBytes 0) revision (mx_kv s) = (res, kv') \<Longrightarrow>
     mx_step K life errorOnLocked key s (mx_goto c MIdle (s\<lparr>mx_kv := kv'\<rparr>))"
| mx_unlock_free: "mx_pcs s c = MUnlock (Inr (v, revision)) \<Longrightarrow> lock_time v = 0 \<Longrightarrow>
     mx_step K life errorOnLocked key s (mx_goto c MIdle s)"
| mx_unlock_error: "mx_pcs s c = MUnlock (Inl e) \<Longrightarrow> mx_step K life errorOnLocked key s (mx_goto c MIdle s)"
| mx_return: "mx_pcs s c = MFailed \<Longrightarrow> mx_step K life errorOnLocked key s (mx_goto c MIdle s)"

text \<open>The runs considered: the record exists and is free at the start, nobody is in a call.\<close>

definition mx_init :: "'kv natskv \<Rightarrow> string \<Rightarrow> 'kv mx \<Rightarrow> bool" where
  "mx_init K key s \<longleftrightarrow>
     (\<exists>v r. kv_Get K (mutex_key key) (mx_kv s) = Inr (v, r) \<and> lock_time v = 0) \<and>
     0 < mx_clock s \<and> in_int64 (mx_clock s) \<and> (\<forall>c. mx_pcs s c = MIdle)"

text \<open>The environment condition: no lock is held beyond its lifetime.\<close>

definition mx_in_time :: "'kv natskv \<Rightarrow> nat \<Rightarrow> string \<Rightarrow> 'kv mx \<Rightarrow> bool" where
  "mx_in_time K life key s \<longleftrightarrow>
     (\<forall>v r. kv_Get K (mutex_key key) (mx_kv s) = Inr (v, r) \<longrightarrow> lock_time v \<noteq> 0 \<longrightarrow>
        \<not> lock_is_old life (lock_time v) (mx_clock s))"

fun holds_rev :: "mx_pc \<Rightarrow> nat \<Rightarrow> bool" where
  "holds_rev (MLocked r) q \<longleftrightarrow> q = r"
| "holds_rev (MUnlock (Inr (v, r))) q \<longleftrightarrow> q = r \<and> lock_time v \<noteq> 0"
| "holds_rev _ q \<longleftrightarrow> False"

definition mx_pc_ok :: "nat \<Rightarrow> int \<Rightarrow> bytes \<Rightarrow> nat \<Rightarrow> mx_pc \<Rightarrow> bool" where
  "mx_pc_ok life now v r pc \<longleftrightarrow>
     (case pc of
        MLoop reset \<Rightarrow> \<not> reset
      | MNow reset t \<Rightarrow> \<not> reset \<and> 0 < t \<and> t \<le> now \<and> in_int64 t
      | MDecide reset t got \<Rightarrow> \<not> reset \<and> 0 < t \<and> t \<le> now \<and> in_int64 t \<and>
          (\<exists>w q. got = Inr (w, q) \<and> q \<le> r \<and> (q = r \<longrightarrow> w = v) \<and>
             (lock_time w \<noteq> 0 \<longrightarrow> \<not> lock_is_old life (lock_time w) t))
      | MLocked q \<Rightarrow> q = r \<and> lock_time v \<noteq> 0
      | MUnlock got \<Rightarrow> (\<exists>w q. got = Inr (w, q) \<and> (lock_time w \<noteq> 0 \<longrightarrow> q = r \<and> w = v))
      | _ \<Rightarrow> True)"

definition mx_inv :: "'kv natskv \<Rightarrow> nat \<Rightarrow> string \<Rightarrow> 'kv mx \<Rightarrow> bool" where
  "mx_inv K life key s \<longleftrightarrow>
     0 < mx_clock s \<and> in_int64 (mx_clock s) \<and>
     (\<exists>v r. kv_Get K (mutex_key key) (mx_kv s) = Inr (v, r) \<and>
        (\<forall>c. mx_pc_ok life (mx_clock s) v r (mx_pcs s c)) \<and>
        (\<forall>c d q p. holds_rev (mx_pcs s c) q \<longrightarrow> holds_rev (mx_pcs s d) p \<longrightarrow> c = d))"

lemma mx_init_inv: "mx_init K key s \<Longrightarrow> mx_inv K life key s"
  by (auto simp: mx_init_def mx_inv_def mx_pc_ok_def)

text \<open>A client moves to a point where it holds nothing it did not hold; the store is unchanged.\<close>

lemma mx_inv_goto:
  assumes "mx_inv K life key s"
    and "\<And>v r. kv_Get K (mutex_key key) (mx_kv s) = Inr (v, r) \<Longrightarrow>
      mx_pc_ok life (mx_clock s) v r (mx_pcs s c) \<Longrightarrow> mx_pc_ok life (mx_clock s) v r pc"
    and "\<And>q. holds_rev pc q \<Longrightarrow> \<exists>p. holds_rev (mx_pcs s c) p"
  shows "mx_inv K life key (mx_goto c pc s)"
  using assms unfolding mx_inv_def mx_goto_def
  by (auto split: if_splits) metis+

text \<open>A holder's reading is the current record, and it is locked.\<close>

lemma mx_holder:
  assumes "mx_pc_ok life now v r pc" and "holds_rev pc q"
  shows "q = r \<and> lock_time v \<noteq> 0"
  using assms by (cases "(pc, q)" rule: holds_rev.cases) (auto simp: mx_pc_ok_def)

text \<open>A successful conditional write by a client, with the record free or held by that client.\<close>

lemma mx_inv_write:
  assumes inv: "mx_inv K life key s" and K: "natskv_ok K"
    and w: "natskv_write_laws K (mutex_key key) w (mx_kv s) (Inr q, kv')"
    and none: "\<And>d p. d \<noteq> c \<Longrightarrow> \<not> holds_rev (mx_pcs s d) p"
    and pc: "mx_pc_ok life (mx_clock s) w q pc"
  shows "mx_inv K life key (mx_goto c pc (s\<lparr>mx_kv := kv'\<rparr>))"
proof -
  from inv obtain v r where got: "kv_Get K (mutex_key key) (mx_kv s) = Inr (v, r)"
    and ok: "\<And>d. mx_pc_ok life (mx_clock s) v r (mx_pcs s d)"
    and clk: "0 < mx_clock s" "in_int64 (mx_clock s)"
    unfolding mx_inv_def by blast
  from w have new: "kv_Get K (mutex_key key) kv' = Inr (w, q)" and "kv_Seq K (mx_kv s) < q"
    by (simp_all add: natskv_write_laws_def)
  with nk_get_rev[OF K got] have less: "r < q" by simp
  have "mx_pc_ok life (mx_clock s) w q (mx_pcs s d)" if "d \<noteq> c" for d
    using ok[of d] none[OF that, of r] less
    by (cases "mx_pcs s d") (auto simp: mx_pc_ok_def)
  with pc none clk new show ?thesis
    unfolding mx_inv_def mx_goto_def by (auto split: if_splits)
qed

lemma mx_step_inv:
  assumes K: "natskv_ok K" and inv: "mx_inv K life key s" and env: "mx_in_time K life key s"
    and step: "mx_step K life eol key s t"
  shows "mx_inv K life key t"
proof -
  from inv obtain v r where got: "kv_Get K (mutex_key key) (mx_kv s) = Inr (v, r)"
    and ok: "\<And>d. mx_pc_ok life (mx_clock s) v r (mx_pcs s d)"
    and one: "\<And>c d q p. holds_rev (mx_pcs s c) q \<Longrightarrow> holds_rev (mx_pcs s d) p \<Longrightarrow> c = d"
    and clk: "0 < mx_clock s" "in_int64 (mx_clock s)"
    unfolding mx_inv_def by blast
  note okD = ok[unfolded mx_pc_ok_def]
  from step show ?thesis
  proof cases
    case (mx_tick u)
    have "mx_pc_ok life u v r (mx_pcs s d)" for d
      using ok[of d] mx_tick(2) by (cases "mx_pcs s d") (auto simp: mx_pc_ok_def)
    with mx_tick got one clk show ?thesis unfolding mx_inv_def by auto
  next
    case (mx_get c reset now)
    have "mx_pc_ok life (mx_clock s) v r (MDecide reset now (Inr (v, r)))"
      using okD[of c] mx_get(2) env got lock_is_old_mono[of life "lock_time v" now "mx_clock s"]
      by (auto simp: mx_pc_ok_def mx_in_time_def)
    with mx_get(1) got show ?thesis by (auto intro!: mx_inv_goto[OF inv])
  next
    case (mx_put c reset now g res kv')
    from mx_put(3) okD[of c] mx_put(2) have False by (auto simp: lock_decide_def split: if_splits)
    then show ?thesis ..
  next
    case (mx_update c reset now g revision res kv')
    then obtain w where g: "g = Inr (w, revision)" and w0: "lock_time w = 0"
      using okD[of c] by (auto simp: lock_decide_def split: if_splits)
    have now: "0 < now" "in_int64 now" using okD[of c] mx_update(2) by auto
    show ?thesis
    proof (cases res)
      case (Inl e)
      with nk_update[OF K, of "mutex_key key" "time_bytes now" "mx_kv s" revision] mx_update
      have "t = mx_goto c (if wrong_sequence e then MLoop reset else MFailed) s"
        by (simp add: natskv_write_laws_def)
      moreover have "\<not> reset" using okD[of c] mx_update(2) by auto
      ultimately show ?thesis by (auto intro!: mx_inv_goto[OF inv] simp: mx_pc_ok_def)
    next
      case (Inr q)
      with mx_update nk_update_match[OF K] got have "revision = r" by fastforce
      with okD[of c] mx_update(2) g w0 have "lock_time v = 0" by auto
      then have none: "\<not> holds_rev (mx_pcs s d) p" for d p
        using mx_holder[OF ok] by blast
      have "lock_time (time_bytes now) \<noteq> 0" using now by simp
      then have "mx_inv K life key (mx_goto c (MLocked q) (s\<lparr>mx_kv := kv'\<rparr>))"
        using Inr mx_update nk_update[OF K, of "mutex_key key" "time_bytes now" "mx_kv s" revision] none
        by (intro mx_inv_write[OF inv K]) (auto simp: mx_pc_ok_def)
      with Inr mx_update show ?thesis by simp
    qed
  next
    case (mx_again c reset now g)
    with okD[of c] have False by (auto simp: lock_decide_def split: if_splits)
    then show ?thesis ..
  next
    case (mx_unlock_get c q)
    have "q = r \<and> lock_time v \<noteq> 0" using okD[of c] mx_unlock_get by simp
    with mx_unlock_get got show ?thesis
      by (auto intro!: mx_inv_goto[OF inv] simp: mx_pc_ok_def)
  next
    case (mx_unlock_update c w revision res kv')
    have h: "holds_rev (mx_pcs s c) revision" using mx_unlock_update by simp
    show ?thesis
    proof (cases res)
      case (Inl e)
      with nk_update[OF K, of "mutex_key key" "Int64ToBytes 0" "mx_kv s" revision] mx_unlock_update
      have "t = mx_goto c MIdle s" by (simp add: natskv_write_laws_def)
      then show ?thesis by (auto intro!: mx_inv_goto[OF inv] simp: mx_pc_ok_def)
    next
      case (Inr q)
      have "mx_inv K life key (mx_goto c MIdle (s\<lparr>mx_kv := kv'\<rparr>))"
        using Inr mx_unlock_update nk_update[OF K, of "mutex_key key" "Int64ToBytes 0" "mx_kv s" revision]
          one[OF h] by (intro mx_inv_write[OF inv K]) (auto simp: mx_pc_ok_def)
      with mx_unlock_update show ?thesis by simp
    qed
  qed (auto intro!: mx_inv_goto[OF inv] simp: mx_pc_ok_def clk)
qed

text \<open>The protocol keeps its invariant over every store that behaves like NATS does.\<close>

lemma mx_invariant_system:
  "natskv_ok K \<Longrightarrow> invariant_system (mx_in_time K life key) (mx_init K key) (mx_step K life eol key) (mx_inv K life key)"
  by unfold_locales (auto intro: mx_init_inv mx_step_inv)

interpretation mx: invariant_system "mx_in_time sample_nats life key" "mx_init sample_nats key"
    "mx_step sample_nats life eol key" "mx_inv sample_nats life key" for life key eol
  by (rule mx_invariant_system) (rule sample_nats_ok)

text \<open>
  C4: when the mutex's record exists and is free at the start and no lock outlives its lifetime, two
  runtimes never hold the key/value mutex at the same time, in any interleaving of their calls: the conditional update lets
  one of the readers of a free record win.
\<close>

theorem kv_mutex_exclusive:
  assumes "natskv_ok K"
    and "reachable_under (mx_in_time K life key) (mx_init K key) (mx_step K life eol key) s"
    and "mx_pcs s c = MLocked q" and "mx_pcs s d = MLocked p"
  shows "c = d"
proof -
  have "mx_inv K life key s"
    using invariant_system.reach_inv[OF mx_invariant_system[OF assms(1)] assms(2)] .
  then show ?thesis
    unfolding mx_inv_def using assms(3,4) by (metis holds_rev.simps(1))
qed

definition mx_free_kv :: sample_kv where
  "mx_free_kv = ([(mutex_key ''k'', (Int64ToBytes 0, 0))], 0)"

definition mx_at :: "sample_kv \<Rightarrow> mx_pc \<Rightarrow> mx_pc \<Rightarrow> sample_kv mx" where
  "mx_at kv a b = \<lparr>mx_kv = kv, mx_clock = 5, mx_pcs = (\<lambda>_. MIdle)(0 := a, 1 := b)\<rparr>"

lemma mx_goto_at [simp]:
  "mx_goto 0 pc (mx_at kv a b) = mx_at kv pc b" "mx_goto 1 pc (mx_at kv a b) = mx_at kv a pc"
  "mx_goto (Suc 0) pc (mx_at kv a b) = mx_at kv a pc"
  "(mx_at kv a b)\<lparr>mx_kv := kv'\<rparr> = mx_at kv' a b"
  "mx_kv (mx_at kv a b) = kv" "mx_clock (mx_at kv a b) = 5"
  "mx_pcs (mx_at kv a b) 0 = a" "mx_pcs (mx_at kv a b) (Suc 0) = b"
  by (auto simp: mx_goto_def mx_at_def)

lemma mx_free_get [simp]: "kv_Get sample_nats (mutex_key ''k'') mx_free_kv = Inr (Int64ToBytes 0, 1)"
  by (simp add: sample_nats_def sample_get_def mx_free_kv_def)

lemma mx_free_update:
  "\<exists>kv'. kv_Update sample_nats (mutex_key ''k'') v 1 mx_free_kv = (Inr 2, kv') \<and>
     kv_Get sample_nats (mutex_key ''k'') kv' = Inr (v, 2)"
  by (simp add: sample_nats_def sample_get_def mx_free_kv_def sample_put_def sample_seq_def)

lemma mx_free_in_time: "mx_in_time sample_nats life ''k'' (mx_at mx_free_kv a b)"
  by (simp add: mx_in_time_def)

lemma mx_one_locks:
  "\<exists>kv'. reachable_under (mx_in_time sample_nats 10 ''k'') (mx_init sample_nats ''k'')
     (mx_step sample_nats 10 False ''k'') (mx_at kv' (MLocked 2) (MLoop False))"
proof -
  let ?R = "reachable_under (mx_in_time sample_nats 10 ''k'') (mx_init sample_nats ''k'')
     (mx_step sample_nats 10 False ''k'')"
  let ?d = "MDecide False 5 (Inr (Int64ToBytes 0, 1))"
  have go: "?R (mx_at mx_free_kv a b) \<Longrightarrow> mx_step sample_nats 10 False ''k'' (mx_at mx_free_kv a b) t \<Longrightarrow> ?R t"
    for a b t by (erule reach_step) (auto simp: mx_free_in_time)
  have "mx_init sample_nats ''k'' (mx_at mx_free_kv MIdle MIdle)"
    by (auto simp: mx_init_def mx_at_def[of _ MIdle MIdle] in_int64_def)
  then have "?R (mx_at mx_free_kv MIdle MIdle)" by (rule reach_start)
  then have "?R (mx_at mx_free_kv MIdle (MLoop False))"
    by (rule go) (use mx_call[of "mx_at mx_free_kv MIdle MIdle" 1] in simp)
  then have "?R (mx_at mx_free_kv (MLoop False) (MLoop False))"
    by (rule go) (use mx_call[of "mx_at mx_free_kv MIdle (MLoop False)" 0] in simp)
  then have "?R (mx_at mx_free_kv (MNow False 5) (MLoop False))"
    by (rule go) (use mx_now[of "mx_at mx_free_kv (MLoop False) (MLoop False)" 0 False] in simp)
  then have d: "?R (mx_at mx_free_kv ?d (MLoop False))"
    by (rule go) (use mx_get[of "mx_at mx_free_kv (MNow False 5) (MLoop False)" 0 False 5 sample_nats 10 False "''k''"] in simp)
  from mx_free_update[of "time_bytes 5"] obtain kv'
    where u: "kv_Update sample_nats (mutex_key ''k'') (time_bytes 5) 1 mx_free_kv = (Inr 2, kv')" by blast
  from d have "?R (mx_at kv' (MLocked 2) (MLoop False))"
    by (rule go) (use mx_update[of "mx_at mx_free_kv ?d (MLoop False)" 0 False 5
          "Inr (Int64ToBytes 0, 1)" 10 False 1 sample_nats "''k''" "Inr 2" kv']
        u in \<open>simp add: lock_decide_def\<close>)
  then show ?thesis ..
qed

theorem kv_mutex_exclusive_witness:
  "\<exists>s. reachable_under (mx_in_time sample_nats 10 ''k'') (mx_init sample_nats ''k'')
     (mx_step sample_nats 10 False ''k'') s \<and> mx_pcs s 0 = MLocked 2 \<and>
     (\<forall>d p. mx_pcs s d = MLocked p \<longrightarrow> d = 0)"
proof -
  from mx_one_locks obtain kv' where r: "reachable_under (mx_in_time sample_nats 10 ''k'')
      (mx_init sample_nats ''k'') (mx_step sample_nats 10 False ''k'') (mx_at kv' (MLocked 2) (MLoop False))"
    by (elim exE)
  show ?thesis
    using r kv_mutex_exclusive[OF sample_nats_ok r, of _ _ 0 2] by (intro exI[of _ "mx_at kv' (MLocked 2) (MLoop False)"]) auto
qed

end
