(* ===== verification/CacheTree.thy ===== *)
theory CacheTree
  imports Env
begin

text \<open>
  The tree of values behind a cache store (type \<open>StoreValue\<close> of
  \<open>statefun/cache/cache.go\<close>). A node holds the scalar fields of a \<open>StoreValue\<close> and
  its children; a pointer to a \<open>StoreValue\<close> is the list of key tokens that leads to it from the
  root, so that \<open>parent\<close> and \<open>keyInParent\<close> are its all-but-last and its last token. The
  order of a node's association list stands for the order in which Go iterates the map
  \<open>store\<close>. A subscriber of a level is its callback id with the notifications sent to it.
\<close>

section \<open>Nodes and paths\<close>

record StoreValue =
  "value" :: "bytes option"
  valueExists :: bool
  purgeState :: nat
  storeConsistencyWithKVLossTime :: int
  valueUpdateTime :: int
  notifyUpdates :: "(string \<times> (string \<times> bytes option) list) list"
  syncNeeded :: bool
  syncedWithKV :: bool

datatype node = Node (info: StoreValue) (store: "(string \<times> node) list")

fun node_at :: "node \<Rightarrow> string list \<Rightarrow> node option" where
  "node_at n [] = Some n"
| "node_at n (t # ts) = (case map_of (store n) t of None \<Rightarrow> None | Some c \<Rightarrow> node_at c ts)"

fun upd_at :: "string list \<Rightarrow> (node \<Rightarrow> node) \<Rightarrow> node \<Rightarrow> node" where
  "upd_at [] f n = f n"
| "upd_at (t # ts) f n =
     Node (info n) (map (\<lambda>(k, c). (k, if k = t then upd_at ts f c else c)) (store n))"

definition upd_info :: "string list \<Rightarrow> (StoreValue \<Rightarrow> StoreValue) \<Rightarrow> node \<Rightarrow> node" where
  "upd_info p f = upd_at p (\<lambda>n. Node (f (info n)) (store n))"

definition info_at :: "node \<Rightarrow> string list \<Rightarrow> StoreValue option" where
  "info_at r p = map_option info (node_at r p)"

fun node_count :: "node \<Rightarrow> nat" where
  "node_count (Node i cs) = Suc (sum_list (map (\<lambda>(k, c). node_count c) cs))"

lemma node_at_append: "node_at r (p @ q) = (case node_at r p of None \<Rightarrow> None | Some n \<Rightarrow> node_at n q)"
  by (induction p arbitrary: r) (auto split: option.splits)

lemma node_at_snoc:
  "node_at r (p @ [t]) = (case node_at r p of None \<Rightarrow> None | Some n \<Rightarrow> map_of (store n) t)"
  by (auto simp: node_at_append split: option.splits)

lemma node_at_prefix: "node_at r (p @ q) \<noteq> None \<Longrightarrow> node_at r p \<noteq> None"
  by (auto simp: node_at_append split: option.splits)

lemma node_at_prefix_None: "node_at r p = None \<Longrightarrow> node_at r (p @ q) = None"
  by (simp add: node_at_append)

lemma info_at_None [simp]: "info_at r p = None \<longleftrightarrow> node_at r p = None"
  by (simp add: info_at_def)

lemma info_at_root [simp]: "info_at r [] = Some (info r)"
  by (simp add: info_at_def)

lemma map_of_upd_child:
  "map_of (map (\<lambda>(k, c). (k, if k = t then g c else c)) cs) u =
     (if u = t then map_option g (map_of cs u) else map_of cs u)"
  by (induction cs) auto

lemma info_at_Cons:
  "info_at n (t # ts) = (case map_of (store n) t of None \<Rightarrow> None | Some c \<Rightarrow> info_at c ts)"
  by (simp add: info_at_def split: option.splits)

text \<open>An update of the scalar fields changes the tree at its own path only.\<close>

lemma info_at_upd_info:
  "info_at (upd_info p f r) q = (if p = q then map_option f (info_at r q) else info_at r q)"
proof (induction p arbitrary: r q)
  case Nil
  then show ?case
    by (cases q) (auto simp: upd_info_def info_at_Cons)
next
  case (Cons t p)
  note IH = Cons[unfolded upd_info_def]
  show ?case
  proof (cases q)
    case Nil
    then show ?thesis by (simp add: upd_info_def)
  next
    case (Cons u q')
    then show ?thesis
      using IH[of _ q'] by (cases "u = t"; cases "p = q'"; cases "map_of (store r) u")
        (simp_all add: upd_info_def info_at_Cons map_of_upd_child)
  qed
qed

lemma node_at_upd_info [simp]: "node_at (upd_info p f r) q = None \<longleftrightarrow> node_at r q = None"
  using info_at_upd_info[of p f r q] info_at_None by (metis option.map_disc_iff)

section \<open>Notifications\<close>

definition notifySubscribers :: "string \<Rightarrow> bytes option \<Rightarrow> StoreValue \<Rightarrow> StoreValue" where
  "notifySubscribers key v i = i\<lparr>notifyUpdates := map (\<lambda>(cid, q). (cid, q @ [(key, v)])) (notifyUpdates i)\<rparr>"

text \<open>The fields other than the subscribers.\<close>

definition core :: "StoreValue \<Rightarrow> StoreValue" where
  "core i = i\<lparr>notifyUpdates := []\<rparr>"

definition core_at :: "node \<Rightarrow> string list \<Rightarrow> StoreValue option" where
  "core_at r p = map_option core (info_at r p)"

lemma core_notify [simp]: "core (notifySubscribers key v i) = core i"
  by (simp add: core_def notifySubscribers_def)

lemma core_sel [simp]:
  "value (core i) = value i" "valueExists (core i) = valueExists i" "purgeState (core i) = purgeState i"
  "storeConsistencyWithKVLossTime (core i) = storeConsistencyWithKVLossTime i"
  "valueUpdateTime (core i) = valueUpdateTime i" "syncNeeded (core i) = syncNeeded i"
  "syncedWithKV (core i) = syncedWithKV i"
  by (simp_all add: core_def)

lemma core_idem [simp]: "core (core i) = core i"
  by (simp add: core_def)

lemma core_at_None [simp]: "core_at r p = None \<longleftrightarrow> node_at r p = None"
  by (simp add: core_at_def)

lemma core_at_upd_info:
  assumes "\<And>i. core (f i) = core (f (core i))"
  shows "core_at (upd_info p f r) = (core_at r)(p := map_option (\<lambda>i. core (f i)) (core_at r p))"
  using assms by (auto simp: core_at_def info_at_upd_info fun_eq_iff option.map_comp o_def
      intro: option.map_cong)

lemma core_at_notify [simp]: "core_at (upd_info p (notifySubscribers k v) r) = core_at r"
  by (auto simp: core_at_def info_at_upd_info fun_eq_iff option.map_comp o_def)

section \<open>Linking a new child\<close>

definition add_child :: "string \<Rightarrow> node \<Rightarrow> node \<Rightarrow> node" where
  "add_child key child n = Node (info n) (AList.update key child (store n))"

lemma info_at_add_child:
  assumes "node_at r p = Some n" and "map_of (store n) t = None"
  shows "info_at (upd_at p (add_child t (Node i [])) r) = (info_at r)(p @ [t] \<mapsto> i)"
proof
  fix q
  show "info_at (upd_at p (add_child t (Node i [])) r) q = ((info_at r)(p @ [t] \<mapsto> i)) q"
    using assms
  proof (induction p arbitrary: r q)
    case Nil
    then show ?case
    proof (cases q)
      case (Cons u q')
      with Nil show ?thesis
        by (cases q') (auto simp: add_child_def info_at_Cons)
    qed (auto simp: add_child_def)
  next
    case (Cons u p)
    then obtain c where c: "map_of (store r) u = Some c" "node_at c p = Some n"
      by (auto split: option.splits)
    show ?case
    proof (cases q)
      case (Cons w q')
      with c Cons.IH[OF c(2) Cons.prems(2)] show ?thesis
        by (auto simp: info_at_Cons map_of_upd_child)
    qed simp
  qed
qed

lemma core_at_add_child:
  assumes "node_at r p = Some n" and "map_of (store n) t = None"
  shows "core_at (upd_at p (add_child t (Node i [])) r) = (core_at r)(p @ [t] \<mapsto> core i)"
  using info_at_add_child[OF assms] by (auto simp: core_at_def fun_eq_iff)

section \<open>Unlinking a child\<close>

definition del_child :: "string \<Rightarrow> node \<Rightarrow> node" where
  "del_child key n = Node (info n) (AList.delete key (store n))"

lemma info_at_del_child:
  "info_at (upd_at p (del_child t) r) q =
     (if \<exists>s. q = p @ t # s then None else info_at r q)"
proof (induction p arbitrary: r q)
  case Nil
  then show ?case
    by (cases q) (auto simp: del_child_def info_at_Cons)
next
  case (Cons u p)
  then show ?case
    by (cases q) (auto simp: info_at_Cons map_of_upd_child split: option.splits)
qed

end
