(* ===== verification/CacheStore.thy ===== *)
theory CacheStore
  imports CacheTree
begin

text \<open>
  The cache store of \<open>statefun/cache/cache.go\<close>: its configuration, the operations on one
  \<open>StoreValue\<close> addressed by its path, and the operations of \<open>Store\<close>. The state
  carries the external store (\<open>cs_kv\<close>), how many times the clock was read (\<open>ticks\<close>),
  the pointers whose \<open>collectGarbage\<close> was started in a goroutine and has not run yet
  (\<open>goroutines\<close>) and whether a run-time panic happened.
\<close>

section \<open>Configuration and state: cache\_config.go, type Store\<close>

record Config =
  cc_id :: string
  kvStorePrefix :: string
  lruSize :: nat
  levelSubscriptionNotificationsBufferMaxSize :: nat

definition NewCacheConfig :: "string \<Rightarrow> Config" where
  "NewCacheConfig cid = \<lparr>cc_id = cid, kvStorePrefix = ''store'', lruSize = 1000000,
     levelSubscriptionNotificationsBufferMaxSize = 30000\<rparr>"

definition SetKVStorePrefix :: "string \<Rightarrow> Config \<Rightarrow> Config" where
  "SetKVStorePrefix p ro = ro\<lparr>kvStorePrefix := p\<rparr>"

definition SetLRUSize :: "nat \<Rightarrow> Config \<Rightarrow> Config" where
  "SetLRUSize n ro = ro\<lparr>lruSize := n\<rparr>"

definition SetLevelSubscriptionNotificationsBufferMaxSize :: "nat \<Rightarrow> Config \<Rightarrow> Config" where
  "SetLevelSubscriptionNotificationsBufferMaxSize n ro =
     ro\<lparr>levelSubscriptionNotificationsBufferMaxSize := n\<rparr>"

record TransactionOperator =
  operatorType :: nat
  op_key :: string
  op_value :: bytes
  updateInKV :: bool
  customTime :: int

record Transaction =
  operators :: "TransactionOperator list"
  beginCounter :: int

record 'kv Store =
  cacheConfig :: Config
  cs_kv :: 'kv
  rootValue :: node
  lruTresholdTime :: int
  valuesInCache :: nat
  transactions :: "(string \<times> Transaction) list"
  inited :: bool
  ticks :: nat
  goroutines :: "string list list"
  panicked :: bool

definition rootStoreValue :: StoreValue where
  "rootStoreValue = \<lparr>value = None, valueExists = False, purgeState = 0,
     storeConsistencyWithKVLossTime = 0, valueUpdateTime = -1, notifyUpdates = [],
     syncNeeded = False, syncedWithKV = True\<rparr>"

definition NewCacheStore :: "Config \<Rightarrow> 'kv \<Rightarrow> 'kv Store" where
  "NewCacheStore cfg kv = \<lparr>cacheConfig = cfg, cs_kv = kv, rootValue = Node rootStoreValue [],
     lruTresholdTime = 0, valuesInCache = 0, transactions = [], inited = False, ticks = 0,
     goroutines = [], panicked = False\<rparr>"

definition GetCurrentTimeNs :: "('j, 'kv) env \<Rightarrow> 'kv Store \<Rightarrow> int \<times> 'kv Store" where
  "GetCurrentTimeNs E cs = (clock E (ticks cs), cs\<lparr>ticks := Suc (ticks cs)\<rparr>)"

definition orCurrentTime :: "('j, 'kv) env \<Rightarrow> int \<Rightarrow> 'kv Store \<Rightarrow> int \<times> 'kv Store" where
  "orCurrentTime E t cs = (if t < 0 then GetCurrentTimeNs E cs else (t, cs))"

definition toStoreKey :: "'kv Store \<Rightarrow> string \<Rightarrow> string" where
  "toStoreKey cs key = kvStorePrefix (cacheConfig cs) @ CHR ''.'' # key"

definition fromStoreKey :: "'kv Store \<Rightarrow> string \<Rightarrow> string" where
  "fromStoreKey cs key = replace_first key (kvStorePrefix (cacheConfig cs) @ ''.'') []"

text \<open>The regular expression of a valid key.\<close>

definition key_char :: "char \<Rightarrow> bool" where
  "key_char c \<longleftrightarrow>
     (let n = (of_char c :: nat)
      in (97 \<le> n \<and> n \<le> 122) \<or> (65 \<le> n \<and> n \<le> 90) \<or> (48 \<le> n \<and> n \<le> 57) \<or>
         c = CHR ''='' \<or> c = CHR ''_'' \<or> c = CHR ''-'')"

definition valid_key :: "string \<Rightarrow> bool" where
  "valid_key key \<longleftrightarrow>
     (3 \<le> length key \<and> key_char (hd key) \<and> key_char (last key) \<and>
        list_all (\<lambda>c. key_char c \<or> c = CHR ''.'') (butlast (tl key))) \<or>
     list_all key_char key"

section \<open>Operations on one StoreValue\<close>

fun fullKeyOfReversedPath :: "string list \<Rightarrow> string" where
  "fullKeyOfReversedPath [] = []"
| "fullKeyOfReversedPath (keyStr # up) =
     (let prefix = fullKeyOfReversedPath up
      in if length prefix > 0 then prefix @ CHR ''.'' # keyStr else keyStr)"

definition GetFullKeyString :: "string list \<Rightarrow> string" where
  "GetFullKeyString csv = fullKeyOfReversedPath (rev csv)"

definition loseConsistency :: "int \<Rightarrow> StoreValue \<Rightarrow> StoreValue" where
  "loseConsistency lossTime i =
     (if lossTime > storeConsistencyWithKVLossTime i
      then i\<lparr>storeConsistencyWithKVLossTime := lossTime\<rparr> else i)"

fun loseAlongReversedPath :: "string list \<Rightarrow> int \<Rightarrow> node \<Rightarrow> node" where
  "loseAlongReversedPath [] lossTime r = upd_info [] (loseConsistency lossTime) r"
| "loseAlongReversedPath (k # up) lossTime r =
     loseAlongReversedPath up lossTime (upd_info (rev (k # up)) (loseConsistency lossTime) r)"

definition ConsistencyLoss :: "string list \<Rightarrow> int \<Rightarrow> node \<Rightarrow> node" where
  "ConsistencyLoss csv lossTime r = loseAlongReversedPath (rev csv) lossTime r"

definition LoadChild :: "string list \<Rightarrow> string \<Rightarrow> 'kv Store \<Rightarrow> string list option" where
  "LoadChild csv key cs =
     (if node_at (rootValue cs) (csv @ [key]) = None then None else Some (csv @ [key]))"

definition StoreChild :: "string list \<Rightarrow> string \<Rightarrow> StoreValue \<Rightarrow> 'kv Store \<Rightarrow> 'kv Store" where
  "StoreChild csv key child cs =
     cs\<lparr>rootValue := upd_info csv (notifySubscribers key (value child))
          (upd_at csv (add_child key (Node child [])) (rootValue cs))\<rparr>"

definition notifyParent :: "string list \<Rightarrow> bytes option \<Rightarrow> node \<Rightarrow> node" where
  "notifyParent csv v r =
     (if csv = [] then r else upd_info (butlast csv) (notifySubscribers (last csv) v) r)"

definition Put :: "('j, 'kv) env \<Rightarrow> string list \<Rightarrow> bytes \<Rightarrow> bool \<Rightarrow> int \<Rightarrow> 'kv Store \<Rightarrow> 'kv Store" where
  "Put E csv v updInKV customPutTime cs =
     (case orCurrentTime E customPutTime cs of (t, cs) \<Rightarrow>
        cs\<lparr>rootValue := notifyParent csv (Some v)
          (upd_info csv (\<lambda>i. i\<lparr>value := Some v, valueExists := True, purgeState := 0,
             valueUpdateTime := t, syncNeeded := updInKV, syncedWithKV := \<not> updInKV\<rparr>) (rootValue cs))\<rparr>)"

definition Delete :: "('j, 'kv) env \<Rightarrow> string list \<Rightarrow> bool \<Rightarrow> int \<Rightarrow> 'kv Store \<Rightarrow> 'kv Store" where
  "Delete E csv updInKV customDeleteTime cs =
     (case orCurrentTime E customDeleteTime cs of (t, cs) \<Rightarrow>
        cs\<lparr>rootValue := notifyParent csv None
          (upd_info csv (\<lambda>i. i\<lparr>value := None, valueExists := False, valueUpdateTime := t,
             purgeState := (if updInKV then 1 else 2), syncNeeded := updInKV,
             syncedWithKV := \<not> updInKV\<rparr>) (rootValue cs))\<rparr>)"

definition TryPurgeReady :: "StoreValue \<Rightarrow> bool \<times> StoreValue" where
  "TryPurgeReady i = (if purgeState i = 0 then (True, i\<lparr>purgeState := 1\<rparr>) else (False, i))"

definition TryPurgeConfirm :: "StoreValue \<Rightarrow> bool \<times> StoreValue" where
  "TryPurgeConfirm i =
     (if \<not> syncNeeded i \<and> syncedWithKV i \<and> purgeState i = 1 then (True, i\<lparr>purgeState := 2\<rparr>)
      else (False, i))"

definition tryPurge :: "StoreValue \<Rightarrow> StoreValue" where
  "tryPurge i = snd (TryPurgeConfirm (snd (TryPurgeReady i)))"

text \<open>
  \<open>collectGarbage\<close> unlinks a value that is purged, synchronised, without children and
  without subscribers, and starts the collection of its parent in a goroutine.
\<close>

definition collectGarbage :: "string list \<Rightarrow> 'kv Store \<Rightarrow> 'kv Store" where
  "collectGarbage csv cs =
     (case node_at (rootValue cs) csv of None \<Rightarrow> cs
      | Some n \<Rightarrow>
         (let i = (if \<not> valueExists (info n) \<and> store n = [] \<and> syncedWithKV (info n)
                   then tryPurge (info n) else info n);
              cs = cs\<lparr>rootValue := upd_info csv (\<lambda>_. i) (rootValue cs)\<rparr>;
              noNotifySubscribers = (notifyUpdates i = []);
              canBeDeletedFromParent = (purgeState i = 2 \<and> store n = [] \<and> \<not> syncNeeded i \<and>
                 syncedWithKV i \<and> noNotifySubscribers)
          in if csv \<noteq> [] \<and> canBeDeletedFromParent
             then cs\<lparr>rootValue := upd_at (butlast csv) (del_child (last csv)) (rootValue cs),
                     goroutines := goroutines cs @ [butlast csv]\<rparr>
             else cs))"

section \<open>Walking down the tree\<close>

definition newInnerValue :: "int \<Rightarrow> StoreValue" where
  "newInnerValue t = \<lparr>value = None, valueExists = False, purgeState = 0,
     storeConsistencyWithKVLossTime = 0, valueUpdateTime = t, notifyUpdates = [],
     syncNeeded = False, syncedWithKV = True\<rparr>"

definition newLeafValue :: "bytes \<Rightarrow> bool \<Rightarrow> int \<Rightarrow> StoreValue" where
  "newLeafValue v updInKV t = \<lparr>value = Some v, valueExists = True, purgeState = 0,
     storeConsistencyWithKVLossTime = 0, valueUpdateTime = t, notifyUpdates = [],
     syncNeeded = updInKV, syncedWithKV = \<not> updInKV\<rparr>"

fun walkTokens ::
  "('j, 'kv) env \<Rightarrow> bool \<Rightarrow> string list \<Rightarrow> string list \<Rightarrow> 'kv Store \<Rightarrow> string list option \<times> 'kv Store" where
  "walkTokens E createIfNotexists level [] cs = (Some level, cs)"
| "walkTokens E createIfNotexists level (t # ts) cs =
     (case LoadChild level t cs of
        Some csv \<Rightarrow> walkTokens E createIfNotexists csv ts cs
      | None \<Rightarrow>
         (if createIfNotexists then
            (case GetCurrentTimeNs E cs of (now, cs) \<Rightarrow>
               walkTokens E createIfNotexists (level @ [t]) ts (StoreChild level t (newInnerValue now) cs))
          else (None, cs)))"

definition getLastKeyTokenAndItsParentCacheStoreValue ::
  "('j, 'kv) env \<Rightarrow> string \<Rightarrow> bool \<Rightarrow> 'kv Store \<Rightarrow> (string \<times> string list option) \<times> 'kv Store" where
  "getLastKeyTokenAndItsParentCacheStoreValue E key createIfNotexists cs =
     (let tokens = split_dot key
      in (case walkTokens E createIfNotexists [] (butlast tokens) cs of
            (None, cs) \<Rightarrow> (([], None), cs)
          | (Some level, cs) \<Rightarrow> ((last tokens, Some level), cs)))"

fun walkExisting :: "'kv Store \<Rightarrow> string list \<Rightarrow> string list \<Rightarrow> string list" where
  "walkExisting cs level [] = level"
| "walkExisting cs level (t # ts) =
     (case LoadChild level t cs of None \<Rightarrow> level | Some csv \<Rightarrow> walkExisting cs csv ts)"

definition getLastExistingCacheStoreValueByKey :: "string \<Rightarrow> 'kv Store \<Rightarrow> string list" where
  "getLastExistingCacheStoreValueByKey key cs = walkExisting cs [] (butlast (split_dot key))"

fun walkAll :: "'kv Store \<Rightarrow> string list \<Rightarrow> string list \<Rightarrow> string list option" where
  "walkAll cs level [] = Some level"
| "walkAll cs level (t # ts) =
     (case LoadChild level t cs of None \<Rightarrow> None | Some csv \<Rightarrow> walkAll cs csv ts)"

definition getLastKeyCacheStoreValue :: "string \<Rightarrow> 'kv Store \<Rightarrow> string list option" where
  "getLastKeyCacheStoreValue key cs = walkAll cs [] (split_dot key)"

text \<open>The test \<open>len(keyLastToken) > 0 && parentCacheStoreValue != nil\<close> of the callers.\<close>

definition usableParent :: "string \<times> string list option \<Rightarrow> (string \<times> string list) option" where
  "usableParent tp = (case tp of (token, Some level) \<Rightarrow> (if length token > 0 then Some (token, level) else None)
     | (token, None) \<Rightarrow> None)"

section \<open>Writing values\<close>

definition appendOperator :: "TransactionOperator \<Rightarrow> string \<Rightarrow> 'kv Store \<Rightarrow> 'kv Store" where
  "appendOperator op transactionID cs =
     (case map_of (transactions cs) transactionID of
        None \<Rightarrow> cs
      | Some tr \<Rightarrow> cs\<lparr>transactions :=
           AList.update transactionID (tr\<lparr>operators := operators tr @ [op]\<rparr>) (transactions cs)\<rparr>)"

definition SetValue ::
  "('j, 'kv) env \<Rightarrow> string \<Rightarrow> bytes \<Rightarrow> bool \<Rightarrow> int \<Rightarrow> string \<Rightarrow> 'kv Store \<Rightarrow> bool \<times> 'kv Store" where
  "SetValue E key v updInKV customSetTime transactionID cs =
     (if \<not> valid_key key then (False, cs)
      else (case orCurrentTime E customSetTime cs of (t, cs) \<Rightarrow>
        (if length transactionID = 0 then
           (case getLastKeyTokenAndItsParentCacheStoreValue E key True cs of (tp, cs) \<Rightarrow>
              (case usableParent tp of
                 None \<Rightarrow> (True, cs)
               | Some (keyLastToken, parent) \<Rightarrow>
                  (case LoadChild parent keyLastToken cs of
                     Some csv \<Rightarrow> (True, Put E csv v updInKV t cs)
                   | None \<Rightarrow> (True, StoreChild parent keyLastToken (newLeafValue v updInKV t) cs))))
         else (True, appendOperator \<lparr>operatorType = 0, op_key = key, op_value = v,
                 updateInKV = updInKV, customTime = t\<rparr> transactionID cs))))"

definition SetValueIfDoesNotExist ::
  "('j, 'kv) env \<Rightarrow> string \<Rightarrow> bytes \<Rightarrow> bool \<Rightarrow> int \<Rightarrow> 'kv Store \<Rightarrow> bool \<times> 'kv Store" where
  "SetValueIfDoesNotExist E key v updInKV customSetTime cs =
     (if \<not> valid_key key then (False, cs)
      else (case orCurrentTime E customSetTime cs of (t, cs) \<Rightarrow>
        (case getLastKeyTokenAndItsParentCacheStoreValue E key True cs of (tp, cs) \<Rightarrow>
           (case usableParent tp of
              None \<Rightarrow> (False, cs)
            | Some (keyLastToken, parent) \<Rightarrow>
               (case LoadChild parent keyLastToken cs of
                  Some csv \<Rightarrow>
                   (case info_at (rootValue cs) csv of
                      Some i \<Rightarrow> (if value i = None \<and> \<not> valueExists i
                                then (True, Put E csv v updInKV t cs) else (False, cs))
                    | None \<Rightarrow> (False, cs))
                | None \<Rightarrow> (True, StoreChild parent keyLastToken (newLeafValue v updInKV t) cs))))))"

definition DeleteValue ::
  "('j, 'kv) env \<Rightarrow> string \<Rightarrow> bool \<Rightarrow> int \<Rightarrow> string \<Rightarrow> 'kv Store \<Rightarrow> 'kv Store" where
  "DeleteValue E key updInKV customDeleteTime transactionID cs =
     (case orCurrentTime E customDeleteTime cs of (t, cs) \<Rightarrow>
        (if length transactionID = 0 then
           (case getLastKeyTokenAndItsParentCacheStoreValue E key False cs of (tp, cs) \<Rightarrow>
              (case usableParent tp of
                 None \<Rightarrow> cs
               | Some (keyLastToken, parent) \<Rightarrow>
                  (case LoadChild parent keyLastToken cs of
                     Some csv \<Rightarrow>
                      (case info_at (rootValue cs) csv of
                         Some i \<Rightarrow> (if valueExists i then Delete E csv updInKV t cs else cs)
                       | None \<Rightarrow> cs)
                   | None \<Rightarrow> cs)))
         else appendOperator \<lparr>operatorType = 1, op_key = key, op_value = [],
                updateInKV = updInKV, customTime = t\<rparr> transactionID cs))"

section \<open>Reading values\<close>

definition GetValueUpdateTime :: "('j, 'kv) env \<Rightarrow> string \<Rightarrow> 'kv Store \<Rightarrow> int" where
  "GetValueUpdateTime E key cs =
     (case usableParent (fst (getLastKeyTokenAndItsParentCacheStoreValue E key False cs)) of
        None \<Rightarrow> -1
      | Some (keyLastToken, parent) \<Rightarrow>
         (case info_at (rootValue cs) (parent @ [keyLastToken]) of
            Some i \<Rightarrow> (if valueExists i then valueUpdateTime i else -1)
          | None \<Rightarrow> -1))"

definition ErrValueDoesNotExist :: "string \<Rightarrow> string" where
  "ErrValueDoesNotExist key = ''Value for for key='' @ key @ '' does not exist''"

definition cachedValue :: "('j, 'kv) env \<Rightarrow> string \<Rightarrow> 'kv Store \<Rightarrow> (string + bytes) option" where
  "cachedValue E key cs =
     (case usableParent (fst (getLastKeyTokenAndItsParentCacheStoreValue E key False cs)) of
        None \<Rightarrow> None
      | Some (keyLastToken, parent) \<Rightarrow>
         (case info_at (rootValue cs) (parent @ [keyLastToken]) of
            None \<Rightarrow> None
          | Some i \<Rightarrow> Some (if valueExists i then Inr (case value i of None \<Rightarrow> [] | Some v \<Rightarrow> v)
                           else Inl (ErrValueDoesNotExist key))))"

definition GetValue :: "('j, 'kv) env \<Rightarrow> string \<Rightarrow> 'kv Store \<Rightarrow> (string + bytes) \<times> 'kv Store" where
  "GetValue E key cs =
     (case cachedValue E key cs of
        Some res \<Rightarrow> (res, cs)
      | None \<Rightarrow>
         (case kv_Get (nk E) (toStoreKey cs key) (cs_kv cs) of
            Inl err \<Rightarrow> (Inl err, cs)
          | Inr (valueBytes, revision) \<Rightarrow>
             (if length valueBytes < 9 then (Inl ''slice bounds out of range'', cs\<lparr>panicked := True\<rparr>)
              else
                (let key' = fromStoreKey cs (toStoreKey cs key);
                     result = drop 9 valueBytes;
                     appendFlag = valueBytes ! 8;
                     kvRecordTime = int64_of (be_get64 (take 8 valueBytes))
                 in if appendFlag = 1 then (Inr result, snd (SetValue E key' result False kvRecordTime [] cs))
                    else (Inr result, cs)))))"

definition GetValueAsJSON :: "('j, 'kv) env \<Rightarrow> string \<Rightarrow> 'kv Store \<Rightarrow> (string + 'j) \<times> 'kv Store" where
  "GetValueAsJSON E key cs =
     (case GetValue E key cs of
        (Inr v, cs) \<Rightarrow>
          (case JSONFromBytes (ej E) v of
             Some j \<Rightarrow> (Inr j, cs)
           | None \<Rightarrow> (Inl (''Value for key='' @ key @ '' is not a JSON''), cs))
      | (Inl err, cs) \<Rightarrow> (Inl err, cs))"

section \<open>Transactions\<close>

definition TransactionBegin :: "string \<Rightarrow> 'kv Store \<Rightarrow> 'kv Store" where
  "TransactionBegin transactionID cs =
     cs\<lparr>transactions := AList.update transactionID
          (case map_of (transactions cs) transactionID of
             Some tr \<Rightarrow> tr\<lparr>beginCounter := beginCounter tr + 1\<rparr>
           | None \<Rightarrow> \<lparr>operators = [], beginCounter = 1\<rparr>) (transactions cs)\<rparr>"

definition runOperator :: "('j, 'kv) env \<Rightarrow> TransactionOperator \<Rightarrow> 'kv Store \<Rightarrow> 'kv Store" where
  "runOperator E op cs =
     (if operatorType op = 0 then snd (SetValue E (op_key op) (op_value op) (updateInKV op) (customTime op) [] cs)
      else if operatorType op = 1 then DeleteValue E (op_key op) (updateInKV op) (customTime op) [] cs
      else cs)"

definition TransactionEnd :: "('j, 'kv) env \<Rightarrow> string \<Rightarrow> 'kv Store \<Rightarrow> 'kv Store" where
  "TransactionEnd E transactionID cs =
     (case map_of (transactions cs) transactionID of
        None \<Rightarrow> cs
      | Some tr \<Rightarrow>
         (let tr = tr\<lparr>beginCounter := beginCounter tr - 1\<rparr>;
              cs = cs\<lparr>transactions := AList.update transactionID tr (transactions cs)\<rparr>
          in if beginCounter tr = 0
             then (let cs = fold (runOperator E) (operators tr) cs
                   in cs\<lparr>transactions := AList.delete transactionID (transactions cs)\<rparr>)
             else cs))"

section \<open>Level subscriptions\<close>

text \<open>
  The list kept for a subscription holds what has been sent into its channel. How the channel
  delivers it to the reader, and when it does not, is the subject of \<open>DimChannel\<close>; a run of
  a query (\<open>JPGRun\<close>) reads its notifications through that channel.
\<close>

definition SubscribeLevelCallback :: "('j, 'kv) env \<Rightarrow> string \<Rightarrow> string \<Rightarrow> 'kv Store \<Rightarrow> 'kv Store" where
  "SubscribeLevelCallback E key callbackID cs =
     (case getLastKeyTokenAndItsParentCacheStoreValue E key True cs of
        ((_, Some parent), cs) \<Rightarrow>
          cs\<lparr>rootValue := upd_info parent
               (\<lambda>i. i\<lparr>notifyUpdates := AList.update callbackID [] (notifyUpdates i)\<rparr>) (rootValue cs)\<rparr>
      | ((_, None), cs) \<Rightarrow> cs)"

definition UnsubscribeLevelCallback :: "('j, 'kv) env \<Rightarrow> string \<Rightarrow> string \<Rightarrow> 'kv Store \<Rightarrow> 'kv Store" where
  "UnsubscribeLevelCallback E key callbackID cs =
     (case getLastKeyTokenAndItsParentCacheStoreValue E key False cs of
        ((_, Some parent), cs) \<Rightarrow>
          cs\<lparr>rootValue := upd_info parent
               (\<lambda>i. i\<lparr>notifyUpdates := AList.delete callbackID (notifyUpdates i)\<rparr>) (rootValue cs)\<rparr>
      | ((_, None), cs) \<Rightarrow> cs)"

section \<open>Keys by pattern\<close>

fun kvEntries :: "(string \<times> bytes) option list \<Rightarrow> string list" where
  "kvEntries [] = []"
| "kvEntries (None # es) = []"
| "kvEntries (Some (k, v) # es) = (if 9 \<le> length v then k # kvEntries es else [])"

definition appendKeysFromKV :: "('j, 'kv) env \<Rightarrow> string \<Rightarrow> 'kv Store \<Rightarrow> string list \<Rightarrow> string list" where
  "appendKeysFromKV E pattern cs keys =
     (case kv_Watch (nk E) (toStoreKey cs pattern) (cs_kv cs) of
        Inl err \<Rightarrow> keys
      | Inr updates \<Rightarrow> fold (\<lambda>k. List.insert (fromStoreKey cs k)) (kvEntries updates) keys)"

definition restoreConsistency :: "string list \<Rightarrow> int \<Rightarrow> 'kv Store \<Rightarrow> 'kv Store" where
  "restoreConsistency csv old cs =
     cs\<lparr>rootValue := upd_info csv (\<lambda>i. if storeConsistencyWithKVLossTime i = old
          then i\<lparr>storeConsistencyWithKVLossTime := 0\<rparr> else i) (rootValue cs)\<rparr>"

type_synonym dfs_entry = "string list \<times> node \<times> string \<times> nat"

definition dfsChildren :: "dfs_entry \<Rightarrow> dfs_entry list" where
  "dfsChildren e = (case e of (csv, n, suffix, depth) \<Rightarrow>
     map (\<lambda>(k, c). (csv @ [k], c, if depth = 0 then suffix @ k else suffix @ CHR ''.'' # k, depth + 1)) (store n))"

definition insertIfValue :: "dfs_entry \<Rightarrow> string list \<Rightarrow> string list" where
  "insertIfValue e keys = (case e of (csv, n, suffix, depth) \<Rightarrow>
     if valueExists (info n) then List.insert suffix keys else keys)"

definition dfsWeight :: "dfs_entry list \<Rightarrow> nat" where
  "dfsWeight stack = sum_list (map (\<lambda>(csv, n, suffix, depth). node_count n) stack)"

lemma dfsWeight_append [simp]: "dfsWeight (a @ b) = dfsWeight a + dfsWeight b"
  by (simp add: dfsWeight_def)

lemma dfsWeight_rev [simp]: "dfsWeight (rev a) = dfsWeight a"
  by (simp add: dfsWeight_def sum_list_rev flip: rev_map)

lemma dfsWeight_Cons [simp]: "dfsWeight ((csv, n, suffix, depth) # a) = node_count n + dfsWeight a"
  by (simp add: dfsWeight_def)

lemma dfsWeight_children: "dfsWeight (dfsChildren (csv, n, suffix, depth)) < node_count n"
proof (cases n)
  case (Node i cs)
  have "dfsWeight (map (\<lambda>(k, c). (csv @ [k], c, if depth = 0 then suffix @ k else suffix @ CHR ''.'' # k, depth + 1)) cs)
      = sum_list (map (\<lambda>(k, c). node_count c) cs)"
    by (induction cs) (auto simp: dfsWeight_def)
  with Node show ?thesis by (simp add: dfsChildren_def)
qed

function dfsPattern ::
  "dfs_entry list \<Rightarrow> string list \<Rightarrow> (string list \<times> int) list \<Rightarrow> string list \<times> (string list \<times> int) list" where
  "dfsPattern [] keys lost = (keys, lost)"
| "dfsPattern ((csv, n, suffix, depth) # stack) keys lost =
     (let lossTime = storeConsistencyWithKVLossTime (info n);
          lost = (if lossTime > 0 then lost @ [(csv, lossTime)] else lost);
          children = dfsChildren (csv, n, suffix, depth)
      in dfsPattern (rev children @ stack) (fold insertIfValue children keys) lost)"
  by pat_completeness auto
termination
  by (relation "measure (\<lambda>(stack, keys, lost). dfsWeight stack)") (auto simp: dfsWeight_children)

definition keysOfLevel :: "('j, 'kv) env \<Rightarrow> string \<Rightarrow> string list \<Rightarrow> node \<Rightarrow> 'kv Store \<Rightarrow> string list \<times> 'kv Store" where
  "keysOfLevel E pattern parent n cs =
     (let keyWithoutLastToken = butlast pattern;
          lossTime = storeConsistencyWithKVLossTime (info n);
          childrenConsistent = list_all (\<lambda>(k, c). storeConsistencyWithKVLossTime (info c) \<le> 0) (store n);
          keys = fold (\<lambda>(k, c) ks. if valueExists (info c) then List.insert (keyWithoutLastToken @ k) ks else ks)
                   (store n) []
      in if lossTime > 0
         then (let keysAfter = appendKeysFromKV E pattern cs keys
               in (keysAfter, if length keys = length keysAfter \<and> childrenConsistent
                              then restoreConsistency parent lossTime cs else cs))
         else (keys, cs))"

definition keysOfSubtree :: "('j, 'kv) env \<Rightarrow> string \<Rightarrow> string list \<Rightarrow> node \<Rightarrow> 'kv Store \<Rightarrow> string list \<times> 'kv Store" where
  "keysOfSubtree E pattern parent n cs =
     (case dfsPattern [(parent, n, butlast pattern, 0)] [] [] of (keys, lost) \<Rightarrow>
        (if lost \<noteq> []
         then (let keysAfter = appendKeysFromKV E pattern cs keys
               in (keysAfter, if length keys = length keysAfter
                              then fold (\<lambda>(csv, t). restoreConsistency csv t) lost cs else cs))
         else (keys, cs)))"

definition GetKeysByPattern :: "('j, 'kv) env \<Rightarrow> string \<Rightarrow> 'kv Store \<Rightarrow> string list \<times> 'kv Store" where
  "GetKeysByPattern E pattern cs =
     (case (case usableParent (fst (getLastKeyTokenAndItsParentCacheStoreValue E pattern False cs)) of
              Some (keyLastToken, parent) \<Rightarrow>
               (case node_at (rootValue cs) parent of
                  None \<Rightarrow> ([], cs)
                | Some n \<Rightarrow>
                   (if keyLastToken = ''*'' then keysOfLevel E pattern parent n cs
                    else if keyLastToken = ''>'' then keysOfSubtree E pattern parent n cs
                    else
                      (let keys = (if LoadChild parent keyLastToken cs \<noteq> None then [pattern] else [])
                       in (if storeConsistencyWithKVLossTime (info n) > 0
                           then appendKeysFromKV E pattern cs keys else keys, cs))))
            | None \<Rightarrow>
               (case info_at (rootValue cs) (getLastExistingCacheStoreValueByKey pattern cs) of
                  None \<Rightarrow> ([], cs)
                | Some i \<Rightarrow> (if storeConsistencyWithKVLossTime i > 0
                            then appendKeysFromKV E pattern cs [] else [], cs)))
      of (keys, cs) \<Rightarrow> (mapOrder E keys, cs))"

end
