(* ===== verification/CacheFrames.thy ===== *)
theory CacheFrames
  imports CacheStore
begin

text \<open>
  What the operations of the cache store do to its tree: each one changes the scalar fields of the
  values (\<open>core_at\<close>) by a map update, after a growth of the tree by inner values, and leaves
  the rest of the store alone.
\<close>

section \<open>Growth by inner values\<close>

definition same_frame :: "'kv Store \<Rightarrow> 'kv Store \<Rightarrow> bool" where
  "same_frame cs cs' \<longleftrightarrow> cs' = cs\<lparr>rootValue := rootValue cs', ticks := ticks cs'\<rparr>"

definition grows :: "'kv Store \<Rightarrow> 'kv Store \<Rightarrow> bool" where
  "grows cs cs' \<longleftrightarrow> same_frame cs cs' \<and>
     (\<forall>p. core_at (rootValue cs') p = core_at (rootValue cs) p \<or>
        core_at (rootValue cs) p = None \<and> list_all dot_free p \<and>
          (\<exists>t. core_at (rootValue cs') p = Some (newInnerValue t)))"

lemma same_frame_refl [simp]: "same_frame cs cs"
  by (simp add: same_frame_def)

lemma same_frame_trans: "same_frame a b \<Longrightarrow> same_frame b c \<Longrightarrow> same_frame a c"
  unfolding same_frame_def by (metis Store.surjective Store.update_convs(3,8))

lemma same_frameD:
  assumes "same_frame cs cs'"
  shows "cacheConfig cs' = cacheConfig cs" "cs_kv cs' = cs_kv cs" "transactions cs' = transactions cs"
    "panicked cs' = panicked cs" "goroutines cs' = goroutines cs" "inited cs' = inited cs"
    "lruTresholdTime cs' = lruTresholdTime cs" "valuesInCache cs' = valuesInCache cs"
  using assms unfolding same_frame_def by (metis Store.ext_inject Store.surjective Store.update_convs(3,8))+

lemma same_frame_root [simp]: "same_frame cs (cs\<lparr>rootValue := r\<rparr>)"
  and same_frame_ticks [simp]: "same_frame cs (cs\<lparr>ticks := n\<rparr>)"
  by (simp_all add: same_frame_def)

lemma same_frame_StoreChild [simp]: "same_frame cs (StoreChild p k i cs)"
  by (simp add: StoreChild_def)

lemma same_frame_orCurrentTime: "orCurrentTime E t cs = (t', cs') \<Longrightarrow> same_frame cs cs'"
  by (auto simp: orCurrentTime_def GetCurrentTimeNs_def split: if_splits)

lemma orCurrentTime_root: "orCurrentTime E t cs = (t', cs') \<Longrightarrow> rootValue cs' = rootValue cs"
  by (auto simp: orCurrentTime_def GetCurrentTimeNs_def split: if_splits)

lemma orCurrentTime_pos: "env_ok E \<Longrightarrow> orCurrentTime E t cs = (t', cs') \<Longrightarrow> 0 \<le> t'"
  using env_clock_pos[of E "ticks cs"]
  by (auto simp: orCurrentTime_def GetCurrentTimeNs_def split: if_splits)

lemma orCurrentTime_nonneg [simp]: "0 \<le> t \<Longrightarrow> orCurrentTime E t cs = (t, cs)"
  by (simp add: orCurrentTime_def)

lemma grows_refl [simp]: "grows cs cs"
  by (simp add: grows_def)

lemma grows_trans: "grows a b \<Longrightarrow> grows b c \<Longrightarrow> grows a c"
  unfolding grows_def using same_frame_trans by metis

lemma grows_frame: "grows cs cs' \<Longrightarrow> same_frame cs cs'"
  by (simp add: grows_def)

lemma grows_node: "grows cs cs' \<Longrightarrow> node_at (rootValue cs) p \<noteq> None \<Longrightarrow> node_at (rootValue cs') p \<noteq> None"
  unfolding grows_def using core_at_None by metis

lemma grows_core: "grows cs cs' \<Longrightarrow> core_at (rootValue cs) p \<noteq> None \<Longrightarrow> core_at (rootValue cs') p \<noteq> None"
  unfolding grows_def by metis

lemma newInnerValue_sel [simp]:
  "valueExists (newInnerValue t) = False" "storeConsistencyWithKVLossTime (newInnerValue t) = 0"
  "core (newInnerValue t) = newInnerValue t" "syncNeeded (newInnerValue t) = False"
  by (simp_all add: newInnerValue_def core_def)

lemma newLeafValue_core [simp]: "core (newLeafValue v u t) = newLeafValue v u t"
  by (simp add: newLeafValue_def core_def)

lemma LoadChild_Some: "LoadChild p k cs = Some q \<longleftrightarrow> node_at (rootValue cs) (p @ [k]) \<noteq> None \<and> q = p @ [k]"
  by (auto simp: LoadChild_def)

lemma LoadChild_None: "LoadChild p k cs = None \<longleftrightarrow> node_at (rootValue cs) (p @ [k]) = None"
  by (auto simp: LoadChild_def)

lemma core_at_StoreChild:
  assumes "node_at (rootValue cs) p \<noteq> None" and "LoadChild p k cs = None"
  shows "core_at (rootValue (StoreChild p k i cs)) = (core_at (rootValue cs))(p @ [k] \<mapsto> core i)"
proof -
  from assms obtain n where "node_at (rootValue cs) p = Some n" "map_of (store n) k = None"
    by (auto simp: LoadChild_None node_at_snoc)
  from core_at_add_child[OF this] show ?thesis by (simp add: StoreChild_def)
qed

lemma node_at_StoreChild:
  assumes "node_at (rootValue cs) p \<noteq> None" and "LoadChild p k cs = None"
  shows "node_at (rootValue (StoreChild p k i cs)) q = None \<longleftrightarrow> node_at (rootValue cs) q = None \<and> q \<noteq> p @ [k]"
  using core_at_StoreChild[OF assms, of i] core_at_None
  by (metis fun_upd_apply option.distinct(1))

section \<open>Walking\<close>

lemma walkTokens_False:
  "node_at (rootValue cs) level \<noteq> None \<Longrightarrow> walkTokens E False level ts cs =
     (if node_at (rootValue cs) (level @ ts) = None then None else Some (level @ ts), cs)"
proof (induction ts arbitrary: level)
  case (Cons t ts)
  show ?case
  proof (cases "LoadChild level t cs")
    case None
    then have "node_at (rootValue cs) (level @ t # ts) = None"
      using node_at_prefix_None[of "rootValue cs" "level @ [t]" ts] by (simp add: LoadChild_None)
    with None show ?thesis by simp
  next
    case (Some q)
    with Cons.IH[of "level @ [t]"] show ?thesis by (simp add: LoadChild_Some[THEN iffD1, OF Some])
  qed
qed auto

lemma walkTokens_True:
  "node_at (rootValue cs) level \<noteq> None \<Longrightarrow> list_all dot_free (level @ ts) \<Longrightarrow> \<exists>cs'. walkTokens E True level ts cs = (Some (level @ ts), cs') \<and>
     grows cs cs' \<and> node_at (rootValue cs') (level @ ts) \<noteq> None"
proof (induction ts arbitrary: level cs)
  case (Cons t ts)
  show ?case
  proof (cases "LoadChild level t cs")
    case None
    let ?c0 = "snd (GetCurrentTimeNs E cs)"
    let ?now = "fst (GetCurrentTimeNs E cs)"
    let ?c1 = "StoreChild level t (newInnerValue ?now) ?c0"
    have c0: "rootValue ?c0 = rootValue cs" by (simp add: GetCurrentTimeNs_def)
    have pre: "node_at (rootValue ?c0) level \<noteq> None" "LoadChild level t ?c0 = None"
      using Cons.prems(1) None c0 by (simp_all add: LoadChild_None)
    have "same_frame cs ?c0" by (simp add: GetCurrentTimeNs_def)
    then have "same_frame cs ?c1" by (rule same_frame_trans) simp
    moreover have "core_at (rootValue cs) (level @ [t]) = None" using None by (simp add: LoadChild_None)
    ultimately have g: "grows cs ?c1"
      unfolding grows_def core_at_StoreChild[OF pre] using Cons.prems(2) by (auto simp: c0)
    have "node_at (rootValue ?c1) (level @ [t]) \<noteq> None" by (simp add: node_at_StoreChild[OF pre])
    moreover have "list_all dot_free ((level @ [t]) @ ts)" using Cons.prems(2) by simp
    ultimately obtain cs' where "walkTokens E True (level @ [t]) ts ?c1 = (Some ((level @ [t]) @ ts), cs')"
      "grows ?c1 cs'" "node_at (rootValue cs') ((level @ [t]) @ ts) \<noteq> None" using Cons.IH by blast
    with None g show ?thesis by (auto simp: case_prod_beta intro: grows_trans)
  next
    case (Some q)
    then have q: "q = level @ [t]" "node_at (rootValue cs) (level @ [t]) \<noteq> None"
      by (auto simp: LoadChild_Some)
    with Cons.IH[OF q(2)] Cons.prems(2) Some show ?thesis by simp
  qed
qed auto

lemma root_node [simp]: "node_at r [] \<noteq> None"
  by simp

lemma split_butlast_last: "split_dot key = butlast (split_dot key) @ [last (split_dot key)]"
  by simp

lemma parent_lookup:
  "getLastKeyTokenAndItsParentCacheStoreValue E key False cs =
     (if node_at (rootValue cs) (butlast (split_dot key)) = None then ([], None)
      else (last (split_dot key), Some (butlast (split_dot key))), cs)"
  by (auto simp: getLastKeyTokenAndItsParentCacheStoreValue_def walkTokens_False Let_def)

lemma split_dot_free_tokens: "list_all dot_free (split_dot key)"
  using split_on_token_free by (auto simp: list_all_iff dot_free_def)

lemma parent_create:
  obtains cs' where "getLastKeyTokenAndItsParentCacheStoreValue E key True cs =
      ((last (split_dot key), Some (butlast (split_dot key))), cs')"
    and "grows cs cs'" and "node_at (rootValue cs') (butlast (split_dot key)) \<noteq> None"
proof -
  have "list_all dot_free (butlast (split_dot key))"
    using split_dot_free_tokens[of key] by (metis append_butlast_last_id list_all_append split_on_not_Nil)
  then obtain cs' where "walkTokens E True [] (butlast (split_dot key)) cs = (Some (butlast (split_dot key)), cs')"
    "grows cs cs'" "node_at (rootValue cs') (butlast (split_dot key)) \<noteq> None"
    using walkTokens_True[of cs "[]" "butlast (split_dot key)" E] by auto
  then show ?thesis
    by (intro that[of cs']) (simp_all add: getLastKeyTokenAndItsParentCacheStoreValue_def Let_def)
qed

lemma node_below_None:
  "node_at r (butlast (split_dot key)) = None \<Longrightarrow> node_at r (split_dot key) = None"
  by (rule ccontr) (metis append_butlast_last_id node_at_prefix split_on_not_Nil)

text \<open>The value of a key that the code sees through its parent.\<close>

definition cached :: "'kv Store \<Rightarrow> string \<Rightarrow> StoreValue option" where
  "cached cs key = (if last (split_dot key) = [] then None else core_at (rootValue cs) (split_dot key))"

lemma cachedValue_eq:
  "cachedValue E key cs = (case cached cs key of None \<Rightarrow> None
     | Some i \<Rightarrow> Some (if valueExists i then Inr (case value i of None \<Rightarrow> [] | Some v \<Rightarrow> v)
                     else Inl (ErrValueDoesNotExist key)))"
proof (cases "node_at (rootValue cs) (butlast (split_dot key)) = None")
  case True
  then have "node_at (rootValue cs) (split_dot key) = None" by (rule node_below_None)
  with True show ?thesis
    by (simp add: cachedValue_def parent_lookup usableParent_def cached_def core_at_def info_at_def)
next
  case False
  then show ?thesis
    by (auto simp: cachedValue_def parent_lookup usableParent_def cached_def core_at_def info_at_def
        split: option.splits)
qed

lemma GetValueUpdateTime_eq:
  "GetValueUpdateTime E key cs = (case cached cs key of None \<Rightarrow> -1
     | Some i \<Rightarrow> (if valueExists i then valueUpdateTime i else -1))"
proof (cases "node_at (rootValue cs) (butlast (split_dot key)) = None")
  case True
  then have "node_at (rootValue cs) (split_dot key) = None" by (rule node_below_None)
  with True show ?thesis
    by (simp add: GetValueUpdateTime_def parent_lookup usableParent_def cached_def core_at_def info_at_def)
next
  case False
  then show ?thesis
    by (auto simp: GetValueUpdateTime_def parent_lookup usableParent_def cached_def core_at_def info_at_def
        split: option.splits)
qed

section \<open>Writing\<close>

lemma notifyParent_core [simp]: "core_at (notifyParent csv v r) = core_at r"
  by (simp add: notifyParent_def)

lemma Put_core:
  assumes "0 \<le> t" and "node_at (rootValue cs) csv \<noteq> None"
  shows "\<exists>l. core_at (rootValue (Put E csv v u t cs)) = (core_at (rootValue cs))
       (csv \<mapsto> (newLeafValue v u t)\<lparr>storeConsistencyWithKVLossTime := l\<rparr>) \<and>
     map_option storeConsistencyWithKVLossTime (core_at (rootValue cs) csv) = Some l"
proof -
  from assms(2) obtain i where i: "core_at (rootValue cs) csv = Some i" "core i = i"
    by (auto simp: core_at_def info_at_def)
  show ?thesis
    using assms(1) i by (auto simp: Put_def newLeafValue_def core_def
        core_at_upd_info[of "\<lambda>i. i\<lparr>value := Some v, valueExists := True, purgeState := 0,
             valueUpdateTime := t, syncNeeded := u, syncedWithKV := \<not> u\<rparr>"])
qed

lemma Put_frame: "0 \<le> t \<Longrightarrow> same_frame cs (Put E csv v u t cs)"
  by (simp add: Put_def)

lemma Delete_frame: "0 \<le> t \<Longrightarrow> same_frame cs (Delete E csv u t cs)"
  by (simp add: Delete_def)

lemma Delete_core:
  assumes "0 \<le> t" and "core_at (rootValue cs) csv = Some i"
  shows "core_at (rootValue (Delete E csv u t cs)) = (core_at (rootValue cs))
       (csv \<mapsto> i\<lparr>value := None, valueExists := False, valueUpdateTime := t,
          purgeState := (if u then 1 else 2), syncNeeded := u, syncedWithKV := \<not> u\<rparr>)"
proof -
  from assms(2) have i: "core i = i" by (auto simp: core_at_def)
  then have n: "notifyUpdates i = []" by (metis StoreValue.select_convs(6) StoreValue.surjective StoreValue.update_convs(6) core_def)
  show ?thesis
    using assms n by (auto simp: Delete_def core_def
        core_at_upd_info[of "\<lambda>i. i\<lparr>value := None, valueExists := False, valueUpdateTime := t,
             purgeState := (if u then 1 else 2), syncNeeded := u, syncedWithKV := \<not> u\<rparr>"])
qed

lemma valid_key_last:
  assumes "valid_key key" and "key \<noteq> []"
  shows "last (split_dot key) \<noteq> []"
proof
  assume l: "last (split_dot key) = []"
  have "key = join_on CHR ''.'' (split_dot key)" by simp
  also have "\<dots> = join_on CHR ''.'' (butlast (split_dot key) @ [[]])"
    using l by (metis append_butlast_last_id split_on_not_Nil)
  finally have k: "key = join_on CHR ''.'' (butlast (split_dot key) @ [[]])" .
  have "xs \<noteq> [] \<Longrightarrow> \<exists>s. join_on CHR ''.'' (xs @ [[]]) = s @ [CHR ''.'']" for xs
  proof (induction xs)
    case (Cons x xs)
    then show ?case by (cases "xs = []") (auto simp: join_on_Cons)
  qed simp
  with k assms(2) have "last key = CHR ''.''"
    by (cases "butlast (split_dot key) = []") (metis append_Nil join_on.simps(2), metis last_snoc)
  with assms have "key_char CHR ''.''"
    unfolding valid_key_def by (metis last_in_set list_all_iff)
  then show False by (simp add: key_char_def)
qed

text \<open>The effect of a write of a valid key: growth, then one map update.\<close>

lemma SetValue_core:
  assumes "env_ok E" and "valid_key key" and "key \<noteq> []"
  obtains g cs' t' l where "SetValue E key v u t [] cs = (True, cs')" and "grows cs g"
    and "same_frame cs cs'"
    and "core_at (rootValue cs') = (core_at (rootValue g))
      (split_dot key \<mapsto> (newLeafValue v u t')\<lparr>storeConsistencyWithKVLossTime := l\<rparr>)"
    and "l = (case core_at (rootValue cs) (split_dot key) of None \<Rightarrow> 0 | Some i \<Rightarrow> storeConsistencyWithKVLossTime i)"
    and "t' = (if t < 0 then clock E (ticks cs) else t)"
proof -
  let ?tok = "last (split_dot key)" and ?par = "butlast (split_dot key)"
  have tok: "?tok \<noteq> []" using assms(2,3) by (rule valid_key_last)
  define t' where "t' = (if t < 0 then clock E (ticks cs) else t)"
  obtain c1 where c1: "orCurrentTime E t cs = (t', c1)"
    by (cases "orCurrentTime E t cs") (auto simp: t'_def orCurrentTime_def GetCurrentTimeNs_def split: if_splits)
  note t0 = orCurrentTime_pos[OF assms(1) c1]
  note f1 = same_frame_orCurrentTime[OF c1]
  have root1: "rootValue c1 = rootValue cs" using orCurrentTime_root[OF c1] .
  obtain g where look: "getLastKeyTokenAndItsParentCacheStoreValue E key True c1 = ((?tok, Some ?par), g)"
    and g1: "grows c1 g" and par: "node_at (rootValue g) ?par \<noteq> None"
    by (rule parent_create)
  have g: "grows cs g"
    using g1 f1 root1 same_frame_trans unfolding grows_def by metis
  have old: "core_at (rootValue g) (split_dot key) = core_at (rootValue cs) (split_dot key) \<or>
      core_at (rootValue cs) (split_dot key) = None \<and> list_all dot_free (split_dot key) \<and> (\<exists>t. core_at (rootValue g) (split_dot key) = Some (newInnerValue t))"
    using g unfolding grows_def by blast
  show ?thesis
  proof (cases "LoadChild ?par ?tok g")
    case None
    let ?cs' = "StoreChild ?par ?tok (newLeafValue v u t') g"
    have "SetValue E key v u t [] cs = (True, ?cs')"
      using assms(2) tok c1 look None by (simp add: SetValue_def usableParent_def)
    moreover have "same_frame cs ?cs'" using grows_frame[OF g] by (rule same_frame_trans) simp
    moreover have "core_at (rootValue g) (split_dot key) = None"
      using None by (simp add: LoadChild_None)
    with old have "core_at (rootValue cs) (split_dot key) = None" by auto
    moreover have "(newLeafValue v u t')\<lparr>storeConsistencyWithKVLossTime := 0\<rparr> = newLeafValue v u t'"
      by (simp add: newLeafValue_def)
    ultimately show ?thesis
      using core_at_StoreChild[OF par None, of "newLeafValue v u t'"]
      by (intro that[of ?cs' g 0 t', OF _ g]) (simp_all add: t'_def del: core_at_None)
  next
    case (Some q)
    then have q: "q = split_dot key" "node_at (rootValue g) (split_dot key) \<noteq> None"
      by (auto simp: LoadChild_Some)
    let ?cs' = "Put E (split_dot key) v u t' g"
    have "SetValue E key v u t [] cs = (True, ?cs')"
      using assms(2) tok c1 look Some q by (simp add: SetValue_def usableParent_def)
    moreover have "same_frame cs ?cs'"
      using grows_frame[OF g] Put_frame[OF t0] by (rule same_frame_trans)
    moreover from Put_core[OF t0 q(2), of E v u] obtain l where
      "core_at (rootValue ?cs') = (core_at (rootValue g))(split_dot key \<mapsto> (newLeafValue v u t')\<lparr>storeConsistencyWithKVLossTime := l\<rparr>)"
      "map_option storeConsistencyWithKVLossTime (core_at (rootValue g) (split_dot key)) = Some l" by blast
    moreover from this old have
      "l = (case core_at (rootValue cs) (split_dot key) of None \<Rightarrow> 0 | Some i \<Rightarrow> storeConsistencyWithKVLossTime i)"
      by (auto simp del: core_at_None split: option.splits)
    ultimately show ?thesis by (intro that[of ?cs' g l t', OF _ g]) (simp_all add: t'_def)
  qed
qed

text \<open>The effect of a deletion.\<close>

lemma DeleteValue_core:
  assumes "env_ok E"
  shows "same_frame cs (DeleteValue E key u t [] cs) \<and>
    (core_at (rootValue (DeleteValue E key u t [] cs)) =
     (case cached cs key of
        Some i \<Rightarrow> (if valueExists i then (core_at (rootValue cs))
            (split_dot key \<mapsto> i\<lparr>value := None, valueExists := False,
               valueUpdateTime := (if t < 0 then clock E (ticks cs) else t),
               purgeState := (if u then 1 else 2), syncNeeded := u, syncedWithKV := \<not> u\<rparr>)
          else core_at (rootValue cs))
      | None \<Rightarrow> core_at (rootValue cs)))"
proof -
  define t' where "t' = (if t < 0 then clock E (ticks cs) else t)"
  obtain c1 where c1: "orCurrentTime E t cs = (t', c1)"
    by (cases "orCurrentTime E t cs") (auto simp: t'_def orCurrentTime_def GetCurrentTimeNs_def split: if_splits)
  note t0 = orCurrentTime_pos[OF assms c1]
  note f1 = same_frame_orCurrentTime[OF c1]
  have root1: "rootValue c1 = rootValue cs" using orCurrentTime_root[OF c1] .
  show ?thesis
  proof (cases "cached cs key")
    case None
    have "DeleteValue E key u t [] cs = c1"
    proof (cases "last (split_dot key) = []")
      case False
      with None have n: "node_at (rootValue c1) (split_dot key) = None" by (simp add: cached_def root1)
      then have "LoadChild (butlast (split_dot key)) (last (split_dot key)) c1 = None"
        by (simp add: LoadChild_None)
      then show ?thesis
        using c1 by (simp add: DeleteValue_def parent_lookup usableParent_def)
    qed (simp add: DeleteValue_def c1 parent_lookup usableParent_def)
    with None f1 root1 show ?thesis by simp
  next
    case (Some i)
    then have tok: "last (split_dot key) \<noteq> []" and i: "core_at (rootValue c1) (split_dot key) = Some i"
      by (auto simp: cached_def root1 split: if_splits)
    then have n: "node_at (rootValue c1) (split_dot key) \<noteq> None" by (metis core_at_None option.distinct(1))
    then have par: "node_at (rootValue c1) (butlast (split_dot key)) \<noteq> None"
      using node_below_None by metis
    from i obtain j where j: "info_at (rootValue c1) (split_dot key) = Some j" "valueExists j = valueExists i"
      by (auto simp: core_at_def)
    have "DeleteValue E key u t [] cs = (if valueExists i then Delete E (split_dot key) u t' c1 else c1)"
      using c1 n par j tok by (auto simp: DeleteValue_def parent_lookup usableParent_def LoadChild_def)
    moreover have "same_frame c1 (Delete E (split_dot key) u t' c1)" using t0 by (rule Delete_frame)
    ultimately show ?thesis
      using Some f1 root1 Delete_core[OF t0 i, of E u] same_frame_trans[OF f1]
      by (auto simp: t'_def)
  qed
qed

end
