(* ===== verification/CacheLaws.thy ===== *)
theory CacheLaws
  imports CacheFrames SampleEnv
begin

text \<open>
  The contract of the cache store: over a store whose content is complete in the cache
  (\<open>cache_ok\<close>), the store is a map from keys to values (\<open>cache_view\<close>), the operations
  are the operations of that map and \<open>GetKeysByPattern\<close> lists its keys. The contract is the
  locale \<open>kv_store\<close>, which the graph functions use; it is interpreted on the store's own
  operations.
\<close>

section \<open>The interface\<close>

locale kv_store =
  fixes ok :: "'s \<Rightarrow> bool"
    and view :: "'s \<Rightarrow> string \<Rightarrow> bytes option"
    and get :: "string \<Rightarrow> 's \<Rightarrow> (string + bytes) \<times> 's"
    and put :: "string \<Rightarrow> bytes \<Rightarrow> 's \<Rightarrow> 's"
    and del :: "string \<Rightarrow> 's \<Rightarrow> 's"
    and keys :: "string \<Rightarrow> 's \<Rightarrow> string list \<times> 's"
  assumes get_view: "ok s \<Longrightarrow> get k s = (case view s k of Some v \<Rightarrow> Inr v | None \<Rightarrow> fst (get k s), s)"
    and get_None: "ok s \<Longrightarrow> view s k = None \<Longrightarrow> \<exists>e. fst (get k s) = Inl e"
    and put_ok: "ok s \<Longrightarrow> ok (put k v s)"
    and put_view: "ok s \<Longrightarrow> valid_key k \<Longrightarrow> k \<noteq> [] \<Longrightarrow> view (put k v s) = (view s)(k \<mapsto> v)"
    and put_invalid: "ok s \<Longrightarrow> \<not> valid_key k \<Longrightarrow> put k v s = s"
    and del_ok: "ok s \<Longrightarrow> ok (del k s)"
    and del_view: "ok s \<Longrightarrow> view (del k s) = (view s)(k := None)"
    and keys_same: "ok s \<Longrightarrow> snd (keys (p @ ''.>'') s) = s"
    and keys_below: "ok s \<Longrightarrow> set (fst (keys (p @ ''.>'') s)) =
        {k. view s k \<noteq> None \<and> (\<exists>rest. rest \<noteq> [] \<and> split_dot k = split_dot p @ rest)}"
begin

lemma get_Some: "ok s \<Longrightarrow> view s k = Some v \<Longrightarrow> get k s = (Inr v, s)"
  using get_view[of s k] by simp

lemma get_same: "ok s \<Longrightarrow> snd (get k s) = s"
  using get_view[of s k] by (metis snd_conv)

lemma get_absent: "ok s \<Longrightarrow> view s k = None \<Longrightarrow> \<exists>e. get k s = (Inl e, s)"
  using get_None[of s k] get_same[of s k] by (metis prod.collapse)

lemma put_get: "ok s \<Longrightarrow> valid_key k \<Longrightarrow> k \<noteq> [] \<Longrightarrow> get k (put k v s) = (Inr v, put k v s)"
  by (simp add: get_Some put_ok put_view)

lemma put_other: "ok s \<Longrightarrow> valid_key k \<Longrightarrow> k \<noteq> [] \<Longrightarrow> k' \<noteq> k \<Longrightarrow> view (put k v s) k' = view s k'"
  by (simp add: put_view)

lemma puts_ok: "ok s \<Longrightarrow> ok (fold (\<lambda>(k, v). put k v) kvs s)"
  by (induction kvs arbitrary: s) (auto simp: put_ok)

lemma puts_view: "ok s \<Longrightarrow> \<forall>(k, v)\<in>set kvs. valid_key k \<and> k \<noteq> [] \<Longrightarrow>
    view (fold (\<lambda>(k, v). put k v) kvs s) = view s ++ map_of (rev kvs)"
proof (induction kvs arbitrary: s)
  case (Cons kv kvs)
  then show ?case by (cases kv) (auto simp: put_ok put_view map_add_assoc[symmetric])
qed simp

lemma dels_ok: "ok s \<Longrightarrow> ok (fold del ks s)"
  by (induction ks arbitrary: s) (auto simp: del_ok)

lemma dels_view: "ok s \<Longrightarrow> view (fold del ks s) = (\<lambda>k. if k \<in> set ks then None else view s k)"
  by (induction ks arbitrary: s) (auto simp: del_ok del_view fun_eq_iff)

end

section \<open>The store as a map\<close>

definition live :: "StoreValue option \<Rightarrow> bytes option" where
  "live c = (case c of None \<Rightarrow> None
     | Some i \<Rightarrow> (if valueExists i then Some (case value i of None \<Rightarrow> [] | Some v \<Rightarrow> v) else None))"

definition cache_view :: "'kv Store \<Rightarrow> string \<Rightarrow> bytes option" where
  "cache_view cs key = live (core_at (rootValue cs) (split_dot key))"

fun wf_node :: "node \<Rightarrow> bool" where
  "wf_node (Node i cs) \<longleftrightarrow> distinct (map fst cs) \<and> (\<forall>(k, c)\<in>set cs. wf_node c)"

definition tree_ok :: "node \<Rightarrow> bool" where
  "tree_ok r \<longleftrightarrow> wf_node r \<and>
     (\<forall>p i. core_at r p = Some i \<longrightarrow> storeConsistencyWithKVLossTime i = 0 \<and>
        list_all dot_free p \<and> (p \<noteq> [] \<longrightarrow> last p = [] \<longrightarrow> \<not> valueExists i))"

definition cache_ok :: "('j, 'kv) env \<Rightarrow> 'kv Store \<Rightarrow> bool" where
  "cache_ok E cs \<longleftrightarrow> env_ok E \<and> tree_ok (rootValue cs) \<and> \<not> panicked cs \<and>
     (\<forall>key. cached cs key = None \<longrightarrow> (\<exists>e. kv_Get (nk E) (toStoreKey cs key) (cs_kv cs) = Inl e))"

lemma live_simps [simp]: "live None = None" "live (Some (newInnerValue t)) = None"
  "live (Some ((newLeafValue v u t)\<lparr>storeConsistencyWithKVLossTime := l\<rparr>)) = Some v"
  by (simp_all add: live_def newInnerValue_def newLeafValue_def)

subsection \<open>Well-formedness of the tree\<close>

lemma wf_upd_at: "wf_node r \<Longrightarrow> (\<And>n. wf_node n \<Longrightarrow> wf_node (f n)) \<Longrightarrow> wf_node (upd_at p f r)"
proof (induction p arbitrary: r)
  case (Cons t p)
  obtain i cs where r: "r = Node i cs" by (cases r)
  have "map fst (map (\<lambda>(k, c). (k, if k = t then upd_at p f c else c)) cs) = map fst cs"
    by (induction cs) auto
  then have "distinct (map fst (map (\<lambda>(k, c). (k, if k = t then upd_at p f c else c)) cs)) = distinct (map fst cs)"
    by (rule arg_cong)
  with Cons r show ?case by (auto split: if_splits)
qed simp

lemma wf_upd_info: "wf_node r \<Longrightarrow> wf_node (upd_info p f r)"
  unfolding upd_info_def by (rule wf_upd_at, assumption) (case_tac n, simp)

lemma wf_add_child: "wf_node n \<Longrightarrow> wf_node (add_child k (Node i []) n)"
proof (cases n)
  case (Node j cs)
  assume "wf_node n"
  moreover have "set (AList.update k c cs) \<subseteq> insert (k, c) (set cs)" for c
    by (induction cs) auto
  ultimately show ?thesis
    using Node by (fastforce simp: add_child_def distinct_update)
qed

lemma wf_StoreChild: "wf_node (rootValue cs) \<Longrightarrow> wf_node (rootValue (StoreChild p k i cs))"
  by (simp add: StoreChild_def wf_upd_info wf_upd_at wf_add_child)

lemma wf_walkTokens: "wf_node (rootValue cs) \<Longrightarrow> wf_node (rootValue (snd (walkTokens E b level ts cs)))"
  by (induction E b level ts cs rule: walkTokens.induct)
    (auto simp: GetCurrentTimeNs_def wf_StoreChild split: option.splits)

lemma wf_parent: "wf_node (rootValue cs) \<Longrightarrow>
    wf_node (rootValue (snd (getLastKeyTokenAndItsParentCacheStoreValue E key b cs)))"
  using wf_walkTokens[of cs E b "[]" "butlast (split_dot key)"]
  by (auto simp: getLastKeyTokenAndItsParentCacheStoreValue_def Let_def split: prod.splits option.splits)

lemma wf_notifyParent: "wf_node r \<Longrightarrow> wf_node (notifyParent csv v r)"
  by (simp add: notifyParent_def wf_upd_info)

lemma wf_orCurrentTime: "orCurrentTime E t cs = (t', cs') \<Longrightarrow> wf_node (rootValue cs) \<Longrightarrow> wf_node (rootValue cs')"
  by (simp add: orCurrentTime_root)

lemma wf_Put: "wf_node (rootValue cs) \<Longrightarrow> wf_node (rootValue (Put E csv v u t cs))"
  by (auto simp: Put_def wf_upd_info wf_notifyParent wf_orCurrentTime split: prod.split)

lemma wf_Delete: "wf_node (rootValue cs) \<Longrightarrow> wf_node (rootValue (Delete E csv u t cs))"
  by (auto simp: Delete_def wf_upd_info wf_notifyParent wf_orCurrentTime split: prod.split)

lemma wf_SetValue:
  assumes "wf_node (rootValue cs)"
  shows "wf_node (rootValue (snd (SetValue E key v u t [] cs)))"
proof -
  obtain t' c1 where c1: "orCurrentTime E t cs = (t', c1)" by fastforce
  obtain tp c2 where c2: "getLastKeyTokenAndItsParentCacheStoreValue E key True c1 = (tp, c2)" by fastforce
  have "wf_node (rootValue c2)"
    using wf_parent[of c1 E key True] c2 wf_orCurrentTime[OF c1 assms] by simp
  with assms c1 c2 show ?thesis
    by (auto simp: SetValue_def wf_Put wf_StoreChild split: option.splits)
qed

lemma wf_DeleteValue:
  assumes "wf_node (rootValue cs)"
  shows "wf_node (rootValue (DeleteValue E key u t [] cs))"
proof -
  obtain t' c1 where c1: "orCurrentTime E t cs = (t', c1)" by fastforce
  obtain tp c2 where c2: "getLastKeyTokenAndItsParentCacheStoreValue E key False c1 = (tp, c2)" by fastforce
  have "wf_node (rootValue c2)"
    using wf_parent[of c1 E key False] c2 wf_orCurrentTime[OF c1 assms] by simp
  with assms c1 c2 show ?thesis
    by (auto simp: DeleteValue_def wf_Delete split: option.splits)
qed

subsection \<open>Reading and writing\<close>

lemma cached_live: "tree_ok (rootValue cs) \<Longrightarrow> cache_view cs key = live (cached cs key)"
  by (auto simp: cache_view_def cached_def live_def tree_ok_def split: option.splits)

lemma get_present:
  "tree_ok (rootValue cs) \<Longrightarrow> cache_view cs key = Some v \<Longrightarrow> GetValue E key cs = (Inr v, cs)"
  by (auto simp: cached_live live_def GetValue_def cachedValue_eq split: option.splits if_splits)

lemma get_absent_key:
  assumes "cache_ok E cs" and "cache_view cs key = None"
  shows "\<exists>e. GetValue E key cs = (Inl e, cs)"
proof (cases "cached cs key")
  case None
  with assms obtain e where "kv_Get (nk E) (toStoreKey cs key) (cs_kv cs) = Inl e"
    unfolding cache_ok_def by blast
  with None show ?thesis by (simp add: GetValue_def cachedValue_eq)
next
  case (Some i)
  with assms have "\<not> valueExists i" by (simp add: cache_ok_def cached_live live_def split: if_splits)
  with Some show ?thesis by (simp add: GetValue_def cachedValue_eq)
qed

lemma cached_mono:
  assumes "\<And>p. core_at (rootValue cs) p \<noteq> None \<Longrightarrow> core_at (rootValue cs') p \<noteq> None"
    and "cached cs' key = None"
  shows "cached cs key = None"
  using assms unfolding cached_def by (metis (full_types))

lemma cache_ok_frame:
  assumes "cache_ok E cs" and "same_frame cs cs'" and "tree_ok (rootValue cs')"
    and "\<And>p. core_at (rootValue cs) p \<noteq> None \<Longrightarrow> core_at (rootValue cs') p \<noteq> None"
  shows "cache_ok E cs'"
  using assms cached_mono[OF assms(4)] same_frameD[OF assms(2)]
  unfolding cache_ok_def toStoreKey_def by metis

lemma grows_live: "grows cs g \<Longrightarrow> live (core_at (rootValue g) p) = live (core_at (rootValue cs) p)"
  unfolding grows_def by (metis live_simps(1,2))

lemma set_ok_view:
  assumes ok: "cache_ok E cs" and key: "valid_key key" "key \<noteq> []"
  shows "fst (SetValue E key v u t [] cs) \<and> cache_ok E (snd (SetValue E key v u t [] cs)) \<and>
     cache_view (snd (SetValue E key v u t [] cs)) = (cache_view cs)(key \<mapsto> v)"
proof -
  have E: "env_ok E" and T: "tree_ok (rootValue cs)" using ok by (auto simp: cache_ok_def)
  obtain cs' g l t' where set: "SetValue E key v u t [] cs = (True, cs')" and g: "grows cs g"
    and frame: "same_frame cs cs'"
    and core: "core_at (rootValue cs') = (core_at (rootValue g))
      (split_dot key \<mapsto> (newLeafValue v u t')\<lparr>storeConsistencyWithKVLossTime := l\<rparr>)"
    and l: "l = (case core_at (rootValue cs) (split_dot key) of None \<Rightarrow> 0 | Some i \<Rightarrow> storeConsistencyWithKVLossTime i)"
    by (rule SetValue_core[OF E key])
  have l0: "l = 0" using l T by (auto simp: tree_ok_def split: option.splits)
  have "wf_node (rootValue cs')"
    using wf_SetValue[of cs E key v u t] T set by (simp add: tree_ok_def)
  moreover have "storeConsistencyWithKVLossTime i = 0 \<and> list_all dot_free p \<and> (p \<noteq> [] \<longrightarrow> last p = [] \<longrightarrow> \<not> valueExists i)"
    if p: "core_at (rootValue cs') p = Some i" for p i
  proof (cases "p = split_dot key")
    case True
    with p core l0 valid_key_last[OF key] split_dot_free_tokens[of key] show ?thesis by (auto simp: newLeafValue_def)
  next
    case False
    with p core have i: "core_at (rootValue g) p = Some i" by simp
    have "core_at (rootValue cs) p = Some i \<or> list_all dot_free p \<and> (\<exists>t. i = newInnerValue t)"
      using g i unfolding grows_def by (metis option.inject)
    with T show ?thesis unfolding tree_ok_def by auto
  qed
  ultimately have T': "tree_ok (rootValue cs')" by (simp add: tree_ok_def)
  have "core_at (rootValue cs') p \<noteq> None" if "core_at (rootValue cs) p \<noteq> None" for p
    using grows_core[OF g that] core by (simp del: core_at_None)
  with ok frame T' have "cache_ok E cs'" by (rule cache_ok_frame)
  moreover have "cache_view cs' = (cache_view cs)(key \<mapsto> v)"
    unfolding cache_view_def core by (auto simp: fun_eq_iff grows_live[OF g])
  ultimately show ?thesis using set by simp
qed

lemma del_ok_view:
  assumes ok: "cache_ok E cs"
  shows "cache_ok E (DeleteValue E key u t [] cs) \<and>
     cache_view (DeleteValue E key u t [] cs) = (cache_view cs)(key := None)"
proof -
  have E: "env_ok E" and T: "tree_ok (rootValue cs)" using ok by (auto simp: cache_ok_def)
  let ?cs' = "DeleteValue E key u t [] cs"
  note del = DeleteValue_core[OF E, of cs key u t]
  from del have frame: "same_frame cs ?cs'" ..
  have wf: "wf_node (rootValue ?cs')" using wf_DeleteValue[of cs E key u t] T by (simp add: tree_ok_def)
  have view0: "cache_view cs key = live (cached cs key)" using T by (rule cached_live)
  show ?thesis
  proof (cases "\<exists>i. cached cs key = Some i \<and> valueExists i")
    case False
    with del have core: "core_at (rootValue ?cs') = core_at (rootValue cs)"
      by (auto split: option.splits if_splits)
    with wf T have "tree_ok (rootValue ?cs')" by (simp add: tree_ok_def)
    then have "cache_ok E ?cs'" by (intro cache_ok_frame[OF ok frame]) (simp_all add: core)
    moreover have "cache_view cs key = None" using False view0 by (auto simp: live_def split: option.splits)
    ultimately show ?thesis by (auto simp: cache_view_def core fun_eq_iff)
  next
    case True
    then obtain i where i: "cached cs key = Some i" "valueExists i" by blast
    then have at: "core_at (rootValue cs) (split_dot key) = Some i" by (simp add: cached_def split: if_splits)
    obtain i' where core: "core_at (rootValue ?cs') = (core_at (rootValue cs))(split_dot key \<mapsto> i')"
      and i': "\<not> valueExists i'" "storeConsistencyWithKVLossTime i' = storeConsistencyWithKVLossTime i"
      using del i by auto
    have "tree_ok (rootValue ?cs')"
      using wf T core i' at by (auto simp: tree_ok_def)
    moreover have "core_at (rootValue ?cs') p \<noteq> None" if "core_at (rootValue cs) p \<noteq> None" for p
      using that core by (simp del: core_at_None)
    ultimately have "cache_ok E ?cs'" by (intro cache_ok_frame[OF ok frame])
    moreover have "cache_view ?cs' = (cache_view cs)(key := None)"
      using i' by (auto simp: cache_view_def core fun_eq_iff live_def)
    ultimately show ?thesis ..
  qed
qed

section \<open>The keys of a level and of a subtree\<close>

definition entryName :: "string \<Rightarrow> nat \<Rightarrow> string list \<Rightarrow> string" where
  "entryName suffix depth q =
     (if depth = 0 then suffix @ join_on CHR ''.'' q else suffix @ CHR ''.'' # join_on CHR ''.'' q)"

definition keysUnder :: "dfs_entry \<Rightarrow> string set" where
  "keysUnder e = (case e of (csv, n, suffix, depth) \<Rightarrow>
     {entryName suffix depth q | q i. q \<noteq> [] \<and> info_at n q = Some i \<and> valueExists i})"

definition keyOfEntry :: "dfs_entry \<Rightarrow> string set" where
  "keyOfEntry e = (case e of (csv, n, suffix, depth) \<Rightarrow> if valueExists (info n) then {suffix} else {})"

lemma keysUnder_children:
  assumes "wf_node n"
  shows "keysUnder (csv, n, suffix, depth) =
     (\<Union>e\<in>set (dfsChildren (csv, n, suffix, depth)). keyOfEntry e \<union> keysUnder e)"
proof -
  let ?name = "\<lambda>k. if depth = 0 then suffix @ k else suffix @ CHR ''.'' # k"
  have dist: "distinct (map fst (store n))" using assms by (cases n) auto
  have nm: "q' \<noteq> [] \<Longrightarrow> entryName suffix depth (k # q') = entryName (?name k) (depth + 1) q'" for k q'
    by (simp add: entryName_def join_on_Cons)
  show ?thesis
  proof (intro set_eqI iffI)
    fix x assume "x \<in> keysUnder (csv, n, suffix, depth)"
    then obtain q i where q: "q \<noteq> []" "info_at n q = Some i" "valueExists i" "x = entryName suffix depth q"
      by (auto simp: keysUnder_def)
    then obtain k q' c where k: "q = k # q'" "map_of (store n) k = Some c" "info_at c q' = Some i"
      by (cases q) (auto simp: info_at_Cons split: option.splits)
    let ?e = "(csv @ [k], c, ?name k, depth + 1)"
    have "?e \<in> set (dfsChildren (csv, n, suffix, depth))"
      using map_of_SomeD[OF k(2)] by (force simp: dfsChildren_def)
    moreover have "x \<in> keyOfEntry ?e \<union> keysUnder ?e"
    proof (cases "q' = []")
      case True
      with k q show ?thesis by (simp add: keyOfEntry_def entryName_def)
    next
      case False
      with k q nm[OF False, of k] show ?thesis by (auto simp: keysUnder_def)
    qed
    ultimately show "x \<in> (\<Union>e\<in>set (dfsChildren (csv, n, suffix, depth)). keyOfEntry e \<union> keysUnder e)" by blast
  next
    fix x assume "x \<in> (\<Union>e\<in>set (dfsChildren (csv, n, suffix, depth)). keyOfEntry e \<union> keysUnder e)"
    then obtain k c where "(k, c) \<in> set (store n)" and
      x: "x \<in> keyOfEntry (csv @ [k], c, ?name k, depth + 1) \<union> keysUnder (csv @ [k], c, ?name k, depth + 1)"
      by (auto simp: dfsChildren_def)
    then have c: "map_of (store n) k = Some c" using dist by simp
    from x show "x \<in> keysUnder (csv, n, suffix, depth)"
    proof
      assume "x \<in> keyOfEntry (csv @ [k], c, ?name k, depth + 1)"
      then show ?thesis using c
        by (auto simp: keyOfEntry_def keysUnder_def info_at_Cons entryName_def intro!: exI[of _ "[k]"] split: if_splits)
    next
      assume "x \<in> keysUnder (csv @ [k], c, ?name k, depth + 1)"
      then obtain q' i where "q' \<noteq> []" "info_at c q' = Some i" "valueExists i" "x = entryName (?name k) (depth + 1) q'"
        by (auto simp: keysUnder_def)
      then show ?thesis using c nm[of q' k]
        by (auto simp: keysUnder_def info_at_Cons intro!: exI[of _ "k # q'"])
    qed
  qed
qed

lemma wf_children: "wf_node n \<Longrightarrow> e \<in> set (dfsChildren (csv, n, suffix, depth)) \<Longrightarrow> wf_node (fst (snd e))"
  by (cases n) (auto simp: dfsChildren_def)

lemma set_insertIfValue: "set (fold insertIfValue es keys) = set keys \<union> (\<Union>e\<in>set es. keyOfEntry e)"
proof (induction es arbitrary: keys)
  case (Cons e es)
  have "set (insertIfValue e keys) = set keys \<union> keyOfEntry e"
    by (cases e) (auto simp: insertIfValue_def keyOfEntry_def)
  with Cons show ?case by auto
qed simp

lemma dfsPattern_set:
  "\<forall>e\<in>set stack. wf_node (fst (snd e)) \<Longrightarrow>
     set (fst (dfsPattern stack keys lost)) = set keys \<union> (\<Union>e\<in>set stack. keysUnder e)"
proof (induction stack keys lost rule: dfsPattern.induct)
  case (2 csv n suffix depth stack keys lost)
  have wf: "wf_node n" using "2.prems" by simp
  then have kids: "\<forall>e\<in>set (rev (dfsChildren (csv, n, suffix, depth)) @ stack). wf_node (fst (snd e))"
    using wf_children "2.prems" by auto
  note IH = "2.IH"[OF refl refl refl kids]
  show ?case
    unfolding dfsPattern.simps(2) Let_def IH
    by (auto simp: keysUnder_children[OF wf] set_insertIfValue)
qed simp

lemma dfsPattern_lost:
  "(\<And>e q i. e \<in> set stack \<Longrightarrow> info_at (fst (snd e)) q = Some i \<Longrightarrow> storeConsistencyWithKVLossTime i \<le> 0) \<Longrightarrow>
   \<forall>e\<in>set stack. wf_node (fst (snd e)) \<Longrightarrow> snd (dfsPattern stack keys lost) = lost"
proof (induction stack keys lost rule: dfsPattern.induct)
  case (2 csv n suffix depth stack keys lost)
  have wf: "wf_node n" using "2.prems"(2) by simp
  have n: "info_at n q = Some i \<Longrightarrow> storeConsistencyWithKVLossTime i \<le> 0" for q i
    using "2.prems"(1)[of "(csv, n, suffix, depth)" q i] by simp
  have n0: "\<not> storeConsistencyWithKVLossTime (info n) > 0" using n[of "[]"] by simp
  have "info_at (fst (snd e)) q = Some i \<Longrightarrow> storeConsistencyWithKVLossTime i \<le> 0"
    if "e \<in> set (rev (dfsChildren (csv, n, suffix, depth)) @ stack)" for e q i
  proof -
    assume i: "info_at (fst (snd e)) q = Some i"
    consider "e \<in> set stack" | k c where "(k, c) \<in> set (store n)" "fst (snd e) = c"
      using \<open>e \<in> _\<close> by (auto simp: dfsChildren_def)
    then show "storeConsistencyWithKVLossTime i \<le> 0"
    proof cases
      case 1
      with i "2.prems"(1)[of e q i] show ?thesis by simp
    next
      case (2 k c)
      then have "map_of (store n) k = Some c" using wf by (cases n) auto
      with i 2 n[of "k # q" i] show ?thesis by (simp add: info_at_Cons)
    qed
  qed
  moreover have "\<forall>e\<in>set (rev (dfsChildren (csv, n, suffix, depth)) @ stack). wf_node (fst (snd e))"
    using wf_children[OF wf] "2.prems"(2) by auto
  ultimately show ?case
    unfolding dfsPattern.simps(2) Let_def using "2.IH"[OF refl refl refl] n0 by simp
qed simp

lemma wf_node_at: "wf_node r \<Longrightarrow> node_at r p = Some n \<Longrightarrow> wf_node n"
proof (induction p arbitrary: r)
  case (Cons t p)
  then obtain c where "map_of (store r) t = Some c" "node_at c p = Some n" by (auto split: option.splits)
  with Cons show ?case by (cases r) (auto dest: map_of_SomeD)
qed simp

lemma info_at_below: "node_at r p = Some n \<Longrightarrow> info_at r (p @ q) = info_at n q"
  by (simp add: info_at_def node_at_append)

lemma tree_ok_loss:
  assumes "tree_ok r" and "info_at r p = Some i"
  shows "storeConsistencyWithKVLossTime i = 0" and "list_all dot_free p"
    and "p \<noteq> [] \<Longrightarrow> last p = [] \<Longrightarrow> \<not> valueExists i"
proof -
  from assms(2) have "core_at r p = Some (core i)" by (simp add: core_at_def)
  with assms(1) have "storeConsistencyWithKVLossTime (core i) = 0 \<and> list_all dot_free p \<and>
      (p \<noteq> [] \<longrightarrow> last p = [] \<longrightarrow> \<not> valueExists (core i))"
    unfolding tree_ok_def by blast
  then show "storeConsistencyWithKVLossTime i = 0" "list_all dot_free p"
    "p \<noteq> [] \<Longrightarrow> last p = [] \<Longrightarrow> \<not> valueExists i" by simp_all
qed

lemma cache_view_Some_iff:
  "cache_view cs k \<noteq> None \<longleftrightarrow> (\<exists>i. info_at (rootValue cs) (split_dot k) = Some i \<and> valueExists i)"
  by (auto simp: cache_view_def live_def core_at_def simp del: info_at_None split: option.splits)

lemmas cache_view_ex = cache_view_Some_iff[unfolded not_None_eq]

lemma existing_at_parent:
  "tree_ok (rootValue cs) \<Longrightarrow>
   \<exists>i. info_at (rootValue cs) (getLastExistingCacheStoreValueByKey key cs) = Some i \<and>
     storeConsistencyWithKVLossTime i = 0"
proof -
  assume T: "tree_ok (rootValue cs)"
  have "node_at (rootValue cs) level \<noteq> None \<Longrightarrow> node_at (rootValue cs) (walkExisting cs level ts) \<noteq> None" for level ts
    by (induction cs level ts rule: walkExisting.induct) (auto simp: LoadChild_def split: option.splits if_splits)
  then have "node_at (rootValue cs) (getLastExistingCacheStoreValueByKey key cs) \<noteq> None"
    by (simp add: getLastExistingCacheStoreValueByKey_def)
  then obtain i where "info_at (rootValue cs) (getLastExistingCacheStoreValueByKey key cs) = Some i"
    by (auto simp: info_at_def)
  with tree_ok_loss(1)[OF T this] show ?thesis by blast
qed

lemma keys_subtree:
  assumes ok: "cache_ok E cs"
  shows "snd (GetKeysByPattern E (p @ ''.>'') cs) = cs \<and>
     set (fst (GetKeysByPattern E (p @ ''.>'') cs)) =
       {k. cache_view cs k \<noteq> None \<and> (\<exists>rest. rest \<noteq> [] \<and> split_dot k = split_dot p @ rest)}"
proof -
  have E: "env_ok E" and T: "tree_ok (rootValue cs)" using ok by (auto simp: cache_ok_def)
  have sp: "split_dot (p @ ''.>'') = split_dot p @ [''>'']"
    using split_dot_append[of p "''>''"] by (simp add: split_on_free)
  have but: "butlast (p @ ''.>'') = p @ ''.''" by (simp add: butlast_append)
  show ?thesis
  proof (cases "node_at (rootValue cs) (split_dot p)")
    case None
    obtain i where "info_at (rootValue cs) (getLastExistingCacheStoreValueByKey (p @ ''.>'') cs) = Some i"
      "storeConsistencyWithKVLossTime i = 0" using existing_at_parent[OF T] by blast
    moreover have "cache_view cs k = None" if "split_dot k = split_dot p @ rest" for k rest
      using None that by (simp add: cache_view_def live_def core_at_def info_at_def node_at_append)
    ultimately show ?thesis
      using None env_mapOrder_set[OF E, of "[]"]
      by (auto simp: GetKeysByPattern_def parent_lookup sp usableParent_def cache_view_Some_iff)
  next
    case (Some n)
    have wf: "wf_node n" using wf_node_at[OF _ Some] T by (simp add: tree_ok_def)
    let ?d = "dfsPattern [(split_dot p, n, p @ ''.'', 0)] [] []"
    have below: "info_at n q = info_at (rootValue cs) (split_dot p @ q)" for q
      using info_at_below[OF Some] by simp
    have loss: "info_at n q = Some i \<Longrightarrow> storeConsistencyWithKVLossTime i \<le> 0" for q i
      using below[of q] tree_ok_loss(1)[OF T] by simp
    have "snd ?d = []" using loss wf by (intro dfsPattern_lost) auto
    moreover have "set (fst ?d) = keysUnder (split_dot p, n, p @ ''.'', 0)"
      using wf by (subst dfsPattern_set) simp_all
    moreover have "\<dots> = {k. cache_view cs k \<noteq> None \<and> (\<exists>rest. rest \<noteq> [] \<and> split_dot k = split_dot p @ rest)}"
    proof (intro set_eqI iffI)
      fix k assume "k \<in> keysUnder (split_dot p, n, p @ ''.'', 0)"
      then obtain q i where q: "q \<noteq> []" "info_at (rootValue cs) (split_dot p @ q) = Some i" "valueExists i"
        "k = p @ CHR ''.'' # join_on CHR ''.'' q" by (auto simp: keysUnder_def below entryName_def)
      from tree_ok_loss(2)[OF T q(2)] have "\<forall>t\<in>set q. CHR ''.'' \<notin> set t"
        by (auto simp: list_all_iff dot_free_def)
      with q have "split_dot k = split_dot p @ q" by (simp add: split_dot_append split_join)
      with q show "k \<in> {k. cache_view cs k \<noteq> None \<and> (\<exists>rest. rest \<noteq> [] \<and> split_dot k = split_dot p @ rest)}"
        by (auto simp: cache_view_ex)
    next
      fix k assume "k \<in> {k. cache_view cs k \<noteq> None \<and> (\<exists>rest. rest \<noteq> [] \<and> split_dot k = split_dot p @ rest)}"
      then obtain rest i where r: "rest \<noteq> []" "split_dot k = split_dot p @ rest"
        "info_at (rootValue cs) (split_dot k) = Some i" "valueExists i" by (auto simp: cache_view_ex)
      then have "k = p @ CHR ''.'' # join_on CHR ''.'' rest" by (simp add: join_split_append)
      with r show "k \<in> keysUnder (split_dot p, n, p @ ''.'', 0)"
        by (auto simp: keysUnder_def below entryName_def)
    qed
    ultimately show ?thesis
      using Some env_mapOrder_set[OF E]
      by (cases ?d) (simp add: GetKeysByPattern_def parent_lookup sp usableParent_def keysOfSubtree_def but)
  qed
qed

section \<open>The store meets the contract\<close>

interpretation cache: kv_store "cache_ok E" cache_view "GetValue E"
    "\<lambda>k v cs. snd (SetValue E k v True (-1) [] cs)" "\<lambda>k. DeleteValue E k True (-1) []" "GetKeysByPattern E"
  for E :: "('j, 'kv) env"
proof
  fix s :: "'kv Store" and k :: string and v :: bytes and p :: string
  assume ok: "cache_ok E s"
  then have T: "tree_ok (rootValue s)" by (simp add: cache_ok_def)
  show "GetValue E k s = (case cache_view s k of Some v \<Rightarrow> Inr v | None \<Rightarrow> fst (GetValue E k s), s)"
    using get_present[OF T, of k _ E] get_absent_key[OF ok, of k] by (cases "cache_view s k") auto
  show "cache_view s k = None \<Longrightarrow> \<exists>e. fst (GetValue E k s) = Inl e"
    using get_absent_key[OF ok, of k] by auto
  show "cache_ok E (snd (SetValue E k v True (-1) [] s))"
  proof (cases "valid_key k \<and> k \<noteq> []")
    case True
    with set_ok_view[OF ok] show ?thesis by blast
  next
    case False
    moreover have "cache_ok E (snd (SetValue E [] v True (-1) [] s))"
      using ok by (simp add: SetValue_def valid_key_def orCurrentTime_def GetCurrentTimeNs_def
          getLastKeyTokenAndItsParentCacheStoreValue_def usableParent_def cache_ok_def cached_def toStoreKey_def)
    ultimately show ?thesis using ok by (auto simp: SetValue_def)
  qed
  show "valid_key k \<Longrightarrow> k \<noteq> [] \<Longrightarrow> cache_view (snd (SetValue E k v True (-1) [] s)) = (cache_view s)(k \<mapsto> v)"
    using set_ok_view[OF ok] by blast
  show "\<not> valid_key k \<Longrightarrow> snd (SetValue E k v True (-1) [] s) = s" by (simp add: SetValue_def)
  show "cache_ok E (DeleteValue E k True (-1) [] s)"
    "cache_view (DeleteValue E k True (-1) [] s) = (cache_view s)(k := None)"
    using del_ok_view[OF ok] by blast+
  show "snd (GetKeysByPattern E (p @ ''.>'') s) = s"
    "set (fst (GetKeysByPattern E (p @ ''.>'') s)) =
        {k. cache_view s k \<noteq> None \<and> (\<exists>rest. rest \<noteq> [] \<and> split_dot k = split_dot p @ rest)}"
    using keys_subtree[OF ok, of p] by blast+
qed

end
