(* ===== verification/KeyValueBucket.thy ===== *)
theory KeyValueBucket
  imports SampleEnv
begin

text \<open>
  The key/value helpers of \<open>embedded/nats/kv/kv.go\<close>: the parsing of the server's version, the
  configuration of the stream behind a bucket, the creation of the bucket and the secure deletion
  of a key's last message. The calls of the JetStream API are the record \<open>js_api\<close>.
\<close>

section \<open>Versions\<close>

definition is_digit :: "char \<Rightarrow> bool" where
  "is_digit c \<longleftrightarrow> (of_char c :: nat) \<in> {48..57}"

definition skip_char :: "char \<Rightarrow> string \<Rightarrow> string" where
  "skip_char c s = (case s of [] \<Rightarrow> [] | x # xs \<Rightarrow> if x = c then xs else s)"

text \<open>The submatches of the regular expression \<open>semVerRe\<close>; all parts after the first are optional.\<close>

definition semVerMatch :: "string \<Rightarrow> (string \<times> string \<times> string) option" where
  "semVerMatch version =
     (let s1 = skip_char CHR ''v'' version;
          m1 = takeWhile is_digit s1;
          s2 = skip_char CHR ''.'' (dropWhile is_digit s1);
          m2 = takeWhile is_digit s2;
          s3 = skip_char CHR ''.'' (dropWhile is_digit s2);
          m3 = takeWhile is_digit s3
      in if m1 = [] then None else Some (m1, m2, m3))"

text \<open>\<open>strconv.Atoi\<close> of a string of digits.\<close>

definition atoi_digits :: "string \<Rightarrow> int option" where
  "atoi_digits s = (if s \<noteq> [] \<and> dec_value s < 2 ^ 63 then Some (int (dec_value s)) else None)"

definition versionComponents :: "string \<Rightarrow> (int \<times> int \<times> int) \<times> bool" where
  "versionComponents version =
     (case semVerMatch version of
        None \<Rightarrow> ((0, 0, 0), False)
      | Some (m1, m2, m3) \<Rightarrow>
         (case (atoi_digits m1, atoi_digits m2, atoi_digits m3) of
            (Some major, Some minor, Some patch) \<Rightarrow> ((major, minor, patch), True)
          | _ \<Rightarrow> ((-1, -1, -1), False)))"

definition serverMinVersion :: "string \<Rightarrow> int \<Rightarrow> int \<Rightarrow> int \<Rightarrow> bool" where
  "serverMinVersion connectedServerVersion major minor patch =
     (case versionComponents connectedServerVersion of ((smajor, sminor, spatch), _) \<Rightarrow>
        \<not> (smajor < major \<or> (smajor = major \<and> sminor < minor) \<or>
          (smajor = major \<and> sminor = minor \<and> spatch < patch)))"

lemma takeWhile_digits [simp]:
  "takeWhile is_digit (dec_nat n @ CHR ''.'' # s) = dec_nat n"
  "dropWhile is_digit (dec_nat n @ CHR ''.'' # s) = CHR ''.'' # s"
  "takeWhile is_digit (dec_nat n) = dec_nat n"
proof -
  have d: "is_digit c" if "c \<in> set (dec_nat n)" for c
    using dec_nat_digits[OF that] of_char_dec_digit by (auto simp: is_digit_def)
  have "\<not> is_digit CHR ''.''" by (simp add: is_digit_def)
  with d show "takeWhile is_digit (dec_nat n @ CHR ''.'' # s) = dec_nat n"
    "dropWhile is_digit (dec_nat n @ CHR ''.'' # s) = CHR ''.'' # s"
    "takeWhile is_digit (dec_nat n) = dec_nat n"
    by (simp_all add: takeWhile_append2 dropWhile_append2 takeWhile_eq_all_conv)
qed

lemma skip_v_digits: "skip_char CHR ''v'' (dec_nat n @ s) = dec_nat n @ s"
proof (cases "dec_nat n")
  case (Cons c cs)
  then obtain d where "d < 10" "c = dec_digit d" using dec_nat_digits[of c n] by auto
  then have "(of_char c :: nat) < 58" using of_char_dec_digit[of d] by simp
  then have "c \<noteq> CHR ''v''" by auto
  with Cons show ?thesis by (simp add: skip_char_def)
qed simp

lemma skip_char_same: "skip_char c (c # s) = s"
  by (simp add: skip_char_def)

lemma versionComponents_dec:
  assumes "a < 2 ^ 63" and "b < 2 ^ 63" and "c < 2 ^ 63"
  shows "versionComponents (dec_nat a @ CHR ''.'' # dec_nat b @ CHR ''.'' # dec_nat c) = ((int a, int b, int c), True)"
  using assms
  by (simp add: versionComponents_def semVerMatch_def Let_def skip_v_digits skip_char_same
      atoi_digits_def dec_value_dec_nat)

text \<open>
  C24: against a server that reports the version \<open>a.b.c\<close> the version check accepts exactly the
  versions that are not newer, in the lexicographic order of the three numbers.
\<close>

theorem server_min_version_is_lexicographic:
  assumes "a < 2 ^ 63" and "b < 2 ^ 63" and "c < 2 ^ 63"
  shows "serverMinVersion (dec_nat a @ CHR ''.'' # dec_nat b @ CHR ''.'' # dec_nat c) major minor patch \<longleftrightarrow>
     major < int a \<or> (major = int a \<and> (minor < int b \<or> (minor = int b \<and> patch \<le> int c)))"
  using versionComponents_dec[OF assms] by (auto simp: serverMinVersion_def)

theorem server_min_version_is_lexicographic_witness:
  "\<not> serverMinVersion (dec_nat 2 @ CHR ''.'' # dec_nat 7 @ CHR ''.'' # dec_nat 1) 2 7 2 \<and>
   serverMinVersion (dec_nat 2 @ CHR ''.'' # dec_nat 10 @ CHR ''.'' # dec_nat 0) 2 7 2"
  using server_min_version_is_lexicographic[of 2 7 1 2 7 2] server_min_version_is_lexicographic[of 2 10 0 2 7 2]
  by simp

section \<open>The stream of a bucket\<close>

record StreamSource =
  src_Name :: string
  src_OptStartTime :: "int option"
  src_External :: "string option"

record 'p KeyValueConfig =
  Bucket :: string
  Description :: string
  MaxValueSize :: int
  History :: nat
  TTL :: int
  MaxBytes :: int
  Storage :: nat
  Replicas :: int
  Placement :: 'p
  RePublish :: 'p
  Mirror :: "StreamSource option"
  Sources :: "StreamSource list"

record 'p StreamConfig =
  sc_Name :: string
  sc_Description :: string
  sc_Subjects :: "string list"
  sc_MaxMsgsPerSubject :: nat
  sc_MaxBytes :: int
  sc_MaxAge :: int
  sc_MaxMsgSize :: int
  sc_Storage :: nat
  sc_Replicas :: int
  sc_Placement :: 'p
  sc_AllowRollup :: bool
  sc_DenyDelete :: bool
  sc_Duplicates :: int
  sc_MaxMsgs :: int
  sc_MaxConsumers :: int
  sc_AllowDirect :: bool
  sc_RePublish :: 'p
  sc_Mirror :: "StreamSource option"
  sc_MirrorDirect :: bool
  sc_Sources :: "StreamSource list"
  sc_DiscardNew :: bool

record ('p, 'kv) js_api =
  js_AccountInfo :: "'kv \<Rightarrow> string option"
  js_AddStream :: "'p StreamConfig \<Rightarrow> 'kv \<Rightarrow> string option \<times> 'kv"
  js_StreamInfo :: "string \<Rightarrow> 'kv \<Rightarrow> 'p StreamConfig option"
  js_UpdateStream :: "'p StreamConfig \<Rightarrow> 'kv \<Rightarrow> string option \<times> 'kv"
  js_KeyValue :: "string \<Rightarrow> 'kv \<Rightarrow> string + unit"

definition ErrStreamNameAlreadyInUse :: string where
  "ErrStreamNameAlreadyInUse = ''nats: stream name already in use''"

definition KeyValueMaxHistory :: nat where
  "KeyValueMaxHistory = 64"

definition validBucket :: "string \<Rightarrow> bool" where
  "validBucket b \<longleftrightarrow> b \<noteq> [] \<and> list_all (\<lambda>c. let n = (of_char c :: nat) in
     (97 \<le> n \<and> n \<le> 122) \<or> (65 \<le> n \<and> n \<le> 90) \<or> (48 \<le> n \<and> n \<le> 57) \<or> c = CHR ''_'' \<or> c = CHR ''-'') b"

definition streamSourceCopy :: "StreamSource \<Rightarrow> StreamSource" where
  "streamSourceCopy ss = \<lparr>src_Name = src_Name ss, src_OptStartTime = src_OptStartTime ss,
     src_External = src_External ss\<rparr>"

definition prefixedSource :: "StreamSource \<Rightarrow> StreamSource" where
  "prefixedSource ss =
     (if has_prefix (src_Name ss) ''KV_'' then ss
      else (streamSourceCopy ss)\<lparr>src_Name := ''KV_'' @ src_Name ss\<rparr>)"

definition twoMinutes :: int where
  "twoMinutes = 120 * 1000000000"

definition bucketStreamConfig :: "string \<Rightarrow> 'p KeyValueConfig \<Rightarrow> nat \<Rightarrow> 'p StreamConfig" where
  "bucketStreamConfig version cfg history =
     (let replicas = (if Replicas cfg = 0 then 1 else Replicas cfg);
          maxBytes = (if MaxBytes cfg = 0 then -1 else MaxBytes cfg);
          maxMsgSize = (if MaxValueSize cfg = 0 then -1 else MaxValueSize cfg);
          duplicateWindow = (if TTL cfg > 0 \<and> TTL cfg < twoMinutes then TTL cfg else twoMinutes)
      in \<lparr>sc_Name = ''KV_'' @ Bucket cfg, sc_Description = Description cfg,
          sc_Subjects = (if Mirror cfg = None \<and> Sources cfg = [] then [''$KV.'' @ Bucket cfg @ ''.>''] else []),
          sc_MaxMsgsPerSubject = history, sc_MaxBytes = maxBytes, sc_MaxAge = TTL cfg,
          sc_MaxMsgSize = maxMsgSize, sc_Storage = Storage cfg, sc_Replicas = replicas,
          sc_Placement = Placement cfg, sc_AllowRollup = True, sc_DenyDelete = False,
          sc_Duplicates = duplicateWindow, sc_MaxMsgs = -1, sc_MaxConsumers = -1,
          sc_AllowDirect = True, sc_RePublish = RePublish cfg,
          sc_Mirror = map_option (\<lambda>m. prefixedSource (streamSourceCopy m)) (Mirror cfg),
          sc_MirrorDirect = (Mirror cfg \<noteq> None),
          sc_Sources = (if Mirror cfg = None then map prefixedSource (Sources cfg) else []),
          sc_DiscardNew = serverMinVersion version 2 7 2\<rparr>)"

definition CreateKeyValue ::
  "('p, 'kv) js_api \<Rightarrow> string \<Rightarrow> 'p KeyValueConfig option \<Rightarrow> 'kv \<Rightarrow> (string + unit) \<times> 'kv" where
  "CreateKeyValue js version cfgOpt s =
     (if \<not> serverMinVersion version 2 6 2
      then (Inl ''nats: key-value requires at least server version 2.6.2'', s)
      else (case cfgOpt of
        None \<Rightarrow> (Inl ''nats: config required'', s)
      | Some cfg \<Rightarrow>
         (if \<not> validBucket (Bucket cfg) then (Inl ''nats: invalid bucket name'', s)
          else (case js_AccountInfo js s of
            Some err \<Rightarrow> (Inl err, s)
          | None \<Rightarrow>
             (if History cfg > KeyValueMaxHistory then (Inl ''nats: history limited to a max of 64'', s)
              else
                (let history = (if History cfg > 0 then History cfg else 1);
                     scfg = bucketStreamConfig version cfg history
                 in (case js_AddStream js scfg s of
                       (None, s) \<Rightarrow> (js_KeyValue js (Bucket cfg) s, s)
                     | (Some err, s) \<Rightarrow>
                        (if err = ErrStreamNameAlreadyInUse then
                           (case js_StreamInfo js (sc_Name scfg) s of
                              Some si \<Rightarrow>
                                (if si\<lparr>sc_DiscardNew := sc_DiscardNew scfg, sc_AllowDirect := sc_AllowDirect scfg\<rparr> = scfg
                                 then (case js_UpdateStream js scfg s of
                                         (None, s) \<Rightarrow> (js_KeyValue js (Bucket cfg) s, s)
                                       | (Some err, s) \<Rightarrow> (Inl err, s))
                                 else (Inl err, s))
                            | None \<Rightarrow> (Inl err, s))
                         else (Inl err, s)))))))))"

text \<open>
  C25: a bucket whose creation is refused before the server is asked for a stream (old server, no
  configuration, invalid name, no account, too much history) is answered with an error and leaves the
  server's state alone. Otherwise the server is asked for the stream, and answers decide: an error is
  passed on, a stream of that name that is already there is updated when it differs from the one
  asked for in nothing but its discard policy and direct access, and is left alone otherwise. The
  stream asked for keeps the given number of revisions, at least 1 and at most 64, allows deletions
  (which \<open>DeleteKeyValueValue\<close> needs) and has the duplicate window of the TTL, but at most two minutes.
\<close>

theorem created_bucket_is_well_configured:
  "case cfgOpt of None \<Rightarrow> \<exists>err. CreateKeyValue js version cfgOpt s = (Inl err, s) | Some cfg \<Rightarrow>
    (let allowed = (serverMinVersion version 2 6 2 \<and> validBucket (Bucket cfg) \<and>
           js_AccountInfo js s = None \<and> History cfg \<le> 64);
         scfg = bucketStreamConfig version cfg (max 1 (History cfg));
         (answer, s1) = js_AddStream js scfg s;
         found = js_StreamInfo js (''KV_'' @ Bucket cfg) s1;
         same = (\<exists>si. found = Some si \<and>
           si\<lparr>sc_DiscardNew := sc_DiscardNew scfg, sc_AllowDirect := sc_AllowDirect scfg\<rparr> = scfg)
     in (\<not> allowed \<longrightarrow> (\<exists>err. CreateKeyValue js version cfgOpt s = (Inl err, s))) \<and>
        (allowed \<longrightarrow> snd (CreateKeyValue js version cfgOpt s) =
           (if answer = Some ErrStreamNameAlreadyInUse \<and> same then snd (js_UpdateStream js scfg s1) else s1) \<and>
          (fst (CreateKeyValue js version cfgOpt s) = Inr () \<longrightarrow>
            answer = None \<or> answer = Some ErrStreamNameAlreadyInUse \<and> same \<and> fst (js_UpdateStream js scfg s1) = None) \<and>
          1 \<le> sc_MaxMsgsPerSubject scfg \<and> sc_MaxMsgsPerSubject scfg \<le> 64 \<and>
          (0 < History cfg \<longrightarrow> sc_MaxMsgsPerSubject scfg = History cfg) \<and> \<not> sc_DenyDelete scfg \<and>
          sc_Name scfg = ''KV_'' @ Bucket cfg \<and>
          sc_Duplicates scfg = (if 0 < TTL cfg then min (TTL cfg) twoMinutes else twoMinutes)))"
proof (cases cfgOpt)
  case None
  then show ?thesis by (simp add: CreateKeyValue_def)
next
  case (Some cfg)
  let ?scfg = "bucketStreamConfig version cfg (max 1 (History cfg))"
  let ?allowed = "serverMinVersion version 2 6 2 \<and> validBucket (Bucket cfg) \<and> js_AccountInfo js s = None \<and> History cfg \<le> 64"
  obtain answer s1 where add: "js_AddStream js ?scfg s = (answer, s1)" by fastforce
  have h: "(if History cfg > 0 then History cfg else 1) = max 1 (History cfg)" by simp
  have cfg_laws: "sc_MaxMsgsPerSubject ?scfg = max 1 (History cfg)" "\<not> sc_DenyDelete ?scfg"
    "sc_Name ?scfg = ''KV_'' @ Bucket cfg"
    "sc_Duplicates ?scfg = (if 0 < TTL cfg then min (TTL cfg) twoMinutes else twoMinutes)"
    by (simp_all add: bucketStreamConfig_def Let_def min_def)
  show ?thesis
  proof (cases ?allowed)
    case False
    then show ?thesis unfolding Some option.case Let_def add case_prod_conv
      by (auto simp: CreateKeyValue_def KeyValueMaxHistory_def split: option.split)
  next
    case True
    have run: "CreateKeyValue js version (Some cfg) s = (case (answer, s1) of
         (None, s) \<Rightarrow> (js_KeyValue js (Bucket cfg) s, s)
       | (Some err, s) \<Rightarrow>
          (if err = ErrStreamNameAlreadyInUse then
             (case js_StreamInfo js (''KV_'' @ Bucket cfg) s of
                Some si \<Rightarrow>
                  (if si\<lparr>sc_DiscardNew := sc_DiscardNew ?scfg, sc_AllowDirect := sc_AllowDirect ?scfg\<rparr> = ?scfg
                   then (case js_UpdateStream js ?scfg s of
                           (None, s) \<Rightarrow> (js_KeyValue js (Bucket cfg) s, s)
                         | (Some err, s) \<Rightarrow> (Inl err, s))
                   else (Inl err, s))
              | None \<Rightarrow> (Inl err, s))
           else (Inl err, s)))"
      using True unfolding CreateKeyValue_def h option.case Let_def add cfg_laws(3) by (simp add: KeyValueMaxHistory_def)
    show ?thesis
      unfolding Some option.case Let_def add case_prod_conv run
      using True cfg_laws by (auto split: option.splits prod.splits)
  qed
qed

definition sample_kv_config :: "unit KeyValueConfig" where
  "sample_kv_config = \<lparr>Bucket = ''main'', Description = [], MaxValueSize = 0, History = 0, TTL = 0,
     MaxBytes = 0, Storage = 0, Replicas = 0, Placement = (), RePublish = (), Mirror = None, Sources = []\<rparr>"

definition sample_js :: "(unit, nat) js_api" where
  "sample_js = \<lparr>js_AccountInfo = (\<lambda>_. None), js_AddStream = (\<lambda>_ s. (None, Suc s)),
     js_StreamInfo = (\<lambda>_ _. None), js_UpdateStream = (\<lambda>_ s. (None, s)), js_KeyValue = (\<lambda>_ _. Inr ())\<rparr>"

theorem created_bucket_is_well_configured_witness:
  "let v = dec_nat 2 @ CHR ''.'' # dec_nat 9 @ CHR ''.'' # dec_nat 0 in
   snd (CreateKeyValue sample_js v (Some sample_kv_config) 0) = 1 \<and>
   (\<exists>err. CreateKeyValue (sample_js\<lparr>js_AccountInfo := \<lambda>_. Some ''no account''\<rparr>) v (Some sample_kv_config) 0 = (Inl err, 0)) \<and>
   (\<exists>err. CreateKeyValue sample_js v (Some (sample_kv_config\<lparr>History := 65\<rparr>)) 0 = (Inl err, 0))"
proof -
  let ?v = "dec_nat 2 @ CHR ''.'' # dec_nat 9 @ CHR ''.'' # dec_nat 0"
  have v: "serverMinVersion ?v 2 6 2" by (simp add: serverMinVersion_def versionComponents_dec)
  have b: "validBucket ''main''" by (simp add: validBucket_def Let_def)
  show ?thesis
    using created_bucket_is_well_configured[of sample_js ?v "Some sample_kv_config" 0]
      created_bucket_is_well_configured[of "sample_js\<lparr>js_AccountInfo := \<lambda>_. Some ''no account''\<rparr>" ?v "Some sample_kv_config" 0]
      created_bucket_is_well_configured[of sample_js ?v "Some (sample_kv_config\<lparr>History := 65\<rparr>)" 0] v b
    by (simp add: sample_kv_config_def sample_js_def Let_def)
qed

section \<open>Secure deletion of a key\<close>

definition DeleteKeyValueValue :: "'kv natskv \<Rightarrow> string \<Rightarrow> 'kv \<Rightarrow> string option \<times> 'kv" where
  "DeleteKeyValueValue K key s =
     (let streamName = ''KV_'' @ kv_Bucket K s;
          topicName = ''$KV.'' @ kv_Bucket K s @ ''.'' @ key
      in (case js_GetLastMsg K streamName topicName s of
            Inl err \<Rightarrow> (Some err, s)
          | Inr sequence \<Rightarrow>
             (case js_SecureDeleteMsg K (''KV_'' @ kv_Bucket K s) sequence s of
                (Inl err, s) \<Rightarrow> (Some err, s)
              | (Inr _, s) \<Rightarrow> (None, s))))"

end
