(* ===== verification/CacheSync.thy ===== *)
theory CacheSync
  imports CacheProps KeyValueBucket
begin

text \<open>
  The two goroutines that keep a cache store and the key/value store together
  (\<open>kvLazyWriter\<close> and \<open>storeUpdatesHandler\<close> of \<open>NewCacheStore\<close>,
  \<open>statefun/cache/cache.go\<close>): one pass of the writer over the tree, and the handling of one
  entry of the watcher. A stack entry of the writer is a pointer, its key and its depth.
\<close>

section \<open>The lazy writer\<close>

definition recordTime :: "StoreValue \<Rightarrow> i64" where
  "recordTime i = uint64_of (valueUpdateTime i)"

definition lazyRecord :: "StoreValue \<Rightarrow> bytes" where
  "lazyRecord i =
     (if valueExists i then be_put64 (recordTime i) @ [1] @ (case value i of None \<Rightarrow> [] | Some v \<Rightarrow> v)
      else be_put64 (recordTime i) @ [0])"

definition lazyVisitChild ::
  "('j, 'kv) env \<Rightarrow> string list \<Rightarrow> string \<Rightarrow> nat \<Rightarrow> string \<Rightarrow> 'kv Store \<Rightarrow> 'kv Store" where
  "lazyVisitChild E csv suffix depth key cs =
     (let newSuffix = (if depth = 0 then suffix @ key else suffix @ CHR ''.'' # key);
          child = csv @ [key]
      in (case info_at (rootValue cs) child of None \<Rightarrow> cs
          | Some i \<Rightarrow>
             (if syncNeeded i then
                (case kv_Put (nk E) (toStoreKey cs newSuffix) (lazyRecord i) (cs_kv cs) of
                   (Inr _, kv') \<Rightarrow>
                     cs\<lparr>cs_kv := kv',
                        rootValue := upd_info child
                          (\<lambda>j. if valueUpdateTime i = valueUpdateTime j then j\<lparr>syncNeeded := False\<rparr> else j)
                          (rootValue cs)\<rparr>
                 | (Inl err, kv') \<Rightarrow> cs\<lparr>cs_kv := kv'\<rparr>)
              else if valueUpdateTime i > 0 \<and> valueUpdateTime i \<le> lruTresholdTime cs \<and> purgeState i = 0 then
                (case GetCurrentTimeNs E cs of (now, cs) \<Rightarrow>
                   cs\<lparr>rootValue := upd_info child tryPurge (ConsistencyLoss csv now (rootValue cs))\<rparr>)
              else cs)))"

type_synonym lazy_entry = "string list \<times> string \<times> nat"

fun lazyLoop ::
  "('j, 'kv) env \<Rightarrow> nat \<Rightarrow> lazy_entry list \<Rightarrow> int list \<Rightarrow> 'kv Store \<Rightarrow> lazy_entry list \<times> int list \<times> 'kv Store" where
  "lazyLoop E 0 stack lruTimes cs = (stack, lruTimes, cs)"
| "lazyLoop E (Suc fuel) [] lruTimes cs = ([], lruTimes, cs)"
| "lazyLoop E (Suc fuel) ((csv, suffix, depth) # stack) lruTimes cs =
     (case node_at (rootValue cs) csv of
        None \<Rightarrow> lazyLoop E fuel stack lruTimes cs
      | Some n \<Rightarrow>
         (let children = map fst (store n);
              cs = fold (lazyVisitChild E csv suffix depth) children cs;
              entries = map (\<lambda>k. (csv @ [k], if depth = 0 then suffix @ k else suffix @ CHR ''.'' # k, depth + 1)) children;
              cs = (if children = [] then collectGarbage csv cs else cs)
          in lazyLoop E fuel (rev entries @ stack) (lruTimes @ [valueUpdateTime (info n)]) cs))"

definition kvLazyWriter :: "('j, 'kv) env \<Rightarrow> 'kv Store \<Rightarrow> 'kv Store" where
  "kvLazyWriter E cs =
     (case lazyLoop E (node_count (rootValue cs)) [([], [], 0)] [] cs of (_, lruTimes, cs) \<Rightarrow>
        (let sorted = rev (sort lruTimes);
             size = lruSize (cacheConfig cs)
         in if length sorted > size
            then (if size = 0 then cs\<lparr>panicked := True\<rparr>
                  else cs\<lparr>lruTresholdTime := sorted ! (size - 1), valuesInCache := length sorted\<rparr>)
            else cs\<lparr>lruTresholdTime := last sorted, valuesInCache := length sorted\<rparr>))"

section \<open>The updates handler\<close>

definition confirmSync :: "bool \<Rightarrow> StoreValue \<Rightarrow> StoreValue" where
  "confirmSync completeDelete i =
     (let i = i\<lparr>syncedWithKV := True\<rparr>
      in snd (TryPurgeConfirm (if completeDelete then snd (TryPurgeReady i) else i)))"

definition storeUpdatesHandler ::
  "('j, 'kv) env \<Rightarrow> (string \<times> bytes) option \<Rightarrow> 'kv Store \<Rightarrow> 'kv Store" where
  "storeUpdatesHandler E entry cs =
     (case entry of
        None \<Rightarrow> cs\<lparr>inited := True\<rparr>
      | Some (entryKey, valueBytes) \<Rightarrow>
         (let key = fromStoreKey cs entryKey
          in if 9 \<le> length valueBytes then
               (let appendFlag = valueBytes ! 8;
                    kvRecordTime = int64_of (be_get64 (take 8 valueBytes));
                    cacheRecordTime = GetValueUpdateTime E key cs
                in if kvRecordTime > cacheRecordTime then
                     (if appendFlag = 1
                      then snd (SetValue E key (drop 9 valueBytes) False kvRecordTime [] cs)
                      else cs\<lparr>cs_kv := snd (DeleteKeyValueValue (nk E) entryKey (cs_kv cs))\<rparr>)
                   else if kvRecordTime = cacheRecordTime then
                     (let cs = (if appendFlag = 0
                                then cs\<lparr>cs_kv := snd (DeleteKeyValueValue (nk E) entryKey (cs_kv cs))\<rparr>
                                else cs)
                      in (case getLastKeyCacheStoreValue key cs of
                            Some csv \<Rightarrow> cs\<lparr>rootValue := upd_info csv (confirmSync False) (rootValue cs)\<rparr>
                          | None \<Rightarrow> cs))
                   else cs)
             else if length valueBytes = 0 then
               (case getLastKeyCacheStoreValue key cs of
                  Some csv \<Rightarrow> cs\<lparr>rootValue := upd_info csv (confirmSync True) (rootValue cs)\<rparr>
                | None \<Rightarrow> cs)
             else cs))"

section \<open>What a pass of the writer keeps\<close>

text \<open>The pending state of a value (is it to be written, and what), and the content of the store.\<close>

definition pending :: "'kv Store \<Rightarrow> string list \<Rightarrow> (bool \<times> bytes) option" where
  "pending cs p = map_option (\<lambda>i. (syncNeeded i, lazyRecord i)) (info_at (rootValue cs) p)"

definition kvBytes :: "('j, 'kv) env \<Rightarrow> 'kv \<Rightarrow> string \<Rightarrow> bytes option" where
  "kvBytes E kv k = (case kv_Get (nk E) k kv of Inr (v, _) \<Rightarrow> Some v | Inl _ \<Rightarrow> None)"

definition skel :: "node \<Rightarrow> string list \<Rightarrow> string list option" where
  "skel r p = map_option (\<lambda>n. map fst (store n)) (node_at r p)"

definition storeKey :: "'kv Store \<Rightarrow> string list \<Rightarrow> string" where
  "storeKey cs p = toStoreKey cs (join_on CHR ''.'' p)"

lemma skel_upd_info [simp]: "skel (upd_info p f r) = skel r"
proof
  fix q show "skel (upd_info p f r) q = skel r q"
  proof (induction p arbitrary: r q)
    case Nil
    then show ?case by (cases q) (auto simp: skel_def upd_info_def)
  next
    case (Cons t p)
    note IH = Cons[unfolded upd_info_def skel_def]
    have "map fst (map (\<lambda>(k, c). (k, if k = t then upd_at p (\<lambda>n. Node (f (info n)) (store n)) c else c)) cs) = map fst cs" for cs
      by (induction cs) auto
    then show ?case
      using IH by (cases q) (auto simp: skel_def upd_info_def map_of_upd_child split: option.split)
  qed
qed

lemma skel_None: "skel r p = None \<longleftrightarrow> node_at r p = None"
  by (simp add: skel_def)

lemma lazyRecord_frame [simp]:
  "lazyRecord (i\<lparr>syncNeeded := b\<rparr>) = lazyRecord i" "lazyRecord (i\<lparr>purgeState := n\<rparr>) = lazyRecord i"
  "lazyRecord (i\<lparr>storeConsistencyWithKVLossTime := t\<rparr>) = lazyRecord i"
  by (simp_all add: lazyRecord_def recordTime_def)

lemma pending_upd_info:
  assumes "\<And>i. syncNeeded (f i) = syncNeeded i \<and> lazyRecord (f i) = lazyRecord i"
  shows "map_option (\<lambda>i. (syncNeeded i, lazyRecord i)) (info_at (upd_info p f r) q) =
     map_option (\<lambda>i. (syncNeeded i, lazyRecord i)) (info_at r q)"
  using assms by (auto simp: info_at_upd_info option.map_comp o_def)

lemma tryPurge_frame: "syncNeeded (tryPurge i) = syncNeeded i \<and> lazyRecord (tryPurge i) = lazyRecord i"
  by (simp add: tryPurge_def TryPurgeConfirm_def TryPurgeReady_def)

lemma loseConsistency_frame: "syncNeeded (loseConsistency t i) = syncNeeded i \<and> lazyRecord (loseConsistency t i) = lazyRecord i"
  by (simp add: loseConsistency_def)

lemma ConsistencyLoss_frame:
  "map_option (\<lambda>i. (syncNeeded i, lazyRecord i)) (info_at (ConsistencyLoss csv t r) q) =
     map_option (\<lambda>i. (syncNeeded i, lazyRecord i)) (info_at r q)"
  and ConsistencyLoss_skel: "skel (ConsistencyLoss csv t r) = skel r"
proof -
  have "map_option (\<lambda>i. (syncNeeded i, lazyRecord i)) (info_at (loseAlongReversedPath up t r) q) =
     map_option (\<lambda>i. (syncNeeded i, lazyRecord i)) (info_at r q) \<and> skel (loseAlongReversedPath up t r) = skel r" for up
    by (induction up t r rule: loseAlongReversedPath.induct)
      (simp_all add: pending_upd_info loseConsistency_frame del: rev.simps)
  then show "map_option (\<lambda>i. (syncNeeded i, lazyRecord i)) (info_at (ConsistencyLoss csv t r) q) =
     map_option (\<lambda>i. (syncNeeded i, lazyRecord i)) (info_at r q)" "skel (ConsistencyLoss csv t r) = skel r"
    by (simp_all add: ConsistencyLoss_def)
qed

text \<open>A pass may meet writes that fail (an invalid key, no connection): the record stays pending
  and the store is as it was. What a pass does to one pending record of the store it started from:\<close>

definition put_accepted :: "('j, 'kv) env \<Rightarrow> string \<Rightarrow> bytes \<Rightarrow> bool" where
  "put_accepted E k r \<longleftrightarrow> (\<forall>s. \<exists>q s'. kv_Put (nk E) k r s = (Inr q, s'))"

definition put_refused :: "('j, 'kv) env \<Rightarrow> string \<Rightarrow> bytes \<Rightarrow> bool" where
  "put_refused E k r \<longleftrightarrow> (\<forall>s. \<exists>e s'. kv_Put (nk E) k r s = (Inl e, s'))"

definition lazyOutcome :: "('j, 'kv) env \<Rightarrow> 'kv Store \<Rightarrow> 'kv Store \<Rightarrow> string list \<Rightarrow> bytes \<Rightarrow> bool" where
  "lazyOutcome E cs0 cs q r \<longleftrightarrow>
     (\<not> put_refused E (storeKey cs0 q) r \<and> kvBytes E (cs_kv cs) (storeKey cs0 q) = Some r \<and>
        (\<forall>r'. pending cs q \<noteq> Some (True, r'))) \<or>
     (\<not> put_accepted E (storeKey cs0 q) r \<and> pending cs q = Some (True, r) \<and>
        kvBytes E (cs_kv cs) (storeKey cs0 q) = kvBytes E (cs_kv cs0) (storeKey cs0 q))"

definition keptOrCollected :: "'kv Store \<Rightarrow> 'kv Store \<Rightarrow> string list \<Rightarrow> bool" where
  "keptOrCollected cs cs' q \<longleftrightarrow>
     pending cs' q = pending cs q \<or> pending cs' q = None \<and> (\<exists>r. pending cs q = Some (False, r))"

lemma lazyOutcome_frame:
  assumes "lazyOutcome E a b q r" and "storeKey a' q = storeKey a q"
    and "kvBytes E (cs_kv a') (storeKey a q) = kvBytes E (cs_kv a) (storeKey a q)"
    and "kvBytes E (cs_kv c) (storeKey a q) = kvBytes E (cs_kv b) (storeKey a q)"
    and "keptOrCollected b c q"
  shows "lazyOutcome E a' c q r"
proof -
  have "pending c q = Some (True, r') \<longleftrightarrow> pending b q = Some (True, r')" for r'
    using assms(5) by (auto simp: keptOrCollected_def)
  with assms(1-4) show ?thesis unfolding lazyOutcome_def by simp
qed

text \<open>One child: its pending record is stored or stays pending, nothing else is stored or becomes pending.\<close>

definition sameConfig :: "'kv Store \<Rightarrow> 'kv Store \<Rightarrow> bool" where
  "sameConfig cs cs' \<longleftrightarrow> cacheConfig cs' = cacheConfig cs \<and> transactions cs' = transactions cs"

lemma lazyVisitChild_effect:
  assumes K: "natskv_ok (nk E)" and sfx: "suffix = join_on CHR ''.'' csv" "depth = length csv"
    and cs': "cs' = lazyVisitChild E csv suffix depth key cs"
  shows "sameConfig cs cs' \<and> skel (rootValue cs') = skel (rootValue cs) \<and>
     (\<forall>q. q \<noteq> csv @ [key] \<longrightarrow> pending cs' q = pending cs q) \<and>
     (\<forall>r. pending cs (csv @ [key]) = Some (True, r) \<longrightarrow> lazyOutcome E cs cs' (csv @ [key]) r) \<and>
     (\<forall>k. (\<forall>r. k = storeKey cs (csv @ [key]) \<longrightarrow> pending cs (csv @ [key]) \<noteq> Some (True, r)) \<longrightarrow>
        kvBytes E (cs_kv cs') k = kvBytes E (cs_kv cs) k)"
proof -
  let ?new = "if depth = 0 then suffix @ key else suffix @ CHR ''.'' # key"
  have new: "?new = join_on CHR ''.'' (csv @ [key])"
    using sfx by (cases "csv = []") (auto simp: join_on_snoc)
  then have skey: "toStoreKey cs ?new = storeKey cs (csv @ [key])" by (simp add: storeKey_def)
  show ?thesis
  proof (cases "info_at (rootValue cs) (csv @ [key])")
    case None
    then have "cs' = cs" by (simp add: cs' lazyVisitChild_def del: info_at_None)
    moreover have "pending cs (csv @ [key]) = None" using None by (simp add: pending_def)
    ultimately show ?thesis by (simp add: sameConfig_def)
  next
    case (Some i)
    show ?thesis
    proof (cases "syncNeeded i")
      case True
      have p: "pending cs (csv @ [key]) = Some (True, lazyRecord i)" using Some True by (simp add: pending_def)
      obtain res kv' where put: "kv_Put (nk E) (storeKey cs (csv @ [key])) (lazyRecord i) (cs_kv cs) = (res, kv')"
        by fastforce
      from nk_put[OF K, of "storeKey cs (csv @ [key])" "lazyRecord i" "cs_kv cs"] put
      have law: "natskv_write_laws (nk E) (storeKey cs (csv @ [key])) (lazyRecord i) (cs_kv cs) (res, kv')" by simp
      show ?thesis
      proof (cases res)
        case (Inl err)
        with law have "kv' = cs_kv cs" by (simp add: natskv_write_laws_def)
        with Inl Some True put skey have "cs' = cs" by (simp add: cs' lazyVisitChild_def Let_def)
        moreover have "\<not> put_accepted E (storeKey cs (csv @ [key])) (lazyRecord i)"
          using put Inl unfolding put_accepted_def by (metis Inl_Inr_False Pair_inject)
        ultimately show ?thesis using p by (simp add: lazyOutcome_def sameConfig_def)
      next
        case (Inr r)
        have kv: "kvBytes E kv' = (kvBytes E (cs_kv cs))(storeKey cs (csv @ [key]) \<mapsto> lazyRecord i)"
          using law Inr by (auto simp: natskv_write_laws_def kvBytes_def fun_eq_iff)
        have c: "cs' = cs\<lparr>cs_kv := kv', rootValue := upd_info (csv @ [key])
              (\<lambda>j. if valueUpdateTime i = valueUpdateTime j then j\<lparr>syncNeeded := False\<rparr> else j) (rootValue cs)\<rparr>"
          using Some True put skey Inr by (simp add: cs' lazyVisitChild_def Let_def)
        have "\<not> put_refused E (storeKey cs (csv @ [key])) (lazyRecord i)"
          using put Inr unfolding put_refused_def by (metis Inl_Inr_False Pair_inject)
        moreover have "pending cs' (csv @ [key]) = Some (False, lazyRecord i)"
          using Some by (simp add: c pending_def info_at_upd_info)
        moreover have "pending cs' q = pending cs q" if "q \<noteq> csv @ [key]" for q
          using that by (simp add: c pending_def info_at_upd_info)
        ultimately show ?thesis using kv p by (auto simp: c lazyOutcome_def sameConfig_def)
      qed
    next
      case False
      have "pending cs' q = pending cs q" for q
        using Some False by (auto simp: cs' lazyVisitChild_def Let_def GetCurrentTimeNs_def pending_def
            pending_upd_info tryPurge_frame ConsistencyLoss_frame)
      moreover have "sameConfig cs cs'" "skel (rootValue cs') = skel (rootValue cs)" "cs_kv cs' = cs_kv cs"
        using Some False by (auto simp: cs' lazyVisitChild_def Let_def GetCurrentTimeNs_def sameConfig_def ConsistencyLoss_skel)
      ultimately show ?thesis using Some False by (auto simp: pending_def)
    qed
  qed
qed

text \<open>All children of one value.\<close>

lemma storeKey_sameConfig: "sameConfig cs cs' \<Longrightarrow> storeKey cs' p = storeKey cs p"
  by (simp add: storeKey_def toStoreKey_def sameConfig_def)

lemma sameConfig_trans: "sameConfig a b \<Longrightarrow> sameConfig b c \<Longrightarrow> sameConfig a c"
  by (simp add: sameConfig_def)

lemma storeKey_inject:
  "list_all dot_free p \<Longrightarrow> list_all dot_free q \<Longrightarrow> p \<noteq> [] \<Longrightarrow> q \<noteq> [] \<Longrightarrow> storeKey cs p = storeKey cs q \<longleftrightarrow> p = q"
proof -
  assume *: "list_all dot_free p" "list_all dot_free q" "p \<noteq> []" "q \<noteq> []"
  then have "split_dot (join_on CHR ''.'' p) = p" "split_dot (join_on CHR ''.'' q) = q"
    by (simp_all add: split_join list_all_iff dot_free_def)
  then show ?thesis by (simp add: storeKey_def toStoreKey_def) metis
qed

definition writesOf :: "'kv Store \<Rightarrow> string list set \<Rightarrow> string \<Rightarrow> bytes \<Rightarrow> bool" where
  "writesOf cs Q k r \<longleftrightarrow> (\<exists>q\<in>Q. k = storeKey cs q \<and> pending cs q = Some (True, r))"

lemma lazyVisitChildren_effect:
  assumes K: "natskv_ok (nk E)" and sfx: "suffix = join_on CHR ''.'' csv" "depth = length csv"
  shows "distinct ks \<Longrightarrow> \<forall>k\<in>set ks. list_all dot_free (csv @ [k]) \<Longrightarrow>
     cs' = fold (lazyVisitChild E csv suffix depth) ks cs \<Longrightarrow>
     sameConfig cs cs' \<and> skel (rootValue cs') = skel (rootValue cs) \<and>
     (\<forall>q. q \<notin> (\<lambda>k. csv @ [k]) ` set ks \<longrightarrow> pending cs' q = pending cs q) \<and>
     (\<forall>q\<in>(\<lambda>k. csv @ [k]) ` set ks. \<forall>r. pending cs q = Some (True, r) \<longrightarrow> lazyOutcome E cs cs' q r) \<and>
     (\<forall>k. (\<forall>r. \<not> writesOf cs ((\<lambda>k. csv @ [k]) ` set ks) k r) \<longrightarrow> kvBytes E (cs_kv cs') k = kvBytes E (cs_kv cs) k)"
proof (induction ks arbitrary: cs)
  case Nil
  then show ?case by (simp add: sameConfig_def writesOf_def)
next
  case (Cons a ks)
  let ?c1 = "lazyVisitChild E csv suffix depth a cs"
  let ?Q = "(\<lambda>k. csv @ [k]) ` set ks"
  from lazyVisitChild_effect[OF K sfx refl, of cs a] have
    c1: "sameConfig cs ?c1" "skel (rootValue ?c1) = skel (rootValue cs)"
      "\<And>q. q \<noteq> csv @ [a] \<Longrightarrow> pending ?c1 q = pending cs q"
      "\<And>r. pending cs (csv @ [a]) = Some (True, r) \<Longrightarrow> lazyOutcome E cs ?c1 (csv @ [a]) r"
      "\<And>k. (\<And>r. k = storeKey cs (csv @ [a]) \<Longrightarrow> pending cs (csv @ [a]) \<noteq> Some (True, r)) \<Longrightarrow>
        kvBytes E (cs_kv ?c1) k = kvBytes E (cs_kv cs) k" by blast+
  have IH: "sameConfig ?c1 cs'" "skel (rootValue cs') = skel (rootValue ?c1)"
      "\<And>q. q \<notin> ?Q \<Longrightarrow> pending cs' q = pending ?c1 q"
      "\<And>q r. q \<in> ?Q \<Longrightarrow> pending ?c1 q = Some (True, r) \<Longrightarrow> lazyOutcome E ?c1 cs' q r"
      "\<And>k. (\<And>r. \<not> writesOf ?c1 ?Q k r) \<Longrightarrow> kvBytes E (cs_kv cs') k = kvBytes E (cs_kv ?c1) k"
    using Cons.IH[of ?c1] Cons.prems by auto
  have notin: "csv @ [a] \<notin> ?Q" using Cons.prems(1) by auto
  note key1 = storeKey_sameConfig[OF c1(1)]
  have w: "writesOf ?c1 ?Q k r \<longleftrightarrow> writesOf cs ?Q k r" for k r
    using c1(3) notin key1 unfolding writesOf_def by metis
  have inj: "storeKey cs q \<noteq> storeKey cs (csv @ [a])" if "q \<in> ?Q" for q
    using that Cons.prems notin storeKey_inject[of q "csv @ [a]" cs] by auto
  have key_a: "\<not> writesOf cs ?Q (storeKey cs (csv @ [a])) r" for r
    using inj unfolding writesOf_def by metis
  have wC: "writesOf cs ((\<lambda>k. csv @ [k]) ` set (a # ks)) k r \<longleftrightarrow>
      writesOf cs ?Q k r \<or> k = storeKey cs (csv @ [a]) \<and> pending cs (csv @ [a]) = Some (True, r)" for k r
    by (auto simp: writesOf_def)
  have a: "lazyOutcome E cs cs' (csv @ [a]) r" if "pending cs (csv @ [a]) = Some (True, r)" for r
  proof (rule lazyOutcome_frame[OF c1(4)[OF that]])
    show "kvBytes E (cs_kv cs') (storeKey cs (csv @ [a])) = kvBytes E (cs_kv ?c1) (storeKey cs (csv @ [a]))"
      using key_a w by (intro IH(5)) simp
    show "keptOrCollected ?c1 cs' (csv @ [a])" using IH(3)[OF notin] by (simp add: keptOrCollected_def)
  qed simp_all
  have rest: "lazyOutcome E cs cs' q r" if q: "q \<in> ?Q" "pending cs q = Some (True, r)" for q r
  proof -
    have "pending ?c1 q = Some (True, r)" using c1(3)[of q] q notin by auto
    from IH(4)[OF q(1) this] show ?thesis
    proof (rule lazyOutcome_frame)
      show "kvBytes E (cs_kv cs) (storeKey ?c1 q) = kvBytes E (cs_kv ?c1) (storeKey ?c1 q)"
        using c1(5)[of "storeKey cs q"] inj[OF q(1)] by (simp add: key1)
    qed (simp_all add: key1 keptOrCollected_def)
  qed
  have other: "kvBytes E (cs_kv cs') k = kvBytes E (cs_kv cs) k"
    if "\<And>r. \<not> writesOf cs ((\<lambda>k. csv @ [k]) ` set (a # ks)) k r" for k
  proof -
    have "kvBytes E (cs_kv cs') k = kvBytes E (cs_kv ?c1) k" using IH(5)[of k] w wC that by blast
    also have "\<dots> = kvBytes E (cs_kv cs) k" using wC[of k] that by (intro c1(5)) blast
    finally show ?thesis .
  qed
  have "sameConfig cs cs'" "skel (rootValue cs') = skel (rootValue cs)"
    using IH(1,2) c1(1,2) sameConfig_trans by auto
  moreover have "pending cs' q = pending cs q" if "q \<notin> (\<lambda>k. csv @ [k]) ` set (a # ks)" for q
    using IH(3)[of q] c1(3)[of q] that by simp
  ultimately show ?case using a rest other by auto
qed

end
