(* ===== verification/CacheFlush.thy ===== *)
theory CacheFlush
  imports CacheSync "HOL-Library.Sublist"
begin

text \<open>
  A pass of the lazy writer visits every value below the root, ends within its fuel, stores every
  pending record and stores nothing else. The invariant of the loop is stated over the paths on the
  stack: no two of them extend each other, and what they do not extend has been written.
\<close>

section \<open>Paths of a tree\<close>

definition paths :: "node \<Rightarrow> string list set" where
  "paths r = {p. node_at r p \<noteq> None}"

lemma paths_Node:
  "paths (Node i cs) = insert [] (\<Union>(k, c)\<in>set cs. if map_of cs k = Some c then (#) k ` paths c else {})"
proof (intro set_eqI iffI)
  fix p assume p: "p \<in> paths (Node i cs)"
  show "p \<in> insert [] (\<Union>(k, c)\<in>set cs. if map_of cs k = Some c then (#) k ` paths c else {})"
  proof (cases p)
    case (Cons k q)
    with p obtain c where "map_of cs k = Some c" "node_at c q \<noteq> None"
      by (auto simp: paths_def split: option.splits)
    with Cons show ?thesis
      by (intro insertI2 UN_I[of "(k, c)"]) (simp_all add: paths_def map_of_SomeD)
  qed simp
qed (auto simp: paths_def split: if_splits)

lemma paths_card: "finite (paths r) \<and> card (paths r) \<le> node_count r"
proof (induction r)
  case (Node i cs)
  have IH: "finite (paths c) \<and> card (paths c) \<le> node_count c" if "(k, c) \<in> set cs" for k c
    using Node[of "(k, c)" c] that by simp
  have "finite (\<Union>(k, c)\<in>set ds. if map_of cs k = Some c then (#) k ` paths c else {}) \<and>
     card (\<Union>(k, c)\<in>set ds. if map_of cs k = Some c then (#) k ` paths c else {}) \<le> sum_list (map (\<lambda>(k, c). node_count c) ds)"
    if "set ds \<subseteq> set cs" for ds
    using that
  proof (induction ds)
    case (Cons d ds)
    obtain k c where d: "d = (k, c)" by (cases d)
    have c: "finite (paths c)" "card (paths c) \<le> node_count c" using IH[of k c] Cons.prems d by auto
    let ?A = "if map_of cs k = Some c then (#) k ` paths c else {}"
    let ?B = "\<Union>(k, c)\<in>set ds. if map_of cs k = Some c then (#) k ` paths c else {}"
    have A: "finite ?A" "card ?A \<le> node_count c"
      using c card_image_le[of "paths c" "(#) k"] by auto
    have B: "finite ?B" "card ?B \<le> sum_list (map (\<lambda>(k, c). node_count c) ds)"
      using Cons by auto
    have "card (?A \<union> ?B) \<le> node_count c + sum_list (map (\<lambda>(k, c). node_count c) ds)"
      using card_Un_le[of ?A ?B] A B by linarith
    with A B d show ?case by auto
  qed simp
  from this[of cs] show ?case
    unfolding paths_Node by (auto simp: card_insert_if)
qed

lemma skel_del_child:
  "skel (upd_at p (del_child t) r) q =
     (if \<exists>s. q = p @ t # s then None
      else if q = p then map_option (filter (\<lambda>k. k \<noteq> t)) (skel r q) else skel r q)"
proof (induction p arbitrary: r q)
  case Nil
  have "map fst (AList.delete t al) = filter (\<lambda>k. k \<noteq> t) (map fst al)" for al :: "(string \<times> node) list"
    by (induction al) auto
  then show ?case
    by (cases q) (auto simp: del_child_def skel_def)
next
  case (Cons u p)
  have "map fst (map (\<lambda>(k, c). (k, if k = u then upd_at p (del_child t) c else c)) cs) = map fst cs" for cs
    by (induction cs) auto
  note keys = this
  show ?case
  proof (cases q)
    case Nil
    with keys show ?thesis by (simp add: skel_def)
  next
    case (Cons w q')
    then show ?thesis
      using Cons.IH[of "the (map_of (store r) w)" q']
      by (cases "w = u"; cases "map_of (store r) w") (simp_all add: skel_def map_of_upd_child)
  qed
qed

text \<open>Collecting a leaf: the other values keep their pending state and their children.\<close>

lemma collectGarbage_frame:
  assumes leaf: "skel (rootValue cs) csv = Some []"
  shows "sameConfig cs (collectGarbage csv cs) \<and> cs_kv (collectGarbage csv cs) = cs_kv cs \<and>
     (\<forall>q. keptOrCollected cs (collectGarbage csv cs) q) \<and>
     (\<forall>q. \<not> prefix csv q \<longrightarrow> pending (collectGarbage csv cs) q = pending cs q) \<and>
     (\<forall>q ks. skel (rootValue (collectGarbage csv cs)) q = Some ks \<longrightarrow>
        (\<exists>ls. skel (rootValue cs) q = Some ls \<and> set ks \<subseteq> set ls \<and> (distinct ls \<longrightarrow> distinct ks))) \<and>
     (\<forall>q. \<not> prefix csv q \<longrightarrow> \<not> prefix q csv \<longrightarrow>
        skel (rootValue (collectGarbage csv cs)) q = skel (rootValue cs) q)"
proof -
  from leaf obtain n where n: "node_at (rootValue cs) csv = Some n" "store n = []"
    by (auto simp: skel_def)
  from n have in_csv: "info_at (rootValue cs) csv = Some (info n)" by (simp add: info_at_def)
  define i where "i = (if \<not> valueExists (info n) \<and> syncedWithKV (info n) then tryPurge (info n) else info n)"
  define r1 where "r1 = upd_info csv (\<lambda>_. i) (rootValue cs)"
  have r1: "skel r1 = skel (rootValue cs)" by (simp add: r1_def)
  have p1: "map_option (\<lambda>i. (syncNeeded i, lazyRecord i)) (info_at r1 q) = pending cs q" for q
    using tryPurge_frame[of "info n"] in_csv
    by (cases "q = csv") (simp_all add: r1_def info_at_upd_info pending_def i_def)
  show ?thesis
  proof (cases "csv \<noteq> [] \<and> purgeState i = 2 \<and> \<not> syncNeeded i \<and> syncedWithKV i \<and> notifyUpdates i = []")
    case False
    then have "collectGarbage csv cs = cs\<lparr>rootValue := r1\<rparr>"
      using n by (auto simp: collectGarbage_def Let_def i_def r1_def)
    with p1 r1 show ?thesis by (auto simp: sameConfig_def pending_def keptOrCollected_def)
  next
    case True
    let ?p = "butlast csv" and ?t = "last csv"
    let ?r2 = "upd_at ?p (del_child ?t) r1"
    have gc: "collectGarbage csv cs = cs\<lparr>rootValue := ?r2, goroutines := goroutines cs @ [?p]\<rparr>"
      using n True by (simp add: collectGarbage_def Let_def i_def r1_def)
    have csv: "?p @ ?t # s = csv @ s" for s using True by simp
    have same: "info_at ?r2 q = info_at r1 q" if "\<not> prefix csv q" for q
      using that by (auto simp: info_at_del_child csv prefix_def)
    have gone: "info_at ?r2 (csv @ s) = None" for s
      by (auto simp: info_at_del_child csv simp del: info_at_None)
    have low: "pending cs (csv @ s) = None" if "s \<noteq> []" for s
    proof -
      have "node_at (rootValue cs) (csv @ s) = None" using n that by (cases s) (simp_all add: node_at_append)
      then show ?thesis by (simp add: pending_def info_at_def)
    qed
    have at: "pending cs csv = Some (False, lazyRecord i)"
      using True p1[of csv, symmetric] in_csv by (simp add: r1_def info_at_upd_info)
    have "keptOrCollected cs (collectGarbage csv cs) q" for q
    proof (cases "prefix csv q")
      case False
      with same[OF this] p1[of q] gc show ?thesis by (simp add: keptOrCollected_def pending_def)
    next
      case True
      then obtain s where q: "q = csv @ s" by (auto simp: prefix_def)
      have "pending (collectGarbage csv cs) q = None" using gone gc by (simp add: pending_def q del: info_at_None)
      with at low[of s] show ?thesis by (cases "s = []") (auto simp: keptOrCollected_def q)
    qed
    moreover from same have "info_at ?r2 q = info_at r1 q" if "\<not> prefix csv q" for q using that by simp
    moreover have "skel ?r2 q = (if prefix csv q then None
        else if q = ?p then map_option (filter (\<lambda>k. k \<noteq> ?t)) (skel (rootValue cs) q) else skel (rootValue cs) q)" for q
      by (auto simp: skel_del_child csv r1 prefix_def)
    moreover have "prefix ?p csv" by (metis True append_butlast_last_id prefixI)
    ultimately show ?thesis
      using p1 gc by (auto simp: sameConfig_def pending_def split: if_splits)
  qed
qed

section \<open>The loop invariant\<close>

definition todo :: "lazy_entry list \<Rightarrow> string list \<Rightarrow> bool" where
  "todo stack q \<longleftrightarrow> (\<exists>e\<in>set stack. strict_prefix (fst e) q)"

definition apart :: "lazy_entry \<Rightarrow> lazy_entry \<Rightarrow> bool" where
  "apart a b \<longleftrightarrow> \<not> prefix (fst a) (fst b) \<and> \<not> prefix (fst b) (fst a)"

definition stackOk :: "lazy_entry list \<Rightarrow> 'kv Store \<Rightarrow> bool" where
  "stackOk stack cs \<longleftrightarrow>
     (\<forall>(e, nm, depth)\<in>set stack. nm = join_on CHR ''.'' e \<and> depth = length e \<and> skel (rootValue cs) e \<noteq> None) \<and>
     sorted_wrt apart stack \<and>
     (\<forall>q ks. skel (rootValue cs) q = Some ks \<longrightarrow> distinct ks \<and> list_all dot_free q)"

definition lazyInv :: "('j, 'kv) env \<Rightarrow> 'kv Store \<Rightarrow> lazy_entry list \<Rightarrow> 'kv Store \<Rightarrow> bool" where
  "lazyInv E cs0 stack cs \<longleftrightarrow>
     stackOk stack cs \<and> sameConfig cs0 cs \<and>
     (\<forall>q. todo stack q \<longrightarrow> pending cs q = pending cs0 q) \<and>
     (\<forall>q r. pending cs0 q = Some (True, r) \<longrightarrow> q \<noteq> [] \<longrightarrow> \<not> todo stack q \<longrightarrow>
        lazyOutcome E cs0 cs q r) \<and>
     (\<forall>k. (\<forall>q r. pending cs0 q = Some (True, r) \<longrightarrow> q \<noteq> [] \<longrightarrow> \<not> todo stack q \<longrightarrow> k \<noteq> storeKey cs0 q) \<longrightarrow>
        kvBytes E (cs_kv cs) k = kvBytes E (cs_kv cs0) k)"

definition lazyEntries :: "lazy_entry \<Rightarrow> string list \<Rightarrow> lazy_entry list" where
  "lazyEntries e ks = (case e of (csv, nm, depth) \<Rightarrow>
     map (\<lambda>k. (csv @ [k], if depth = 0 then nm @ k else nm @ CHR ''.'' # k, depth + 1)) ks)"

definition lazyVisit :: "('j, 'kv) env \<Rightarrow> lazy_entry \<Rightarrow> string list \<Rightarrow> 'kv Store \<Rightarrow> 'kv Store" where
  "lazyVisit E e ks cs = (case e of (csv, nm, depth) \<Rightarrow>
     (let cs = fold (lazyVisitChild E csv nm depth) ks cs
      in if ks = [] then collectGarbage csv cs else cs))"

lemma lazyLoop_step:
  "node_at (rootValue cs) (fst e) = Some n \<Longrightarrow> lazyLoop E (Suc fuel) (e # stack) lru cs =
     lazyLoop E fuel (rev (lazyEntries e (map fst (store n))) @ stack) (lru @ [valueUpdateTime (info n)])
       (lazyVisit E e (map fst (store n)) cs)"
  by (cases e) (simp add: lazyEntries_def lazyVisit_def Let_def)

lemma fst_lazyEntries: "fst ` set (lazyEntries e ks) = (\<lambda>k. fst e @ [k]) ` set ks"
  by (cases e) (force simp: lazyEntries_def)

lemma todo_step:
  "todo (rev (lazyEntries e ks) @ stack) q \<longleftrightarrow> (\<exists>k\<in>set ks. strict_prefix (fst e @ [k]) q) \<or> todo stack q"
proof -
  have "(\<exists>x\<in>set (lazyEntries e ks). strict_prefix (fst x) q) \<longleftrightarrow> (\<exists>p\<in>fst ` set (lazyEntries e ks). strict_prefix p q)"
    by blast
  then show ?thesis unfolding todo_def fst_lazyEntries by auto
qed

lemma strict_prefix_child: "strict_prefix p q \<longleftrightarrow> (\<exists>k s. q = p @ k # s)"
proof
  assume "strict_prefix p q"
  then obtain zs where "q = p @ zs" "zs \<noteq> []" by (auto simp: strict_prefix_def prefix_def)
  then show "\<exists>k s. q = p @ k # s" by (cases zs) auto
qed (auto simp: strict_prefix_def prefix_def)

lemma apart_children:
  "distinct ks \<Longrightarrow> sorted_wrt apart (rev (lazyEntries e ks))"
proof (induction ks)
  case (Cons k ks)
  obtain csv nm depth where e: "e = (csv, nm, depth)" by (cases e)
  let ?x = "(csv @ [k], if depth = 0 then nm @ k else nm @ CHR ''.'' # k, depth + 1)"
  have "lazyEntries e (k # ks) = ?x # lazyEntries e ks" by (simp add: lazyEntries_def e)
  moreover have "apart y ?x" if "y \<in> set (lazyEntries e ks)" for y
    using that Cons.prems by (auto simp: lazyEntries_def e apart_def)
  ultimately show ?case using Cons by (simp add: sorted_wrt_append)
qed (simp add: lazyEntries_def split: prod.split)

lemma apart_rest:
  assumes "apart e f" and "x \<in> set (lazyEntries e ks)"
  shows "apart x f"
proof -
  have "fst x \<in> (\<lambda>k. fst e @ [k]) ` set ks"
    using assms(2) fst_lazyEntries by blast
  then obtain k where "fst x = fst e @ [k]" by blast
  with assms(1) show ?thesis
    unfolding apart_def by (metis append_prefixD prefix_order.refl prefix_snoc)
qed

lemma visited_frame:
  assumes K: "natskv_ok (nk E)" and ok: "stackOk (e # stack) cs"
    and ks: "skel (rootValue cs) (fst e) = Some ks"
  defines "cs' \<equiv> lazyVisit E e ks cs" and "Q \<equiv> (\<lambda>k. fst e @ [k]) ` set ks"
  shows "sameConfig cs cs'"
    and "\<And>q. \<not> prefix (fst e) q \<Longrightarrow> pending cs' q = pending cs q"
    and "\<And>q. q \<notin> Q \<Longrightarrow> ks \<noteq> [] \<Longrightarrow> pending cs' q = pending cs q"
    and "\<And>q r. q \<in> Q \<Longrightarrow> pending cs q = Some (True, r) \<Longrightarrow> lazyOutcome E cs cs' q r"
    and "\<And>q. q \<notin> Q \<Longrightarrow> keptOrCollected cs cs' q"
    and "\<And>k. (\<And>r. \<not> writesOf cs Q k r) \<Longrightarrow> kvBytes E (cs_kv cs') k = kvBytes E (cs_kv cs) k"
    and "\<And>q ls. skel (rootValue cs') q = Some ls \<Longrightarrow> distinct ls \<and> list_all dot_free q \<and> skel (rootValue cs) q \<noteq> None"
    and "\<And>q. \<not> prefix (fst e) q \<Longrightarrow> \<not> prefix q (fst e) \<Longrightarrow> skel (rootValue cs') q = skel (rootValue cs) q"
    and "ks \<noteq> [] \<Longrightarrow> skel (rootValue cs') = skel (rootValue cs)"
proof -
  obtain csv nm depth where e: "e = (csv, nm, depth)" by (cases e)
  have sfx: "nm = join_on CHR ''.'' csv" "depth = length csv" using ok e by (auto simp: stackOk_def)
  have dis: "distinct ks" and tree: "skel (rootValue cs) q = Some ls \<Longrightarrow> distinct ls \<and> list_all dot_free q" for q ls
    using ok ks unfolding stackOk_def by blast+
  have df: "\<forall>k\<in>set ks. list_all dot_free (csv @ [k])"
  proof
    fix k assume "k \<in> set ks"
    from ks e obtain n where n: "node_at (rootValue cs) csv = Some n" "ks = map fst (store n)"
      by (auto simp: skel_def)
    with \<open>k \<in> set ks\<close> obtain c where "map_of (store n) k = Some c"
      using map_of_eq_None_iff[of "store n" k] by (cases "map_of (store n) k") force+
    with n have "skel (rootValue cs) (csv @ [k]) = Some (map fst (store c))" by (simp add: skel_def node_at_snoc)
    from tree[OF this] show "list_all dot_free (csv @ [k])" ..
  qed
  define c1 where "c1 = fold (lazyVisitChild E csv nm depth) ks cs"
  have Q: "Q = (\<lambda>k. csv @ [k]) ` set ks" by (simp add: Q_def e)
  note v = lazyVisitChildren_effect[OF K sfx dis df c1_def, folded Q]
  have c1: "sameConfig cs c1" "skel (rootValue c1) = skel (rootValue cs)"
    "\<And>q. q \<notin> Q \<Longrightarrow> pending c1 q = pending cs q"
    "\<And>q r. q \<in> Q \<Longrightarrow> pending cs q = Some (True, r) \<Longrightarrow> lazyOutcome E cs c1 q r"
    "\<And>k. (\<And>r. \<not> writesOf cs Q k r) \<Longrightarrow> kvBytes E (cs_kv c1) k = kvBytes E (cs_kv cs) k"
    using v by blast+
  have inQ: "q \<notin> Q" if "\<not> prefix csv q" for q using that by (auto simp: Q prefix_def)
  have cs': "cs' = (if ks = [] then collectGarbage csv c1 else c1)"
    by (simp add: cs'_def lazyVisit_def e c1_def Let_def)
  have leaf: "skel (rootValue c1) csv = Some []" if "ks = []" using that ks e c1(2) by simp
  note gc = collectGarbage_frame[OF leaf]
  show "sameConfig cs cs'" using c1(1) gc sameConfig_trans cs' by metis
  show "pending cs' q = pending cs q" if "\<not> prefix (fst e) q" for q
    using that gc c1(3)[OF inQ] by (auto simp: cs' e)
  show "pending cs' q = pending cs q" if "q \<notin> Q" "ks \<noteq> []" for q using that c1(3) by (simp add: cs')
  have kv: "cs_kv cs' = cs_kv c1" using gc by (auto simp: cs')
  have gone: "keptOrCollected c1 cs' q" for q
    using gc by (cases "ks = []") (simp_all add: cs' keptOrCollected_def)
  show "lazyOutcome E cs cs' q r" if "q \<in> Q" "pending cs q = Some (True, r)" for q r
    by (rule lazyOutcome_frame[OF c1(4)[OF that]]) (simp_all add: kv gone)
  show "keptOrCollected cs cs' q" if "q \<notin> Q" for q
    using gone[of q] c1(3)[OF that] by (simp add: keptOrCollected_def)
  show "kvBytes E (cs_kv cs') k = kvBytes E (cs_kv cs) k" if "\<And>r. \<not> writesOf cs Q k r" for k
    using c1(5)[OF that] kv by simp
  show "distinct ls \<and> list_all dot_free q \<and> skel (rootValue cs) q \<noteq> None" if s: "skel (rootValue cs') q = Some ls" for q ls
  proof (cases "ks = []")
    case False
    with s have "skel (rootValue cs) q = Some ls" using c1(2) by (simp add: cs')
    with tree[OF this] show ?thesis by simp
  next
    case True
    with s have "skel (rootValue (collectGarbage csv c1)) q = Some ls" by (simp add: cs')
    with gc[OF True] c1(2) obtain ms where "skel (rootValue cs) q = Some ms" "distinct ms \<longrightarrow> distinct ls" by metis
    with tree[OF this(1)] show ?thesis by simp
  qed
  show "skel (rootValue cs') q = skel (rootValue cs) q" if "\<not> prefix (fst e) q" "\<not> prefix q (fst e)" for q
    using that gc c1(2) by (auto simp: cs' e)
  show "skel (rootValue cs') = skel (rootValue cs)" if "ks \<noteq> []" using that c1(2) by (simp add: cs')
qed

lemma lazyInv_step:
  assumes K: "natskv_ok (nk E)" and inv: "lazyInv E cs0 (e # stack) cs"
    and ks: "skel (rootValue cs) (fst e) = Some ks"
    and tree0: "\<And>q x. pending cs0 q = Some x \<Longrightarrow> list_all dot_free q"
  shows "lazyInv E cs0 (rev (lazyEntries e ks) @ stack) (lazyVisit E e ks cs)"
proof -
  let ?cs' = "lazyVisit E e ks cs" and ?Q = "(\<lambda>k. fst e @ [k]) ` set ks" and ?st = "rev (lazyEntries e ks) @ stack"
  have ok: "stackOk (e # stack) cs" and same: "sameConfig cs0 cs"
    and A: "\<And>q. todo (e # stack) q \<Longrightarrow> pending cs q = pending cs0 q"
    and B: "\<And>q r. pending cs0 q = Some (True, r) \<Longrightarrow> q \<noteq> [] \<Longrightarrow> \<not> todo (e # stack) q \<Longrightarrow>
        lazyOutcome E cs0 cs q r"
    and C: "\<And>k. (\<And>q r. pending cs0 q = Some (True, r) \<Longrightarrow> q \<noteq> [] \<Longrightarrow> \<not> todo (e # stack) q \<Longrightarrow> k \<noteq> storeKey cs0 q) \<Longrightarrow>
        kvBytes E (cs_kv cs) k = kvBytes E (cs_kv cs0) k"
    using inv unfolding lazyInv_def by blast+
  note F = visited_frame[OF K ok ks]
  have ap: "apart e f" if "f \<in> set stack" for f using ok that unfolding stackOk_def by simp
  have key: "storeKey cs q = storeKey cs0 q" for q using storeKey_sameConfig[OF same] .
  have Qtodo: "todo (e # stack) q" if "q \<in> ?Q" for q
    using that by (auto simp: todo_def strict_prefix_child)
  have wQ: "writesOf cs ?Q k r \<Longrightarrow> \<exists>q\<in>?Q. k = storeKey cs0 q \<and> pending cs0 q = Some (True, r) \<and> q \<noteq> []" for k r
    using Qtodo A key unfolding writesOf_def by (metis (no_types, lifting) imageE snoc_eq_iff_butlast)
  have todo_sub: "todo (e # stack) q" if "todo ?st q" for q
    using that unfolding todo_step by (auto simp: todo_def strict_prefix_child)
  have doneQ: "\<not> todo ?st q" if "q \<in> ?Q" for q
  proof -
    from that obtain k where k: "q = fst e @ [k]" by blast
    have "\<not> todo stack q"
    proof
      assume "todo stack q"
      then obtain f where f: "f \<in> set stack" "prefix (fst f) q" by (auto simp: todo_def strict_prefix_def)
      moreover have "prefix (fst e) q" using k by simp
      ultimately show False using ap[OF f(1)] prefix_same_cases unfolding apart_def by blast
    qed
    then show ?thesis using k unfolding todo_step by (auto simp: strict_prefix_child)
  qed
  have A': "pending ?cs' q = pending cs0 q" if q: "todo ?st q" for q
  proof -
    have "pending ?cs' q = pending cs q"
    proof (cases "prefix (fst e) q")
      case False
      then show ?thesis by (rule F(2))
    next
      case True
      have "\<not> todo stack q"
        using ap True prefix_same_cases unfolding todo_def apart_def strict_prefix_def by blast
      with q obtain k where k: "k \<in> set ks" "strict_prefix (fst e @ [k]) q" unfolding todo_step by blast
      then have "q \<notin> ?Q" by (auto simp: strict_prefix_child)
      with k show ?thesis by (intro F(3)) auto
    qed
    with A[OF todo_sub[OF q]] show ?thesis by simp
  qed
  have fresh: "kvBytes E (cs_kv cs) (storeKey cs0 q) = kvBytes E (cs_kv cs0) (storeKey cs0 q)"
    if q: "pending cs0 q = Some x" "todo (e # stack) q" for q x
  proof (rule C)
    fix q' r' assume q': "pending cs0 q' = Some (True, r')" "q' \<noteq> []" "\<not> todo (e # stack) q'"
    have "q \<noteq> []" using q(2) by (auto simp: todo_def strict_prefix_def)
    moreover have "q \<noteq> q'" using q(2) q'(3) by blast
    ultimately show "storeKey cs0 q \<noteq> storeKey cs0 q'"
      using storeKey_inject[OF tree0[OF q(1)] tree0[OF q'(1)], of cs0] q'(2) by simp
  qed
  have notTodo: "\<not> todo (e # stack) q"
    if q: "pending cs0 q = Some x" "\<not> todo ?st q" "q \<notin> ?Q" for q x
  proof
    assume t: "todo (e # stack) q"
    with q(2) have "strict_prefix (fst e) q" unfolding todo_step by (auto simp: todo_def)
    then obtain k s where qs: "q = fst e @ k # s" by (auto simp: strict_prefix_child)
    from A[OF t] q(1) have "node_at (rootValue cs) q \<noteq> None" by (auto simp: pending_def info_at_def)
    then have "node_at (rootValue cs) (fst e @ [k]) \<noteq> None"
      using node_at_prefix[of "rootValue cs" "fst e @ [k]" s] qs by simp
    then obtain n c where "node_at (rootValue cs) (fst e) = Some n" "map_of (store n) k = Some c"
      by (auto simp: node_at_snoc split: option.splits)
    then have "k \<in> fst ` set (store n)" "ks = map fst (store n)"
      using ks by (auto simp: skel_def intro: map_of_SomeD rev_image_eqI)
    then have "k \<in> set ks" by simp
    with q qs show False unfolding todo_step by (cases s) (auto simp: strict_prefix_child)
  qed
  have B': "lazyOutcome E cs0 ?cs' q r"
    if q: "pending cs0 q = Some (True, r)" "q \<noteq> []" "\<not> todo ?st q" for q r
  proof (cases "q \<in> ?Q")
    case True
    then have t: "todo (e # stack) q" by (rule Qtodo)
    with q(1) A have "pending cs q = Some (True, r)" by simp
    have o: "lazyOutcome E cs ?cs' q r" using F(4)[OF True \<open>pending cs q = Some (True, r)\<close>] .
    show ?thesis
      by (rule lazyOutcome_frame[OF o])
        (simp_all only: key fresh[OF q(1) t] keptOrCollected_def simp_thms)
  next
    case False
    have "\<not> writesOf cs ?Q (storeKey cs0 q) r'" for r'
    proof
      assume "writesOf cs ?Q (storeKey cs0 q) r'"
      then obtain q' where q': "q' \<in> ?Q" "storeKey cs0 q = storeKey cs0 q'" "pending cs0 q' = Some (True, r')" "q' \<noteq> []"
        using wQ by blast
      then have "list_all dot_free q'" using tree0 by simp
      with q' tree0[OF q(1)] q(2) False show False by (simp add: storeKey_inject)
    qed
    then have "kvBytes E (cs_kv ?cs') (storeKey cs0 q) = kvBytes E (cs_kv cs) (storeKey cs0 q)" by (rule F(6))
    then show ?thesis
      by (intro lazyOutcome_frame[OF B[OF q(1,2) notTodo[OF q(1,3) False]] refl refl _ F(5)[OF False]])
  qed
  have C': "kvBytes E (cs_kv ?cs') k = kvBytes E (cs_kv cs0) k"
    if k: "\<And>q r. pending cs0 q = Some (True, r) \<Longrightarrow> q \<noteq> [] \<Longrightarrow> \<not> todo ?st q \<Longrightarrow> k \<noteq> storeKey cs0 q" for k
  proof -
    have "\<not> writesOf cs ?Q k r" for r
    proof
      assume "writesOf cs ?Q k r"
      then obtain q where q: "q \<in> ?Q" "k = storeKey cs0 q" "pending cs0 q = Some (True, r)" "q \<noteq> []"
        using wQ by blast
      have "\<not> todo ?st q" using doneQ[OF q(1)] .
      with k q show False by blast
    qed
    then have "kvBytes E (cs_kv ?cs') k = kvBytes E (cs_kv cs) k" by (rule F(6))
    also have "\<dots> = kvBytes E (cs_kv cs0) k" using k todo_sub by (intro C) blast
    finally show ?thesis .
  qed
  have "stackOk ?st ?cs'"
  proof -
    have "sorted_wrt apart ?st"
      using ok ks apart_children[of ks e] apart_rest[OF ap] unfolding stackOk_def
      by (auto simp: sorted_wrt_append)
    moreover have "skel (rootValue ?cs') (fst f) \<noteq> None" if f: "f \<in> set ?st" for f
    proof (cases "f \<in> set stack")
      case True
      with ok have "skel (rootValue cs) (fst f) \<noteq> None" unfolding stackOk_def by (cases f) auto
      with ap[OF True] F(8)[of "fst f"] show ?thesis unfolding apart_def by simp
    next
      case False
      with f have "f \<in> set (lazyEntries e ks)" by simp
      then have "fst f \<in> (\<lambda>k. fst e @ [k]) ` set ks" using fst_lazyEntries by blast
      then obtain k where k: "fst f = fst e @ [k]" "k \<in> set ks" by blast
      from ks obtain n where n: "node_at (rootValue cs) (fst e) = Some n" "ks = map fst (store n)"
        by (auto simp: skel_def)
      with k obtain c where "map_of (store n) k = Some c"
        using map_of_eq_None_iff[of "store n" k] by (cases "map_of (store n) k") auto
      with n k have "skel (rootValue cs) (fst f) \<noteq> None" by (simp add: skel_def node_at_snoc)
      moreover have "ks \<noteq> []" using k by auto
      ultimately show ?thesis using F(9) by simp
    qed
    moreover have "fst (snd f) = join_on CHR ''.'' (fst f) \<and> snd (snd f) = length (fst f)" if f: "f \<in> set ?st" for f
    proof (cases "f \<in> set stack")
      case True
      with ok show ?thesis unfolding stackOk_def by (cases f) auto
    next
      case False
      obtain csv nm depth where e: "e = (csv, nm, depth)" by (cases e)
      with ok have "nm = join_on CHR ''.'' csv" "depth = length csv" by (auto simp: stackOk_def)
      with False f e show ?thesis
        by (cases "csv = []") (auto simp: lazyEntries_def join_on_snoc)
    qed
    ultimately show ?thesis using F(7) unfolding stackOk_def by fastforce
  qed
  with A' B' C' sameConfig_trans[OF same F(1)] show ?thesis unfolding lazyInv_def by blast
qed

definition covered :: "lazy_entry list \<Rightarrow> 'kv Store \<Rightarrow> string list set" where
  "covered stack cs = {q \<in> paths (rootValue cs). \<exists>e\<in>set stack. prefix (fst e) q}"

lemma covered_finite: "finite (covered stack cs)"
  using paths_card[of "rootValue cs"] by (auto simp: covered_def)

lemma covered_step:
  assumes K: "natskv_ok (nk E)" and ok: "stackOk (e # stack) cs"
    and ks: "skel (rootValue cs) (fst e) = Some ks"
  shows "card (covered (rev (lazyEntries e ks) @ stack) (lazyVisit E e ks cs)) < card (covered (e # stack) cs)"
proof -
  let ?c' = "covered (rev (lazyEntries e ks) @ stack) (lazyVisit E e ks cs)"
  have ap: "apart e f" if "f \<in> set stack" for f using ok that unfolding stackOk_def by simp
  have "fst e \<in> covered (e # stack) cs" using ks by (auto simp: covered_def paths_def skel_def)
  moreover have "?c' \<subseteq> covered (e # stack) cs - {fst e}"
  proof
    fix q assume q: "q \<in> ?c'"
    then obtain f where f: "f \<in> set (lazyEntries e ks) \<union> set stack" "prefix (fst f) q"
      and n: "node_at (rootValue (lazyVisit E e ks cs)) q \<noteq> None" by (auto simp: covered_def paths_def)
    from n obtain ls where "skel (rootValue (lazyVisit E e ks cs)) q = Some ls" by (auto simp: skel_def)
    from visited_frame(7)[OF K ok ks this] have inp: "q \<in> paths (rootValue cs)" by (simp add: paths_def skel_def)
    show "q \<in> covered (e # stack) cs - {fst e}"
    proof (cases "f \<in> set stack")
      case True
      with f(2) ap[OF True] inp show ?thesis by (auto simp: covered_def apart_def)
    next
      case False
      with f have "fst f \<in> (\<lambda>k. fst e @ [k]) ` set ks" using fst_lazyEntries by blast
      with f(2) inp show ?thesis by (auto simp: covered_def prefix_def)
    qed
  qed
  ultimately have "?c' \<subset> covered (e # stack) cs" by blast
  then show ?thesis by (rule psubset_card_mono[OF covered_finite])
qed

lemma lazyLoop_done:
  assumes K: "natskv_ok (nk E)" and tree0: "\<And>q x. pending cs0 q = Some x \<Longrightarrow> list_all dot_free q"
  shows "lazyInv E cs0 stack cs \<Longrightarrow> card (covered stack cs) \<le> fuel \<Longrightarrow>
     fst (lazyLoop E fuel stack lru cs) = [] \<and> lazyInv E cs0 [] (snd (snd (lazyLoop E fuel stack lru cs)))"
proof (induction fuel arbitrary: stack lru cs)
  case 0
  have "stack = []"
  proof (cases stack)
    case (Cons e st)
    with "0.prems"(1) have "skel (rootValue cs) (fst e) \<noteq> None" by (cases e) (auto simp: lazyInv_def stackOk_def)
    with Cons have "fst e \<in> covered stack cs" by (auto simp: covered_def paths_def skel_def)
    with "0.prems"(2) covered_finite[of stack cs] show ?thesis by auto
  qed
  with 0 show ?case by simp
next
  case (Suc fuel)
  show ?case
  proof (cases stack)
    case Nil
    with Suc.prems show ?thesis by simp
  next
    case (Cons e st)
    have ok: "stackOk (e # st) cs" using Suc.prems Cons by (simp add: lazyInv_def)
    then have "skel (rootValue cs) (fst e) \<noteq> None" by (cases e) (auto simp: stackOk_def)
    then obtain n where n: "node_at (rootValue cs) (fst e) = Some n" by (auto simp: skel_def)
    then have ks: "skel (rootValue cs) (fst e) = Some (map fst (store n))" by (simp add: skel_def)
    have "lazyInv E cs0 (rev (lazyEntries e (map fst (store n))) @ st) (lazyVisit E e (map fst (store n)) cs)"
      using Suc.prems(1) Cons lazyInv_step[OF K _ ks tree0] by simp
    moreover have "card (covered (rev (lazyEntries e (map fst (store n))) @ st) (lazyVisit E e (map fst (store n)) cs)) \<le> fuel"
      using covered_step[OF K ok ks] Suc.prems(2) Cons by simp
    ultimately show ?thesis
      using Suc.IH Cons lazyLoop_step[of cs e n E fuel st lru, OF n] by simp
  qed
qed

lemma wf_skel: "wf_node r \<Longrightarrow> skel r q = Some ks \<Longrightarrow> distinct ks"
proof -
  assume "wf_node r" "skel r q = Some ks"
  then obtain n where n: "node_at r q = Some n" "ks = map fst (store n)" by (auto simp: skel_def)
  with wf_node_at[OF \<open>wf_node r\<close> n(1)] show ?thesis by (cases n) auto
qed

text \<open>
  C2: one pass of the lazy writer ends with its stack empty. For every key whose value waits for
  synchronisation it either stores the value's record (time stamp, append or delete flag, value) and
  the value no longer waits, or the write failed, the store keeps what it had under that key and the
  value still waits for the next pass; the first when the store accepts the write, the second when it
  refuses it. The record of every other key is as it was.
\<close>

theorem lazy_writer_flushes:
  assumes K: "natskv_ok (nk E)" and wf: "wf_node (rootValue cs)"
    and tokens: "\<And>p. node_at (rootValue cs) p \<noteq> None \<Longrightarrow> list_all dot_free p"
  defines "old \<equiv> kvBytes E (cs_kv cs)" and "new \<equiv> kvBytes E (cs_kv (kvLazyWriter E cs))"
    and "after \<equiv> info_at (rootValue (kvLazyWriter E cs))"
  shows "fst (lazyLoop E (node_count (rootValue cs)) [([], [], 0)] [] cs) = [] \<and>
     (case info_at (rootValue cs) (split_dot key) of
        Some i \<Rightarrow>
          (if syncNeeded i then
             (let k = toStoreKey cs key;
                  written = (new k = Some (lazyRecord i) \<and> (\<forall>j. after (split_dot key) = Some j \<longrightarrow> \<not> syncNeeded j));
                  waits = (new k = old k \<and> (\<exists>j. after (split_dot key) = Some j \<and> syncNeeded j \<and> lazyRecord j = lazyRecord i))
              in (written \<or> waits) \<and> (put_accepted E k (lazyRecord i) \<longrightarrow> written) \<and>
                 (put_refused E k (lazyRecord i) \<longrightarrow> waits))
           else new (toStoreKey cs key) = old (toStoreKey cs key))
      | None \<Rightarrow> new (toStoreKey cs key) = old (toStoreKey cs key))"
proof -
  let ?st = "[([], [], 0)] :: lazy_entry list"
  let ?l = "lazyLoop E (node_count (rootValue cs)) ?st [] cs"
  define c1 where "c1 = snd (snd ?l)"
  let ?q = "split_dot key"
  have df: "list_all dot_free q" if "pending cs q = Some x" for q x
    using tokens[of q] that by (auto simp: pending_def info_at_def)
  have "list_all dot_free q" if "skel (rootValue cs) q = Some ks" for q ks
    using tokens[of q] that by (auto simp: skel_def)
  then have "stackOk ?st cs" using wf_skel[OF wf] by (auto simp: stackOk_def skel_def)
  moreover have "todo ?st q" if "q \<noteq> []" for q using that by (simp add: todo_def strict_prefix_def)
  ultimately have "lazyInv E cs ?st cs" unfolding lazyInv_def by (auto simp: sameConfig_def)
  moreover have "card (covered ?st cs) \<le> node_count (rootValue cs)"
    using paths_card[of "rootValue cs"] by (simp add: covered_def)
  ultimately have fin: "fst ?l = []" "lazyInv E cs [] c1"
    using lazyLoop_done[OF K, of cs ?st cs "node_count (rootValue cs)" "[]"] df by (simp_all add: c1_def)
  have kv: "cs_kv (kvLazyWriter E cs) = cs_kv c1" "rootValue (kvLazyWriter E cs) = rootValue c1"
    by (auto simp: kvLazyWriter_def Let_def c1_def split: prod.split)
  have key: "toStoreKey cs key = storeKey cs ?q" by (simp add: storeKey_def)
  have w: "lazyOutcome E cs c1 ?q r" if "pending cs ?q = Some (True, r)" for r
    using fin(2) that unfolding lazyInv_def by (auto simp: todo_def)
  have nw: "kvBytes E (cs_kv c1) (storeKey cs ?q) = kvBytes E (cs_kv cs) (storeKey cs ?q)"
    if no: "\<And>r. pending cs ?q \<noteq> Some (True, r)"
  proof -
    have "storeKey cs ?q \<noteq> storeKey cs q" if "pending cs q = Some (True, r)" "q \<noteq> []" for q r
      using storeKey_inject[OF split_dot_free_tokens df, of q "(True, r)" key cs] that no by auto
    with fin(2) show ?thesis unfolding lazyInv_def by blast
  qed
  show ?thesis
  proof (cases "info_at (rootValue cs) ?q")
    case None
    then have "pending cs ?q = None" by (simp add: pending_def)
    with key nw fin(1) None show ?thesis by (simp add: old_def new_def kv del: info_at_None)
  next
    case (Some i)
    show ?thesis
    proof (cases "syncNeeded i")
      case False
      with Some have "pending cs ?q = Some (False, lazyRecord i)" by (simp add: pending_def)
      with key nw fin(1) Some False show ?thesis by (simp add: old_def new_def kv)
    next
      case True
      with Some have "pending cs ?q = Some (True, lazyRecord i)" by (simp add: pending_def)
      from w[OF this] have "lazyOutcome E cs c1 ?q (lazyRecord i)" .
      moreover have "(\<forall>r'. pending c1 ?q \<noteq> Some (True, r')) \<longleftrightarrow> (\<forall>j. after ?q = Some j \<longrightarrow> \<not> syncNeeded j)"
        "pending c1 ?q = Some (True, lazyRecord i) \<longleftrightarrow>
           (\<exists>j. after ?q = Some j \<and> syncNeeded j \<and> lazyRecord j = lazyRecord i)"
        by (auto simp: pending_def after_def kv)
      ultimately show ?thesis
        using fin(1) Some True unfolding lazyOutcome_def key old_def new_def kv by (auto simp: Let_def)
    qed
  qed
qed

text \<open>A store that refuses one key: the value set under \<open>k\<close> is written, the one set under
  \<open>bad\<close> waits.\<close>

definition strict_env :: "(json, sample_kv) env" where
  "strict_env = sample_env\<lparr>nk := sample_nats\<lparr>kv_Put := (\<lambda>k v s.
     if k = ''store.bad'' then (Inl ''nats: invalid key'', s) else sample_put k v s)\<rparr>\<rparr>"

lemma strict_nats_ok: "natskv_ok (nk strict_env)"
proof -
  have sel: "kv_Get (nk strict_env) = kv_Get sample_nats" "kv_Update (nk strict_env) = kv_Update sample_nats"
    "kv_Seq (nk strict_env) = kv_Seq sample_nats"
    "kv_Put (nk strict_env) k v s = (if k = ''store.bad'' then (Inl ''nats: invalid key'', s) else kv_Put sample_nats k v s)" for k v s
    by (simp_all add: strict_env_def sample_nats_def)
  have laws: "natskv_write_laws (nk strict_env) k v s res = natskv_write_laws sample_nats k v s res" for k v s res
    unfolding natskv_write_laws_def sel ..
  have "natskv_write_laws (nk strict_env) k v s (kv_Put (nk strict_env) k v s)" for k v s
    using nk_put[OF sample_nats_ok, of k v s] unfolding laws sel(4)
    by (simp add: natskv_write_laws_def)
  then show ?thesis
    using sample_nats_ok unfolding natskv_ok_def laws sel(1,2,3) by blast
qed

lemma strict_put:
  "put_accepted strict_env ''store.k'' r" "put_refused strict_env ''store.bad'' r"
  by (simp_all add: put_accepted_def put_refused_def strict_env_def sample_put_def)

lemma one_pending:
  assumes v: "valid_key k" and d: "split_dot k = [k]" and ne: "k \<noteq> []"
  defines "cs \<equiv> snd (SetValue sample_env k [5] True 7 [] sample_cache)"
  shows "wf_node (rootValue cs)" and "\<And>p. node_at (rootValue cs) p \<noteq> None \<Longrightarrow> list_all dot_free p"
    and "info_at (rootValue cs) [k] = Some (newLeafValue [5] True 7)" and "toStoreKey cs k = ''store.'' @ k"
    and "cs_kv cs = cs_kv sample_cache"
proof -
  from ne set_ok_view[OF sample_cache_ok v] have ok: "tree_ok (rootValue cs)" by (simp add: cache_ok_def cs_def)
  show "list_all dot_free p" if "node_at (rootValue cs) p \<noteq> None" for p
    using tree_ok_loss(2)[OF ok, of p] that by (auto simp: info_at_def)
  show "wf_node (rootValue cs)" using ok by (simp add: tree_ok_def)
  have run: "cs = StoreChild [] k (newLeafValue [5] True 7) sample_cache"
    using v d ne by (simp add: cs_def SetValue_def getLastKeyTokenAndItsParentCacheStoreValue_def usableParent_def
        sample_cache_def NewCacheStore_def LoadChild_def)
  show "info_at (rootValue cs) [k] = Some (newLeafValue [5] True 7)"
    unfolding run by (simp add: sample_cache_def NewCacheStore_def StoreChild_def upd_info_def add_child_def info_at_Cons)
  show "toStoreKey cs k = ''store.'' @ k" "cs_kv cs = cs_kv sample_cache"
    unfolding run by (simp_all add: toStoreKey_def StoreChild_def sample_cache_def NewCacheStore_def NewCacheConfig_def)
qed

theorem lazy_writer_flushes_witness:
  "kvBytes strict_env (cs_kv (kvLazyWriter strict_env (snd (SetValue sample_env ''k'' [5] True 7 [] sample_cache))))
     ''store.k'' = Some (be_put64 7 @ [1, 5]) \<and>
   (\<exists>j. info_at (rootValue (kvLazyWriter strict_env (snd (SetValue sample_env ''bad'' [5] True 7 [] sample_cache))))
     [''bad''] = Some j \<and> syncNeeded j)"
proof -
  have v: "valid_key ''k''" "valid_key ''bad''" "split_dot ''k'' = [''k'']" "split_dot ''bad'' = [''bad'']"
    by (simp_all add: valid_key_def key_char_def)
  note a = one_pending[OF v(1,3), simplified] and b = one_pending[OF v(2,4), simplified]
  from lazy_writer_flushes[of strict_env "snd (SetValue sample_env ''k'' [5] True 7 [] sample_cache)" "''k''",
      OF strict_nats_ok a(1,2)] strict_put(1)
  have "kvBytes strict_env (cs_kv (kvLazyWriter strict_env (snd (SetValue sample_env ''k'' [5] True 7 [] sample_cache))))
     ''store.k'' = Some (lazyRecord (newLeafValue [5] True 7))"
    by (simp add: v a(3,4) Let_def newLeafValue_def)
  moreover from lazy_writer_flushes[of strict_env "snd (SetValue sample_env ''bad'' [5] True 7 [] sample_cache)" "''bad''",
      OF strict_nats_ok b(1,2)] strict_put(2)
  have "\<exists>j. info_at (rootValue (kvLazyWriter strict_env (snd (SetValue sample_env ''bad'' [5] True 7 [] sample_cache))))
     [''bad''] = Some j \<and> syncNeeded j"
    by (auto simp: v b(3,4) Let_def newLeafValue_def)
  ultimately show ?thesis by (simp add: lazyRecord_def newLeafValue_def recordTime_def uint64_of_def)
qed

end
