(* ===== verification/CacheUpdates.thy ===== *)
theory CacheUpdates
  imports CacheFlush
begin

text \<open>
  What a cache store does with the records that other runtimes write (\<open>storeUpdatesHandler\<close>):
  a newer record is taken over, an older one is ignored, and the record that another runtime's lazy
  writer stores for a value carries that value to this one.
\<close>

lemma newer_update_effect:
  fixes E :: "('j, 'kv) env" and cs :: "'kv Store" and v :: bytes
  assumes E: "env_ok E" and key: "valid_key key" "key \<noteq> []" and t: "0 \<le> int64_of t"
  defines "cs' \<equiv> storeUpdatesHandler E (Some (toStoreKey cs key, be_put64 t @ 1 # v)) cs"
  shows "(GetValueUpdateTime E key cs < int64_of t \<longrightarrow>
       GetValue E key cs' = (Inr v, cs') \<and> GetValueUpdateTime E key cs' = int64_of t \<and>
       (\<exists>i. info_at (rootValue cs') (split_dot key) = Some i \<and> \<not> syncNeeded i \<and> syncedWithKV i)) \<and>
     (int64_of t < GetValueUpdateTime E key cs \<longrightarrow> cs' = cs)"
proof (intro conjI impI)
  have nth: "(be_put64 t @ 1 # v) ! 8 = 1" "be_get64 (take 8 (be_put64 t @ 1 # v)) = t"
    "drop 9 (be_put64 t @ 1 # v) = v" "9 \<le> length (be_put64 t @ 1 # v)"
    using be_get_put[of t "[]"] by (simp_all add: nth_append)
  have fsk: "fromStoreKey cs (toStoreKey cs key) = key"
    using replace_first_prefix[of "kvStorePrefix (cacheConfig cs) @ ''.''" key "[]"]
    by (simp add: fromStoreKey_def toStoreKey_def)
  show "GetValue E key cs' = (Inr v, cs')" "GetValueUpdateTime E key cs' = int64_of t"
    "\<exists>i. info_at (rootValue cs') (split_dot key) = Some i \<and> \<not> syncNeeded i \<and> syncedWithKV i"
    if newer: "GetValueUpdateTime E key cs < int64_of t"
  proof -
    have tok: "last (split_dot key) \<noteq> []" using key by (rule valid_key_last)
    obtain c g l t' where set: "SetValue E key v False (int64_of t) [] cs = (True, c)"
      and "grows cs g" and "same_frame cs c"
      and core: "core_at (rootValue c) = (core_at (rootValue g))
        (split_dot key \<mapsto> (newLeafValue v False t')\<lparr>storeConsistencyWithKVLossTime := l\<rparr>)"
      and "l = (case core_at (rootValue cs) (split_dot key) of None \<Rightarrow> 0 | Some i \<Rightarrow> storeConsistencyWithKVLossTime i)"
      and t': "t' = (if int64_of t < 0 then clock E (ticks cs) else int64_of t)"
      by (rule SetValue_core[OF E key])
    have "cs' = c" using newer set nth fsk by (simp add: cs'_def storeUpdatesHandler_def Let_def)
    moreover have "cached c key = Some ((newLeafValue v False t')\<lparr>storeConsistencyWithKVLossTime := l\<rparr>)"
      using tok by (simp add: cached_def core)
    moreover have "\<exists>i. info_at (rootValue c) (split_dot key) = Some i \<and> \<not> syncNeeded i \<and> syncedWithKV i"
    proof -
      obtain i where i: "info_at (rootValue c) (split_dot key) = Some i"
        "core i = (newLeafValue v False t')\<lparr>storeConsistencyWithKVLossTime := l\<rparr>"
        using fun_cong[OF core, of "split_dot key"] by (auto simp: core_at_def)
      then have "\<not> syncNeeded (core i) \<and> syncedWithKV (core i)" by (simp only: i(2)) (simp add: newLeafValue_def)
      with i(1) show ?thesis by (auto simp: core_def)
    qed
    ultimately show "GetValue E key cs' = (Inr v, cs')" "GetValueUpdateTime E key cs' = int64_of t"
      "\<exists>i. info_at (rootValue cs') (split_dot key) = Some i \<and> \<not> syncNeeded i \<and> syncedWithKV i"
      using t t' by (simp_all add: GetValue_def cachedValue_eq GetValueUpdateTime_eq newLeafValue_def)
  qed
  show "cs' = cs" if "int64_of t < GetValueUpdateTime E key cs"
    using that nth fsk by (simp add: cs'_def storeUpdatesHandler_def Let_def)
qed

text \<open>
  C3: a record with the append flag that is newer than the cached value of its key replaces it with
  the record's time, and the value is marked as synchronised and not as waiting for the lazy writer
  (which would write it back); a record older than the cached value changes nothing.
\<close>

theorem newer_update_is_applied:
  assumes "env_ok E" and "valid_key key" "key \<noteq> []" and "0 \<le> int64_of t"
  shows "let cs' = storeUpdatesHandler E (Some (toStoreKey cs key, be_put64 t @ 1 # v)) cs in
     (GetValueUpdateTime E key cs < int64_of t \<longrightarrow>
        GetValue E key cs' = (Inr v, cs') \<and> GetValueUpdateTime E key cs' = int64_of t \<and>
        (\<exists>i. info_at (rootValue cs') (split_dot key) = Some i \<and> \<not> syncNeeded i \<and> syncedWithKV i)) \<and>
     (int64_of t < GetValueUpdateTime E key cs \<longrightarrow> cs' = cs)"
  unfolding Let_def by (rule newer_update_effect[OF assms])

theorem newer_update_is_applied_witness:
  "fst (GetValue sample_env ''k'' (storeUpdatesHandler sample_env (Some (''store.k'', be_put64 9 @ [1, 66])) sample_cache)) = Inr [66] \<and>
   (\<exists>i. info_at (rootValue (storeUpdatesHandler sample_env (Some (''store.k'', be_put64 9 @ [1, 66])) sample_cache)) [''k''] =
     Some i \<and> \<not> syncNeeded i)"
proof -
  have "valid_key ''k''" by (simp add: valid_key_def key_char_def)
  moreover have "toStoreKey sample_cache ''k'' = ''store.k''"
    by (simp add: toStoreKey_def sample_cache_def NewCacheStore_def NewCacheConfig_def)
  moreover have "GetValueUpdateTime sample_env ''k'' sample_cache = -1"
    by (simp add: GetValueUpdateTime_eq cached_def sample_cache_def NewCacheStore_def core_at_def info_at_Cons)
  ultimately show ?thesis
    using newer_update_is_applied[OF sample_env_ok, of "''k''" 9 sample_cache "[66]"] by (auto simp: int64_of_def Let_def)
qed

text \<open>
  C18: the record that one runtime's lazy writer makes of a value brings that value and its time stamp
  to another runtime that has nothing newer under the key.
\<close>

theorem written_record_reaches_replica:
  assumes E: "env_ok E" and key: "valid_key key" "key \<noteq> []"
    and i: "valueExists i" "value i = Some v" "0 \<le> valueUpdateTime i" "in_int64 (valueUpdateTime i)"
    and older: "GetValueUpdateTime E key replica < valueUpdateTime i"
  shows "\<exists>replica'. storeUpdatesHandler E (Some (toStoreKey replica key, lazyRecord i)) replica = replica' \<and>
     GetValue E key replica' = (Inr v, replica') \<and> GetValueUpdateTime E key replica' = valueUpdateTime i"
proof -
  have "int64_of (recordTime i) = valueUpdateTime i" using i by (simp add: recordTime_def)
  moreover have "lazyRecord i = be_put64 (recordTime i) @ 1 # v" using i by (simp add: lazyRecord_def)
  moreover have "0 \<le> int64_of (recordTime i)" using calculation(1) i(3) by simp
  note newer_update_effect[OF E key this, of replica v]
  ultimately show ?thesis using older by simp
qed

theorem written_record_reaches_replica_witness:
  "\<exists>replica'. GetValue sample_env ''k'' replica' = (Inr [5], replica')"
proof -
  have "valid_key ''k''" by (simp add: valid_key_def key_char_def)
  moreover have "GetValueUpdateTime sample_env ''k'' sample_cache = -1"
    by (simp add: GetValueUpdateTime_eq cached_def sample_cache_def NewCacheStore_def core_at_def info_at_Cons)
  ultimately show ?thesis
    using written_record_reaches_replica[OF sample_env_ok, of "''k''" "newLeafValue [5] True 7" "[5]" sample_cache]
    by (auto simp: newLeafValue_def in_int64_def)
qed

text \<open>
  The time stamp of a deletion is not compared: after a key was deleted at a later time, the older
  record of its last value, delivered late, brings the value back.
\<close>

lemma late_update_resurrects_deleted_key:
  assumes ok: "cache_ok E cs" and key: "valid_key key" "key \<noteq> []"
    and t: "0 \<le> int64_of t" "int64_of t < deletedAt"
  shows "let cs1 = DeleteValue E key True deletedAt [] cs;
       cs2 = storeUpdatesHandler E (Some (toStoreKey cs1 key, be_put64 t @ 1 # v)) cs1
     in cache_view cs1 key = None \<and> GetValue E key cs2 = (Inr v, cs2)"
proof -
  let ?c1 = "DeleteValue E key True deletedAt [] cs"
  have c1: "cache_ok E ?c1" "cache_view ?c1 key = None" using del_ok_view[OF ok, of key True deletedAt] by auto
  then have E: "env_ok E" and "tree_ok (rootValue ?c1)" by (auto simp: cache_ok_def)
  then have "live (cached ?c1 key) = None" using c1(2) by (simp add: cached_live)
  then have "GetValueUpdateTime E key ?c1 = -1"
    by (auto simp: GetValueUpdateTime_eq live_def split: option.splits if_splits)
  then show ?thesis
    using newer_update_effect[OF E key t(1), of ?c1 v] t(1) c1(2) by (simp add: Let_def)
qed

lemma late_update_resurrects_deleted_key_witness:
  "\<exists>cs2. GetValue sample_env ''k'' cs2 = (Inr [66], cs2)"
proof -
  have "valid_key ''k''" by (simp add: valid_key_def key_char_def)
  then show ?thesis
    using late_update_resurrects_deleted_key[OF sample_cache_ok, of "''k''" 3 5 "[66]"]
    by (auto simp: Let_def int64_of_def)
qed

end
