(* ===== verification/StatefunContext.thy ===== *)
theory StatefunContext
  imports CacheLaws
begin

text \<open>
  What a stateful function sees when its logic handler runs: its context processor
  (\<open>statefun/plugins/plugins.go\<close>), the contexts it reads and writes
  (\<open>getContext\<close>, \<open>setContext\<close> of \<open>statefun/function\_type.go\<close>), the
  signals and the requests it makes (\<open>statefun/ingress.go\<close>) and how it answers
  (\<open>embedded/graph/common/common.go\<close>). A handler is a function of the requests it can
  make, its context processor and the world; it returns what it put in its reply, if anything.
\<close>

section \<open>The world and the context processor\<close>

text \<open>
  \<open>running\<close> holds the (typename, id) pairs whose handlers are in the call chain of the current
  request: a pair handles one message at a time, so a request to one of them waits until it times
  out and its message stays in the channel (\<open>delayed\<close>).
\<close>

record ('j, 'kv) world =
  w_cache :: "'kv Store"
  uids :: nat
  published :: "(string \<times> bytes) list"
  running :: "(string \<times> string) list"
  delayed :: "(string \<times> string \<times> 'j option) list"

record 'j StatefunContextProcessor =
  SelfTypename :: string
  SelfID :: string
  CallerTypename :: string
  CallerID :: string
  Payload :: 'j
  Options :: 'j
  hasReply :: bool

type_synonym ('j, 'kv) requester =
  "string \<Rightarrow> string \<Rightarrow> 'j option \<Rightarrow> 'j option \<Rightarrow> ('j, 'kv) world \<Rightarrow> (string + 'j) \<times> ('j, 'kv) world"

type_synonym ('j, 'kv) handler =
  "('j, 'kv) requester \<Rightarrow> 'j StatefunContextProcessor \<Rightarrow> ('j, 'kv) world \<Rightarrow> 'j option \<times> ('j, 'kv) world"

section \<open>The global cache\<close>

definition wGetValue :: "('j, 'kv) env \<Rightarrow> string \<Rightarrow> ('j, 'kv) world \<Rightarrow> (string + bytes) \<times> ('j, 'kv) world" where
  "wGetValue E key w = (case GetValue E key (w_cache w) of (r, c) \<Rightarrow> (r, w\<lparr>w_cache := c\<rparr>))"

definition wGetValueAsJSON :: "('j, 'kv) env \<Rightarrow> string \<Rightarrow> ('j, 'kv) world \<Rightarrow> (string + 'j) \<times> ('j, 'kv) world" where
  "wGetValueAsJSON E key w = (case GetValueAsJSON E key (w_cache w) of (r, c) \<Rightarrow> (r, w\<lparr>w_cache := c\<rparr>))"

definition wSetValue :: "('j, 'kv) env \<Rightarrow> string \<Rightarrow> bytes \<Rightarrow> ('j, 'kv) world \<Rightarrow> ('j, 'kv) world" where
  "wSetValue E key v w = w\<lparr>w_cache := snd (SetValue E key v True (-1) [] (w_cache w))\<rparr>"

definition wDeleteValue :: "('j, 'kv) env \<Rightarrow> string \<Rightarrow> ('j, 'kv) world \<Rightarrow> ('j, 'kv) world" where
  "wDeleteValue E key w = w\<lparr>w_cache := DeleteValue E key True (-1) [] (w_cache w)\<rparr>"

definition wGetKeysByPattern :: "('j, 'kv) env \<Rightarrow> string \<Rightarrow> ('j, 'kv) world \<Rightarrow> string list \<times> ('j, 'kv) world" where
  "wGetKeysByPattern E pattern w = (case GetKeysByPattern E pattern (w_cache w) of (ks, c) \<Rightarrow> (ks, w\<lparr>w_cache := c\<rparr>))"

definition wNow :: "('j, 'kv) env \<Rightarrow> ('j, 'kv) world \<Rightarrow> int \<times> ('j, 'kv) world" where
  "wNow E w = (case GetCurrentTimeNs E (w_cache w) of (t, c) \<Rightarrow> (t, w\<lparr>w_cache := c\<rparr>))"

definition getContext :: "('j, 'kv) env \<Rightarrow> string \<Rightarrow> ('j, 'kv) world \<Rightarrow> 'j \<times> ('j, 'kv) world" where
  "getContext E keyValueID w =
     (case wGetValueAsJSON E keyValueID w of
        (Inr j, w) \<Rightarrow> (j, w)
      | (Inl err, w) \<Rightarrow> (NewJSONObject (ej E), w))"

definition setContext :: "('j, 'kv) env \<Rightarrow> string \<Rightarrow> 'j option \<Rightarrow> ('j, 'kv) world \<Rightarrow> ('j, 'kv) world" where
  "setContext E keyValueID ctx w =
     (case ctx of None \<Rightarrow> wSetValue E keyValueID [] w
      | Some j \<Rightarrow> wSetValue E keyValueID (ToBytes (ej E) j) w)"

definition GetObjectContext :: "('j, 'kv) env \<Rightarrow> 'j StatefunContextProcessor \<Rightarrow> ('j, 'kv) world \<Rightarrow> 'j \<times> ('j, 'kv) world" where
  "GetObjectContext E ctx w = getContext E (SelfID ctx) w"

definition SetObjectContext :: "('j, 'kv) env \<Rightarrow> 'j StatefunContextProcessor \<Rightarrow> 'j \<Rightarrow> ('j, 'kv) world \<Rightarrow> ('j, 'kv) world" where
  "SetObjectContext E ctx j w = setContext E (SelfID ctx) (Some j) w"

definition GetFunctionContext :: "('j, 'kv) env \<Rightarrow> 'j StatefunContextProcessor \<Rightarrow> ('j, 'kv) world \<Rightarrow> 'j \<times> ('j, 'kv) world" where
  "GetFunctionContext E ctx w = getContext E (SelfTypename ctx @ CHR ''.'' # SelfID ctx) w"

definition SetFunctionContext :: "('j, 'kv) env \<Rightarrow> 'j StatefunContextProcessor \<Rightarrow> 'j \<Rightarrow> ('j, 'kv) world \<Rightarrow> ('j, 'kv) world" where
  "SetFunctionContext E ctx j w = setContext E (SelfTypename ctx @ CHR ''.'' # SelfID ctx) (Some j) w"

text \<open>The iteration over a Go map.\<close>

definition mapEntries :: "('j, 'kv) env \<Rightarrow> (string \<times> 'a) list \<Rightarrow> (string \<times> 'a) list" where
  "mapEntries E m = map (\<lambda>k. (k, the (map_of m k))) (mapOrder E (map fst m))"

section \<open>Identifiers, signals and replies\<close>

definition GetUniqueStrID :: "('j, 'kv) env \<Rightarrow> ('j, 'kv) world \<Rightarrow> string \<times> ('j, 'kv) world" where
  "GetUniqueStrID E w = (uid E (uids w), w\<lparr>uids := Suc (uids w)\<rparr>)"

definition setOpt :: "'j easyjson \<Rightarrow> string \<Rightarrow> 'j option \<Rightarrow> 'j \<Rightarrow> 'j" where
  "setOpt J p x j = (case x of None \<Rightarrow> j | Some v \<Rightarrow> SetByPath J j p v)"

definition buildNatsData :: "'j easyjson \<Rightarrow> string \<Rightarrow> string \<Rightarrow> 'j option \<Rightarrow> 'j option \<Rightarrow> bytes" where
  "buildNatsData J callerTypename callerID payload options =
     ToBytes J (setOpt J ''options'' options (setOpt J ''payload'' payload
       (SetByPath J (SetByPath J (NewJSONObject J) ''caller_typename'' (NewJSONString J callerTypename))
          ''caller_id'' (NewJSONString J callerID))))"

datatype SignalProvider = JetstreamGlobalSignal | UnknownSignalProvider int

definition signal :: "'j easyjson \<Rightarrow> SignalProvider \<Rightarrow> string \<Rightarrow> string \<Rightarrow> string \<Rightarrow> string \<Rightarrow> 'j option \<Rightarrow> 'j option \<Rightarrow>
    ('j, 'kv) world \<Rightarrow> string option \<times> ('j, 'kv) world" where
  "signal J provider callerTypename callerID targetTypename targetID payload options w =
     (case provider of
        JetstreamGlobalSignal \<Rightarrow>
          (None, w\<lparr>published := published w @
             [(targetTypename @ CHR ''.'' # targetID, buildNatsData J callerTypename callerID payload options)]\<rparr>)
      | UnknownSignalProvider n \<Rightarrow> (Some (''unknown signal provider: '' @ sprintf_d n), w))"

definition GetQueryID :: "('j, 'kv) env \<Rightarrow> 'j StatefunContextProcessor \<Rightarrow> ('j, 'kv) world \<Rightarrow> string \<times> ('j, 'kv) world" where
  "GetQueryID E ctx w =
     (case AsString (ej E) (GetByPath (ej E) (Payload ctx) ''query_id'') of
        Some s \<Rightarrow> (s, w)
      | None \<Rightarrow> GetUniqueStrID E w)"

text \<open>\<open>ReplyQueryID\<close> gives what is put in the reply: a request is answered, a signal from
  outside is answered on the query topic, a signal from a function is not.\<close>

definition ReplyQueryID ::
  "('j, 'kv) env \<Rightarrow> string \<Rightarrow> 'j \<Rightarrow> 'j StatefunContextProcessor \<Rightarrow> ('j, 'kv) world \<Rightarrow> 'j option \<times> ('j, 'kv) world" where
  "ReplyQueryID E queryID result ctx w =
     (if hasReply ctx then (Some result, w)
      else if length (CallerTypename ctx) = 0 \<or> length (CallerID ctx) = 0
      then (None, snd (signal (ej E) JetstreamGlobalSignal (SelfTypename ctx) (SelfID ctx)
                         ''functions.graph.query'' queryID (Some result) None w))
      else (None, w))"

section \<open>Requests to functions of the same runtime\<close>

text \<open>
  \<open>goLangLocalRequest\<close> of \<open>request\<close>: the target's handler runs on copies of the payload
  and the options (merged into the options of its configuration) and its reply is returned; without
  one, the default reply is the empty object. \<open>registered\<close> gives a typename's handler and
  options; \<open>fuel\<close> bounds the depth of nested requests.
\<close>

definition handlerContext ::
  "'j easyjson \<Rightarrow> 'j \<Rightarrow> string \<Rightarrow> string \<Rightarrow> string \<Rightarrow> string \<Rightarrow> 'j option \<Rightarrow> 'j option \<Rightarrow> bool \<Rightarrow> 'j StatefunContextProcessor" where
  "handlerContext J ftOptions typename ident callerTypename callerID payload options reply =
     \<lparr>SelfTypename = typename, SelfID = ident, CallerTypename = callerTypename, CallerID = callerID,
      Payload = (case payload of None \<Rightarrow> NewJSONObject J | Some p \<Rightarrow> p),
      Options = (case options of None \<Rightarrow> ftOptions | Some opts \<Rightarrow> DeepMerge J ftOptions opts),
      hasReply = reply\<rparr>"

definition quoted :: "string \<Rightarrow> string" where
  "quoted s = CHR 0x22 # s @ [CHR 0x22]"

fun goLangLocalRequest ::
  "('j, 'kv) env \<Rightarrow> (string \<Rightarrow> (('j, 'kv) handler \<times> 'j) option) \<Rightarrow> nat \<Rightarrow> string \<Rightarrow> string \<Rightarrow> ('j, 'kv) requester" where
  "goLangLocalRequest E registered 0 callerTypename callerID targetTypename targetID payload options w =
     (Inl ''request depth exceeded'', w)"
| "goLangLocalRequest E registered (Suc fuel) callerTypename callerID targetTypename targetID payload options w =
     (case registered targetTypename of
        None \<Rightarrow> (Inl (''callFunctionGolangSync cannot request function with the typename '' @ callerTypename @ '', not registered''), w)
      | Some (logicHandler, ftOptions) \<Rightarrow>
         (if (targetTypename, targetID) \<in> set (running w)
          then (Inl (''timeout occured while requesting function typename '' @ quoted targetTypename @ '' with id '' @ quoted targetID),
                w\<lparr>delayed := delayed w @ [(targetTypename, targetID, payload)]\<rparr>)
          else
            (case logicHandler (goLangLocalRequest E registered fuel targetTypename targetID)
                    (handlerContext (ej E) ftOptions targetTypename targetID callerTypename callerID payload options True)
                    (w\<lparr>running := (targetTypename, targetID) # running w\<rparr>) of
               (reply, w') \<Rightarrow> (Inr (case reply of None \<Rightarrow> NewJSONObject (ej E) | Some r \<Rightarrow> r),
                               w'\<lparr>running := running w\<rparr>))))"

declare goLangLocalRequest.simps(2) [simp del]

section \<open>The world as a key/value store\<close>

definition w_ok :: "('j, 'kv) env \<Rightarrow> ('j, 'kv) world \<Rightarrow> bool" where
  "w_ok E w \<longleftrightarrow> cache_ok E (w_cache w)"

definition w_view :: "('j, 'kv) world \<Rightarrow> string \<Rightarrow> bytes option" where
  "w_view w = cache_view (w_cache w)"

text \<open>The parts of the world other than the store: the requests in progress and the messages.\<close>

definition same_rest :: "('j, 'kv) world \<Rightarrow> ('j, 'kv) world \<Rightarrow> bool" where
  "same_rest w w' \<longleftrightarrow> running w' = running w \<and> delayed w' = delayed w \<and> published w' = published w"

lemma same_rest_refl [simp]: "same_rest w w"
  by (simp add: same_rest_def)

lemma same_rest_trans: "same_rest a b \<Longrightarrow> same_rest b c \<Longrightarrow> same_rest a c"
  by (simp add: same_rest_def)

interpretation world: kv_store "w_ok E" w_view "wGetValue E" "wSetValue E" "wDeleteValue E" "wGetKeysByPattern E"
  for E :: "('j, 'kv) env"
proof
  fix s :: "('j, 'kv) world" and k :: string and v :: bytes and p :: string
  assume "w_ok E s"
  then have ok: "cache_ok E (w_cache s)" by (simp add: w_ok_def)
  note L = cache.get_same[OF ok] cache.get_Some[OF ok] cache.get_absent[OF ok]
  show "wGetValue E k s = (case w_view s k of Some v \<Rightarrow> Inr v | None \<Rightarrow> fst (wGetValue E k s), s)"
    using L(1)[of k] L(2)[of k] by (cases "w_view s k") (auto simp: wGetValue_def w_view_def split: prod.splits)
  show "w_view s k = None \<Longrightarrow> \<exists>e. fst (wGetValue E k s) = Inl e"
    using L(3)[of k] by (auto simp: wGetValue_def w_view_def)
  show "w_ok E (wSetValue E k v s)" using cache.put_ok[OF ok] by (simp add: w_ok_def wSetValue_def)
  show "valid_key k \<Longrightarrow> k \<noteq> [] \<Longrightarrow> w_view (wSetValue E k v s) = (w_view s)(k \<mapsto> v)"
    using cache.put_view[OF ok] by (simp add: w_view_def wSetValue_def)
  show "\<not> valid_key k \<Longrightarrow> wSetValue E k v s = s"
    using cache.put_invalid[OF ok] by (simp add: wSetValue_def)
  show "w_ok E (wDeleteValue E k s)" using cache.del_ok[OF ok] by (simp add: w_ok_def wDeleteValue_def)
  show "w_view (wDeleteValue E k s) = (w_view s)(k := None)"
    using cache.del_view[OF ok] by (simp add: w_view_def wDeleteValue_def)
  show "snd (wGetKeysByPattern E (p @ ''.>'') s) = s"
    using cache.keys_same[OF ok, of p] by (auto simp: wGetKeysByPattern_def split: prod.splits)
  show "set (fst (wGetKeysByPattern E (p @ ''.>'') s)) =
        {k. w_view s k \<noteq> None \<and> (\<exists>rest. rest \<noteq> [] \<and> split_dot k = split_dot p @ rest)}"
    using cache.keys_below[OF ok, of p] by (auto simp: wGetKeysByPattern_def w_view_def split: prod.splits)
qed

lemma rest_ops [simp]:
  "same_rest w (wSetValue E k v w') \<longleftrightarrow> same_rest w w'" "same_rest w (wDeleteValue E k w') \<longleftrightarrow> same_rest w w'"
  "same_rest w (snd (GetQueryID E ctx w))"
  by (auto simp: same_rest_def wSetValue_def wDeleteValue_def GetQueryID_def GetUniqueStrID_def split: option.split)

lemma GetQueryID_store [simp]:
  "w_view (snd (GetQueryID E ctx w)) = w_view w" "w_ok E (snd (GetQueryID E ctx w)) = w_ok E w"
  by (auto simp: w_view_def w_ok_def GetQueryID_def GetUniqueStrID_def split: option.split)

lemma w_view_frame [simp]:
  "w_view (w\<lparr>running := r\<rparr>) = w_view w" "w_ok E (w\<lparr>running := r\<rparr>) = w_ok E w"
  "w_view (w\<lparr>uids := n\<rparr>) = w_view w" "w_ok E (w\<lparr>uids := n\<rparr>) = w_ok E w"
  "w_view (w\<lparr>published := ps\<rparr>) = w_view w" "w_ok E (w\<lparr>published := ps\<rparr>) = w_ok E w"
  by (simp_all add: w_view_def w_ok_def)

lemma wGetValue_cases:
  assumes "w_ok E w"
  shows "wGetValue E k w = (case w_view w k of Some v \<Rightarrow> Inr v | None \<Rightarrow> Inl (projl (fst (wGetValue E k w))), w)"
  using world.get_Some[OF assms, of k] world.get_absent[OF assms, of k]
  by (cases "w_view w k") auto

lemma wGetValueAsJSON_cases:
  assumes "w_ok E w"
  shows "(\<exists>v j. w_view w k = Some v \<and> JSONFromBytes (ej E) v = Some j \<and> wGetValueAsJSON E k w = (Inr j, w)) \<or>
     (\<exists>e. (\<forall>v. w_view w k = Some v \<longrightarrow> JSONFromBytes (ej E) v = None) \<and> wGetValueAsJSON E k w = (Inl e, w))"
proof -
  from assms have ok: "cache_ok E (w_cache w)" by (simp add: w_ok_def)
  show ?thesis
  proof (cases "w_view w k")
    case None
    with cache.get_absent[OF ok, of k] show ?thesis
      by (auto simp: wGetValueAsJSON_def GetValueAsJSON_def w_view_def)
  next
    case (Some v)
    with cache.get_Some[OF ok, of k v] show ?thesis
      by (cases "JSONFromBytes (ej E) v") (auto simp: wGetValueAsJSON_def GetValueAsJSON_def w_view_def)
  qed
qed

lemma getContext_same: "w_ok E w \<Longrightarrow> snd (getContext E k w) = w"
  using wGetValueAsJSON_cases[of E w k] by (auto simp: getContext_def)

lemma mapEntries_set:
  assumes "env_ok E" and "distinct (map fst m)"
  shows "set (mapEntries E m) = set m"
proof -
  have "set (mapEntries E m) = (\<lambda>x. (fst x, the (map_of m (fst x)))) ` set m"
    unfolding mapEntries_def using env_mapOrder_set[OF assms(1), of "map fst m"] by (simp add: image_image)
  also have "\<dots> = (\<lambda>x. x) ` set m"
  proof (intro image_cong refl)
    fix x assume "x \<in> set m"
    then have "map_of m (fst x) = Some (snd x)" using assms(2) by simp
    then show "(fst x, the (map_of m (fst x))) = x" by simp
  qed
  finally show ?thesis by simp
qed

text \<open>The store holds finitely many keys.\<close>

lemma finite_nodes: "finite {p. node_at r p \<noteq> None}"
proof (induction r)
  case (Node i cs)
  have "{p. node_at (Node i cs) p \<noteq> None} \<subseteq> insert [] (\<Union>(t, c)\<in>set cs. (#) t ` {p. node_at c p \<noteq> None})"
  proof
    fix p assume "p \<in> {p. node_at (Node i cs) p \<noteq> None}"
    then show "p \<in> insert [] (\<Union>(t, c)\<in>set cs. (#) t ` {p. node_at c p \<noteq> None})"
      by (cases p) (auto split: option.splits dest!: map_of_SomeD)
  qed
  moreover have "finite {p. node_at c p \<noteq> None}" if "(t, c) \<in> set cs" for t c
    using Node[OF that, of c] by simp
  ultimately show ?case by (elim finite_subset) auto
qed

lemma finite_view: "finite (dom (w_view w))"
proof -
  have "split_dot ` dom (w_view w) \<subseteq> {p. node_at (rootValue (w_cache w)) p \<noteq> None}"
  proof (rule image_subsetI)
    fix k assume "k \<in> dom (w_view w)"
    then show "split_dot k \<in> {p. node_at (rootValue (w_cache w)) p \<noteq> None}"
      by (cases "node_at (rootValue (w_cache w)) (split_dot k)")
        (auto simp: w_view_def cache_view_def core_at_def info_at_def)
  qed
  then have "finite (split_dot ` dom (w_view w))" using finite_nodes by (rule finite_subset)
  moreover have "inj_on split_dot (dom (w_view w))" by (rule inj_onI) simp
  ultimately show ?thesis by (rule finite_imageD)
qed

end
