(* ===== verification/LLCrud.thy ===== *)
theory LLCrud
  imports StatefunContext
begin

text \<open>
  The low-level graph API, \<open>embedded/graph/crud/ll\_crud.go\<close>: creation, update and deletion
  of vertices and links over the global cache, with the keys of
  \<open>embedded/graph/crud/common.go\<close>. An operation stack is a JSON array or absent.
\<close>

section \<open>Keys\<close>

definition OutLinkBodyKey :: "string \<Rightarrow> string \<Rightarrow> string \<Rightarrow> string" where
  "OutLinkBodyKey from linkType to = from @ ''.out.body.'' @ linkType @ CHR ''.'' # to"

definition OutLinkBodyPattern :: "string \<Rightarrow> string" where
  "OutLinkBodyPattern from = from @ ''.out.body.'' @ ''>''"

definition OutLinkIndexKey :: "string \<Rightarrow> string \<Rightarrow> string \<Rightarrow> string \<Rightarrow> string \<Rightarrow> string" where
  "OutLinkIndexKey from linkType to indexName tag =
     from @ ''.out.index.'' @ linkType @ CHR ''.'' # to @ CHR ''.'' # indexName @ CHR ''.'' # tag"

definition OutLinkNameKey :: "string \<Rightarrow> string \<Rightarrow> string" where
  "OutLinkNameKey from linkName = from @ ''.out.name.'' @ linkName"

definition OutLinkNameGenKey :: "string \<Rightarrow> string" where
  "OutLinkNameGenKey from = from @ ''.out.namegen''"

definition InLinkKey :: "string \<Rightarrow> string \<Rightarrow> string \<Rightarrow> string" where
  "InLinkKey to from linkType = to @ ''.in.'' @ from @ CHR ''.'' # linkType"

definition InLinkPattern :: "string \<Rightarrow> string" where
  "InLinkPattern to = to @ ''.in.'' @ ''>''"

definition llAPIVertexCUDNames :: "string list" where
  "llAPIVertexCUDNames = [''functions.graph.api.vertex.create'', ''functions.graph.api.vertex.update'',
     ''functions.graph.api.vertex.delete'']"

definition llAPILinkCUDNames :: "string list" where
  "llAPILinkCUDNames = [''functions.graph.api.link.create'', ''functions.graph.api.link.update'',
     ''functions.graph.api.link.delete'']"

section \<open>Operation stacks\<close>

definition getOpStackFromOptions :: "'j easyjson \<Rightarrow> 'j option \<Rightarrow> 'j option" where
  "getOpStackFromOptions J options =
     (let returnOpStack = (case options of None \<Rightarrow> False
            | Some opts \<Rightarrow> AsBoolDefault J (GetByPath J opts ''return_op_stack'') False)
      in if returnOpStack then Some (NewJSONArray J) else None)"

definition addOp :: "'j easyjson \<Rightarrow> 'j option \<Rightarrow> 'j \<Rightarrow> 'j option" where
  "addOp J opStack op = (case opStack of
     Some st \<Rightarrow> (if IsArray J st then Some (AddToArray J st op) else Some st)
   | None \<Rightarrow> None)"

definition addVertexOpToOpStack ::
  "'j easyjson \<Rightarrow> 'j option \<Rightarrow> string \<Rightarrow> string \<Rightarrow> 'j option \<Rightarrow> 'j option \<Rightarrow> 'j option" where
  "addVertexOpToOpStack J opStack opName vertexId oldBody newBody =
     (let op = SetByPath J (NewJSONObject J) ''op'' (NewJSONString J opName);
          op = SetByPath J op ''id'' (NewJSONString J vertexId)
      in addOp J opStack (setOpt J ''new_body'' newBody (setOpt J ''old_body'' oldBody op)))"

definition addLinkOpToOpStack ::
  "'j easyjson \<Rightarrow> 'j option \<Rightarrow> string \<Rightarrow> string \<Rightarrow> string \<Rightarrow> string \<Rightarrow> 'j option \<Rightarrow> 'j option \<Rightarrow> 'j option" where
  "addLinkOpToOpStack J opStack opName fromVertexId toVertexId linkType oldBody newBody =
     (let op = SetByPath J (NewJSONObject J) ''op'' (NewJSONString J opName);
          op = SetByPath J op ''from_id'' (NewJSONString J fromVertexId);
          op = SetByPath J op ''to_id'' (NewJSONString J toVertexId);
          op = SetByPath J op ''type'' (NewJSONString J linkType)
      in addOp J opStack (setOpt J ''new_body'' newBody (setOpt J ''old_body'' oldBody op)))"

fun appendElements :: "'j easyjson \<Rightarrow> 'j \<Rightarrow> nat \<Rightarrow> nat \<Rightarrow> 'j \<Rightarrow> 'j" where
  "appendElements J donor i 0 recipient = recipient"
| "appendElements J donor i (Suc n) recipient =
     appendElements J donor (Suc i) n (AddToArray J recipient (ArrayElement J donor i))"

definition mergeOpStack :: "'j easyjson \<Rightarrow> 'j option \<Rightarrow> 'j option \<Rightarrow> 'j option" where
  "mergeOpStack J opStackRecepient opStackDonor =
     (case (opStackRecepient, opStackDonor) of
        (Some r, Some d) \<Rightarrow>
          (if IsArray J r \<and> IsArray J d then Some (appendElements J d 0 (ArraySize J d) r) else Some r)
      | _ \<Rightarrow> opStackRecepient)"

definition addOpStackToResult :: "'j easyjson \<Rightarrow> 'j \<Rightarrow> 'j option \<Rightarrow> 'j" where
  "addOpStackToResult J result opStack =
     (case opStack of
        Some st \<Rightarrow> (if IsObject J result \<and> IsArray J st then SetByPath J result ''op_stack'' st else result)
      | None \<Rightarrow> result)"

definition mergeReplyStack :: "'j easyjson \<Rightarrow> 'j option \<Rightarrow> string + 'j \<Rightarrow> 'j option" where
  "mergeReplyStack J opStack res =
     (case res of Inr r \<Rightarrow> mergeOpStack J opStack (Some (GetByPath J r ''op_stack'')) | Inl err \<Rightarrow> opStack)"

definition statusResult :: "'j easyjson \<Rightarrow> string \<Rightarrow> string \<Rightarrow> 'j" where
  "statusResult J status text =
     SetByPath J (SetByPath J (NewJSONObject J) ''status'' (NewJSONString J status)) ''result'' (NewJSONString J text)"

definition queryPayload :: "'j easyjson \<Rightarrow> string \<Rightarrow> (string \<times> string) list \<Rightarrow> 'j" where
  "queryPayload J queryID kvs =
     foldl (\<lambda>j (k, v). SetByPath J j k (NewJSONString J v))
       (SetByPath J (NewJSONObject J) ''query_id'' (NewJSONString J queryID)) kvs"

section \<open>Link names and indices\<close>

text \<open>The name a link gets: its own, unless it has none or another out link of the vertex has it.\<close>

definition uniqueLinkName ::
  "('j, 'kv) env \<Rightarrow> string \<Rightarrow> 'j \<Rightarrow> ('j, 'kv) world \<Rightarrow> (string \<times> 'j) \<times> ('j, 'kv) world" where
  "uniqueLinkName E selfID body w =
     (let given = AsString (ej E) (GetByPath (ej E) body ''name'');
          linkName = (case given of None \<Rightarrow> [] | Some s \<Rightarrow> s);
          linkNameDefined = (given \<noteq> None \<and> length linkName > 0)
      in case (if linkNameDefined
               then (case wGetValue E (OutLinkNameKey selfID linkName) w of (r, w) \<Rightarrow> (case r of Inr _ \<Rightarrow> True | Inl _ \<Rightarrow> False, w))
               else (False, w)) of
           (sameNamedLinkExists, w) \<Rightarrow>
             (if \<not> linkNameDefined \<or> sameNamedLinkExists then
                (case wGetValue E (OutLinkNameGenKey selfID) w of (r, w) \<Rightarrow>
                   (let namegen = (case r of Inr v \<Rightarrow> BytesToInt64 v | Inl _ \<Rightarrow> 0);
                        linkName = ''name'' @ sprintf_d (int64_of namegen);
                        w = wSetValue E (OutLinkNameGenKey selfID) (Int64ToBytes (namegen + 1)) w
                    in ((linkName, SetByPath (ej E) body ''name'' (NewJSONString (ej E) linkName)), w)))
              else ((linkName, body), w)))"

definition linkTags :: "'j easyjson \<Rightarrow> 'j \<Rightarrow> string list" where
  "linkTags J body =
     (if IsNonEmptyArray J (GetByPath J body ''tags'')
      then (case AsArrayString J (GetByPath J body ''tags'') of Some ts \<Rightarrow> ts | None \<Rightarrow> [])
      else [])"

definition writeOutLink ::
  "('j, 'kv) env \<Rightarrow> string \<Rightarrow> string \<Rightarrow> string \<Rightarrow> string \<Rightarrow> 'j \<Rightarrow> ('j, 'kv) world \<Rightarrow> ('j, 'kv) world" where
  "writeOutLink E selfID linkType descendantUUID linkName body w =
     (let w = wSetValue E (OutLinkNameKey selfID linkName) [] w;
          w = wSetValue E (OutLinkIndexKey selfID linkType descendantUUID ''name'' linkName) [] w;
          w = wSetValue E (OutLinkBodyKey selfID linkType descendantUUID) (ToBytes (ej E) body) w
      in fold (\<lambda>tag. wSetValue E (OutLinkIndexKey selfID linkType descendantUUID ''tag'' tag) [])
           (linkTags (ej E) body) w)"

definition deleteOutLinkIndices ::
  "('j, 'kv) env \<Rightarrow> string \<Rightarrow> string \<Rightarrow> string \<Rightarrow> 'j \<Rightarrow> ('j, 'kv) world \<Rightarrow> ('j, 'kv) world" where
  "deleteOutLinkIndices E selfID linkType descendantUUID body w =
     (let w = (case AsString (ej E) (GetByPath (ej E) body ''name'') of
                 Some linkName \<Rightarrow>
                   wDeleteValue E (OutLinkIndexKey selfID linkType descendantUUID ''name'' linkName)
                     (wDeleteValue E (OutLinkNameKey selfID linkName) w)
               | None \<Rightarrow> w)
      in fold (\<lambda>tag. wDeleteValue E (OutLinkIndexKey selfID linkType descendantUUID ''tag'' tag))
           (linkTags (ej E) body) w)"

section \<open>Links\<close>

definition compositeID :: "string \<Rightarrow> string" where
  "compositeID selfID = split_str ''==='' selfID ! 0"

definition LLAPILinkDelete :: "('j, 'kv) env \<Rightarrow> ('j, 'kv) handler" where
  "LLAPILinkDelete E req ctx w =
     (let J = ej E; payload = Payload ctx; selfID = SelfID ctx in
      case GetQueryID E ctx w of (queryID, w) \<Rightarrow>
        (if PathExists J payload ''in_link_type'' then
           (let self = compositeID selfID in
            case AsString J (GetByPath J payload ''in_link_type'') of
              Some inLinkType \<Rightarrow>
                (if length inLinkType > 0 then
                   (if length (CallerID ctx) > 0
                    then ReplyQueryID E queryID (statusResult J ''ok'' []) ctx
                           (wDeleteValue E (InLinkKey self (CallerID ctx) inLinkType) w)
                    else ReplyQueryID E queryID (SetByPath J (NewJSONObject J) ''result'' (NewJSONString J [])) ctx w)
                 else ReplyQueryID E queryID (statusResult J ''failed''
                        (''LLAPILinkDelete '' @ self @ '': in_link_type:string must be a non empty string'')) ctx w)
            | None \<Rightarrow> ReplyQueryID E queryID (statusResult J ''failed''
                        (''LLAPILinkDelete '' @ self @ '': in_link_type:string must be a non empty string'')) ctx w)
         else
           (let opStack = getOpStackFromOptions J (Some (Options ctx)) in
            case (AsString J (GetByPath J payload ''link_type''), AsString J (GetByPath J payload ''descendant_uuid'')) of
              (Some linkType, Some descendantUUID) \<Rightarrow>
                (case wGetValue E (OutLinkBodyKey selfID linkType descendantUUID) w of
                   (Inl err, w) \<Rightarrow>
                     ReplyQueryID E queryID (addOpStackToResult J (statusResult J ''ok'' ''Link does not exist'') opStack) ctx w
                 | (Inr _, w) \<Rightarrow>
                     (let lbk = OutLinkBodyKey selfID linkType descendantUUID in
                      case wGetValueAsJSON E lbk w of (body, w) \<Rightarrow>
                        (let linkBody = (case body of Inr j \<Rightarrow> Some j | Inl _ \<Rightarrow> None);
                             w = wDeleteValue E lbk w;
                             w = (case linkBody of
                                    Some b \<Rightarrow> deleteOutLinkIndices E selfID linkType descendantUUID b w
                                  | None \<Rightarrow> w);
                             nextCallPayload = queryPayload J queryID [(''in_link_type'', linkType)];
                             target = (if descendantUUID = selfID then descendantUUID @ ''===delete_in_link'' else descendantUUID)
                         in case req (SelfTypename ctx) target (Some nextCallPayload) None w of (_, w) \<Rightarrow>
                              ReplyQueryID E queryID
                                (addOpStackToResult J (statusResult J ''ok'' [])
                                  (addLinkOpToOpStack J opStack (SelfTypename ctx) selfID descendantUUID linkType linkBody None)) ctx w)))
            | (lt, du) \<Rightarrow>
                (let errorString =
                   (if lt = None then ''ERROR LLAPILinkDelete '' @ selfID @ '': link_type:string is missing;'' else []) @
                   (if du = None then ''ERROR LLAPILinkDelete '' @ selfID @ '': descendant_uuid:string is missing;'' else [])
                 in ReplyQueryID E queryID (addOpStackToResult J (statusResult J ''failed'' errorString) opStack) ctx w))))"

definition stringOrUnique :: "('j, 'kv) env \<Rightarrow> string option \<Rightarrow> ('j, 'kv) world \<Rightarrow> string \<times> ('j, 'kv) world" where
  "stringOrUnique E s w = (case s of Some t \<Rightarrow> (t, w) | None \<Rightarrow> GetUniqueStrID E w)"

definition LLAPILinkCreate :: "('j, 'kv) env \<Rightarrow> ('j, 'kv) handler" where
  "LLAPILinkCreate E req ctx w =
     (let J = ej E; payload = Payload ctx; selfID = SelfID ctx in
      case GetQueryID E ctx w of (queryID, w) \<Rightarrow>
        (if PathExists J payload ''in_link_type'' then
           (let self = compositeID selfID in
            case AsString J (GetByPath J payload ''in_link_type'') of
              Some inLinkType \<Rightarrow>
                (if length inLinkType > 0 then
                   (if length (CallerID ctx) > 0
                    then ReplyQueryID E queryID (statusResult J ''ok'' []) ctx
                           (wSetValue E (InLinkKey self (CallerID ctx) inLinkType) [] w)
                    else ReplyQueryID E queryID (SetByPath J (NewJSONObject J) ''result'' (NewJSONString J [])) ctx w)
                 else ReplyQueryID E queryID (statusResult J ''failed''
                        (''LLAPILinkCreate '' @ self @ '': in_link_type:string must be a non empty string'')) ctx w)
            | None \<Rightarrow> ReplyQueryID E queryID (statusResult J ''failed''
                        (''LLAPILinkCreate '' @ self @ '': in_link_type:string must be a non empty string'')) ctx w)
         else if IsObject J (GetByPath J payload ''link_body'') then
           (let opStack = getOpStackFromOptions J (Some (Options ctx));
                linkBody = GetByPath J payload ''link_body'' in
            case stringOrUnique E (AsString J (GetByPath J payload ''link_type'')) w of (linkType, w) \<Rightarrow>
            case stringOrUnique E (AsString J (GetByPath J payload ''descendant_uuid'')) w of (descendantUUID, w) \<Rightarrow>
            case (case wGetValue E (OutLinkBodyKey selfID linkType descendantUUID) w of
                    (Inr _, w) \<Rightarrow>
                      (case req ''functions.graph.api.link.delete'' selfID
                              (Some (queryPayload J queryID [(''descendant_uuid'', descendantUUID), (''link_type'', linkType)]))
                              (Some (Options ctx)) w of
                         (res, w) \<Rightarrow> (mergeReplyStack J opStack res, w))
                  | (Inl _, w) \<Rightarrow> (opStack, w)) of (opStack, w) \<Rightarrow>
            case uniqueLinkName E selfID linkBody w of ((linkName, linkBody), w) \<Rightarrow>
              (let w = writeOutLink E selfID linkType descendantUUID linkName linkBody w;
                   nextCallPayload = queryPayload J queryID [(''in_link_type'', linkType)];
                   target = (if descendantUUID = selfID then descendantUUID @ ''===create_in_link'' else descendantUUID)
               in case req (SelfTypename ctx) target (Some nextCallPayload) None w of (_, w) \<Rightarrow>
                    ReplyQueryID E queryID
                      (addOpStackToResult J (statusResult J ''ok'' [])
                        (addLinkOpToOpStack J opStack (SelfTypename ctx) selfID descendantUUID linkType None (Some linkBody))) ctx w))
         else
           ReplyQueryID E queryID (statusResult J ''failed''
             (''ERROR LLAPILinkCreate '' @ selfID @ '': link_body:json is missing;'')) ctx w))"

definition updatedBody :: "'j easyjson \<Rightarrow> string \<Rightarrow> 'j \<Rightarrow> 'j \<Rightarrow> 'j" where
  "updatedBody J mode old new = (if mode = ''replace'' then new else DeepMerge J old new)"

definition LLAPILinkUpdate :: "('j, 'kv) env \<Rightarrow> ('j, 'kv) handler" where
  "LLAPILinkUpdate E req ctx w =
     (let J = ej E; payload = Payload ctx; selfID = SelfID ctx;
          opStack = getOpStackFromOptions J (Some (Options ctx));
          linkBodyOk = IsObject J (GetByPath J payload ''link_body'');
          linkBody = GetByPath J payload ''link_body'' in
      case GetQueryID E ctx w of (queryID, w) \<Rightarrow>
        (case (linkBodyOk, AsString J (GetByPath J payload ''link_type''), AsString J (GetByPath J payload ''descendant_uuid'')) of
           (True, Some linkType, Some descendantUUID) \<Rightarrow>
             (case wGetValueAsJSON E (OutLinkBodyKey selfID linkType descendantUUID) w of
                (Inr fixedOldLinkBody, w) \<Rightarrow>
                  (let w = deleteOutLinkIndices E selfID linkType descendantUUID fixedOldLinkBody w;
                       mode = AsStringDefault J (GetByPath J payload ''mode'') ''merge'';
                       newBody = updatedBody J mode fixedOldLinkBody linkBody
                   in case uniqueLinkName E selfID newBody w of ((linkName, newBody), w) \<Rightarrow>
                        (let w = writeOutLink E selfID linkType descendantUUID linkName newBody w
                         in ReplyQueryID E queryID
                              (addOpStackToResult J (statusResult J ''ok'' [])
                                (addLinkOpToOpStack J opStack (SelfTypename ctx) selfID descendantUUID linkType
                                  (Some fixedOldLinkBody) (Some newBody))) ctx w))
              | (Inl err, w) \<Rightarrow>
                  (let createLinkPayload = SetByPath J (queryPayload J queryID
                         [(''descendant_uuid'', descendantUUID), (''link_type'', linkType)]) ''link_body'' linkBody
                   in case req ''functions.graph.api.link.create'' selfID (Some createLinkPayload) (Some (Options ctx)) w of
                        (res, w) \<Rightarrow>
                          ReplyQueryID E queryID
                            (addOpStackToResult J (statusResult J ''ok'' []) (mergeReplyStack J opStack res)) ctx w))
         | (b, lt, du) \<Rightarrow>
             (let errorString =
                (if \<not> b then ''ERROR LLAPILinkUpdate '' @ selfID @ '': link_body:json is missing;'' else []) @
                (if lt = None then ''ERROR LLAPILinkUpdate '' @ selfID @ '': link_type:string is missing;'' else []) @
                (if du = None then ''ERROR LLAPILinkUpdate '' @ selfID @ '': descendant_uuid:string is missing;'' else [])
              in ReplyQueryID E queryID (addOpStackToResult J (statusResult J ''failed'' errorString) opStack) ctx w)))"

section \<open>Vertices\<close>

definition deleteLinks ::
  "('j, 'kv) env \<Rightarrow> ('j, 'kv) requester \<Rightarrow> 'j StatefunContextProcessor \<Rightarrow> string \<Rightarrow> (string \<times> string \<times> string) list \<Rightarrow>
    'j option \<times> ('j, 'kv) world \<Rightarrow> 'j option \<times> ('j, 'kv) world" where
  "deleteLinks E req ctx queryID links st =
     fold (\<lambda>(from, linkType, to) (opStack, w).
       (case req ''functions.graph.api.link.delete'' from
               (Some (queryPayload (ej E) queryID [(''descendant_uuid'', to), (''link_type'', linkType)]))
               (Some (Options ctx)) w of
          (res, w) \<Rightarrow> (mergeReplyStack (ej E) opStack res, w))) links st"

definition outLinkOfKey :: "string \<Rightarrow> string \<Rightarrow> string \<times> string \<times> string" where
  "outLinkOfKey selfID key =
     (let tokens = split_dot key in (selfID, tokens ! (length tokens - 2), tokens ! (length tokens - 1)))"

definition inLinkOfKey :: "string \<Rightarrow> string \<Rightarrow> string \<times> string \<times> string" where
  "inLinkOfKey selfID key =
     (let tokens = split_dot key in (tokens ! (length tokens - 2), tokens ! (length tokens - 1), selfID))"

definition LLAPIVertexDelete :: "('j, 'kv) env \<Rightarrow> ('j, 'kv) handler" where
  "LLAPIVertexDelete E req ctx w =
     (let J = ej E; selfID = SelfID ctx; opStack = getOpStackFromOptions J (Some (Options ctx)) in
      case GetQueryID E ctx w of (queryID, w) \<Rightarrow>
      case wGetKeysByPattern E (OutLinkBodyPattern selfID) w of (outLinkKeys, w) \<Rightarrow>
      case deleteLinks E req ctx queryID (map (outLinkOfKey selfID) outLinkKeys) (opStack, w) of (opStack, w) \<Rightarrow>
      case wGetKeysByPattern E (InLinkPattern selfID) w of (inLinkKeys, w) \<Rightarrow>
      case deleteLinks E req ctx queryID (map (inLinkOfKey selfID) inLinkKeys) (opStack, w) of (opStack, w) \<Rightarrow>
        (let w = wDeleteValue E (OutLinkNameGenKey selfID) w in
         case (if opStack \<noteq> None then (case GetObjectContext E ctx w of (b, w) \<Rightarrow> (Some b, w)) else (None, w)) of
           (oldBody, w) \<Rightarrow>
             (let w = wDeleteValue E selfID w
              in ReplyQueryID E queryID
                   (addOpStackToResult J (statusResult J ''ok'' [])
                     (addVertexOpToOpStack J opStack (SelfTypename ctx) selfID oldBody None)) ctx w)))"

definition LLAPIVertexCreate :: "('j, 'kv) env \<Rightarrow> ('j, 'kv) handler" where
  "LLAPIVertexCreate E req ctx w =
     (let J = ej E; selfID = SelfID ctx; opStack = getOpStackFromOptions J (Some (Options ctx));
          body = GetByPath J (Payload ctx) ''body'';
          objectBody = (if IsObject J body then body else NewJSONObject J) in
      case GetQueryID E ctx w of (queryID, w) \<Rightarrow>
      case (case wGetValue E selfID w of
              (Inr _, w) \<Rightarrow>
                (case req ''functions.graph.api.vertex.delete'' selfID (Some (queryPayload J queryID []))
                        (Some (Options ctx)) w of
                   (res, w) \<Rightarrow> (mergeReplyStack J opStack res, w))
            | (Inl _, w) \<Rightarrow> (opStack, w)) of (opStack, w) \<Rightarrow>
        (let w = wSetValue E selfID (ToBytes J objectBody) w
         in ReplyQueryID E queryID
              (addOpStackToResult J (statusResult J ''ok'' [])
                (addVertexOpToOpStack J opStack (SelfTypename ctx) selfID None (Some objectBody))) ctx w))"

definition LLAPIVertexUpdate :: "('j, 'kv) env \<Rightarrow> ('j, 'kv) handler" where
  "LLAPIVertexUpdate E req ctx w =
     (let J = ej E; selfID = SelfID ctx; opStack = getOpStackFromOptions J (Some (Options ctx));
          objectBody = GetByPath J (Payload ctx) ''body'' in
      case GetQueryID E ctx w of (queryID, w) \<Rightarrow>
      case GetObjectContext E ctx w of (fixedOldBody, w) \<Rightarrow>
        (if IsObject J objectBody then
           (case (if AsStringDefault J (GetByPath J (Payload ctx) ''mode'') ''merge'' = ''replace'' then (objectBody, w)
                  else (case GetObjectContext E ctx w of (b, w) \<Rightarrow> (DeepMerge J b objectBody, w))) of
              (newBody, w) \<Rightarrow>
                ReplyQueryID E queryID
                  (addOpStackToResult J (statusResult J ''ok'' [])
                    (addVertexOpToOpStack J opStack (SelfTypename ctx) selfID (Some fixedOldBody) (Some newBody)))
                  ctx (SetObjectContext E ctx newBody w))
         else
           ReplyQueryID E queryID
             (addOpStackToResult J (statusResult J ''failed'' (''ERROR LLAPIVertexUpdate '' @ selfID @ '': body:json is missing;''))
               (addVertexOpToOpStack J opStack (SelfTypename ctx) selfID (Some fixedOldBody) (Some fixedOldBody))) ctx w))"

text \<open>The registration of the low-level functions (\<open>RegisterAllFunctionTypes\<close>).\<close>

definition llFunction :: "('j, 'kv) env \<Rightarrow> string \<Rightarrow> ('j, 'kv) handler option" where
  "llFunction E typename =
     map_of [(llAPIVertexCUDNames ! 0, LLAPIVertexCreate E), (llAPIVertexCUDNames ! 1, LLAPIVertexUpdate E),
             (llAPIVertexCUDNames ! 2, LLAPIVertexDelete E), (llAPILinkCUDNames ! 0, LLAPILinkCreate E),
             (llAPILinkCUDNames ! 1, LLAPILinkUpdate E), (llAPILinkCUDNames ! 2, LLAPILinkDelete E)] typename"

definition ll_registered :: "('j, 'kv) env \<Rightarrow> (string \<Rightarrow> (('j, 'kv) handler \<times> 'j) option) \<Rightarrow> bool" where
  "ll_registered E registered \<longleftrightarrow>
     (\<forall>typename h. llFunction E typename = Some h \<longrightarrow> registered typename = Some (h, NewJSONObject (ej E)))"

end
