(* ===== verification/LLKeys.thy ===== *)
theory LLKeys
  imports LLCrud
begin

text \<open>
  The keys of the graph in the store: identifiers, how the keys split at their dots, that they are
  valid keys of the cache and that keys of different links, names and vertices differ.
\<close>

section \<open>Identifiers\<close>

definition simple_id :: "string \<Rightarrow> bool" where
  "simple_id s \<longleftrightarrow> s \<noteq> [] \<and> list_all key_char s"

text \<open>A vertex identifier: one that the separator of the composite identifiers cannot be mixed up with.\<close>

definition vertex_id :: "string \<Rightarrow> bool" where
  "vertex_id s \<longleftrightarrow> simple_id s \<and> last s \<noteq> CHR ''='' \<and> split_str ''==='' s = [s]"

lemma vertex_simple [simp]: "vertex_id s \<Longrightarrow> simple_id s"
  by (simp add: vertex_id_def)

lemma key_char_dot [simp]: "\<not> key_char CHR ''.''"
  by (simp add: key_char_def)

lemma simple_dot_free [simp]: "simple_id s \<Longrightarrow> dot_free s"
  by (auto simp: simple_id_def dot_free_def list_all_iff)

lemma simple_not_Nil [simp]: "simple_id s \<Longrightarrow> s \<noteq> []"
  by (simp add: simple_id_def)

lemma simple_append: "simple_id a \<Longrightarrow> list_all key_char b \<Longrightarrow> simple_id (a @ b)"
  by (auto simp: simple_id_def)

lemma dec_digit_key_char: "d < 10 \<Longrightarrow> key_char (dec_digit d)"
  using of_char_dec_digit[of d] by (auto simp: key_char_def Let_def)

lemma dec_nat_key_chars: "list_all key_char (dec_nat n)"
  using dec_nat_digits dec_digit_key_char by (fastforce simp: list_all_iff)

lemma simple_generated_name [simp]: "simple_id (''name'' @ sprintf_d i)"
proof -
  have "list_all key_char (sprintf_d i)"
    by (auto simp: sprintf_d_def dec_nat_key_chars key_char_def)
  moreover have "simple_id ''name''" by (simp add: simple_id_def key_char_def)
  ultimately show ?thesis by (rule simple_append[rotated])
qed

lemma split_str_Cons:
  "split_str ''==='' (c # s) = [c # s] \<longleftrightarrow> \<not> has_prefix (c # s) ''==='' \<and> split_str ''==='' s = [s]"
proof -
  have "split_str ''==='' s \<noteq> []" by (subst split_str.simps) (auto split: list.splits)
  then show ?thesis
    by (subst split_str.simps) (auto split: list.splits)
qed

lemma split_str_eq:
  "split_str ''==='' s = [s] \<Longrightarrow> s = [] \<or> last s \<noteq> CHR ''='' \<Longrightarrow>
   split_str ''==='' (s @ ''==='' @ t) = s # split_str ''==='' t"
proof (induction s)
  case Nil
  then show ?case by (subst split_str.simps) (simp add: has_prefix_def)
next
  case (Cons c s)
  have p: "\<not> has_prefix (c # s) ''===''" "split_str ''==='' s = [s]" using Cons.prems(1) by (simp_all only: split_str_Cons) auto
  have "\<not> has_prefix ((c # s) @ ''==='' @ t) ''===''"
  proof (cases "length s < 2")
    case True
    then consider "s = []" | d where "s = [d]" by (cases s) auto
    then show ?thesis using Cons.prems(2) by cases (simp_all add: has_prefix_def)
  next
    case False
    then obtain d e r where "s = d # e # r" by (cases s; cases "tl s") auto
    with p(1) show ?thesis by (simp add: has_prefix_def)
  qed
  moreover have "split_str ''==='' (s @ ''==='' @ t) = s # split_str ''==='' t"
    using p(2) Cons.prems(2) by (intro Cons.IH) auto
  ultimately show ?case by (subst split_str.simps) simp
qed

lemma split_str_none: "CHR ''='' \<notin> set s \<Longrightarrow> split_str ''==='' s = [s]"
proof (induction s)
  case Nil
  then show ?case by (subst split_str.simps) simp
next
  case (Cons c s)
  then have "c \<noteq> CHR ''=''" "CHR ''='' \<notin> set s" by auto
  then show ?case unfolding split_str_Cons using Cons.IH by (simp add: has_prefix_def)
qed

lemma vertex_id_plain: "simple_id s \<Longrightarrow> CHR ''='' \<notin> set s \<Longrightarrow> vertex_id s"
  unfolding vertex_id_def using simple_not_Nil[of s] by (metis last_in_set split_str_none)

lemma vertex_split: "vertex_id s \<Longrightarrow> split_str ''==='' s = [s]"
  "vertex_id s \<Longrightarrow> split_str ''==='' (s @ ''==='' @ t) = s # split_str ''==='' t"
  unfolding vertex_id_def by (blast, rule split_str_eq, auto)

lemma compositeID_plain [simp]: "vertex_id s \<Longrightarrow> compositeID s = s"
  by (simp add: compositeID_def vertex_split(1))

lemma compositeID_delete [simp]: "vertex_id s \<Longrightarrow> compositeID (s @ ''===delete_in_link'') = s"
  using vertex_split(2)[of s "''delete_in_link''"] by (simp add: compositeID_def)

lemma compositeID_create [simp]: "vertex_id s \<Longrightarrow> compositeID (s @ ''===create_in_link'') = s"
  using vertex_split(2)[of s "''create_in_link''"] by (simp add: compositeID_def)

text \<open>
  An identifier that ends with the separator's character loses it: the composite identifier of a
  vertex \<open>a=\<close> is taken apart to \<open>a\<close>, so that a loop at \<open>a=\<close> is recorded as an
  in-link of \<open>a\<close>.
\<close>

theorem composite_id_of_padded_vertex:
  "simple_id ''a='' \<and> compositeID (''a='' @ ''===create_in_link'') = ''a''"
proof -
  have "split_str ''==='' (''a'' @ ''==='' @ ''=create_in_link'') = ''a'' # split_str ''==='' ''=create_in_link''"
    by (rule split_str_eq) (simp_all add: split_str_none)
  then show ?thesis by (simp add: compositeID_def simple_id_def key_char_def)
qed

section \<open>How keys split\<close>

lemma split_body [simp]:
  "simple_id A \<Longrightarrow> simple_id T \<Longrightarrow> simple_id B \<Longrightarrow>
   split_dot (OutLinkBodyKey A T B) = [A, ''out'', ''body'', T, B]"
  using split_dot_append[of A "''out.body.'' @ T @ CHR ''.'' # B"]
    split_dot_append[of "''out.body''" "T @ CHR ''.'' # B"] split_dot_append[of T B]
  by (simp add: OutLinkBodyKey_def split_dot_free)

lemma split_index [simp]:
  "simple_id A \<Longrightarrow> simple_id T \<Longrightarrow> simple_id B \<Longrightarrow> dot_free i \<Longrightarrow> simple_id t \<Longrightarrow>
   split_dot (OutLinkIndexKey A T B i t) = [A, ''out'', ''index'', T, B, i, t]"
  using split_dot_append[of A "''out.index.'' @ T @ CHR ''.'' # B @ CHR ''.'' # i @ CHR ''.'' # t"]
    split_dot_append[of "''out.index''" "T @ CHR ''.'' # B @ CHR ''.'' # i @ CHR ''.'' # t"]
    split_dot_append[of T "B @ CHR ''.'' # i @ CHR ''.'' # t"] split_dot_append[of B "i @ CHR ''.'' # t"]
    split_dot_append[of i t]
  by (simp add: OutLinkIndexKey_def split_dot_free)

lemma split_name [simp]:
  "simple_id A \<Longrightarrow> simple_id N \<Longrightarrow> split_dot (OutLinkNameKey A N) = [A, ''out'', ''name'', N]"
  using split_dot_append[of A "''out.name.'' @ N"] split_dot_append[of "''out.name''" N]
  by (simp add: OutLinkNameKey_def split_dot_free)

lemma split_namegen [simp]: "simple_id A \<Longrightarrow> split_dot (OutLinkNameGenKey A) = [A, ''out'', ''namegen'']"
  using split_dot_append[of A "''out.namegen''"]
  by (simp add: OutLinkNameGenKey_def split_dot_free)

lemma split_in [simp]:
  "simple_id A \<Longrightarrow> simple_id T \<Longrightarrow> simple_id B \<Longrightarrow> split_dot (InLinkKey B A T) = [B, ''in'', A, T]"
  using split_dot_append[of B "''in.'' @ A @ CHR ''.'' # T"] split_dot_append[of "''in''" "A @ CHR ''.'' # T"]
    split_dot_append[of A T]
  by (simp add: InLinkKey_def split_dot_free)

lemma split_vertex [simp]: "simple_id A \<Longrightarrow> split_dot A = [A]"
  by (simp add: split_dot_free)

text \<open>Two keys are the same exactly when they split into the same tokens.\<close>

lemma key_eq_split: "a = b \<longleftrightarrow> split_dot a = split_dot b"
  by simp

section \<open>The keys are valid\<close>

lemma valid_key_tokens:
  assumes "split_dot k = ts" and "hd ts \<noteq> []" and "last ts \<noteq> []" and "list_all (list_all key_char) ts" and "length ts \<ge> 2"
  shows "valid_key k \<and> k \<noteq> []"
proof -
  have k: "k = join_on CHR ''.'' ts" using assms(1) join_split by metis
  have chars: "list_all (\<lambda>c. key_char c \<or> c = CHR ''.'') (join_on CHR ''.'' us)" if "list_all (list_all key_char) us" for us
    using that by (induction "CHR ''.''" us rule: join_on.induct) (auto simp: list_all_iff)
  obtain a as where a: "ts = a # as" "as \<noteq> []" using assms(5) by (cases ts) (auto simp: Suc_le_eq)
  then have k1: "k = a @ CHR ''.'' # join_on CHR ''.'' as" using k by (simp add: join_on_Cons)
  have "as = butlast as @ [last as]" using a by simp
  then have ex: "\<exists>p. join_on CHR ''.'' as = p @ last as"
    by (cases "butlast as = []") (metis append_Nil join_on.simps(2), metis append.assoc append_Cons append_Nil join_on_snoc)
  then obtain p where p: "join_on CHR ''.'' as = p @ last as" ..
  have la: "last as \<noteq> []" "list_all key_char (last as)" "a \<noteq> []" "list_all key_char a"
    using assms a by (auto simp: list_all_iff)
  have "key_char (hd k)" using la k1 by (cases a) auto
  moreover have "key_char (last k)" using la k1 p by (auto simp: list_all_iff)
  moreover have "length k \<ge> 3" using la k1 p by (cases a; cases "last as") auto
  moreover have "set (butlast (tl k)) \<subseteq> set k" by (cases k) (auto dest: in_set_butlastD)
  then have "list_all (\<lambda>c. key_char c \<or> c = CHR ''.'') (butlast (tl k))"
    using chars[OF assms(4)] k by (auto simp: list_all_iff)
  ultimately show ?thesis unfolding valid_key_def by auto
qed

lemma simple_chars [simp]: "simple_id s \<Longrightarrow> list_all key_char s"
  by (simp add: simple_id_def)

lemma valid_graph_keys [simp]:
  "simple_id A \<Longrightarrow> simple_id T \<Longrightarrow> simple_id B \<Longrightarrow> valid_key (OutLinkBodyKey A T B)"
  "simple_id A \<Longrightarrow> simple_id T \<Longrightarrow> simple_id B \<Longrightarrow> simple_id i \<Longrightarrow> simple_id t \<Longrightarrow> valid_key (OutLinkIndexKey A T B i t)"
  "simple_id A \<Longrightarrow> simple_id N \<Longrightarrow> valid_key (OutLinkNameKey A N)"
  "simple_id A \<Longrightarrow> valid_key (OutLinkNameGenKey A)"
  "simple_id A \<Longrightarrow> simple_id T \<Longrightarrow> simple_id B \<Longrightarrow> valid_key (InLinkKey B A T)"
proof -
  show "simple_id A \<Longrightarrow> simple_id T \<Longrightarrow> simple_id B \<Longrightarrow> valid_key (OutLinkBodyKey A T B)"
    by (rule conjunct1[OF valid_key_tokens[OF split_body]]) (simp_all add: key_char_def)
  show "simple_id A \<Longrightarrow> simple_id T \<Longrightarrow> simple_id B \<Longrightarrow> simple_id i \<Longrightarrow> simple_id t \<Longrightarrow> valid_key (OutLinkIndexKey A T B i t)"
    by (rule conjunct1[OF valid_key_tokens[OF split_index]]) (simp_all add: key_char_def)
  show "simple_id A \<Longrightarrow> simple_id N \<Longrightarrow> valid_key (OutLinkNameKey A N)"
    by (rule conjunct1[OF valid_key_tokens[OF split_name]]) (simp_all add: key_char_def)
  show "simple_id A \<Longrightarrow> valid_key (OutLinkNameGenKey A)"
    by (rule conjunct1[OF valid_key_tokens[OF split_namegen]]) (simp_all add: key_char_def)
  show "simple_id A \<Longrightarrow> simple_id T \<Longrightarrow> simple_id B \<Longrightarrow> valid_key (InLinkKey B A T)"
    by (rule conjunct1[OF valid_key_tokens[OF split_in]]) (simp_all add: key_char_def)
qed

lemma valid_vertex_key [simp]: "simple_id A \<Longrightarrow> valid_key A"
  by (simp add: valid_key_def)

lemma graph_keys_not_Nil [simp]:
  "OutLinkBodyKey A T B \<noteq> []" "OutLinkIndexKey A T B i t \<noteq> []" "OutLinkNameKey A N \<noteq> []"
  "OutLinkNameGenKey A \<noteq> []" "InLinkKey B A T \<noteq> []"
  by (simp_all add: OutLinkBodyKey_def OutLinkIndexKey_def OutLinkNameKey_def OutLinkNameGenKey_def InLinkKey_def)

lemma simple_literals [simp]: "simple_id ''name''" "simple_id ''tag''"
  by (simp_all add: simple_id_def key_char_def)

end
