(* ===== verification/LLSpec.thy ===== *)
theory LLSpec
  imports LLKeys
begin

text \<open>
  What the link operations of the low-level graph API promise, as functions on the map from keys to
  values, and the proof that the handlers implement them: the handlers run on any store that meets
  the contract, their nested requests included, and answer with the status ok.
\<close>

section \<open>Specification\<close>

definition linkIndexKeys :: "'j easyjson \<Rightarrow> string \<Rightarrow> string \<Rightarrow> string \<Rightarrow> 'j \<Rightarrow> string set" where
  "linkIndexKeys J A T B j =
     (case AsString J (GetByPath J j ''name'') of
        Some N \<Rightarrow> {OutLinkNameKey A N, OutLinkIndexKey A T B ''name'' N} | None \<Rightarrow> {}) \<union>
     OutLinkIndexKey A T B ''tag'' ` set (linkTags J j)"

definition spec_link_delete ::
  "'j easyjson \<Rightarrow> string \<Rightarrow> string \<Rightarrow> string \<Rightarrow> (string \<Rightarrow> bytes option) \<Rightarrow> string \<Rightarrow> bytes option" where
  "spec_link_delete J A T B m =
     (case m (OutLinkBodyKey A T B) of
        None \<Rightarrow> m
      | Some v \<Rightarrow> (\<lambda>k. if k = OutLinkBodyKey A T B \<or> k = InLinkKey B A T \<or>
            (case JSONFromBytes J v of None \<Rightarrow> False | Some j \<Rightarrow> k \<in> linkIndexKeys J A T B j)
          then None else m k))"

definition spec_link_name ::
  "'j easyjson \<Rightarrow> string \<Rightarrow> 'j \<Rightarrow> (string \<Rightarrow> bytes option) \<Rightarrow> (string \<times> 'j) \<times> (string \<Rightarrow> bytes option)" where
  "spec_link_name J A body m =
     (let given = AsString J (GetByPath J body ''name'');
          counter = (case m (OutLinkNameGenKey A) of Some v \<Rightarrow> BytesToInt64 v | None \<Rightarrow> 0);
          generated = ''name'' @ sprintf_d (int64_of counter)
      in if given \<noteq> None \<and> the given \<noteq> [] \<and> m (OutLinkNameKey A (the given)) = None
         then ((the given, body), m)
         else ((generated, SetByPath J body ''name'' (NewJSONString J generated)),
               m(OutLinkNameGenKey A \<mapsto> Int64ToBytes (counter + 1))))"

definition spec_link_write ::
  "'j easyjson \<Rightarrow> string \<Rightarrow> string \<Rightarrow> string \<Rightarrow> string \<Rightarrow> 'j \<Rightarrow> (string \<Rightarrow> bytes option) \<Rightarrow> string \<Rightarrow> bytes option" where
  "spec_link_write J A T B N body m =
     (\<lambda>k. if k \<in> OutLinkIndexKey A T B ''tag'' ` set (linkTags J body) then Some []
          else (m(OutLinkNameKey A N \<mapsto> [], OutLinkIndexKey A T B ''name'' N \<mapsto> [],
                  OutLinkBodyKey A T B \<mapsto> ToBytes J body)) k)"

definition spec_link_create ::
  "'j easyjson \<Rightarrow> string \<Rightarrow> string \<Rightarrow> string \<Rightarrow> 'j \<Rightarrow> (string \<Rightarrow> bytes option) \<Rightarrow> string \<Rightarrow> bytes option" where
  "spec_link_create J A T B body m =
     (case spec_link_name J A body (spec_link_delete J A T B m) of
        ((N, body'), m') \<Rightarrow> (spec_link_write J A T B N body' m')(InLinkKey B A T \<mapsto> []))"

text \<open>A body whose name, if it has one, and whose tags can be parts of keys.\<close>

definition link_body_ok :: "'j easyjson \<Rightarrow> 'j \<Rightarrow> bool" where
  "link_body_ok J body \<longleftrightarrow> IsObject J body \<and>
     (\<forall>N. AsString J (GetByPath J body ''name'') = Some N \<longrightarrow> N \<noteq> [] \<longrightarrow> simple_id N) \<and>
     (\<forall>t\<in>set (linkTags J body). simple_id t)"

section \<open>Running a handler\<close>

text \<open>A handler or a request that answers ok and changes the store by \<open>f\<close>, nothing else.\<close>

definition ok_reply :: "'j easyjson \<Rightarrow> 'j \<Rightarrow> bool" where
  "ok_reply J r \<longleftrightarrow> IsObject J r \<and> AsString J (GetByPath J r ''status'') = Some ''ok''"

definition does :: "('j, 'kv) env \<Rightarrow> ((string \<Rightarrow> bytes option) \<Rightarrow> string \<Rightarrow> bytes option) \<Rightarrow>
    ('j, 'kv) world \<Rightarrow> ('j, 'kv) world \<Rightarrow> bool" where
  "does E f w w' \<longleftrightarrow> w_ok E w' \<and> w_view w' = f (w_view w) \<and> same_rest w w'"

lemma does_trans: "does E f w w1 \<Longrightarrow> does E g w1 w2 \<Longrightarrow> does E (g \<circ> f) w w2"
  unfolding does_def using same_rest_trans by auto

lemma does_refl: "w_ok E w \<Longrightarrow> does E id w w"
  by (simp add: does_def)

lemma does_set: "w_ok E w \<Longrightarrow> valid_key k \<Longrightarrow> k \<noteq> [] \<Longrightarrow> does E (\<lambda>m. m(k \<mapsto> v)) w (wSetValue E k v w)"
  by (simp add: does_def world.put_ok world.put_view)

lemma does_del: "w_ok E w \<Longrightarrow> does E (\<lambda>m. m(k := None)) w (wDeleteValue E k w)"
  by (simp add: does_def world.del_ok world.del_view)

lemma does_query: "w_ok E w \<Longrightarrow> GetQueryID E ctx w = (q, w1) \<Longrightarrow> does E id w w1"
  using rest_ops(3)[of w E ctx] GetQueryID_store[of E ctx w] by (simp add: does_def)

definition answers :: "('j, 'kv) env \<Rightarrow> ((string \<Rightarrow> bytes option) \<Rightarrow> string \<Rightarrow> bytes option) \<Rightarrow>
    ('j, 'kv) world \<Rightarrow> 'j option \<times> ('j, 'kv) world \<Rightarrow> bool" where
  "answers E f w out \<longleftrightarrow> (\<exists>r. fst out = Some r \<and> ok_reply (ej E) r) \<and> does E f w (snd out)"

definition served :: "('j, 'kv) env \<Rightarrow> ((string \<Rightarrow> bytes option) \<Rightarrow> string \<Rightarrow> bytes option) \<Rightarrow>
    ('j, 'kv) world \<Rightarrow> (string + 'j) \<times> ('j, 'kv) world \<Rightarrow> bool" where
  "served E f w out \<longleftrightarrow> (\<exists>r. fst out = Inr r \<and> ok_reply (ej E) r) \<and> does E f w (snd out)"

lemma status_result:
  assumes "easyjson_ok J"
  shows "IsObject J (statusResult J st txt)" and "AsString J (GetByPath J (statusResult J st txt) ''status'') = Some st"
  using ej_obj_new[OF assms] ej_obj_set[OF assms] ej_get_set[OF assms] ej_get_other[OF assms] ej_str[OF assms]
  by (simp_all add: statusResult_def simple_path_def dot_free_def)

lemma ok_result:
  assumes "easyjson_ok J"
  shows "ok_reply J (addOpStackToResult J (statusResult J ''ok'' txt) st)" and "ok_reply J (statusResult J ''ok'' txt)"
  using status_result[OF assms] ej_obj_set[OF assms] ej_get_other[OF assms]
  by (auto simp: ok_reply_def addOpStackToResult_def simple_path_def dot_free_def split: option.split)

lemma ReplyQueryID_reply: "hasReply ctx \<Longrightarrow> ReplyQueryID E q r ctx w = (Some r, w)"
  by (simp add: ReplyQueryID_def)

lemma served_request:
  assumes "registered typename = Some (h, ftOptions)" and "(typename, ident) \<notin> set (running w)"
    and "answers E f (w\<lparr>running := (typename, ident) # running w\<rparr>)
      (h (goLangLocalRequest E registered n typename ident)
         (handlerContext (ej E) ftOptions typename ident ct ci payload options True)
         (w\<lparr>running := (typename, ident) # running w\<rparr>))"
  shows "served E f w (goLangLocalRequest E registered (Suc n) ct ci typename ident payload options w)"
proof -
  obtain reply w' where h: "h (goLangLocalRequest E registered n typename ident)
         (handlerContext (ej E) ftOptions typename ident ct ci payload options True)
         (w\<lparr>running := (typename, ident) # running w\<rparr>) = (reply, w')" by fastforce
  with assms show ?thesis
    by (auto simp: answers_def served_def does_def same_rest_def goLangLocalRequest.simps(2))
qed

text \<open>The payloads that the handlers send to each other.\<close>

lemma queryPayload_in:
  fixes q T :: string
  assumes J: "easyjson_ok J"
  defines "p \<equiv> queryPayload J q [(''in_link_type'', T)]"
  shows "PathExists J p ''in_link_type''" "AsString J (GetByPath J p ''in_link_type'') = Some T"
    "AsString J (GetByPath J p ''query_id'') = Some q"
  unfolding p_def
  using ej_obj_new[OF J] ej_obj_set[OF J] ej_get_set[OF J] ej_get_other[OF J] ej_str[OF J] ej_exists_set[OF J]
  by (simp_all add: queryPayload_def simple_path_def dot_free_def)

lemma queryPayload_link:
  fixes q B T :: string
  assumes J: "easyjson_ok J"
  defines "p \<equiv> queryPayload J q [(''descendant_uuid'', B), (''link_type'', T)]"
  shows "\<not> PathExists J p ''in_link_type''" "AsString J (GetByPath J p ''link_type'') = Some T"
    "AsString J (GetByPath J p ''descendant_uuid'') = Some B" "AsString J (GetByPath J p ''query_id'') = Some q"
    "IsObject J p"
  unfolding p_def
  using ej_obj_new[OF J] ej_obj_set[OF J] ej_get_set[OF J] ej_get_other[OF J] ej_str[OF J] ej_exists_set[OF J]
    ej_exists_new[OF J]
  by (simp_all add: queryPayload_def simple_path_def dot_free_def)

section \<open>Deleting a link\<close>

lemma dels_does:
  "w_ok E w \<Longrightarrow> does E (\<lambda>m k. if k \<in> key ` set ts then None else m k) w (fold (\<lambda>t. wDeleteValue E (key t)) ts w)"
proof (induction ts arbitrary: w)
  case Nil
  then show ?case by (simp add: does_def)
next
  case (Cons t ts)
  have 1: "does E (\<lambda>m. m(key t := None)) w (wDeleteValue E (key t) w)" using does_del[OF Cons.prems] .
  then have "w_ok E (wDeleteValue E (key t) w)" by (simp add: does_def)
  from does_trans[OF 1 Cons.IH[OF this]] show ?case
    by (auto simp: does_def fun_eq_iff)
qed

lemma sets_does:
  "w_ok E w \<Longrightarrow> \<forall>t\<in>set ts. valid_key (key t) \<and> key t \<noteq> [] \<Longrightarrow>
   does E (\<lambda>m k. if k \<in> key ` set ts then Some v else m k) w (fold (\<lambda>t. wSetValue E (key t) v) ts w)"
proof (induction ts arbitrary: w)
  case Nil
  then show ?case by (simp add: does_def)
next
  case (Cons t ts)
  have 1: "does E (\<lambda>m. m(key t \<mapsto> v)) w (wSetValue E (key t) v w)" using does_set[OF Cons.prems(1)] Cons.prems(2) by simp
  then have "w_ok E (wSetValue E (key t) v w)" by (simp add: does_def)
  from does_trans[OF 1 Cons.IH[OF this]] Cons.prems(2) show ?case
    by (auto simp: does_def fun_eq_iff)
qed

lemma deleteOutLinkIndices_does:
  assumes "w_ok E w"
  shows "does E (\<lambda>m k. if k \<in> linkIndexKeys (ej E) A T B j then None else m k) w (deleteOutLinkIndices E A T B j w)"
proof -
  define w1 where "w1 = (case AsString (ej E) (GetByPath (ej E) j ''name'') of
                 Some linkName \<Rightarrow>
                   wDeleteValue E (OutLinkIndexKey A T B ''name'' linkName) (wDeleteValue E (OutLinkNameKey A linkName) w)
               | None \<Rightarrow> w)"
  have 1: "does E (\<lambda>m k. if k \<in> (case AsString (ej E) (GetByPath (ej E) j ''name'') of
        Some N \<Rightarrow> {OutLinkNameKey A N, OutLinkIndexKey A T B ''name'' N} | None \<Rightarrow> {}) then None else m k) w w1"
    using assms by (auto simp: w1_def does_def world.del_ok world.del_view fun_eq_iff split: option.split)
  then have "w_ok E w1" by (simp add: does_def)
  from does_trans[OF 1 dels_does[OF this, of "OutLinkIndexKey A T B ''tag''" "linkTags (ej E) j"]]
  show ?thesis by (auto simp: deleteOutLinkIndices_def Let_def w1_def[symmetric] does_def linkIndexKeys_def fun_eq_iff)
qed

text \<open>The in-link half, run at the vertex that the link leads to.\<close>

lemma link_delete_in:
  assumes E: "env_ok E" and w: "w_ok E w" and ctx: "hasReply ctx" "Payload ctx = queryPayload (ej E) q [(''in_link_type'', T)]"
    "compositeID (SelfID ctx) = B" "CallerID ctx = A" and ids: "A \<noteq> []" "T \<noteq> []"
  shows "answers E (\<lambda>m. m(InLinkKey B A T := None)) w (LLAPILinkDelete E req ctx w)"
proof -
  note J = env_ok_ej[OF E]
  obtain qid w1 where g: "GetQueryID E ctx w = (qid, w1)" by fastforce
  have q: "does E id w w1" using does_query[OF w g] .
  then have "w_ok E w1" by (simp add: does_def)
  from does_trans[OF q does_del[OF this, of "InLinkKey B A T"]]
  have d: "does E (\<lambda>m. m(InLinkKey B A T := None)) w (wDeleteValue E (InLinkKey B A T) w1)" by (simp add: o_def)
  have "LLAPILinkDelete E req ctx w = (Some (statusResult (ej E) ''ok'' []), wDeleteValue E (InLinkKey B A T) w1)"
    using ctx ids queryPayload_in[OF J, of q T] by (simp add: LLAPILinkDelete_def g Let_def ReplyQueryID_reply)
  with d ok_result(2)[OF J] show ?thesis by (simp add: answers_def)
qed

abbreviation link_delete_name :: string where
  "link_delete_name \<equiv> ''functions.graph.api.link.delete''"

abbreviation link_create_name :: string where
  "link_create_name \<equiv> ''functions.graph.api.link.create''"

definition inTarget :: "string \<Rightarrow> string \<Rightarrow> string \<Rightarrow> string" where
  "inTarget sfx A B = (if B = A then B @ sfx else B)"

lemma inTarget_other [simp]: "sfx \<noteq> [] \<Longrightarrow> inTarget sfx A B \<noteq> A"
  by (simp add: inTarget_def)

lemma ll_functions:
  assumes "ll_registered E registered"
  shows "registered ''functions.graph.api.vertex.create'' = Some (LLAPIVertexCreate E, NewJSONObject (ej E))"
    and "registered ''functions.graph.api.vertex.update'' = Some (LLAPIVertexUpdate E, NewJSONObject (ej E))"
    and "registered ''functions.graph.api.vertex.delete'' = Some (LLAPIVertexDelete E, NewJSONObject (ej E))"
    and "registered link_create_name = Some (LLAPILinkCreate E, NewJSONObject (ej E))"
    and "registered ''functions.graph.api.link.update'' = Some (LLAPILinkUpdate E, NewJSONObject (ej E))"
    and "registered link_delete_name = Some (LLAPILinkDelete E, NewJSONObject (ej E))"
  using assms unfolding ll_registered_def
  by (simp_all add: llFunction_def llAPIVertexCUDNames_def llAPILinkCUDNames_def)

lemma request_link_delete_in:
  assumes E: "env_ok E" and w: "w_ok E w" and reg: "ll_registered E registered"
    and ids: "vertex_id A" "vertex_id B" "simple_id T"
    and free: "(link_delete_name, inTarget ''===delete_in_link'' A B) \<notin> set (running w)"
  shows "served E (\<lambda>m. m(InLinkKey B A T := None)) w
     (goLangLocalRequest E registered (Suc n) link_delete_name A link_delete_name (inTarget ''===delete_in_link'' A B)
        (Some (queryPayload (ej E) q [(''in_link_type'', T)])) options w)"
proof (rule served_request)
  show "registered link_delete_name = Some (LLAPILinkDelete E, NewJSONObject (ej E))" by (rule ll_functions(6)[OF reg])
  show "(link_delete_name, inTarget ''===delete_in_link'' A B) \<notin> set (running w)" by (rule free)
qed (rule link_delete_in[OF E]; use w ids in \<open>auto simp: handlerContext_def inTarget_def\<close>)

lemma link_delete_out:
  assumes E: "env_ok E" and w: "w_ok E w" and reg: "ll_registered E registered"
    and ids: "vertex_id A" "vertex_id B" "simple_id T"
    and ctx: "hasReply ctx" "SelfTypename ctx = link_delete_name" "SelfID ctx = A"
    and p: "\<not> PathExists (ej E) (Payload ctx) ''in_link_type''"
      "AsString (ej E) (GetByPath (ej E) (Payload ctx) ''link_type'') = Some T"
      "AsString (ej E) (GetByPath (ej E) (Payload ctx) ''descendant_uuid'') = Some B"
    and free: "(link_delete_name, inTarget ''===delete_in_link'' A B) \<notin> set (running w)"
  shows "answers E (spec_link_delete (ej E) A T B) w
     (LLAPILinkDelete E (goLangLocalRequest E registered (Suc n) link_delete_name A) ctx w)"
proof -
  let ?J = "ej E" and ?lbk = "OutLinkBodyKey A T B" and ?req = "goLangLocalRequest E registered (Suc n) link_delete_name A"
  note J = env_ok_ej[OF E]
  obtain qid w1 where g: "GetQueryID E ctx w = (qid, w1)" by fastforce
  have q: "does E id w w1" using does_query[OF w g] .
  then have w1: "w_ok E w1" "w_view w1 = w_view w" "running w1 = running w"
    by (auto simp: does_def same_rest_def)
  show ?thesis
  proof (cases "w_view w ?lbk")
    case None
    with w1 world.get_absent[OF w1(1), of ?lbk] obtain e where e: "wGetValue E ?lbk w1 = (Inl e, w1)" by auto
    have "\<exists>r. LLAPILinkDelete E ?req ctx w = (Some r, w1) \<and> ok_reply ?J r"
      using ctx p ok_result(1)[OF J] by (simp add: LLAPILinkDelete_def g Let_def e ReplyQueryID_reply)
    moreover have "does E (spec_link_delete ?J A T B) w w1"
      using q None by (simp add: does_def spec_link_delete_def)
    ultimately show ?thesis by (auto simp: answers_def)
  next
    case (Some v)
    with w1 have get: "wGetValue E ?lbk w1 = (Inr v, w1)" by (simp add: world.get_Some)
    obtain body where body: "wGetValueAsJSON E ?lbk w1 = (body, w1)"
      and b: "(case body of Inr j \<Rightarrow> JSONFromBytes ?J v = Some j | Inl _ \<Rightarrow> JSONFromBytes ?J v = None)"
      using wGetValueAsJSON_cases[OF w1(1), of ?lbk] Some w1(2) by auto
    define w2 where "w2 = wDeleteValue E ?lbk w1"
    define w3 where "w3 = (case body of Inr j \<Rightarrow> deleteOutLinkIndices E A T B j w2 | Inl _ \<Rightarrow> w2)"
    have 2: "does E (\<lambda>m. m(?lbk := None)) w1 w2" using does_del[OF w1(1)] by (simp add: w2_def)
    then have "w_ok E w2" by (simp add: does_def)
    then have 3: "does E (\<lambda>m k. if (case JSONFromBytes ?J v of None \<Rightarrow> False | Some j \<Rightarrow> k \<in> linkIndexKeys ?J A T B j)
        then None else m k) w2 w3"
      using deleteOutLinkIndices_does[of E w2 A T B] b by (auto simp: w3_def does_def split: sum.splits)
    then have w3: "w_ok E w3" by (simp add: does_def)
    have run: "running w3 = running w"
      using does_trans[OF does_trans[OF q 2] 3] by (simp add: does_def same_rest_def)
    obtain res w4 where req: "?req link_delete_name (inTarget ''===delete_in_link'' A B)
        (Some (queryPayload ?J qid [(''in_link_type'', T)])) None w3 = (res, w4)" by fastforce
    have 4: "does E (\<lambda>m. m(InLinkKey B A T := None)) w3 w4"
      using request_link_delete_in[OF E w3 reg ids, of n qid None] free run req by (auto simp: served_def)
    have "\<exists>r. LLAPILinkDelete E ?req ctx w = (Some r, w4) \<and> ok_reply ?J r"
    proof (cases body)
      case (Inl e)
      with req have "?req link_delete_name (inTarget ''===delete_in_link'' A B)
        (Some (queryPayload ?J qid [(''in_link_type'', T)])) None (wDeleteValue E ?lbk w1) = (res, w4)"
        by (simp add: w3_def w2_def)
      then show ?thesis
        using ctx p ok_result(1)[OF J] Inl
        by (simp add: LLAPILinkDelete_def g Let_def get body ReplyQueryID_reply inTarget_def split: if_splits)
    next
      case (Inr j)
      with req have "?req link_delete_name (inTarget ''===delete_in_link'' A B)
        (Some (queryPayload ?J qid [(''in_link_type'', T)])) None
          (deleteOutLinkIndices E A T B j (wDeleteValue E ?lbk w1)) = (res, w4)"
        by (simp add: w3_def w2_def)
      then show ?thesis
        using ctx p ok_result(1)[OF J] Inr
        by (simp add: LLAPILinkDelete_def g Let_def get body ReplyQueryID_reply inTarget_def split: if_splits)
    qed
    moreover have "does E (spec_link_delete ?J A T B) w w4"
      using does_trans[OF does_trans[OF does_trans[OF q 2] 3] 4] Some
      by (auto simp: does_def spec_link_delete_def fun_eq_iff)
    ultimately show ?thesis by (auto simp: answers_def)
  qed
qed

lemma request_link_delete:
  assumes E: "env_ok E" and w: "w_ok E w" and reg: "ll_registered E registered"
    and ids: "vertex_id A" "vertex_id B" "simple_id T"
    and free: "(link_delete_name, A) \<notin> set (running w)"
      "(link_delete_name, inTarget ''===delete_in_link'' A B) \<notin> set (running w)"
  shows "served E (spec_link_delete (ej E) A T B) w
     (goLangLocalRequest E registered (Suc (Suc n)) ct ci link_delete_name A
        (Some (queryPayload (ej E) q [(''descendant_uuid'', B), (''link_type'', T)])) options w)"
proof (rule served_request)
  show "registered link_delete_name = Some (LLAPILinkDelete E, NewJSONObject (ej E))" by (rule ll_functions(6)[OF reg])
  show "(link_delete_name, A) \<notin> set (running w)" by (rule free)
qed (rule link_delete_out[OF E _ reg];
     use w ids free queryPayload_link[OF env_ok_ej[OF E], of q B T] in \<open>auto simp: handlerContext_def\<close>)

section \<open>Creating a link\<close>

lemma does_ok: "does E f w w' \<Longrightarrow> w_ok E w'"
  by (simp add: does_def)

lemma does_view: "does E f w w' \<Longrightarrow> w_view w' = f (w_view w)"
  by (simp add: does_def)

lemma does_running: "does E f w w' \<Longrightarrow> running w' = running w"
  by (simp add: does_def same_rest_def)

lemma uniqueLinkName_does:
  assumes w: "w_ok E w" and A: "simple_id A"
  shows "\<exists>w'. uniqueLinkName E A body w = (fst (spec_link_name (ej E) A body (w_view w)), w') \<and>
     does E (\<lambda>m. snd (spec_link_name (ej E) A body m)) w w'"
proof -
  let ?given = "AsString (ej E) (GetByPath (ej E) body ''name'')"
  let ?N = "case ?given of None \<Rightarrow> [] | Some s \<Rightarrow> s"
  have name: "(case wGetValue E k w of (r, w) \<Rightarrow> (case r of Inr _ \<Rightarrow> True | Inl _ \<Rightarrow> False, w)) = (w_view w k \<noteq> None, w)" for k
    using world.get_Some[OF w, of k] world.get_absent[OF w, of k] by (cases "w_view w k") auto
  obtain r where gen: "wGetValue E (OutLinkNameGenKey A) w = (r, w)"
    and r: "(case r of Inr v \<Rightarrow> BytesToInt64 v | Inl _ \<Rightarrow> 0) =
      (case w_view w (OutLinkNameGenKey A) of Some v \<Rightarrow> BytesToInt64 v | None \<Rightarrow> 0)"
    using world.get_Some[OF w, of "OutLinkNameGenKey A"] world.get_absent[OF w, of "OutLinkNameGenKey A"]
    by (cases "w_view w (OutLinkNameGenKey A)") auto
  have set: "does E (\<lambda>m. m(OutLinkNameGenKey A \<mapsto> v)) w (wSetValue E (OutLinkNameGenKey A) v w)" for v
    using does_set[OF w, of "OutLinkNameGenKey A"] A by simp
  show ?thesis
  proof (cases "?given \<noteq> None \<and> the ?given \<noteq> [] \<and> w_view w (OutLinkNameKey A (the ?given)) = None")
    case True
    then show ?thesis
      using w by (auto simp: uniqueLinkName_def spec_link_name_def Let_def name does_def)
  next
    case False
    then have "\<not> (?given \<noteq> None \<and> length ?N > 0) \<or> w_view w (OutLinkNameKey A ?N) \<noteq> None"
      by (auto split: option.splits)
    then show ?thesis
      using set[of "Int64ToBytes ((case w_view w (OutLinkNameGenKey A) of Some v \<Rightarrow> BytesToInt64 v | None \<Rightarrow> 0) + 1)"] False
      by (auto simp: uniqueLinkName_def spec_link_name_def Let_def name gen r does_def split: option.splits)
  qed
qed

lemma spec_link_name_ok:
  assumes J: "easyjson_ok J" and body: "link_body_ok J body"
    and sp: "fst (spec_link_name J A body m) = (N, body')"
  shows "simple_id N" "linkTags J body' = linkTags J body" "IsObject J body'"
    "AsString J (GetByPath J body' ''name'') = Some N"
proof -
  have obj: "IsObject J body" using body by (simp add: link_body_ok_def)
  have p: "simple_path ''name''" "simple_path ''tags''" by (simp_all add: simple_path_def dot_free_def)
  consider "body' = body" "AsString J (GetByPath J body ''name'') = Some N" "N \<noteq> []"
    | i where "N = ''name'' @ sprintf_d i" "body' = SetByPath J body ''name'' (NewJSONString J N)"
    using sp by (auto simp: spec_link_name_def Let_def split: if_splits)
  then have "simple_id N \<and> linkTags J body' = linkTags J body \<and> IsObject J body' \<and>
      AsString J (GetByPath J body' ''name'') = Some N"
  proof cases
    case 1
    with body show ?thesis by (simp add: link_body_ok_def)
  next
    case 2
    then have "simple_id N" using simple_generated_name[of i] by simp
    with 2(2) obj p ej_obj_set[OF J] ej_get_other[OF J obj p] ej_get_set[OF J obj p(1)] ej_str[OF J]
    show ?thesis by (simp add: linkTags_def)
  qed
  then show "simple_id N" "linkTags J body' = linkTags J body" "IsObject J body'"
    "AsString J (GetByPath J body' ''name'') = Some N" by blast+
qed

lemma writeOutLink_does:
  assumes w: "w_ok E w" and ids: "simple_id A" "simple_id T" "simple_id B" "simple_id N"
    and tags: "\<forall>t\<in>set (linkTags (ej E) body). simple_id t"
  shows "does E (spec_link_write (ej E) A T B N body) w (writeOutLink E A T B N body w)"
proof -
  let ?w1 = "wSetValue E (OutLinkNameKey A N) [] w"
  let ?w2 = "wSetValue E (OutLinkIndexKey A T B ''name'' N) [] ?w1"
  let ?w3 = "wSetValue E (OutLinkBodyKey A T B) (ToBytes (ej E) body) ?w2"
  have 1: "does E (\<lambda>m. m(OutLinkNameKey A N \<mapsto> [])) w ?w1" using does_set[OF w] ids by simp
  have 2: "does E (\<lambda>m. m(OutLinkIndexKey A T B ''name'' N \<mapsto> [])) ?w1 ?w2" using does_set[OF does_ok[OF 1]] ids by simp
  have 3: "does E (\<lambda>m. m(OutLinkBodyKey A T B \<mapsto> ToBytes (ej E) body)) ?w2 ?w3" using does_set[OF does_ok[OF 2]] ids by simp
  have 4: "does E (\<lambda>m k. if k \<in> OutLinkIndexKey A T B ''tag'' ` set (linkTags (ej E) body) then Some [] else m k) ?w3
      (fold (\<lambda>t. wSetValue E (OutLinkIndexKey A T B ''tag'' t) []) (linkTags (ej E) body) ?w3)"
    by (rule sets_does[OF does_ok[OF 3]]) (use ids tags in auto)
  from does_trans[OF does_trans[OF does_trans[OF 1 2] 3] 4] show ?thesis
    by (simp add: writeOutLink_def Let_def does_def spec_link_write_def fun_eq_iff)
qed

lemma link_create_in:
  assumes E: "env_ok E" and w: "w_ok E w" and ctx: "hasReply ctx" "Payload ctx = queryPayload (ej E) q [(''in_link_type'', T)]"
    "compositeID (SelfID ctx) = B" "CallerID ctx = A" and ids: "simple_id A" "simple_id T" "simple_id B"
  shows "answers E (\<lambda>m. m(InLinkKey B A T \<mapsto> [])) w (LLAPILinkCreate E req ctx w)"
proof -
  note J = env_ok_ej[OF E]
  obtain qid w1 where g: "GetQueryID E ctx w = (qid, w1)" by fastforce
  have q: "does E id w w1" using does_query[OF w g] .
  from does_trans[OF q does_set[OF does_ok[OF q], of "InLinkKey B A T" "[]"]] ids
  have d: "does E (\<lambda>m. m(InLinkKey B A T \<mapsto> [])) w (wSetValue E (InLinkKey B A T) [] w1)" by (simp add: o_def)
  have "LLAPILinkCreate E req ctx w = (Some (statusResult (ej E) ''ok'' []), wSetValue E (InLinkKey B A T) [] w1)"
    using ctx ids queryPayload_in[OF J, of q T] by (simp add: LLAPILinkCreate_def g Let_def ReplyQueryID_reply)
  with d ok_result(2)[OF J] show ?thesis by (simp add: answers_def)
qed

lemma request_link_create_in:
  assumes E: "env_ok E" and w: "w_ok E w" and reg: "ll_registered E registered"
    and ids: "vertex_id A" "vertex_id B" "simple_id T"
    and free: "(link_create_name, inTarget ''===create_in_link'' A B) \<notin> set (running w)"
  shows "served E (\<lambda>m. m(InLinkKey B A T \<mapsto> [])) w
     (goLangLocalRequest E registered (Suc n) link_create_name A link_create_name (inTarget ''===create_in_link'' A B)
        (Some (queryPayload (ej E) q [(''in_link_type'', T)])) options w)"
proof (rule served_request)
  show "registered link_create_name = Some (LLAPILinkCreate E, NewJSONObject (ej E))" by (rule ll_functions(4)[OF reg])
  show "(link_create_name, inTarget ''===create_in_link'' A B) \<notin> set (running w)" by (rule free)
qed (rule link_create_in[OF E]; use w ids in \<open>auto simp: handlerContext_def inTarget_def\<close>)

text \<open>What a link operation must find idle: the handlers that it will ask.\<close>

definition link_free :: "string \<Rightarrow> string \<Rightarrow> (string \<times> string) list \<Rightarrow> bool" where
  "link_free A B busy \<longleftrightarrow>
     (link_delete_name, A) \<notin> set busy \<and>
     (link_delete_name, inTarget ''===delete_in_link'' A B) \<notin> set busy \<and>
     (link_create_name, inTarget ''===create_in_link'' A B) \<notin> set busy"

lemma link_create_out:
  assumes E: "env_ok E" and w: "w_ok E w" and reg: "ll_registered E registered"
    and ids: "vertex_id A" "vertex_id B" "simple_id T"
    and ctx: "hasReply ctx" "SelfTypename ctx = link_create_name" "SelfID ctx = A"
    and p: "\<not> PathExists (ej E) (Payload ctx) ''in_link_type''"
      "GetByPath (ej E) (Payload ctx) ''link_body'' = body" "link_body_ok (ej E) body"
      "AsString (ej E) (GetByPath (ej E) (Payload ctx) ''link_type'') = Some T"
      "AsString (ej E) (GetByPath (ej E) (Payload ctx) ''descendant_uuid'') = Some B"
    and free: "link_free A B (running w)"
  shows "answers E (spec_link_create (ej E) A T B body) w
     (LLAPILinkCreate E (goLangLocalRequest E registered (Suc (Suc n)) link_create_name A) ctx w)"
proof -
  let ?J = "ej E" and ?lbk = "OutLinkBodyKey A T B" and ?req = "goLangLocalRequest E registered (Suc (Suc n)) link_create_name A"
  let ?st = "getOpStackFromOptions ?J (Some (Options ctx))"
  note J = env_ok_ej[OF E]
  obtain qid w1 where g: "GetQueryID E ctx w = (qid, w1)" by fastforce
  have q: "does E id w w1" using does_query[OF w g] .
  note free' = free[unfolded link_free_def]
  obtain st w2 where del: "(case wGetValue E ?lbk w1 of
        (Inr _, w) \<Rightarrow> (case ?req link_delete_name A
              (Some (queryPayload ?J qid [(''descendant_uuid'', B), (''link_type'', T)])) (Some (Options ctx)) w of
           (res, w) \<Rightarrow> (mergeReplyStack ?J ?st res, w))
      | (Inl _, w) \<Rightarrow> (?st, w)) = (st, w2)" by fastforce
  have 2: "does E (spec_link_delete ?J A T B) w1 w2"
  proof (cases "w_view w1 ?lbk")
    case None
    with del world.get_absent[OF does_ok[OF q], of ?lbk] have "w2 = w1" by auto
    with None does_ok[OF q] show ?thesis by (simp add: does_def spec_link_delete_def)
  next
    case (Some v)
    have "served E (spec_link_delete ?J A T B) w1 (?req link_delete_name A
        (Some (queryPayload ?J qid [(''descendant_uuid'', B), (''link_type'', T)])) (Some (Options ctx)) w1)"
      using free' does_running[OF q] by (intro request_link_delete[OF E does_ok[OF q] reg ids]) auto
    with del world.get_Some[OF does_ok[OF q] Some] show ?thesis
      by (auto simp: served_def split: prod.splits)
  qed
  let ?m = "w_view w2"
  obtain w3 where name: "uniqueLinkName E A body w2 = (fst (spec_link_name ?J A body ?m), w3)"
    and 3: "does E (\<lambda>m. snd (spec_link_name ?J A body m)) w2 w3"
    using uniqueLinkName_does[OF does_ok[OF 2], of A body] ids by auto
  obtain N body' where N: "fst (spec_link_name ?J A body ?m) = (N, body')" by fastforce
  note ok = spec_link_name_ok[OF J p(3) N]
  define w4 where "w4 = writeOutLink E A T B N body' w3"
  have 4: "does E (spec_link_write ?J A T B N body') w3 w4"
    unfolding w4_def using writeOutLink_does[OF does_ok[OF 3]] ids ok p(3) by (simp add: link_body_ok_def)
  have run: "running w4 = running w"
    using does_running[OF 4] does_running[OF 3] does_running[OF 2] does_running[OF q] by simp
  obtain res w5 where req: "?req link_create_name (inTarget ''===create_in_link'' A B)
      (Some (queryPayload ?J qid [(''in_link_type'', T)])) None w4 = (res, w5)" by fastforce
  have 5: "does E (\<lambda>m. m(InLinkKey B A T \<mapsto> [])) w4 w5"
    using request_link_create_in[OF E does_ok[OF 4] reg ids, of "Suc n" qid None] free' run req
    by (auto simp: served_def)
  have "\<exists>r. LLAPILinkCreate E ?req ctx w = (Some r, w5) \<and> ok_reply ?J r"
    using ctx p ok_result(1)[OF J] req name N del
    by (simp add: LLAPILinkCreate_def g Let_def stringOrUnique_def link_body_ok_def ReplyQueryID_reply
        inTarget_def w4_def[symmetric] split: if_splits)
  moreover have "does E (spec_link_create ?J A T B body) w w5"
  proof -
    have "w_view w2 = spec_link_delete ?J A T B (w_view w)" using does_view[OF 2] does_view[OF q] by simp
    then have "w_view w5 = spec_link_create ?J A T B body (w_view w)"
      using does_view[OF 5] does_view[OF 4] does_view[OF 3] N
      by (cases "spec_link_name ?J A body ?m") (simp add: spec_link_create_def)
    with does_trans[OF does_trans[OF does_trans[OF does_trans[OF q 2] 3] 4] 5] show ?thesis by (simp add: does_def)
  qed
  ultimately show ?thesis by (auto simp: answers_def)
qed

end
