(* ===== verification/LLVertex.thy ===== *)
theory LLVertex
  imports LLSpec
begin

text \<open>
  Link updates and the vertex operations of the low-level graph API: the functions on the map that
  they promise and the proofs that the handlers, with all the requests they make, implement them.
\<close>

section \<open>Updating a link\<close>

definition spec_link_update ::
  "'j easyjson \<Rightarrow> string \<Rightarrow> string \<Rightarrow> string \<Rightarrow> string \<Rightarrow> 'j \<Rightarrow> 'j \<Rightarrow> (string \<Rightarrow> bytes option) \<Rightarrow> string \<Rightarrow> bytes option" where
  "spec_link_update J A T B mode old new m =
     (case spec_link_name J A (updatedBody J mode old new)
             (\<lambda>k. if k \<in> linkIndexKeys J A T B old then None else m k) of
        ((N, body), m') \<Rightarrow> spec_link_write J A T B N body m')"

lemma link_update_existing:
  assumes E: "env_ok E" and w: "w_ok E w"
    and ids: "vertex_id A" "vertex_id B" "simple_id T"
    and ctx: "hasReply ctx" "SelfID ctx = A"
    and p: "IsObject (ej E) (GetByPath (ej E) (Payload ctx) ''link_body'')"
      "GetByPath (ej E) (Payload ctx) ''link_body'' = new"
      "AsString (ej E) (GetByPath (ej E) (Payload ctx) ''link_type'') = Some T"
      "AsString (ej E) (GetByPath (ej E) (Payload ctx) ''descendant_uuid'') = Some B"
      "AsStringDefault (ej E) (GetByPath (ej E) (Payload ctx) ''mode'') ''merge'' = mode"
    and old: "w_view w (OutLinkBodyKey A T B) = Some v" "JSONFromBytes (ej E) v = Some old"
    and new: "link_body_ok (ej E) (updatedBody (ej E) mode old new)"
  shows "answers E (spec_link_update (ej E) A T B mode old new) w (LLAPILinkUpdate E req ctx w)"
proof -
  let ?J = "ej E" and ?lbk = "OutLinkBodyKey A T B" and ?body = "updatedBody (ej E) mode old new"
  note J = env_ok_ej[OF E]
  obtain qid w1 where g: "GetQueryID E ctx w = (qid, w1)" by fastforce
  have q: "does E id w w1" using does_query[OF w g] .
  have get: "wGetValueAsJSON E ?lbk w1 = (Inr old, w1)"
    using wGetValueAsJSON_cases[OF does_ok[OF q], of ?lbk] does_view[OF q] old by auto
  define w2 where "w2 = deleteOutLinkIndices E A T B old w1"
  have 2: "does E (\<lambda>m k. if k \<in> linkIndexKeys ?J A T B old then None else m k) w1 w2"
    unfolding w2_def by (rule deleteOutLinkIndices_does[OF does_ok[OF q]])
  obtain w3 where name: "uniqueLinkName E A ?body w2 = (fst (spec_link_name ?J A ?body (w_view w2)), w3)"
    and 3: "does E (\<lambda>m. snd (spec_link_name ?J A ?body m)) w2 w3"
    using uniqueLinkName_does[OF does_ok[OF 2], of A ?body] ids by auto
  obtain N body' where N: "fst (spec_link_name ?J A ?body (w_view w2)) = (N, body')" by fastforce
  note ok = spec_link_name_ok[OF J new N]
  define w4 where "w4 = writeOutLink E A T B N body' w3"
  have 4: "does E (spec_link_write ?J A T B N body') w3 w4"
    unfolding w4_def using writeOutLink_does[OF does_ok[OF 3]] ids ok new by (simp add: link_body_ok_def)
  have "\<exists>r. LLAPILinkUpdate E req ctx w = (Some r, w4) \<and> ok_reply ?J r"
    using ctx p ok_result(1)[OF J] name N
    by (simp add: LLAPILinkUpdate_def g Let_def get ReplyQueryID_reply w2_def[symmetric] w4_def[symmetric])
  moreover have v2: "w_view w2 = (\<lambda>k. if k \<in> linkIndexKeys ?J A T B old then None else w_view w k)"
    using does_view[OF 2] does_view[OF q] by (simp add: fun_eq_iff)
  have "w_view w4 = spec_link_update ?J A T B mode old new (w_view w)"
    using does_view[OF 4] does_view[OF 3] N
    by (cases "spec_link_name ?J A ?body (w_view w2)") (simp add: spec_link_update_def v2)
  with does_trans[OF does_trans[OF does_trans[OF q 2] 3] 4]
  have "does E (spec_link_update ?J A T B mode old new) w w4" by (simp add: does_def)
  ultimately show ?thesis by (auto simp: answers_def)
qed

section \<open>Deleting many links\<close>

type_synonym link = "string \<times> string \<times> string"

definition removes :: "'j easyjson \<Rightarrow> (string \<Rightarrow> bytes option) \<Rightarrow> link \<Rightarrow> string \<Rightarrow> bool" where
  "removes J m l k = (case l of (F, T, B) \<Rightarrow>
     (\<exists>v. m (OutLinkBodyKey F T B) = Some v \<and>
        (k = OutLinkBodyKey F T B \<or> k = InLinkKey B F T \<or>
         (\<exists>j. JSONFromBytes J v = Some j \<and> k \<in> linkIndexKeys J F T B j))))"

definition link_ok :: "link \<Rightarrow> bool" where
  "link_ok l \<longleftrightarrow> (case l of (F, T, B) \<Rightarrow> vertex_id F \<and> simple_id T \<and> vertex_id B)"

lemma spec_link_delete_removes:
  "spec_link_delete J F T B m = (\<lambda>k. if removes J m (F, T, B) k then None else m k)"
  by (auto simp: spec_link_delete_def removes_def fun_eq_iff split: option.splits)

text \<open>Only the body of a link has a body key.\<close>

lemma index_not_body:
  assumes "dot_free F" and "dot_free F'" and "k \<in> linkIndexKeys J F T B j"
  shows "k \<noteq> OutLinkBodyKey F' T' B'" and "k \<noteq> InLinkKey F' T' B'"
proof -
  have "hd (tl (tl (split_dot (F @ ''.out.name.'' @ s)))) = ''name'' \<and> hd (tl (split_dot (F @ ''.out.name.'' @ s))) = ''out''" for s
    using split_dot_append[of F "''out.name.'' @ s"] split_dot_append[of "''out.name''" s] assms(1)
    by (simp add: split_dot_free)
  moreover have "hd (tl (tl (split_dot (F @ ''.out.index.'' @ s)))) = ''index'' \<and> hd (tl (split_dot (F @ ''.out.index.'' @ s))) = ''out''" for s
    using split_dot_append[of F "''out.index.'' @ s"] split_dot_append[of "''out.index''" s] assms(1)
    by (simp add: split_dot_free)
  ultimately have k: "hd (tl (tl (split_dot k))) \<in> {''name'', ''index''} \<and> hd (tl (split_dot k)) = ''out''"
    using assms(3) by (auto simp: linkIndexKeys_def OutLinkNameKey_def OutLinkIndexKey_def split: option.splits)
  have "hd (tl (tl (split_dot (OutLinkBodyKey F' T' B')))) = ''body''"
    using split_dot_append[of F' "''out.body.'' @ T' @ CHR ''.'' # B'"] split_dot_append[of "''out.body''" "T' @ CHR ''.'' # B'"] assms(2)
    by (simp add: OutLinkBodyKey_def split_dot_free)
  with k show "k \<noteq> OutLinkBodyKey F' T' B'" by auto
  have "hd (tl (split_dot (InLinkKey F' T' B'))) = ''in''"
    using split_dot_append[of F' "''in.'' @ T' @ CHR ''.'' # B'"] split_dot_append[of "''in''" "T' @ CHR ''.'' # B'"] assms(2)
    by (simp add: InLinkKey_def split_dot_free)
  with k show "k \<noteq> InLinkKey F' T' B'" by auto
qed

lemma body_key_eq [simp]:
  "simple_id A \<Longrightarrow> simple_id T \<Longrightarrow> simple_id B \<Longrightarrow> simple_id A' \<Longrightarrow> simple_id T' \<Longrightarrow> simple_id B' \<Longrightarrow>
   OutLinkBodyKey A T B = OutLinkBodyKey A' T' B' \<longleftrightarrow> A = A' \<and> T = T' \<and> B = B'"
  by (subst key_eq_split) simp

lemma in_key_eq [simp]:
  "simple_id A \<Longrightarrow> simple_id T \<Longrightarrow> simple_id B \<Longrightarrow> simple_id A' \<Longrightarrow> simple_id T' \<Longrightarrow> simple_id B' \<Longrightarrow>
   InLinkKey B A T = InLinkKey B' A' T' \<longleftrightarrow> A = A' \<and> T = T' \<and> B = B'"
  by (subst key_eq_split) auto

lemma body_not_in [simp]:
  "simple_id A \<Longrightarrow> simple_id T \<Longrightarrow> simple_id B \<Longrightarrow> simple_id A' \<Longrightarrow> simple_id T' \<Longrightarrow> simple_id B' \<Longrightarrow>
   OutLinkBodyKey A T B \<noteq> InLinkKey B' A' T'"
  "simple_id A \<Longrightarrow> simple_id T \<Longrightarrow> simple_id B \<Longrightarrow> simple_id A' \<Longrightarrow> simple_id T' \<Longrightarrow> simple_id B' \<Longrightarrow>
   InLinkKey B' A' T' \<noteq> OutLinkBodyKey A T B"
  by (subst key_eq_split, simp)+

lemma removes_body:
  "link_ok (F, T, B) \<Longrightarrow> link_ok (F', T', B') \<Longrightarrow>
   removes J m (F, T, B) (OutLinkBodyKey F' T' B') \<longleftrightarrow> (F, T, B) = (F', T', B') \<and> m (OutLinkBodyKey F T B) \<noteq> None"
  using index_not_body(1)[of F F' _ J T B] by (auto simp: removes_def link_ok_def)

lemma removes_in:
  "link_ok (F, T, B) \<Longrightarrow> link_ok (F', T', B') \<Longrightarrow>
   removes J m (F, T, B) (InLinkKey B' F' T') \<longleftrightarrow> (F, T, B) = (F', T', B') \<and> m (OutLinkBodyKey F T B) \<noteq> None"
  using index_not_body(2)[of F B' _ J T B] by (auto simp: removes_def link_ok_def)

lemma removes_after:
  assumes "link_ok l" and "link_ok l'"
  shows "removes J (\<lambda>k. if removes J m l k then None else m k) l' k \<longleftrightarrow> l' \<noteq> l \<and> removes J m l' k"
proof -
  obtain F T B F' T' B' where l: "l = (F, T, B)" "l' = (F', T', B')" by (cases l; cases l')
  have "(if removes J m l (OutLinkBodyKey F' T' B') then None else m (OutLinkBodyKey F' T' B')) =
      (if l' = l then None else m (OutLinkBodyKey F' T' B'))"
    using removes_body[of F T B F' T' B' J m] assms l by auto
  then show ?thesis unfolding l(2) removes_def by (auto simp: l)
qed

text \<open>The order in which links are deleted does not matter.\<close>

lemma fold_link_delete:
  "\<forall>l\<in>set ls. link_ok l \<Longrightarrow> fold (\<lambda>(F, T, B). spec_link_delete J F T B) ls m =
     (\<lambda>k. if \<exists>l\<in>set ls. removes J m l k then None else m k)"
proof (induction ls arbitrary: m)
  case (Cons l ls)
  let ?m = "\<lambda>k. if removes J m l k then None else m k"
  have "(\<lambda>(F, T, B). spec_link_delete J F T B) l m = ?m" by (cases l) (simp add: spec_link_delete_removes)
  with Cons have "fold (\<lambda>(F, T, B). spec_link_delete J F T B) (l # ls) m =
      (\<lambda>k. if \<exists>l'\<in>set ls. removes J ?m l' k then None else ?m k)" by simp
  also have "\<dots> = (\<lambda>k. if \<exists>l'\<in>set (l # ls). removes J m l' k then None else m k)"
    using Cons.prems removes_after[of l _ J m] by (auto simp: fun_eq_iff)
  finally show ?case .
qed simp

lemma deleteLinks_does:
  assumes E: "env_ok E" and reg: "ll_registered E registered"
  shows "w_ok E w \<Longrightarrow> \<forall>l\<in>set ls. link_ok l \<Longrightarrow> \<forall>x. (link_delete_name, x) \<notin> set (running w) \<Longrightarrow>
    does E (fold (\<lambda>(F, T, B). spec_link_delete (ej E) F T B) ls) w
      (snd (deleteLinks E (goLangLocalRequest E registered (Suc (Suc n)) ct ci) ctx q ls (st, w)))"
proof (induction ls arbitrary: w st)
  case Nil
  then show ?case by (simp add: deleteLinks_def does_def)
next
  case (Cons l ls)
  obtain F T B where l: "l = (F, T, B)" by (cases l)
  obtain res w1 where r: "goLangLocalRequest E registered (Suc (Suc n)) ct ci link_delete_name F
      (Some (queryPayload (ej E) q [(''descendant_uuid'', B), (''link_type'', T)])) (Some (Options ctx)) w = (res, w1)"
    by fastforce
  have 1: "does E (spec_link_delete (ej E) F T B) w w1"
    using request_link_delete[OF E Cons.prems(1) reg, of F B T n ct ci q "Some (Options ctx)"] Cons.prems l r
    by (auto simp: served_def link_ok_def)
  have "does E (fold (\<lambda>(F, T, B). spec_link_delete (ej E) F T B) ls) w1
      (snd (deleteLinks E (goLangLocalRequest E registered (Suc (Suc n)) ct ci) ctx q ls (mergeReplyStack (ej E) st res, w1)))"
    using Cons.prems does_running[OF 1] by (intro Cons.IH[OF does_ok[OF 1]]) auto
  from does_trans[OF 1 this] show ?case
    by (simp add: deleteLinks_def l r o_def)
qed

end
