(* ===== verification/LLGraph.thy ===== *)
theory LLGraph
  imports LLVertex
begin

text \<open>
  The graph that the low-level API keeps in the store: the well-formedness of its keys, the agreement
  between the two records of a link (the body at its source, the in-link at its target), that every
  operation keeps both, and the vertex operations, which rest on them.
\<close>

lemma nested_pair: obtains a b c where "x = ((a, b), c)"
  by (cases x; cases "fst x") auto

section \<open>Well-formed graphs\<close>

definition graph_key :: "string \<Rightarrow> bool" where
  "graph_key k \<longleftrightarrow>
     (\<forall>A rest. split_dot k = A # ''out'' # ''body'' # rest \<longrightarrow> rest \<noteq> [] \<longrightarrow>
        (\<exists>T B. rest = [T, B] \<and> link_ok (A, T, B))) \<and>
     (\<forall>B rest. split_dot k = B # ''in'' # rest \<longrightarrow> rest \<noteq> [] \<longrightarrow>
        (\<exists>F T. rest = [F, T] \<and> link_ok (F, T, B))) \<and>
     (\<forall>A rest. split_dot k = A # ''out'' # ''index'' # rest \<longrightarrow> rest \<noteq> [] \<longrightarrow>
        (\<exists>T B i t. rest = [T, B, i, t] \<and> link_ok (A, T, B)))"

definition mirrored :: "(string \<Rightarrow> bytes option) \<Rightarrow> bool" where
  "mirrored m \<longleftrightarrow> (\<forall>F T B. link_ok (F, T, B) \<longrightarrow>
     (m (OutLinkBodyKey F T B) \<noteq> None) = (m (InLinkKey B F T) \<noteq> None))"

definition graph_ok :: "(string \<Rightarrow> bytes option) \<Rightarrow> bool" where
  "graph_ok m \<longleftrightarrow> (\<forall>k. m k \<noteq> None \<longrightarrow> graph_key k) \<and> mirrored m"

lemma graph_ok_empty: "graph_ok (\<lambda>_. None)"
  by (simp add: graph_ok_def mirrored_def)

lemma graph_keys [simp]:
  "link_ok (A, T, B) \<Longrightarrow> graph_key (OutLinkBodyKey A T B)"
  "link_ok (A, T, B) \<Longrightarrow> graph_key (InLinkKey B A T)"
  "simple_id A \<Longrightarrow> simple_id N \<Longrightarrow> graph_key (OutLinkNameKey A N)"
  "simple_id A \<Longrightarrow> graph_key (OutLinkNameGenKey A)"
  "simple_id A \<Longrightarrow> graph_key A"
  "link_ok (A, T, B) \<Longrightarrow> simple_id i \<Longrightarrow> simple_id t \<Longrightarrow> graph_key (OutLinkIndexKey A T B i t)"
  by (auto simp: graph_key_def link_ok_def)

lemma graph_okD:
  assumes "graph_ok m" and "m k \<noteq> None"
  shows "split_dot k = A # ''out'' # ''body'' # rest \<Longrightarrow> rest \<noteq> [] \<Longrightarrow>
      \<exists>T B. rest = [T, B] \<and> link_ok (A, T, B)"
    and "split_dot k = B # ''in'' # rest' \<Longrightarrow> rest' \<noteq> [] \<Longrightarrow> \<exists>F T. rest' = [F, T] \<and> link_ok (F, T, B)"
    and "split_dot k = A # ''out'' # ''index'' # rest \<Longrightarrow> rest \<noteq> [] \<Longrightarrow>
      \<exists>T B i t. rest = [T, B, i, t] \<and> link_ok (A, T, B)"
  using assms unfolding graph_ok_def graph_key_def by blast+

text \<open>An update that touches neither the body nor the in-link keys of links keeps the graph.\<close>

lemma graph_ok_frame:
  assumes "graph_ok m" and "\<And>k. m' k \<noteq> None \<Longrightarrow> m k = None \<Longrightarrow> graph_key k"
    and "\<And>F T B. link_ok (F, T, B) \<Longrightarrow> (m' (OutLinkBodyKey F T B) = None) = (m (OutLinkBodyKey F T B) = None) \<and>
      (m' (InLinkKey B F T) = None) = (m (InLinkKey B F T) = None)"
  shows "graph_ok m'"
  using assms unfolding graph_ok_def mirrored_def by metis

lemma keys_apart [simp]:
  assumes "link_ok (F, T, B)"
  shows "simple_id A \<Longrightarrow> simple_id N \<Longrightarrow> OutLinkBodyKey F T B \<noteq> OutLinkNameKey A N"
    and "simple_id A \<Longrightarrow> simple_id N \<Longrightarrow> InLinkKey B F T \<noteq> OutLinkNameKey A N"
    and "simple_id A \<Longrightarrow> OutLinkBodyKey F T B \<noteq> OutLinkNameGenKey A"
    and "simple_id A \<Longrightarrow> InLinkKey B F T \<noteq> OutLinkNameGenKey A"
    and "simple_id A \<Longrightarrow> OutLinkBodyKey F T B \<noteq> A" and "simple_id A \<Longrightarrow> InLinkKey B F T \<noteq> A"
    and "link_ok (A, T', B') \<Longrightarrow> simple_id i \<Longrightarrow> simple_id t \<Longrightarrow> OutLinkBodyKey F T B \<noteq> OutLinkIndexKey A T' B' i t"
    and "link_ok (A, T', B') \<Longrightarrow> simple_id i \<Longrightarrow> simple_id t \<Longrightarrow> InLinkKey B F T \<noteq> OutLinkIndexKey A T' B' i t"
  using assms by (subst key_eq_split; auto simp: link_ok_def)+

lemma body_in_apart [simp]:
  "link_ok (F, T, B) \<Longrightarrow> link_ok (F', T', B') \<Longrightarrow> OutLinkBodyKey F T B = OutLinkBodyKey F' T' B' \<longleftrightarrow> (F, T, B) = (F', T', B')"
  "link_ok (F, T, B) \<Longrightarrow> link_ok (F', T', B') \<Longrightarrow> InLinkKey B F T = InLinkKey B' F' T' \<longleftrightarrow> (F, T, B) = (F', T', B')"
  "link_ok (F, T, B) \<Longrightarrow> link_ok (F', T', B') \<Longrightarrow> OutLinkBodyKey F T B \<noteq> InLinkKey B' F' T'"
  "link_ok (F, T, B) \<Longrightarrow> link_ok (F', T', B') \<Longrightarrow> InLinkKey B F T \<noteq> OutLinkBodyKey F' T' B'"
  by (simp_all add: link_ok_def)

lemma not_index [simp]:
  assumes "dot_free A" and "link_ok (F, T', B')"
  shows "OutLinkBodyKey F T' B' \<notin> linkIndexKeys J A T B j" and "InLinkKey B' F T' \<notin> linkIndexKeys J A T B j"
proof -
  have "dot_free F" "dot_free B'" using assms(2) by (auto simp: link_ok_def)
  then show "OutLinkBodyKey F T' B' \<notin> linkIndexKeys J A T B j" "InLinkKey B' F T' \<notin> linkIndexKeys J A T B j"
    using index_not_body(1)[OF assms(1), of F _ J T B j T' B'] index_not_body(2)[OF assms(1), of B' _ J T B j F T']
    by blast+
qed

section \<open>The link operations keep the graph\<close>

lemma link_delete_graph:
  assumes "graph_ok m" and "link_ok (A, T, B)"
  shows "graph_ok (spec_link_delete J A T B m)"
proof -
  let ?m = "\<lambda>k. if removes J m (A, T, B) k then None else m k"
  have "(?m (OutLinkBodyKey F T' B') \<noteq> None) = (?m (InLinkKey B' F T') \<noteq> None)" if l: "link_ok (F, T', B')" for F T' B'
  proof -
    have "removes J m (A, T, B) (OutLinkBodyKey F T' B') = removes J m (A, T, B) (InLinkKey B' F T')"
      by (simp only: removes_body[OF assms(2) l, of J m] removes_in[OF assms(2) l, of J m])
    moreover have "(m (OutLinkBodyKey F T' B') \<noteq> None) = (m (InLinkKey B' F T') \<noteq> None)"
      using assms(1) l unfolding graph_ok_def mirrored_def by blast
    ultimately show ?thesis by simp
  qed
  then show ?thesis
    using assms(1) unfolding spec_link_delete_removes graph_ok_def mirrored_def by (auto split: if_splits)
qed

lemma link_name_graph:
  assumes "graph_ok m" and "simple_id A"
  shows "graph_ok (snd (spec_link_name J A body m))"
proof -
  have "graph_ok (m(OutLinkNameGenKey A \<mapsto> v))" for v
    by (rule graph_ok_frame[OF assms(1)]) (use assms(2) in \<open>auto split: if_splits\<close>)
  with assms(1) show ?thesis by (auto simp: spec_link_name_def Let_def)
qed

text \<open>Writing a link: the body is written, the in-link is not yet.\<close>

lemma link_write_view:
  assumes "link_ok (A, T, B)" and "simple_id N" and "\<forall>t\<in>set (linkTags J body). simple_id t"
    and "link_ok (F, T', B')"
  shows "spec_link_write J A T B N body m (OutLinkBodyKey F T' B') =
      (if (F, T', B') = (A, T, B) then Some (ToBytes J body) else m (OutLinkBodyKey F T' B'))"
    and "spec_link_write J A T B N body m (InLinkKey B' F T') = m (InLinkKey B' F T')"
proof -
  have "simple_id A" using assms(1) by (simp add: link_ok_def)
  then show "spec_link_write J A T B N body m (OutLinkBodyKey F T' B') =
      (if (F, T', B') = (A, T, B) then Some (ToBytes J body) else m (OutLinkBodyKey F T' B'))"
    and "spec_link_write J A T B N body m (InLinkKey B' F T') = m (InLinkKey B' F T')"
    using assms by (auto simp: spec_link_write_def)
qed

lemma link_write_keys:
  assumes "link_ok (A, T, B)" and "simple_id N" and "\<forall>t\<in>set (linkTags J body). simple_id t"
    and "spec_link_write J A T B N body m k \<noteq> None" and "m k = None"
  shows "graph_key k"
proof -
  have "simple_id A" using assms(1) by (simp add: link_ok_def)
  then show ?thesis using assms by (auto simp: spec_link_write_def split: if_splits)
qed

lemma link_create_graph:
  assumes J: "easyjson_ok J" and m: "graph_ok m" and l: "link_ok (A, T, B)" and b: "link_body_ok J body"
  shows "graph_ok (spec_link_create J A T B body m)"
proof -
  let ?m1 = "spec_link_delete J A T B m"
  have A: "simple_id A" using l by (simp add: link_ok_def)
  obtain N body' m2 where n: "spec_link_name J A body ?m1 = ((N, body'), m2)" by (rule nested_pair)
  then have N: "simple_id N" "\<forall>t\<in>set (linkTags J body'). simple_id t"
    using spec_link_name_ok[OF J b, of A ?m1 N body'] b by (simp_all add: link_body_ok_def)
  have m2: "graph_ok m2" using link_name_graph[OF link_delete_graph[OF m l, of J] A, of J body] n by simp
  let ?m3 = "spec_link_write J A T B N body' m2"
  have "graph_key k" if "(?m3(InLinkKey B A T \<mapsto> [])) k \<noteq> None" for k
    using that m2 link_write_keys[OF l N, of m2 k] l by (cases "m2 k") (auto simp: graph_ok_def split: if_splits)
  moreover have "mirrored (?m3(InLinkKey B A T \<mapsto> []))"
    using m2 l by (auto simp: mirrored_def graph_ok_def link_write_view[OF l N] split: if_splits)
  ultimately show ?thesis by (simp add: spec_link_create_def n graph_ok_def)
qed

lemma link_update_graph:
  assumes J: "easyjson_ok J" and m: "graph_ok m" and l: "link_ok (A, T, B)"
    and b: "link_body_ok J (updatedBody J mode old new)" and v: "m (OutLinkBodyKey A T B) \<noteq> None"
  shows "graph_ok (spec_link_update J A T B mode old new m)"
proof -
  let ?body = "updatedBody J mode old new"
  let ?m1 = "\<lambda>k. if k \<in> linkIndexKeys J A T B old then None else m k"
  have A: "simple_id A" "dot_free A" using l by (auto simp: link_ok_def)
  have m1: "graph_ok ?m1"
    by (rule graph_ok_frame[OF m]) (use A(2) in \<open>auto split: if_splits\<close>)
  obtain N body' m2 where n: "spec_link_name J A ?body ?m1 = ((N, body'), m2)" by (rule nested_pair)
  then have N: "simple_id N" "\<forall>t\<in>set (linkTags J body'). simple_id t"
    using spec_link_name_ok[OF J b, of A ?m1 N body'] b by (simp_all add: link_body_ok_def)
  have m2: "graph_ok m2" using link_name_graph[OF m1 A(1), of J ?body] n by simp
  have "?m1 (OutLinkBodyKey A T B) \<noteq> None"
    using v l A(2) by simp
  moreover have "m2 (OutLinkBodyKey A T B) = ?m1 (OutLinkBodyKey A T B)"
    using n A l by (auto simp: spec_link_name_def Let_def split: if_splits)
  ultimately have v2: "m2 (OutLinkBodyKey A T B) \<noteq> None" by simp
  have "graph_ok (spec_link_write J A T B N body' m2)"
    by (rule graph_ok_frame[OF m2])
      (use v2 link_write_keys[OF l N, of m2] in \<open>auto simp: link_write_view[OF l N] split: if_splits\<close>)
  then show ?thesis by (simp add: spec_link_update_def n)
qed

end
