(* ===== verification/LLVertexOps.thy ===== *)
theory LLVertexOps
  imports LLGraph
begin

text \<open>
  The vertex operations of the low-level graph API: what they promise on the map from keys to values,
  and the proof that the handlers keep the promise over a well-formed graph.
\<close>

section \<open>Specification\<close>

definition spec_vertex_delete ::
  "'j easyjson \<Rightarrow> string \<Rightarrow> (string \<Rightarrow> bytes option) \<Rightarrow> string \<Rightarrow> bytes option" where
  "spec_vertex_delete J A m =
     (\<lambda>k. if k = A \<or> k = OutLinkNameGenKey A \<or>
            (\<exists>F T B. link_ok (F, T, B) \<and> (F = A \<or> B = A) \<and> removes J m (F, T, B) k)
          then None else m k)"

definition spec_vertex_create ::
  "'j easyjson \<Rightarrow> string \<Rightarrow> 'j \<Rightarrow> (string \<Rightarrow> bytes option) \<Rightarrow> string \<Rightarrow> bytes option" where
  "spec_vertex_create J A body m =
     ((if m A = None then m else spec_vertex_delete J A m)(A \<mapsto> ToBytes J body))"

text \<open>The links of a vertex, as the handler finds them in the store.\<close>

definition out_links :: "(string \<Rightarrow> bytes option) \<Rightarrow> string \<Rightarrow> link set" where
  "out_links m A = {(A, T, B) |T B. link_ok (A, T, B) \<and> m (OutLinkBodyKey A T B) \<noteq> None}"

definition in_links :: "(string \<Rightarrow> bytes option) \<Rightarrow> string \<Rightarrow> link set" where
  "in_links m A = {(F, T, A) |F T. link_ok (F, T, A) \<and> m (InLinkKey A F T) \<noteq> None}"

lemma out_link_keys:
  assumes m: "graph_ok m" and A: "vertex_id A"
    and ks: "set ks = {k. m k \<noteq> None \<and> (\<exists>rest. rest \<noteq> [] \<and> split_dot k = split_dot (A @ ''.out.body'') @ rest)}"
  shows "set (map (outLinkOfKey A) ks) = out_links m A"
proof -
  have p: "split_dot (A @ ''.out.body'') = [A, ''out'', ''body'']"
    using split_dot_append[of A "''out.body''"] A by (simp add: split_dot_free)
  have key: "k = OutLinkBodyKey A T B" if "split_dot k = [A, ''out'', ''body'', T, B]" "link_ok (A, T, B)" for k T B
    using that by (simp add: key_eq_split[of k] link_ok_def)
  show ?thesis
  proof (rule set_eqI, rule iffI)
    fix l assume "l \<in> set (map (outLinkOfKey A) ks)"
    then obtain k rest where k: "l = outLinkOfKey A k" "m k \<noteq> None" "rest \<noteq> []" "split_dot k = A # ''out'' # ''body'' # rest"
      using ks p by auto
    then obtain T B where TB: "rest = [T, B]" "link_ok (A, T, B)" using graph_okD(1)[OF m] by blast
    with k key show "l \<in> out_links m A" by (auto simp: out_links_def outLinkOfKey_def)
  next
    fix l assume "l \<in> out_links m A"
    then obtain T B where l: "l = (A, T, B)" "link_ok (A, T, B)" "m (OutLinkBodyKey A T B) \<noteq> None"
      by (auto simp: out_links_def)
    then have "OutLinkBodyKey A T B \<in> set ks" "l = outLinkOfKey A (OutLinkBodyKey A T B)"
      using ks p by (auto simp: link_ok_def outLinkOfKey_def)
    then show "l \<in> set (map (outLinkOfKey A) ks)" by auto
  qed
qed

lemma in_link_keys:
  assumes m: "\<And>k. m k \<noteq> None \<Longrightarrow> graph_key k" and A: "vertex_id A"
    and ks: "set ks = {k. m k \<noteq> None \<and> (\<exists>rest. rest \<noteq> [] \<and> split_dot k = split_dot (A @ ''.in'') @ rest)}"
  shows "set (map (inLinkOfKey A) ks) = in_links m A"
proof -
  have p: "split_dot (A @ ''.in'') = [A, ''in'']"
    using split_dot_append[of A "''in''"] A by (simp add: split_dot_free)
  have key: "k = InLinkKey A F T" if "split_dot k = [A, ''in'', F, T]" "link_ok (F, T, A)" for k T F
    using that by (simp add: key_eq_split[of k] link_ok_def)
  show ?thesis
  proof (rule set_eqI, rule iffI)
    fix l assume "l \<in> set (map (inLinkOfKey A) ks)"
    then obtain k rest where k: "l = inLinkOfKey A k" "m k \<noteq> None" "rest \<noteq> []" "split_dot k = A # ''in'' # rest"
      using ks p by auto
    then obtain F T where TB: "rest = [F, T]" "link_ok (F, T, A)" using m[OF k(2)] unfolding graph_key_def by blast
    with k key show "l \<in> in_links m A" by (auto simp: in_links_def inLinkOfKey_def)
  next
    fix l assume "l \<in> in_links m A"
    then obtain F T where l: "l = (F, T, A)" "link_ok (F, T, A)" "m (InLinkKey A F T) \<noteq> None"
      by (auto simp: in_links_def)
    then have "InLinkKey A F T \<in> set ks" "l = inLinkOfKey A (InLinkKey A F T)"
      using ks p by (auto simp: link_ok_def inLinkOfKey_def)
    then show "l \<in> set (map (inLinkOfKey A) ks)" by auto
  qed
qed

lemma removes_after_many:
  assumes "\<forall>l\<in>L. link_ok l" and "link_ok l'"
  shows "removes J (\<lambda>k. if \<exists>l\<in>L. removes J m l k then None else m k) l' k \<longleftrightarrow> l' \<notin> L \<and> removes J m l' k"
proof -
  obtain F T B where l': "l' = (F, T, B)" by (cases l')
  have "(\<exists>l\<in>L. removes J m l (OutLinkBodyKey F T B)) \<longleftrightarrow> l' \<in> L \<and> m (OutLinkBodyKey F T B) \<noteq> None"
    using assms removes_body[of _ _ _ F T B J m] by (auto simp: l' intro!: bexI[of _ "(F, T, B)"])
  then show ?thesis unfolding removes_def l' by auto
qed

text \<open>The two passes of the handler remove what the specification says.\<close>

lemma two_passes:
  assumes m: "graph_ok m" and L1: "L1 = out_links m A"
    and m1: "m1 = (\<lambda>k. if \<exists>l\<in>L1. removes J m l k then None else m k)"
    and L2: "L2 = in_links m1 A"
  shows "(\<lambda>k. if \<exists>l\<in>L2. removes J m1 l k then None else m1 k) =
    (\<lambda>k. if \<exists>F T B. link_ok (F, T, B) \<and> (F = A \<or> B = A) \<and> removes J m (F, T, B) k then None else m k)"
proof -
  have ok: "\<forall>l\<in>L1. link_ok l" "\<forall>l\<in>L2. link_ok l" by (auto simp: L1 L2 out_links_def in_links_def)
  have gone: "m1 (InLinkKey A F T) \<noteq> None \<longleftrightarrow> (F, T, A) \<notin> L1 \<and> m (InLinkKey A F T) \<noteq> None"
    if "link_ok (F, T, A)" for F T
  proof -
    have "(\<exists>l\<in>L1. removes J m l (InLinkKey A F T)) \<longleftrightarrow> (F, T, A) \<in> L1 \<and> m (OutLinkBodyKey F T A) \<noteq> None"
      using ok(1) that removes_in[of _ _ _ F T A J m] by (auto intro!: bexI[of _ "(F, T, A)"])
    moreover have "(m (OutLinkBodyKey F T A) \<noteq> None) = (m (InLinkKey A F T) \<noteq> None)"
      using m that unfolding graph_ok_def mirrored_def by blast
    ultimately show ?thesis by (auto simp: m1)
  qed
  have "(\<exists>l\<in>L1. removes J m l k) \<or> (\<exists>l\<in>L2. removes J m1 l k) \<longleftrightarrow>
      (\<exists>F T B. link_ok (F, T, B) \<and> (F = A \<or> B = A) \<and> removes J m (F, T, B) k)" (is "?l \<longleftrightarrow> ?r") for k
  proof
    assume ?l
    moreover have "removes J m l k" if "l \<in> L2" "removes J m1 l k" for l
      using that(2) removes_after_many[OF ok(1) bspec[OF ok(2) that(1)], of J m k] by (simp add: m1)
    ultimately obtain l where l: "l \<in> L1 \<or> l \<in> L2" "removes J m l k" by blast
    obtain F T B where FTB: "l = (F, T, B)" by (cases l)
    have "link_ok (F, T, B)" using l(1) ok FTB by blast
    moreover have "F = A \<or> B = A"
      using l(1) unfolding FTB L1 L2 out_links_def in_links_def by blast
    ultimately show ?r using l(2) unfolding FTB by blast
  next
    assume ?r
    then obtain F T B where l: "link_ok (F, T, B)" "F = A \<or> B = A" "removes J m (F, T, B) k" by blast
    then have b: "m (OutLinkBodyKey F T B) \<noteq> None" by (auto simp: removes_def)
    show ?l
    proof (cases "F = A")
      case True
      with l b have "(F, T, B) \<in> L1" by (simp add: L1 out_links_def)
      with l show ?thesis by blast
    next
      case False
      with l have B: "B = A" by simp
      have "m (InLinkKey B F T) \<noteq> None" using m l(1) b unfolding graph_ok_def mirrored_def by blast
      moreover have "(F, T, A) \<notin> L1" using False by (auto simp: L1 out_links_def)
      ultimately have "(F, T, B) \<in> L2" using gone[of F T] l(1) B by (simp add: L2 in_links_def)
      moreover have "removes J m1 (F, T, B) k"
        using removes_after_many[OF ok(1) l(1), of J m k] l(3) \<open>(F, T, A) \<notin> L1\<close> B by (simp add: m1)
      ultimately show ?thesis by blast
    qed
  qed
  note eq = this
  have "(if \<exists>l\<in>L2. removes J m1 l k then None else m1 k) =
      (if (\<exists>l\<in>L1. removes J m l k) \<or> (\<exists>l\<in>L2. removes J m1 l k) then None else m k)" for k
    by (simp add: m1)
  then show ?thesis unfolding eq by simp
qed

section \<open>The handlers\<close>

lemma if_three: "(if a \<or> b \<or> c then x else y) = (if a then x else if b then x else if c then x else y)"
  by simp

lemma pattern_keys:
  assumes "w_ok E w"
  shows "\<exists>ks. wGetKeysByPattern E (p @ ''.>'') w = (ks, w) \<and>
     set ks = {k. w_view w k \<noteq> None \<and> (\<exists>rest. rest \<noteq> [] \<and> split_dot k = split_dot p @ rest)}"
  using world.keys_same[OF assms, of p] world.keys_below[OF assms, of p]
  by (cases "wGetKeysByPattern E (p @ ''.>'') w") auto

lemma delete_pass:
  assumes E: "env_ok E" and reg: "ll_registered E registered" and w: "w_ok E w"
    and ok: "\<forall>l\<in>set ls. link_ok l" and free: "\<forall>x. (link_delete_name, x) \<notin> set (running w)"
    and d: "deleteLinks E (goLangLocalRequest E registered (Suc (Suc n)) ct ci) ctx q ls (st, w) = (st', w')"
  shows "does E (\<lambda>m k. if \<exists>l\<in>set ls. removes (ej E) m l k then None else m k) w w'"
  using deleteLinks_does[OF E reg w ok free, of n ct ci ctx q st] d
  by (simp add: does_def fold_link_delete[OF ok])

lemma vertex_delete_handler:
  assumes E: "env_ok E" and w: "w_ok E w" and reg: "ll_registered E registered" and A: "vertex_id A"
    and ctx: "hasReply ctx" "SelfTypename ctx = ''functions.graph.api.vertex.delete''" "SelfID ctx = A"
    and graph: "graph_ok (w_view w)" and free: "\<forall>x. (link_delete_name, x) \<notin> set (running w)"
  shows "answers E (spec_vertex_delete (ej E) A) w
     (LLAPIVertexDelete E (goLangLocalRequest E registered (Suc (Suc n)) ct ci) ctx w)"
proof -
  let ?J = "ej E" and ?req = "goLangLocalRequest E registered (Suc (Suc n)) ct ci"
  let ?st = "getOpStackFromOptions ?J (Some (Options ctx))" and ?m = "w_view w"
  note J = env_ok_ej[OF E]
  obtain q w1 where g: "GetQueryID E ctx w = (q, w1)" by fastforce
  have 1: "does E id w w1" using does_query[OF w g] .
  then have v1: "w_view w1 = ?m" by (simp add: does_def)
  obtain ks1 where k1: "wGetKeysByPattern E (OutLinkBodyPattern A) w1 = (ks1, w1)"
      "set ks1 = {k. ?m k \<noteq> None \<and> (\<exists>rest. rest \<noteq> [] \<and> split_dot k = split_dot (A @ ''.out.body'') @ rest)}"
    using pattern_keys[OF does_ok[OF 1], of "A @ ''.out.body''"] v1 by (auto simp: OutLinkBodyPattern_def)
  let ?l1 = "map (outLinkOfKey A) ks1"
  have L1: "set ?l1 = out_links ?m A" by (rule out_link_keys[OF graph A k1(2)])
  obtain st1 w2 where d1: "deleteLinks E ?req ctx q ?l1 (?st, w1) = (st1, w2)" by fastforce
  have ok1: "\<forall>l\<in>set ?l1. link_ok l" unfolding L1 by (auto simp: out_links_def)
  have 2: "does E (\<lambda>m k. if \<exists>l\<in>set ?l1. removes ?J m l k then None else m k) w1 w2"
    by (rule delete_pass[OF E reg does_ok[OF 1] ok1 _ d1]) (use free does_running[OF 1] in simp)
  let ?m1 = "\<lambda>k. if \<exists>l\<in>out_links ?m A. removes ?J ?m l k then None else ?m k"
  have v2: "w_view w2 = ?m1" using does_view[OF 2] unfolding L1 v1 .
  obtain ks2 where k2: "wGetKeysByPattern E (InLinkPattern A) w2 = (ks2, w2)"
      "set ks2 = {k. ?m1 k \<noteq> None \<and> (\<exists>rest. rest \<noteq> [] \<and> split_dot k = split_dot (A @ ''.in'') @ rest)}"
    using pattern_keys[OF does_ok[OF 2], of "A @ ''.in''"] unfolding v2 by (auto simp: InLinkPattern_def)
  let ?l2 = "map (inLinkOfKey A) ks2"
  have L2: "set ?l2 = in_links ?m1 A"
    by (rule in_link_keys[OF _ A k2(2)]) (use graph in \<open>auto simp: graph_ok_def split: if_splits\<close>)
  obtain st2 w3 where d2: "deleteLinks E ?req ctx q ?l2 (st1, w2) = (st2, w3)" by fastforce
  have ok2: "\<forall>l\<in>set ?l2. link_ok l" unfolding L2 by (auto simp: in_links_def)
  have 3: "does E (\<lambda>m k. if \<exists>l\<in>set ?l2. removes ?J m l k then None else m k) w2 w3"
    by (rule delete_pass[OF E reg does_ok[OF 2] ok2 _ d2]) (use free does_running[OF 1] does_running[OF 2] in simp)
  have v3: "w_view w3 = (\<lambda>k. if \<exists>F T B. link_ok (F, T, B) \<and> (F = A \<or> B = A) \<and> removes ?J ?m (F, T, B) k
      then None else ?m k)"
    using does_view[OF 3] two_passes[OF graph refl refl refl, of A ?J] unfolding v2 L2 by simp
  let ?w4 = "wDeleteValue E (OutLinkNameGenKey A) w3"
  have 4: "does E (\<lambda>m. m(OutLinkNameGenKey A := None)) w3 ?w4" by (rule does_del[OF does_ok[OF 3]])
  obtain old where old: "(if st2 \<noteq> None then (case GetObjectContext E ctx ?w4 of (b, w) \<Rightarrow> (Some b, w)) else (None, ?w4)) = (old, ?w4)"
    using getContext_same[OF does_ok[OF 4], of A] ctx(3)
    by (cases "st2 = None"; cases "getContext E A ?w4") (auto simp: GetObjectContext_def)
  let ?w5 = "wDeleteValue E A ?w4"
  have 5: "does E (\<lambda>m. m(A := None)) ?w4 ?w5" by (rule does_del[OF does_ok[OF 4]])
  have "\<exists>r. LLAPIVertexDelete E ?req ctx w = (Some r, ?w5) \<and> ok_reply ?J r"
    using ctx(1,3) ok_result(1)[OF J] g k1(1) d1 k2(1) d2 old
    by (simp add: LLAPIVertexDelete_def Let_def ReplyQueryID_reply)
  moreover have "w_view ?w5 = spec_vertex_delete ?J A ?m"
    unfolding does_view[OF 5] does_view[OF 4] v3 spec_vertex_delete_def
    by (rule ext) (simp only: fun_upd_apply if_three)
  with does_trans[OF does_trans[OF does_trans[OF does_trans[OF 1 2] 3] 4] 5]
  have "does E (spec_vertex_delete ?J A) w ?w5" by (simp add: does_def)
  ultimately show ?thesis by (auto simp: answers_def)
qed

lemma request_vertex_delete:
  assumes E: "env_ok E" and w: "w_ok E w" and reg: "ll_registered E registered" and A: "vertex_id A"
    and graph: "graph_ok (w_view w)" and free: "\<forall>x. (link_delete_name, x) \<notin> set (running w)"
      "(''functions.graph.api.vertex.delete'', A) \<notin> set (running w)"
  shows "served E (spec_vertex_delete (ej E) A) w
     (goLangLocalRequest E registered (Suc (Suc (Suc n))) ct ci ''functions.graph.api.vertex.delete'' A payload options w)"
proof (rule served_request)
  show "registered ''functions.graph.api.vertex.delete'' = Some (LLAPIVertexDelete E, NewJSONObject (ej E))"
    by (rule ll_functions(3)[OF reg])
  show "(''functions.graph.api.vertex.delete'', A) \<notin> set (running w)" by (rule free)
qed (rule vertex_delete_handler[OF E]; use w reg A graph free in \<open>auto simp: handlerContext_def\<close>)

lemma vertex_create_handler:
  assumes E: "env_ok E" and w: "w_ok E w" and reg: "ll_registered E registered" and A: "vertex_id A"
    and ctx: "hasReply ctx" "SelfID ctx = A" "GetByPath (ej E) (Payload ctx) ''body'' = body" "IsObject (ej E) body"
    and graph: "graph_ok (w_view w)" and free: "\<forall>x. (link_delete_name, x) \<notin> set (running w)"
      "(''functions.graph.api.vertex.delete'', A) \<notin> set (running w)"
  shows "answers E (spec_vertex_create (ej E) A body) w
     (LLAPIVertexCreate E (goLangLocalRequest E registered (Suc (Suc (Suc n))) ct ci) ctx w)"
proof -
  let ?J = "ej E" and ?req = "goLangLocalRequest E registered (Suc (Suc (Suc n))) ct ci"
  let ?st = "getOpStackFromOptions ?J (Some (Options ctx))" and ?m = "w_view w"
  note J = env_ok_ej[OF E]
  obtain q w1 where g: "GetQueryID E ctx w = (q, w1)" by fastforce
  have 1: "does E id w w1" using does_query[OF w g] .
  obtain st w2 where del: "(case wGetValue E A w1 of
        (Inr _, w) \<Rightarrow> (case ?req ''functions.graph.api.vertex.delete'' A (Some (queryPayload ?J q []))
            (Some (Options ctx)) w of (res, w) \<Rightarrow> (mergeReplyStack ?J ?st res, w))
      | (Inl _, w) \<Rightarrow> (?st, w)) = (st, w2)" by fastforce
  have 2: "does E (\<lambda>m. if ?m A = None then m else spec_vertex_delete ?J A m) w1 w2"
  proof (cases "w_view w1 A")
    case None
    with del world.get_absent[OF does_ok[OF 1], of A] have "w2 = w1" by auto
    with None does_ok[OF 1] does_view[OF 1] show ?thesis by (simp add: does_def)
  next
    case (Some v)
    have "served E (spec_vertex_delete ?J A) w1 (?req ''functions.graph.api.vertex.delete'' A
        (Some (queryPayload ?J q [])) (Some (Options ctx)) w1)"
      using free does_running[OF 1] does_view[OF 1] graph by (intro request_vertex_delete[OF E does_ok[OF 1] reg A]) auto
    with del world.get_Some[OF does_ok[OF 1] Some] Some does_view[OF 1] show ?thesis
      by (auto simp: served_def split: prod.splits)
  qed
  let ?w3 = "wSetValue E A (ToBytes ?J body) w2"
  have 3: "does E (\<lambda>m. m(A \<mapsto> ToBytes ?J body)) w2 ?w3" using does_set[OF does_ok[OF 2], of A] A by simp
  have "\<exists>r. LLAPIVertexCreate E ?req ctx w = (Some r, ?w3) \<and> ok_reply ?J r"
    using ctx ok_result(1)[OF J] g del by (simp add: LLAPIVertexCreate_def Let_def ReplyQueryID_reply)
  moreover have "w_view ?w3 = spec_vertex_create ?J A body ?m"
    unfolding does_view[OF 3] does_view[OF 2] does_view[OF 1] spec_vertex_create_def by simp
  with does_trans[OF does_trans[OF 1 2] 3] have "does E (spec_vertex_create ?J A body) w ?w3" by (simp add: does_def)
  ultimately show ?thesis by (auto simp: answers_def)
qed

section \<open>Updating a vertex\<close>

definition spec_vertex_update ::
  "'j easyjson \<Rightarrow> string \<Rightarrow> string \<Rightarrow> 'j \<Rightarrow> (string \<Rightarrow> bytes option) \<Rightarrow> string \<Rightarrow> bytes option" where
  "spec_vertex_update J A mode body m =
     (let old = (case m A of None \<Rightarrow> NewJSONObject J
            | Some v \<Rightarrow> (case JSONFromBytes J v of None \<Rightarrow> NewJSONObject J | Some j \<Rightarrow> j))
      in m(A \<mapsto> ToBytes J (updatedBody J mode old body)))"

lemma getContext_view:
  assumes "w_ok E w"
  shows "getContext E A w = ((case w_view w A of None \<Rightarrow> NewJSONObject (ej E)
     | Some v \<Rightarrow> (case JSONFromBytes (ej E) v of None \<Rightarrow> NewJSONObject (ej E) | Some j \<Rightarrow> j)), w)"
  using wGetValueAsJSON_cases[OF assms, of A] by (auto simp: getContext_def split: option.splits)

lemma vertex_update_handler:
  assumes E: "env_ok E" and w: "w_ok E w" and A: "vertex_id A"
    and ctx: "hasReply ctx" "SelfID ctx = A" "GetByPath (ej E) (Payload ctx) ''body'' = body" "IsObject (ej E) body"
      "AsStringDefault (ej E) (GetByPath (ej E) (Payload ctx) ''mode'') ''merge'' = mode"
  shows "answers E (spec_vertex_update (ej E) A mode body) w (LLAPIVertexUpdate E req ctx w)"
proof -
  let ?J = "ej E"
  note J = env_ok_ej[OF E]
  obtain q w1 where g: "GetQueryID E ctx w = (q, w1)" by fastforce
  have 1: "does E id w w1" using does_query[OF w g] .
  obtain old where old: "getContext E A w1 = (old, w1)"
    "old = (case w_view w A of None \<Rightarrow> NewJSONObject ?J
       | Some v \<Rightarrow> (case JSONFromBytes ?J v of None \<Rightarrow> NewJSONObject ?J | Some j \<Rightarrow> j))"
    using getContext_view[OF does_ok[OF 1], of A] does_view[OF 1] by auto
  let ?w2 = "wSetValue E A (ToBytes ?J (updatedBody ?J mode old body)) w1"
  have 2: "does E (\<lambda>m. m(A \<mapsto> ToBytes ?J (updatedBody ?J mode old body))) w1 ?w2"
    using does_set[OF does_ok[OF 1], of A] A by simp
  have "\<exists>r. LLAPIVertexUpdate E req ctx w = (Some r, ?w2) \<and> ok_reply ?J r"
    using ctx ok_result(1)[OF J] g old(1)
    by (auto simp: LLAPIVertexUpdate_def Let_def ReplyQueryID_reply GetObjectContext_def SetObjectContext_def
        setContext_def updatedBody_def)
  moreover have "w_view ?w2 = spec_vertex_update ?J A mode body (w_view w)"
    using does_view[OF 2] does_view[OF 1] by (simp add: spec_vertex_update_def old(2))
  with does_trans[OF 1 2] have "does E (spec_vertex_update ?J A mode body) w ?w2" by (simp add: does_def)
  ultimately show ?thesis by (auto simp: answers_def)
qed

section \<open>The vertex operations keep the graph\<close>

lemma vertex_delete_graph:
  assumes m: "graph_ok m" and A: "vertex_id A"
  shows "graph_ok (spec_vertex_delete J A m)"
proof -
  let ?gone = "\<lambda>k. \<exists>F T B. link_ok (F, T, B) \<and> (F = A \<or> B = A) \<and> removes J m (F, T, B) k"
  have "mirrored (spec_vertex_delete J A m)"
    unfolding mirrored_def
  proof (intro allI impI)
    fix F T B assume l: "link_ok (F, T, B)"
    have "?gone (OutLinkBodyKey F T B) = (m (OutLinkBodyKey F T B) \<noteq> None \<and> (F = A \<or> B = A))"
      using removes_body[OF _ l, of _ _ _ J m] removes_body[OF l l, of J m] l by blast
    moreover have "?gone (InLinkKey B F T) = (m (OutLinkBodyKey F T B) \<noteq> None \<and> (F = A \<or> B = A))"
      using removes_in[OF _ l, of _ _ _ J m] removes_in[OF l l, of J m] l by blast
    moreover have "(m (OutLinkBodyKey F T B) \<noteq> None) = (m (InLinkKey B F T) \<noteq> None)"
      using m l unfolding graph_ok_def mirrored_def by blast
    ultimately show "(spec_vertex_delete J A m (OutLinkBodyKey F T B) \<noteq> None) = (spec_vertex_delete J A m (InLinkKey B F T) \<noteq> None)"
      using l A unfolding spec_vertex_delete_def by simp
  qed
  moreover have "\<forall>k. spec_vertex_delete J A m k \<noteq> None \<longrightarrow> graph_key k"
    using m unfolding graph_ok_def spec_vertex_delete_def by (auto split: if_splits)
  ultimately show ?thesis unfolding graph_ok_def by blast
qed

lemma vertex_set_graph:
  assumes "graph_ok m" and "vertex_id A"
  shows "graph_ok (m(A \<mapsto> v))"
  by (rule graph_ok_frame[OF assms(1)]) (use assms(2) in \<open>auto split: if_splits\<close>)

lemma vertex_graph:
  assumes "graph_ok m" and "vertex_id A"
  shows "graph_ok (spec_vertex_create J A body m)" and "graph_ok (spec_vertex_update J A mode body m)"
  using assms vertex_set_graph vertex_delete_graph[OF assms, of J]
  by (simp_all add: spec_vertex_create_def spec_vertex_update_def Let_def)

text \<open>What the deletion of a vertex leaves of the vertices and the links.\<close>

lemma removes_not_vertex: "link_ok l \<Longrightarrow> simple_id B \<Longrightarrow> \<not> removes J m l B"
proof
  assume l: "link_ok l" and B: "simple_id B" and r: "removes J m l B"
  obtain F T V where F: "l = (F, T, V)" by (cases l)
  have d: "CHR ''.'' \<notin> set B" using simple_dot_free[OF B] by (auto simp: dot_free_def)
  moreover have "CHR ''.'' \<in> set k" if "k \<in> linkIndexKeys J F T V j" for k j
    using that by (auto simp: linkIndexKeys_def OutLinkNameKey_def OutLinkIndexKey_def split: option.splits)
  moreover have "CHR ''.'' \<in> set (OutLinkBodyKey F T V)" "CHR ''.'' \<in> set (InLinkKey V F T)"
    by (simp_all add: OutLinkBodyKey_def InLinkKey_def)
  ultimately show False using r unfolding removes_def F by auto
qed

lemma spec_vertex_delete_view:
  assumes m: "graph_ok m" and A: "vertex_id A"
  shows "spec_vertex_delete J A m A = None"
    and "simple_id B \<Longrightarrow> B \<noteq> A \<Longrightarrow> spec_vertex_delete J A m B = m B"
    and "link_ok (F, T, V) \<Longrightarrow> spec_vertex_delete J A m (OutLinkBodyKey F T V) =
       (if F = A \<or> V = A then None else m (OutLinkBodyKey F T V))"
    and "link_ok (F, T, V) \<Longrightarrow> spec_vertex_delete J A m (InLinkKey V F T) =
       (if F = A \<or> V = A then None else m (InLinkKey V F T))"
proof -
  show "spec_vertex_delete J A m A = None" by (simp add: spec_vertex_delete_def)
  have "OutLinkNameGenKey A \<noteq> B" if "simple_id B" for B
    using that simple_dot_free[of B] by (auto simp: OutLinkNameGenKey_def dot_free_def)
  then show "spec_vertex_delete J A m B = m B" if "simple_id B" "B \<noteq> A"
    using that removes_not_vertex[of _ B J m] unfolding spec_vertex_delete_def by metis
  show "spec_vertex_delete J A m (OutLinkBodyKey F T V) = (if F = A \<or> V = A then None else m (OutLinkBodyKey F T V))"
    if l: "link_ok (F, T, V)"
    using l A removes_body[OF _ l, of _ _ _ J m] removes_body[OF l l, of J m] unfolding spec_vertex_delete_def
    by (cases "m (OutLinkBodyKey F T V)") (auto split: if_splits)
  have "(m (OutLinkBodyKey F T V) \<noteq> None) = (m (InLinkKey V F T) \<noteq> None)" if "link_ok (F, T, V)"
    using m that unfolding graph_ok_def mirrored_def by blast
  then show "spec_vertex_delete J A m (InLinkKey V F T) = (if F = A \<or> V = A then None else m (InLinkKey V F T))"
    if l: "link_ok (F, T, V)"
    using l A removes_in[OF _ l, of _ _ _ J m] removes_in[OF l l, of J m] unfolding spec_vertex_delete_def
    by (cases "m (InLinkKey V F T)") (auto split: if_splits)
qed

end
