(* ===== verification/LLIndices.thy ===== *)
theory LLIndices
  imports LLVertexOps
begin

text \<open>
  The index keys of the links: a link has an index key for its name and one for each of its tags, as
  the body that is stored for it names them, and no others; a link that is not there has none. Every
  operation of the low-level API keeps this.
\<close>

section \<open>The index keys of a body\<close>

definition has_index :: "'j easyjson \<Rightarrow> bytes option \<Rightarrow> string \<Rightarrow> string \<Rightarrow> bool" where
  "has_index J v i t \<longleftrightarrow> (\<exists>b j. v = Some b \<and> JSONFromBytes J b = Some j \<and>
     (i = ''name'' \<and> AsString J (GetByPath J j ''name'') = Some t \<or> i = ''tag'' \<and> t \<in> set (linkTags J j)))"

definition indexed :: "'j easyjson \<Rightarrow> (string \<Rightarrow> bytes option) \<Rightarrow> bool" where
  "indexed J m \<longleftrightarrow> (\<forall>F T B i t. link_ok (F, T, B) \<longrightarrow> simple_id i \<longrightarrow> simple_id t \<longrightarrow>
     (m (OutLinkIndexKey F T B i t) \<noteq> None \<longleftrightarrow> has_index J (m (OutLinkBodyKey F T B)) i t))"

lemma has_index_None [simp]: "\<not> has_index J None i t"
  by (simp add: has_index_def)

lemma indexed_empty: "indexed J (\<lambda>_. None)"
  by (simp add: indexed_def)

lemma split_index_any:
  "link_ok (A, T, B) \<Longrightarrow> dot_free i \<Longrightarrow>
   split_dot (OutLinkIndexKey A T B i t) = [A, ''out'', ''index'', T, B, i] @ split_dot t"
  using split_dot_append[of A "''out.index.'' @ T @ CHR ''.'' # B @ CHR ''.'' # i @ CHR ''.'' # t"]
    split_dot_append[of "''out.index''" "T @ CHR ''.'' # B @ CHR ''.'' # i @ CHR ''.'' # t"]
    split_dot_append[of T "B @ CHR ''.'' # i @ CHR ''.'' # t"] split_dot_append[of B "i @ CHR ''.'' # t"]
    split_dot_append[of i t]
  by (simp add: OutLinkIndexKey_def split_dot_free link_ok_def)

lemma index_key_eq [simp]:
  "link_ok (A, T, B) \<Longrightarrow> link_ok (A', T', B') \<Longrightarrow> dot_free i \<Longrightarrow> dot_free i' \<Longrightarrow>
   OutLinkIndexKey A T B i t = OutLinkIndexKey A' T' B' i' t' \<longleftrightarrow> (A, T, B, i, t) = (A', T', B', i', t')"
  unfolding key_eq_split[of "OutLinkIndexKey A T B i t"]
  by (simp only: split_index_any) auto

lemma index_key_not_name [simp]:
  assumes "link_ok (A, T, B)" and "dot_free i" and "simple_id A'"
  shows "OutLinkIndexKey A T B i t \<noteq> OutLinkNameKey A' N"
proof -
  have "split_dot (OutLinkNameKey A' N) = [A', ''out'', ''name''] @ split_dot N"
    using split_dot_append[of A' "''out.name.'' @ N"] split_dot_append[of "''out.name''" N] assms(3)
    by (simp add: OutLinkNameKey_def split_dot_free)
  then show ?thesis using assms by (subst key_eq_split) (simp add: split_index_any)
qed

lemma index_key_apart [simp]:
  assumes "link_ok (A, T, B)" and "simple_id i"
  shows "link_ok (F, T', B') \<Longrightarrow> OutLinkIndexKey A T B i t \<noteq> OutLinkBodyKey F T' B'"
    and "link_ok (F, T', B') \<Longrightarrow> OutLinkIndexKey A T B i t \<noteq> InLinkKey B' F T'"
    and "simple_id F \<Longrightarrow> OutLinkIndexKey A T B i t \<noteq> OutLinkNameGenKey F"
    and "simple_id F \<Longrightarrow> OutLinkIndexKey A T B i t \<noteq> F"
  using assms by (subst key_eq_split; auto simp: split_index_any link_ok_def)+

lemma index_of_link:
  assumes "link_ok (A, T, B)" and "link_ok (F, T', B')" and "simple_id i"
  shows "OutLinkIndexKey F T' B' i t \<in> linkIndexKeys J A T B j \<longleftrightarrow> (F, T', B') = (A, T, B) \<and>
     (i = ''name'' \<and> AsString J (GetByPath J j ''name'') = Some t \<or> i = ''tag'' \<and> t \<in> set (linkTags J j))"
proof -
  have A: "simple_id A" using assms(1) by (simp add: link_ok_def)
  have d: "dot_free i" "dot_free ''name''" "dot_free ''tag''" using assms(3) by simp_all
  show ?thesis
    unfolding linkIndexKeys_def
    by (auto simp: index_key_eq[OF assms(2,1) d(1,2)] index_key_eq[OF assms(2,1) d(1,3)]
        index_key_not_name[OF assms(2) d(1) A] split: option.splits)
qed

lemma removes_index:
  "link_ok (A, T, B) \<Longrightarrow> link_ok (F, T', B') \<Longrightarrow> simple_id i \<Longrightarrow>
   removes J m (A, T, B) (OutLinkIndexKey F T' B' i t) \<longleftrightarrow>
     (F, T', B') = (A, T, B) \<and> has_index J (m (OutLinkBodyKey A T B)) i t"
  by (auto simp: removes_def has_index_def index_of_link)

section \<open>The operations keep the indices\<close>

text \<open>An update that touches neither the bodies nor the index keys.\<close>

lemma indexed_frame:
  assumes "indexed J m"
    and "\<And>F T B. link_ok (F, T, B) \<Longrightarrow> m' (OutLinkBodyKey F T B) = m (OutLinkBodyKey F T B)"
    and "\<And>F T B i t. link_ok (F, T, B) \<Longrightarrow> simple_id i \<Longrightarrow> simple_id t \<Longrightarrow>
      m' (OutLinkIndexKey F T B i t) = m (OutLinkIndexKey F T B i t)"
  shows "indexed J m'"
  using assms by (simp add: indexed_def)

lemma indexedD:
  "indexed J m \<Longrightarrow> link_ok (F, T, B) \<Longrightarrow> simple_id i \<Longrightarrow> simple_id t \<Longrightarrow>
   (m (OutLinkIndexKey F T B i t) = None) = (\<not> has_index J (m (OutLinkBodyKey F T B)) i t)"
  unfolding indexed_def by blast

text \<open>The links other than one are indexed, and that one has no index keys.\<close>

definition indexed_off :: "'j easyjson \<Rightarrow> link \<Rightarrow> (string \<Rightarrow> bytes option) \<Rightarrow> bool" where
  "indexed_off J l m \<longleftrightarrow> (\<forall>F T B i t. link_ok (F, T, B) \<longrightarrow> simple_id i \<longrightarrow> simple_id t \<longrightarrow>
     (m (OutLinkIndexKey F T B i t) \<noteq> None \<longleftrightarrow> (F, T, B) \<noteq> l \<and> has_index J (m (OutLinkBodyKey F T B)) i t))"

lemma link_delete_indexed:
  assumes "indexed J m" and "link_ok (A, T, B)"
  shows "indexed J (spec_link_delete J A T B m)" and "indexed_off J (A, T, B) (spec_link_delete J A T B m)"
proof -
  let ?m = "\<lambda>k. if removes J m (A, T, B) k then None else m k"
  have i: "?m (OutLinkIndexKey F T' B' i t) \<noteq> None \<longleftrightarrow>
      (F, T', B') \<noteq> (A, T, B) \<and> has_index J (m (OutLinkBodyKey F T' B')) i t"
    if "link_ok (F, T', B')" "simple_id i" "simple_id t" for F T' B' i t
    using indexedD[OF assms(1) that] removes_index[OF assms(2) that(1,2), of J m t] by auto
  have b: "?m (OutLinkBodyKey F T' B') = (if (F, T', B') = (A, T, B) then None else m (OutLinkBodyKey F T' B'))"
    if "link_ok (F, T', B')" for F T' B'
    using removes_body[OF assms(2) that, of J m] by auto
  show "indexed J (spec_link_delete J A T B m)"
    unfolding spec_link_delete_removes indexed_def by (intro allI impI) (simp only: i b, simp)
  show "indexed_off J (A, T, B) (spec_link_delete J A T B m)"
    unfolding spec_link_delete_removes indexed_off_def by (intro allI impI) (simp only: i b, simp)
qed

lemma link_name_indexed:
  assumes "simple_id A" and "indexed_off J l m"
  shows "indexed_off J l (snd (spec_link_name J A body m))"
proof -
  have "indexed_off J l (m(OutLinkNameGenKey A \<mapsto> v))" for v
    using assms unfolding indexed_off_def by simp
  with assms(2) show ?thesis by (auto simp: spec_link_name_def Let_def)
qed

lemma link_write_indexed:
  assumes J: "easyjson_ok J" and l: "link_ok (A, T, B)" and N: "simple_id N" "\<forall>t\<in>set (linkTags J body). simple_id t"
    and name: "AsString J (GetByPath J body ''name'') = Some N" and m: "indexed_off J (A, T, B) m"
  shows "indexed J (spec_link_write J A T B N body m)"
proof -
  have A: "simple_id A" using l by (simp add: link_ok_def)
  have "spec_link_write J A T B N body m (OutLinkIndexKey F T' B' i t) \<noteq> None \<longleftrightarrow>
      has_index J (spec_link_write J A T B N body m (OutLinkBodyKey F T' B')) i t"
    if k: "link_ok (F, T', B')" "simple_id i" "simple_id t" for F T' B' i t
  proof -
    have d: "dot_free i" "dot_free ''name''" "dot_free ''tag''" using k(2) by simp_all
    have new: "has_index J (Some (ToBytes J body)) i t \<longleftrightarrow> i = ''name'' \<and> t = N \<or> i = ''tag'' \<and> t \<in> set (linkTags J body)"
      using name by (auto simp: has_index_def ej_bytes[OF J])
    have old: "m (OutLinkIndexKey F T' B' i t) \<noteq> None \<longleftrightarrow>
        (F, T', B') \<noteq> (A, T, B) \<and> has_index J (m (OutLinkBodyKey F T' B')) i t"
      using m k unfolding indexed_off_def by blast
    have v: "spec_link_write J A T B N body m (OutLinkIndexKey F T' B' i t) =
        (if (F, T', B') = (A, T, B) \<and> (i = ''name'' \<and> t = N \<or> i = ''tag'' \<and> t \<in> set (linkTags J body))
         then Some [] else m (OutLinkIndexKey F T' B' i t))"
      using k l A by (auto simp: spec_link_write_def index_key_eq[OF k(1) l d(1,2)] index_key_eq[OF k(1) l d(1,3)]
          index_key_not_name[OF k(1) d(1) A])
    show ?thesis
      unfolding v link_write_view(1)[OF l N k(1)] using old new by auto
  qed
  then show ?thesis unfolding indexed_def by blast
qed

lemma link_create_indexed:
  assumes J: "easyjson_ok J" and m: "indexed J m" and l: "link_ok (A, T, B)" and b: "link_body_ok J body"
  shows "indexed J (spec_link_create J A T B body m)"
proof -
  let ?m1 = "spec_link_delete J A T B m"
  have A: "simple_id A" using l by (simp add: link_ok_def)
  obtain N body' m2 where n: "spec_link_name J A body ?m1 = ((N, body'), m2)" by (rule nested_pair)
  note ok = spec_link_name_ok[OF J b, of A ?m1 N body']
  have tags: "\<forall>t\<in>set (linkTags J body'). simple_id t" using ok(2) n b by (simp add: link_body_ok_def)
  have "indexed_off J (A, T, B) m2" using link_name_indexed[OF A link_delete_indexed(2)[OF m l], of body] n by simp
  then have "indexed J (spec_link_write J A T B N body' m2)"
    using ok(1,4) n by (intro link_write_indexed[OF J l _ tags]) simp_all
  then have "indexed J ((spec_link_write J A T B N body' m2)(InLinkKey B A T \<mapsto> []))"
    by (rule indexed_frame) (use l in simp_all)
  then show ?thesis by (simp add: spec_link_create_def n)
qed

lemma link_update_indexed:
  assumes J: "easyjson_ok J" and m: "indexed J m" and l: "link_ok (A, T, B)"
    and b: "link_body_ok J (updatedBody J mode old new)"
    and v: "m (OutLinkBodyKey A T B) = Some v" "JSONFromBytes J v = Some old"
  shows "indexed J (spec_link_update J A T B mode old new m)"
proof -
  let ?body = "updatedBody J mode old new"
  let ?m1 = "\<lambda>k. if k \<in> linkIndexKeys J A T B old then None else m k"
  have A: "simple_id A" "dot_free A" using l by (auto simp: link_ok_def)
  have "indexed_off J (A, T, B) ?m1"
    unfolding indexed_off_def
  proof (intro allI impI)
    fix F T' B' i t assume k: "link_ok (F, T', B')" "simple_id i" "simple_id t"
    have "(OutLinkIndexKey F T' B' i t \<in> linkIndexKeys J A T B old) =
        ((F, T', B') = (A, T, B) \<and> has_index J (m (OutLinkBodyKey A T B)) i t)"
      using index_of_link[OF l k(1,2), of t J old] v by (simp add: has_index_def)
    then show "(?m1 (OutLinkIndexKey F T' B' i t) \<noteq> None) =
        ((F, T', B') \<noteq> (A, T, B) \<and> has_index J (?m1 (OutLinkBodyKey F T' B')) i t)"
      using indexedD[OF m k] not_index(1)[OF A(2) k(1), of J T B old] by auto
  qed
  from link_name_indexed[OF A(1) this, of ?body]
  have m2: "indexed_off J (A, T, B) (snd (spec_link_name J A ?body ?m1))" .
  obtain N body' m2 where n: "spec_link_name J A ?body ?m1 = ((N, body'), m2)" by (rule nested_pair)
  note ok = spec_link_name_ok[OF J b, of A ?m1 N body']
  have tags: "\<forall>t\<in>set (linkTags J body'). simple_id t" using ok(2) n b by (simp add: link_body_ok_def)
  have "indexed J (spec_link_write J A T B N body' m2)"
    using ok(1,4) n m2 by (intro link_write_indexed[OF J l _ tags]) simp_all
  then show ?thesis by (simp add: spec_link_update_def n)
qed

lemma vertex_delete_indexed:
  assumes m: "indexed J m" and A: "vertex_id A"
  shows "indexed J (spec_vertex_delete J A m)"
  unfolding indexed_def
proof (intro allI impI)
  fix F T B i t assume k: "link_ok (F, T, B)" "simple_id i" "simple_id t"
  let ?gone = "\<lambda>k. \<exists>F T B. link_ok (F, T, B) \<and> (F = A \<or> B = A) \<and> removes J m (F, T, B) k"
  have "?gone (OutLinkIndexKey F T B i t) = ((F = A \<or> B = A) \<and> has_index J (m (OutLinkBodyKey F T B)) i t)"
    using removes_index[OF _ k(1,2), of _ _ _ J m t] k(1) by blast
  then have "spec_vertex_delete J A m (OutLinkIndexKey F T B i t) =
      (if (F = A \<or> B = A) \<and> has_index J (m (OutLinkBodyKey F T B)) i t then None else m (OutLinkIndexKey F T B i t))"
    using k A unfolding spec_vertex_delete_def by simp
  moreover have "?gone (OutLinkBodyKey F T B) = ((F = A \<or> B = A) \<and> m (OutLinkBodyKey F T B) \<noteq> None)"
    using removes_body[OF _ k(1), of _ _ _ J m] k(1) by blast
  then have "spec_vertex_delete J A m (OutLinkBodyKey F T B) = (if F = A \<or> B = A then None else m (OutLinkBodyKey F T B))"
    using k A unfolding spec_vertex_delete_def by auto
  ultimately show "(spec_vertex_delete J A m (OutLinkIndexKey F T B i t) \<noteq> None) =
      has_index J (spec_vertex_delete J A m (OutLinkBodyKey F T B)) i t"
    using indexedD[OF m k] by auto
qed

lemma vertex_set_indexed: "indexed J m \<Longrightarrow> vertex_id A \<Longrightarrow> indexed J (m(A \<mapsto> v))"
  by (erule indexed_frame) simp_all

lemma vertex_indexed:
  assumes "indexed J m" and "vertex_id A"
  shows "indexed J (spec_vertex_create J A body m)" and "indexed J (spec_vertex_update J A mode body m)"
  unfolding spec_vertex_create_def spec_vertex_update_def Let_def
  by (rule vertex_set_indexed, use assms vertex_delete_indexed[OF assms] in simp_all)+

end
