(* ===== verification/LLApi.thy ===== *)
theory LLApi
  imports LLIndices Transitions
begin

text \<open>
  The low-level graph API as its callers see it: requests to an idle runtime in which the functions
  are registered. Each request does what its specification says, the requests keep the graph
  well-formed, and requests with missing fields are refused.
\<close>

section \<open>Requests\<close>

definition link_payload :: "'j easyjson \<Rightarrow> 'j \<Rightarrow> string \<Rightarrow> string \<Rightarrow> bool" where
  "link_payload J p T B \<longleftrightarrow> \<not> PathExists J p ''in_link_type'' \<and>
     AsString J (GetByPath J p ''link_type'') = Some T \<and> AsString J (GetByPath J p ''descendant_uuid'') = Some B"

text \<open>A request from a function, and one from outside.\<close>

abbreviation ll_request_from ::
  "('j, 'kv) env \<Rightarrow> (string \<Rightarrow> (('j, 'kv) handler \<times> 'j) option) \<Rightarrow> nat \<Rightarrow> string \<Rightarrow> string \<Rightarrow> string \<Rightarrow> string \<Rightarrow> 'j \<Rightarrow>
     'j option \<Rightarrow> ('j, 'kv) world \<Rightarrow> (string + 'j) \<times> ('j, 'kv) world" where
  "ll_request_from E registered n ct ci typename ident p options w \<equiv>
     goLangLocalRequest E registered (n + 5) ct ci typename ident (Some p) options w"

abbreviation ll_request ::
  "('j, 'kv) env \<Rightarrow> (string \<Rightarrow> (('j, 'kv) handler \<times> 'j) option) \<Rightarrow> nat \<Rightarrow> string \<Rightarrow> string \<Rightarrow> 'j \<Rightarrow> 'j option \<Rightarrow>
     ('j, 'kv) world \<Rightarrow> (string + 'j) \<times> ('j, 'kv) world" where
  "ll_request E registered n typename ident p options w \<equiv>
     ll_request_from E registered n ''ingress'' ''go'' typename ident p options w"

text \<open>No function of the low-level API is in the call chain.\<close>

definition ll_idle :: "(string \<times> string) list \<Rightarrow> bool" where
  "ll_idle busy \<longleftrightarrow> (\<forall>n\<in>set (llAPIVertexCUDNames @ llAPILinkCUDNames). \<forall>x. (n, x) \<notin> set busy)"

lemma ll_idle_iff:
  "ll_idle busy \<longleftrightarrow>
     (\<forall>x. (''functions.graph.api.vertex.create'', x) \<notin> set busy) \<and> (\<forall>x. (''functions.graph.api.vertex.update'', x) \<notin> set busy) \<and>
     (\<forall>x. (''functions.graph.api.vertex.delete'', x) \<notin> set busy) \<and> (\<forall>x. (link_create_name, x) \<notin> set busy) \<and>
     (\<forall>x. (''functions.graph.api.link.update'', x) \<notin> set busy) \<and> (\<forall>x. (link_delete_name, x) \<notin> set busy)"
  by (simp add: ll_idle_def llAPIVertexCUDNames_def llAPILinkCUDNames_def)

lemma ll_idle_Nil [simp]: "ll_idle []"
  by (simp add: ll_idle_def)

lemma fuel_five: "n + 5 = Suc (Suc (Suc (Suc (Suc n))))"
  by simp

lemma serve_link_delete:
  assumes E: "env_ok E" and reg: "ll_registered E registered" and w: "w_ok E w" "ll_idle (running w)"
    and l: "link_ok (A, T, B)" and p: "link_payload (ej E) p T B"
  shows "served E (spec_link_delete (ej E) A T B) w (ll_request_from E registered n ct ci link_delete_name A p options w)"
  unfolding fuel_five
proof (rule served_request)
  show "registered link_delete_name = Some (LLAPILinkDelete E, NewJSONObject (ej E))" by (rule ll_functions(6)[OF reg])
  show "(link_delete_name, A) \<notin> set (running w)" using w by (simp add: ll_idle_iff)
qed (rule link_delete_out[OF E _ reg]; use w[unfolded ll_idle_iff] l p in \<open>auto simp: handlerContext_def link_ok_def link_payload_def\<close>)

lemma serve_link_create:
  assumes E: "env_ok E" and reg: "ll_registered E registered" and w: "w_ok E w" "ll_idle (running w)"
    and l: "link_ok (A, T, B)" and p: "link_payload (ej E) p T B"
    and body: "GetByPath (ej E) p ''link_body'' = body" "link_body_ok (ej E) body"
  shows "served E (spec_link_create (ej E) A T B body) w (ll_request_from E registered n ct ci link_create_name A p options w)"
  unfolding fuel_five
proof (rule served_request)
  show "registered link_create_name = Some (LLAPILinkCreate E, NewJSONObject (ej E))" by (rule ll_functions(4)[OF reg])
  show "(link_create_name, A) \<notin> set (running w)" using w by (simp add: ll_idle_iff)
qed (rule link_create_out[OF E _ reg];
     use w[unfolded ll_idle_iff] l p body in \<open>auto simp: handlerContext_def link_ok_def link_payload_def link_free_def inTarget_def\<close>)

text \<open>An update of a link that is not there creates it.\<close>

lemma createPayload:
  fixes J :: "'j easyjson" and q B T :: string and body :: 'j
  assumes J: "easyjson_ok J"
  defines "p \<equiv> SetByPath J (queryPayload J q [(''descendant_uuid'', B), (''link_type'', T)]) ''link_body'' body"
  shows "\<not> PathExists J p ''in_link_type''" "AsString J (GetByPath J p ''link_type'') = Some T"
    "AsString J (GetByPath J p ''descendant_uuid'') = Some B" "GetByPath J p ''link_body'' = body"
  unfolding p_def
  using queryPayload_link[OF J, of q B T] ej_get_set[OF J] ej_get_other[OF J] ej_exists_set[OF J]
  by (simp_all add: simple_path_def dot_free_def)

lemma link_update_missing:
  assumes E: "env_ok E" and w: "w_ok E w" and reg: "ll_registered E registered"
    and ids: "vertex_id A" "vertex_id B" "simple_id T"
    and ctx: "hasReply ctx" "SelfID ctx = A"
    and p: "GetByPath (ej E) (Payload ctx) ''link_body'' = new" "link_body_ok (ej E) new"
      "AsString (ej E) (GetByPath (ej E) (Payload ctx) ''link_type'') = Some T"
      "AsString (ej E) (GetByPath (ej E) (Payload ctx) ''descendant_uuid'') = Some B"
    and old: "\<forall>v. w_view w (OutLinkBodyKey A T B) = Some v \<longrightarrow> JSONFromBytes (ej E) v = None"
    and free: "link_free A B (running w)" "(link_create_name, A) \<notin> set (running w)"
  shows "answers E (spec_link_create (ej E) A T B new) w
     (LLAPILinkUpdate E (goLangLocalRequest E registered (Suc (Suc (Suc n))) ct ci) ctx w)"
proof -
  let ?J = "ej E" and ?req = "goLangLocalRequest E registered (Suc (Suc (Suc n))) ct ci"
  note J = env_ok_ej[OF E]
  obtain q w1 where g: "GetQueryID E ctx w = (q, w1)" by fastforce
  have 1: "does E id w w1" using does_query[OF w g] .
  obtain e where get: "wGetValueAsJSON E (OutLinkBodyKey A T B) w1 = (Inl e, w1)"
    using wGetValueAsJSON_cases[OF does_ok[OF 1], of "OutLinkBodyKey A T B"] does_view[OF 1] old by auto
  let ?p = "SetByPath ?J (queryPayload ?J q [(''descendant_uuid'', B), (''link_type'', T)]) ''link_body'' new"
  obtain res w2 where req: "?req link_create_name A (Some ?p) (Some (Options ctx)) w1 = (res, w2)" by fastforce
  have "served E (spec_link_create ?J A T B new) w1 (?req link_create_name A (Some ?p) (Some (Options ctx)) w1)"
  proof (rule served_request)
    show "registered link_create_name = Some (LLAPILinkCreate E, NewJSONObject ?J)" by (rule ll_functions(4)[OF reg])
    show "(link_create_name, A) \<notin> set (running w1)" using free(2) does_running[OF 1] by simp
  qed (rule link_create_out[OF E _ reg];
       use does_ok[OF 1] does_running[OF 1] ids p(2) free createPayload[OF J, of q B T new]
       in \<open>auto simp: handlerContext_def link_free_def inTarget_def\<close>)
  then have 2: "does E (spec_link_create ?J A T B new) w1 w2" using req by (simp add: served_def)
  have "\<exists>r. LLAPILinkUpdate E ?req ctx w = (Some r, w2) \<and> ok_reply ?J r"
    using ctx p ok_result(1)[OF J] g get req
    by (simp add: LLAPILinkUpdate_def Let_def ReplyQueryID_reply link_body_ok_def)
  moreover have "does E (spec_link_create ?J A T B new) w w2" using does_trans[OF 1 2] by (simp add: o_def)
  ultimately show ?thesis by (auto simp: answers_def)
qed

text \<open>An update as a function on the map: of the existing link, or a creation.\<close>

definition spec_link_put ::
  "'j easyjson \<Rightarrow> string \<Rightarrow> string \<Rightarrow> string \<Rightarrow> string \<Rightarrow> 'j \<Rightarrow> (string \<Rightarrow> bytes option) \<Rightarrow> string \<Rightarrow> bytes option" where
  "spec_link_put J A T B mode new m =
     (case m (OutLinkBodyKey A T B) of
        None \<Rightarrow> spec_link_create J A T B new m
      | Some v \<Rightarrow> (case JSONFromBytes J v of
            None \<Rightarrow> spec_link_create J A T B new m
          | Some old \<Rightarrow> spec_link_update J A T B mode old new m))"

text \<open>The body that an update leaves must be usable as a body.\<close>

definition update_body_ok :: "'j easyjson \<Rightarrow> string \<Rightarrow> string \<Rightarrow> string \<Rightarrow> string \<Rightarrow> 'j \<Rightarrow> (string \<Rightarrow> bytes option) \<Rightarrow> bool" where
  "update_body_ok J A T B mode new m \<longleftrightarrow> link_body_ok J new \<and>
     (\<forall>v old. m (OutLinkBodyKey A T B) = Some v \<longrightarrow> JSONFromBytes J v = Some old \<longrightarrow>
        link_body_ok J (updatedBody J mode old new))"

lemma serve_link_update:
  assumes E: "env_ok E" and reg: "ll_registered E registered" and w: "w_ok E w" "ll_idle (running w)"
    and l: "link_ok (A, T, B)" and p: "link_payload (ej E) p T B" "GetByPath (ej E) p ''link_body'' = new"
    and mode: "AsStringDefault (ej E) (GetByPath (ej E) p ''mode'') ''merge'' = mode"
    and body: "update_body_ok (ej E) A T B mode new (w_view w)"
  shows "served E (spec_link_put (ej E) A T B mode new) w
     (ll_request_from E registered n ct ci ''functions.graph.api.link.update'' A p options w)"
  unfolding fuel_five
proof (rule served_request)
  let ?J = "ej E" and ?upd = "''functions.graph.api.link.update''"
  let ?w = "w\<lparr>running := (?upd, A) # running w\<rparr>"
  let ?ctx = "handlerContext ?J (NewJSONObject ?J) ?upd A ct ci (Some p) options True"
  let ?req = "goLangLocalRequest E registered (Suc (Suc (Suc (Suc n)))) ?upd A"
  show "registered ?upd = Some (LLAPILinkUpdate E, NewJSONObject ?J)" by (rule ll_functions(5)[OF reg])
  show "(?upd, A) \<notin> set (running w)" using w by (simp add: ll_idle_iff)
  have ids: "vertex_id A" "vertex_id B" "simple_id T" using l by (auto simp: link_ok_def)
  have c: "hasReply ?ctx" "SelfID ?ctx = A" "Payload ?ctx = p" by (simp_all add: handlerContext_def)
  show "answers E (spec_link_put ?J A T B mode new) ?w (LLAPILinkUpdate E ?req ?ctx ?w)"
  proof (cases "\<exists>v old. w_view w (OutLinkBodyKey A T B) = Some v \<and> JSONFromBytes ?J v = Some old")
    case True
    then obtain v old where old: "w_view w (OutLinkBodyKey A T B) = Some v" "JSONFromBytes ?J v = Some old" by blast
    have "answers E (spec_link_update ?J A T B mode old new) ?w (LLAPILinkUpdate E ?req ?ctx ?w)"
      by (rule link_update_existing[OF E _ ids])
        (use w[unfolded ll_idle_iff] p mode body old c in \<open>auto simp: link_payload_def update_body_ok_def link_body_ok_def\<close>)
    then show ?thesis using old by (simp add: answers_def does_def spec_link_put_def)
  next
    case False
    have "answers E (spec_link_create ?J A T B new) ?w (LLAPILinkUpdate E ?req ?ctx ?w)"
      by (rule link_update_missing[OF E _ reg ids])
        (use w[unfolded ll_idle_iff] p body False c in \<open>auto simp: link_payload_def update_body_ok_def link_free_def inTarget_def\<close>)
    then show ?thesis using False by (auto simp: answers_def does_def spec_link_put_def split: option.split)
  qed
qed

section \<open>Requests to vertices\<close>

lemma serve_vertex_delete:
  assumes "env_ok E" and "ll_registered E registered" and "w_ok E w" "ll_idle (running w)"
    and "vertex_id A" and "graph_ok (w_view w)"
  shows "served E (spec_vertex_delete (ej E) A) w
     (ll_request_from E registered n ct ci ''functions.graph.api.vertex.delete'' A p options w)"
  unfolding fuel_five using assms by (intro request_vertex_delete) (auto simp: ll_idle_iff)

lemma serve_vertex_create:
  assumes E: "env_ok E" and reg: "ll_registered E registered" and w: "w_ok E w" "ll_idle (running w)"
    and A: "vertex_id A" and graph: "graph_ok (w_view w)"
    and p: "GetByPath (ej E) p ''body'' = body" "IsObject (ej E) body"
  shows "served E (spec_vertex_create (ej E) A body) w
     (ll_request_from E registered n ct ci ''functions.graph.api.vertex.create'' A p options w)"
  unfolding fuel_five
proof (rule served_request)
  show "registered ''functions.graph.api.vertex.create'' = Some (LLAPIVertexCreate E, NewJSONObject (ej E))"
    by (rule ll_functions(1)[OF reg])
  show "(''functions.graph.api.vertex.create'', A) \<notin> set (running w)" using w by (simp add: ll_idle_iff)
qed (rule vertex_create_handler[OF E _ reg A]; use w[unfolded ll_idle_iff] graph p in \<open>auto simp: handlerContext_def\<close>)

lemma serve_vertex_update:
  assumes E: "env_ok E" and reg: "ll_registered E registered" and w: "w_ok E w" "ll_idle (running w)"
    and A: "vertex_id A" and p: "GetByPath (ej E) p ''body'' = body" "IsObject (ej E) body"
    and mode: "AsStringDefault (ej E) (GetByPath (ej E) p ''mode'') ''merge'' = mode"
  shows "served E (spec_vertex_update (ej E) A mode body) w
     (ll_request_from E registered n ct ci ''functions.graph.api.vertex.update'' A p options w)"
  unfolding fuel_five
proof (rule served_request)
  show "registered ''functions.graph.api.vertex.update'' = Some (LLAPIVertexUpdate E, NewJSONObject (ej E))"
    by (rule ll_functions(2)[OF reg])
  show "(''functions.graph.api.vertex.update'', A) \<notin> set (running w)" using w by (simp add: ll_idle_iff)
qed (rule vertex_update_handler[OF E _ A]; use w[unfolded ll_idle_iff] p mode in \<open>auto simp: handlerContext_def\<close>)

section \<open>Runs of requests\<close>

text \<open>Requests with usable identifiers and bodies, one after the other.\<close>

inductive ll_step ::
  "('j, 'kv) env \<Rightarrow> (string \<Rightarrow> (('j, 'kv) handler \<times> 'j) option) \<Rightarrow> ('j, 'kv) world \<Rightarrow> ('j, 'kv) world \<Rightarrow> bool"
  for E :: "('j, 'kv) env" and registered :: "string \<Rightarrow> (('j, 'kv) handler \<times> 'j) option" where
  step_vertex_create: "vertex_id A \<Longrightarrow> IsObject (ej E) (GetByPath (ej E) p ''body'') \<Longrightarrow>
     ll_step E registered w (snd (ll_request E registered n ''functions.graph.api.vertex.create'' A p options w))"
| step_vertex_update: "vertex_id A \<Longrightarrow> IsObject (ej E) (GetByPath (ej E) p ''body'') \<Longrightarrow>
     ll_step E registered w (snd (ll_request E registered n ''functions.graph.api.vertex.update'' A p options w))"
| step_vertex_delete: "vertex_id A \<Longrightarrow>
     ll_step E registered w (snd (ll_request E registered n ''functions.graph.api.vertex.delete'' A p options w))"
| step_link_create: "link_ok (A, T, B) \<Longrightarrow> link_payload (ej E) p T B \<Longrightarrow>
     link_body_ok (ej E) (GetByPath (ej E) p ''link_body'') \<Longrightarrow>
     ll_step E registered w (snd (ll_request E registered n link_create_name A p options w))"
| step_link_update: "link_ok (A, T, B) \<Longrightarrow> link_payload (ej E) p T B \<Longrightarrow>
     update_body_ok (ej E) A T B (AsStringDefault (ej E) (GetByPath (ej E) p ''mode'') ''merge'')
       (GetByPath (ej E) p ''link_body'') (w_view w) \<Longrightarrow>
     ll_step E registered w (snd (ll_request E registered n ''functions.graph.api.link.update'' A p options w))"
| step_link_delete: "link_ok (A, T, B) \<Longrightarrow> link_payload (ej E) p T B \<Longrightarrow>
     ll_step E registered w (snd (ll_request E registered n link_delete_name A p options w))"

definition ll_inv :: "('j, 'kv) env \<Rightarrow> ('j, 'kv) world \<Rightarrow> bool" where
  "ll_inv E w \<longleftrightarrow> w_ok E w \<and> running w = [] \<and> graph_ok (w_view w) \<and> indexed (ej E) (w_view w)"

definition ll_init :: "('j, 'kv) env \<Rightarrow> ('j, 'kv) world \<Rightarrow> bool" where
  "ll_init E w \<longleftrightarrow> w_ok E w \<and> running w = [] \<and> w_view w = (\<lambda>_. None)"

lemma served_inv:
  assumes "served E f w out" and "ll_inv E w" and "graph_ok (f (w_view w))" and "indexed (ej E) (f (w_view w))"
  shows "ll_inv E (snd out)"
  using assms by (auto simp: served_def ll_inv_def does_def same_rest_def)

lemma link_put_graph:
  assumes "easyjson_ok J" and "graph_ok m" and "link_ok (A, T, B)" and "update_body_ok J A T B mode new m"
  shows "graph_ok (spec_link_put J A T B mode new m)"
  using assms link_create_graph[OF assms(1-3), of new] link_update_graph[OF assms(1-3)]
  by (auto simp: spec_link_put_def update_body_ok_def split: option.split)

lemma link_put_indexed:
  assumes "easyjson_ok J" and "indexed J m" and "link_ok (A, T, B)" and "update_body_ok J A T B mode new m"
  shows "indexed J (spec_link_put J A T B mode new m)"
  using assms link_create_indexed[OF assms(1-3), of new] link_update_indexed[OF assms(1-3)]
  by (auto simp: spec_link_put_def update_body_ok_def split: option.split)

lemma ll_step_inv:
  assumes E: "env_ok E" and reg: "ll_registered E registered" and inv: "ll_inv E w" and step: "ll_step E registered w w'"
  shows "ll_inv E w'"
proof -
  note J = env_ok_ej[OF E]
  have w: "w_ok E w" "ll_idle (running w)" and g: "graph_ok (w_view w)" and i: "indexed (ej E) (w_view w)"
    using inv by (auto simp: ll_inv_def)
  from step show ?thesis
  proof cases
    case (step_vertex_create A p n options)
    show ?thesis unfolding step_vertex_create(1)
      by (rule served_inv[OF serve_vertex_create[OF E reg w _ g refl] inv])
        (use step_vertex_create vertex_graph(1)[OF g] vertex_indexed(1)[OF i] in auto)
  next
    case (step_vertex_update A p n options)
    show ?thesis unfolding step_vertex_update(1)
      by (rule served_inv[OF serve_vertex_update[OF E reg w _ refl _ refl] inv])
        (use step_vertex_update vertex_graph(2)[OF g] vertex_indexed(2)[OF i] in auto)
  next
    case (step_vertex_delete A n p options)
    show ?thesis unfolding step_vertex_delete(1)
      by (rule served_inv[OF serve_vertex_delete[OF E reg w _ g] inv])
        (use step_vertex_delete vertex_delete_graph[OF g] vertex_delete_indexed[OF i] in auto)
  next
    case (step_link_create A T B p n options)
    show ?thesis unfolding step_link_create(1)
      by (rule served_inv[OF serve_link_create[OF E reg w step_link_create(2,3) refl step_link_create(4)] inv])
        (rule link_create_graph[OF J g step_link_create(2,4)] link_create_indexed[OF J i step_link_create(2,4)])+
  next
    case (step_link_update A T B p n options)
    show ?thesis unfolding step_link_update(1)
      by (rule served_inv[OF serve_link_update[OF E reg w step_link_update(2,3) refl refl step_link_update(4)] inv])
        (rule link_put_graph[OF J g step_link_update(2,4)] link_put_indexed[OF J i step_link_update(2,4)])+
  next
    case (step_link_delete A T B p n options)
    show ?thesis unfolding step_link_delete(1)
      by (rule served_inv[OF serve_link_delete[OF E reg w step_link_delete(2,3)] inv])
        (rule link_delete_graph[OF g step_link_delete(2)] link_delete_indexed(1)[OF i step_link_delete(2)])+
  qed
qed

lemma ll_invariant_system:
  "env_ok E \<Longrightarrow> ll_registered E registered \<Longrightarrow>
   invariant_system (\<lambda>_. True) (ll_init E) (ll_step E registered) (ll_inv E)"
  by (rule invariant_system.intro) (simp add: ll_init_def ll_inv_def graph_ok_empty indexed_empty, rule ll_step_inv)

end
