(* ===== verification/LLProps.thy ===== *)
theory LLProps
  imports LLApi CacheProps
begin

text \<open>
  The properties of the low-level graph API, over requests to an idle runtime, each with an
  instance on the sample environment: a runtime with an empty cache and the six functions.
\<close>

section \<open>A sample runtime\<close>

definition sample_world :: "(json, sample_kv) world" where
  "sample_world = \<lparr>w_cache = sample_cache, uids = 0, published = [], running = [], delayed = []\<rparr>"

definition sample_registered :: "string \<Rightarrow> ((json, sample_kv) handler \<times> json) option" where
  "sample_registered t = map_option (\<lambda>h. (h, NewJSONObject sample_json)) (llFunction sample_env t)"

definition linkRequest :: "'j easyjson \<Rightarrow> string \<Rightarrow> string \<Rightarrow> 'j" where
  "linkRequest J T B = SetByPath J (SetByPath J (SetByPath J (NewJSONObject J) ''link_type'' (NewJSONString J T))
     ''descendant_uuid'' (NewJSONString J B)) ''link_body'' (NewJSONObject J)"

definition vertexRequest :: "'j easyjson \<Rightarrow> 'j" where
  "vertexRequest J = SetByPath J (NewJSONObject J) ''body'' (NewJSONObject J)"

lemma sample_reg: "ll_registered sample_env sample_registered"
  by (simp add: ll_registered_def sample_registered_def)

lemma info_at_leaf: "info_at (Node i []) p = (if p = [] then Some i else None)"
  by (cases p) (simp_all add: info_at_def)

lemma sample_world_ok [simp]: "w_ok sample_env sample_world" "running sample_world = []"
  "w_view sample_world = (\<lambda>_. None)"
proof -
  show "w_ok sample_env sample_world" "running sample_world = []"
    using sample_cache_ok by (simp_all add: sample_world_def w_ok_def)
  have "cache_view sample_cache k = None" for k
    by (simp add: cache_view_def core_at_def sample_cache_def NewCacheStore_def info_at_leaf)
  then show "w_view sample_world = (\<lambda>_. None)" by (simp add: w_view_def sample_world_def fun_eq_iff)
qed

lemma empty_body:
  assumes J: "easyjson_ok J"
  shows "linkTags J (NewJSONObject J) = []" "AsString J (GetByPath J (NewJSONObject J) ''name'') = None"
    "link_body_ok J (NewJSONObject J)"
proof -
  have "\<not> PathExists J (NewJSONObject J) ''name''" "\<not> PathExists J (NewJSONObject J) ''tags''"
    by (simp_all add: ej_exists_new[OF J] simple_path_def dot_free_def)
  then have "AsString J (GetByPath J (NewJSONObject J) ''name'') = None"
    "\<not> IsArray J (GetByPath J (NewJSONObject J) ''tags'')"
    by (simp_all add: ej_missing_str[OF J] ej_missing_arr[OF J])
  then show "linkTags J (NewJSONObject J) = []" "AsString J (GetByPath J (NewJSONObject J) ''name'') = None"
    using ej_nonempty_arr[OF J] unfolding linkTags_def by meson+
  then show "link_body_ok J (NewJSONObject J)" by (simp add: link_body_ok_def ej_obj_new[OF J])
qed

lemmas empty_body_ok = empty_body(3)

lemma linkRequest_ok:
  assumes J: "easyjson_ok J"
  shows "link_payload J (linkRequest J T B) T B" "GetByPath J (linkRequest J T B) ''link_body'' = NewJSONObject J"
    "AsStringDefault J (GetByPath J (linkRequest J T B) ''mode'') ''merge'' = ''merge''"
proof -
  let ?p = "linkRequest J T B"
  note laws = ej_obj_new[OF J] ej_obj_set[OF J] ej_get_set[OF J] ej_get_other[OF J] ej_str[OF J]
    ej_exists_set[OF J] ej_exists_new[OF J] simple_path_def dot_free_def
  have "\<not> PathExists J ?p ''in_link_type''" by (simp add: linkRequest_def laws)
  moreover have "AsString J (GetByPath J ?p ''link_type'') = Some T" by (simp add: linkRequest_def laws)
  moreover have "AsString J (GetByPath J ?p ''descendant_uuid'') = Some B" by (simp add: linkRequest_def laws)
  ultimately show "link_payload J ?p T B" by (simp add: link_payload_def)
  show "GetByPath J ?p ''link_body'' = NewJSONObject J" by (simp add: linkRequest_def laws)
  have "\<not> PathExists J ?p ''mode''" by (simp add: linkRequest_def laws)
  then show "AsStringDefault J (GetByPath J ?p ''mode'') ''merge'' = ''merge''"
    by (simp add: ej_str_default[OF J] ej_missing_str[OF J])
qed

lemma vertexRequest_ok:
  assumes J: "easyjson_ok J"
  shows "GetByPath J (vertexRequest J) ''body'' = NewJSONObject J"
    "AsStringDefault J (GetByPath J (vertexRequest J) ''mode'') ''merge'' = ''merge''"
proof -
  note laws = ej_obj_new[OF J] ej_get_set[OF J] ej_exists_set[OF J] ej_exists_new[OF J] simple_path_def dot_free_def
  show "GetByPath J (vertexRequest J) ''body'' = NewJSONObject J" by (simp add: vertexRequest_def laws)
  have "\<not> PathExists J (vertexRequest J) ''mode''" by (simp add: vertexRequest_def laws)
  then show "AsStringDefault J (GetByPath J (vertexRequest J) ''mode'') ''merge'' = ''merge''"
    by (simp add: ej_str_default[OF J] ej_missing_str[OF J])
qed

lemma sample_link: "link_ok (''a'', ''t'', ''b'')" "vertex_id ''a''" "vertex_id ''b''"
proof -
  have s: "simple_id ''a''" "simple_id ''b''" "simple_id ''t''" by (simp_all add: simple_id_def key_char_def)
  show v: "vertex_id ''a''" "vertex_id ''b''" using s by (simp_all add: vertex_id_plain)
  show "link_ok (''a'', ''t'', ''b'')" using v s by (simp add: link_ok_def)
qed

lemma sample_idle: "ll_idle (running sample_world)"
  by simp

lemmas sample_runtime = sample_env_ok sample_reg sample_world_ok(1) sample_idle

section \<open>Links\<close>

text \<open>
  C6: a request to create a link between two vertices is answered ok and changes the store exactly
  as specified: what an older link of the type left is gone, the link has its body, its name (its
  own, or a generated one when it has none or the name is taken), its indices and its in-link.
\<close>

theorem link_create_refines:
  assumes "env_ok E" and "ll_registered E registered" and "w_ok E w" and "ll_idle (running w)"
    and "link_ok (A, T, B)" and "link_payload (ej E) p T B" and "link_body_ok (ej E) (GetByPath (ej E) p ''link_body'')"
  shows "served E (spec_link_create (ej E) A T B (GetByPath (ej E) p ''link_body'')) w
     (ll_request E registered n link_create_name A p options w)"
  by (rule serve_link_create[OF assms(1-6) refl assms(7)])

theorem link_create_refines_witness:
  "served sample_env (spec_link_create sample_json ''a'' ''t'' ''b'' (NewJSONObject sample_json)) sample_world
     (ll_request sample_env sample_registered 0 link_create_name ''a'' (linkRequest sample_json ''t'' ''b'') None sample_world)"
  using link_create_refines[OF sample_runtime sample_link(1), of "linkRequest sample_json ''t'' ''b''" 0 None]
    linkRequest_ok[OF sample_json_ok] empty_body_ok[OF sample_json_ok]
  by simp

text \<open>
  C7: a request to delete a link is answered ok and removes the body of the link, its in-link, its
  name and its indices, and nothing else; when the link does not exist nothing changes.
\<close>

theorem link_delete_refines:
  assumes "env_ok E" and "ll_registered E registered" and "w_ok E w" and "ll_idle (running w)"
    and "link_ok (A, T, B)" and "link_payload (ej E) p T B"
  shows "served E (spec_link_delete (ej E) A T B) w (ll_request E registered n link_delete_name A p options w)"
  by (rule serve_link_delete[OF assms])

theorem link_delete_refines_witness:
  "served sample_env (spec_link_delete sample_json ''a'' ''t'' ''b'') sample_world
     (ll_request sample_env sample_registered 0 link_delete_name ''a'' (linkRequest sample_json ''t'' ''b'') None sample_world)"
  using link_delete_refines[OF sample_runtime sample_link(1), of "linkRequest sample_json ''t'' ''b''" 0 None]
    linkRequest_ok[OF sample_json_ok] by simp

text \<open>
  C8: a request to update a link is answered ok; an existing link gets the merged or the new body
  and the name and the indices that belong to it in place of the old ones, a missing link is created.
\<close>

theorem link_update_refines:
  assumes "env_ok E" and "ll_registered E registered" and "w_ok E w" and "ll_idle (running w)"
    and "link_ok (A, T, B)" and "link_payload (ej E) p T B"
    and "mode = AsStringDefault (ej E) (GetByPath (ej E) p ''mode'') ''merge''"
    and "update_body_ok (ej E) A T B mode (GetByPath (ej E) p ''link_body'') (w_view w)"
  shows "served E (spec_link_put (ej E) A T B mode (GetByPath (ej E) p ''link_body'')) w
     (ll_request E registered n ''functions.graph.api.link.update'' A p options w)"
  by (rule serve_link_update[OF assms(1-6) refl assms(7)[symmetric] assms(8)])

theorem link_update_refines_witness:
  "served sample_env (spec_link_put sample_json ''a'' ''t'' ''b'' ''merge'' (NewJSONObject sample_json)) sample_world
     (ll_request sample_env sample_registered 0 ''functions.graph.api.link.update'' ''a''
       (linkRequest sample_json ''t'' ''b'') None sample_world)"
  using link_update_refines[OF sample_runtime sample_link(1), of "linkRequest sample_json ''t'' ''b''" "''merge''" 0 None]
    linkRequest_ok[OF sample_json_ok] empty_body_ok[OF sample_json_ok]
  by (simp add: update_body_ok_def)

section \<open>Vertices\<close>

text \<open>
  C9: after a request to delete a vertex of a well-formed graph neither the vertex nor any link from
  it or to it is left, at either end, and every other vertex and link is as before.
\<close>

theorem vertex_delete_leaves_no_links:
  assumes "env_ok E" and "ll_registered E registered" and "w_ok E w" and "ll_idle (running w)"
    and "vertex_id A" and "graph_ok (w_view w)"
  shows "let (reply, w') = ll_request E registered n ''functions.graph.api.vertex.delete'' A p options w in
     (\<exists>r. reply = Inr r \<and> ok_reply (ej E) r) \<and> w_view w' A = None \<and>
     (\<forall>B. simple_id B \<longrightarrow> B \<noteq> A \<longrightarrow> w_view w' B = w_view w B) \<and>
     (\<forall>F T B. link_ok (F, T, B) \<longrightarrow>
        (if F = A \<or> B = A then w_view w' (OutLinkBodyKey F T B) = None \<and> w_view w' (InLinkKey B F T) = None
         else w_view w' (OutLinkBodyKey F T B) = w_view w (OutLinkBodyKey F T B) \<and>
              w_view w' (InLinkKey B F T) = w_view w (InLinkKey B F T)))"
proof -
  obtain reply w' where r: "ll_request E registered n ''functions.graph.api.vertex.delete'' A p options w = (reply, w')"
    by fastforce
  have s: "served E (spec_vertex_delete (ej E) A) w (reply, w')"
    using serve_vertex_delete[OF assms, where n = n and p = p and options = options] r by metis
  then have v: "w_view w' = spec_vertex_delete (ej E) A (w_view w)" by (simp add: served_def does_def)
  show ?thesis
    using s spec_vertex_delete_view[OF assms(6,5), where J = "ej E"] unfolding r by (simp add: served_def v)
qed

theorem vertex_delete_leaves_no_links_witness:
  "w_view (snd (ll_request sample_env sample_registered 0 ''functions.graph.api.vertex.delete'' ''a''
     (vertexRequest sample_json) None sample_world)) (InLinkKey ''a'' ''b'' ''t'') = None"
proof -
  have "link_ok (''b'', ''t'', ''a'')" using sample_link by (simp add: link_ok_def)
  then show ?thesis
    using vertex_delete_leaves_no_links[OF sample_runtime sample_link(2), of 0 "vertexRequest sample_json" None]
    by (auto simp: Let_def graph_ok_empty split: prod.splits if_splits)
qed

text \<open>
  A request to create a vertex is answered ok and leaves the vertex with the given body; if the
  vertex existed, all its links are gone, otherwise nothing else changes.
\<close>

lemma vertex_create_refines:
  assumes "env_ok E" and "ll_registered E registered" and "w_ok E w" and "ll_idle (running w)"
    and "vertex_id A" and "graph_ok (w_view w)" and "IsObject (ej E) (GetByPath (ej E) p ''body'')"
  shows "served E (spec_vertex_create (ej E) A (GetByPath (ej E) p ''body'')) w
     (ll_request E registered n ''functions.graph.api.vertex.create'' A p options w)"
  by (rule serve_vertex_create[OF assms(1-6) refl assms(7)])

lemma vertex_create_refines_witness:
  "served sample_env (spec_vertex_create sample_json ''a'' (NewJSONObject sample_json)) sample_world
     (ll_request sample_env sample_registered 0 ''functions.graph.api.vertex.create'' ''a'' (vertexRequest sample_json) None sample_world)"
  using vertex_create_refines[OF sample_runtime sample_link(2), of "vertexRequest sample_json" 0 None]
    vertexRequest_ok[OF sample_json_ok] ej_obj_new[OF sample_json_ok] by (simp add: graph_ok_empty)

text \<open>
  A request to update a vertex is answered ok and merges the given body into the vertex's body,
  or replaces it in the mode \<open>replace\<close>; a vertex that does not exist counts as an empty object.
\<close>

lemma vertex_update_refines:
  assumes "env_ok E" and "ll_registered E registered" and "w_ok E w" and "ll_idle (running w)"
    and "vertex_id A" and "IsObject (ej E) (GetByPath (ej E) p ''body'')"
    and "mode = AsStringDefault (ej E) (GetByPath (ej E) p ''mode'') ''merge''"
  shows "served E (spec_vertex_update (ej E) A mode (GetByPath (ej E) p ''body'')) w
     (ll_request E registered n ''functions.graph.api.vertex.update'' A p options w)"
  by (rule serve_vertex_update[OF assms(1-5) refl assms(6) assms(7)[symmetric]])

lemma vertex_update_refines_witness:
  "served sample_env (spec_vertex_update sample_json ''a'' ''merge'' (NewJSONObject sample_json)) sample_world
     (ll_request sample_env sample_registered 0 ''functions.graph.api.vertex.update'' ''a'' (vertexRequest sample_json) None sample_world)"
  using vertex_update_refines[OF sample_runtime sample_link(2), of "vertexRequest sample_json" "''merge''" 0 None]
    vertexRequest_ok[OF sample_json_ok] ej_obj_new[OF sample_json_ok] by simp

section \<open>Runs of requests\<close>

text \<open>
  C5: whatever requests with usable identifiers and bodies a runtime has served, starting from an
  empty graph, each link is recorded at both its ends or at neither, every key below a vertex is the
  key of a link, and no handler is left running. The index keys of a link are exactly those of the
  name and of the tags in its stored body, and a link without a body has none.
\<close>

theorem graph_stays_mirrored:
  assumes "env_ok E" and "ll_registered E registered"
    and "reachable_from (ll_init E) (ll_step E registered) w" and "link_ok (F, T, B)"
  shows "graph_ok (w_view w) \<and> running w = [] \<and>
     (w_view w (OutLinkBodyKey F T B) \<noteq> None \<longleftrightarrow> w_view w (InLinkKey B F T) \<noteq> None) \<and>
     (\<forall>i t. simple_id i \<longrightarrow> simple_id t \<longrightarrow>
        (w_view w (OutLinkIndexKey F T B i t) \<noteq> None \<longleftrightarrow>
           (\<exists>v body. w_view w (OutLinkBodyKey F T B) = Some v \<and> JSONFromBytes (ej E) v = Some body \<and>
              (i = ''name'' \<and> AsString (ej E) (GetByPath (ej E) body ''name'') = Some t \<or>
               i = ''tag'' \<and> t \<in> set (linkTags (ej E) body)))))"
proof -
  have inv: "ll_inv E w" by (rule invariant_system.reach_inv[OF ll_invariant_system[OF assms(1,2)] assms(3)])
  then have "graph_ok (w_view w)" "running w = []" "indexed (ej E) (w_view w)" unfolding ll_inv_def by simp_all
  moreover from this(1) have "w_view w (OutLinkBodyKey F T B) \<noteq> None \<longleftrightarrow> w_view w (InLinkKey B F T) \<noteq> None"
    using assms(4) unfolding graph_ok_def mirrored_def by blast
  ultimately show ?thesis using assms(4) unfolding indexed_def has_index_def by simp
qed

definition sample_named :: json where
  "sample_named = SetByPath sample_json (NewJSONObject sample_json) ''name'' (NewJSONString sample_json ''name0'')"

lemma sample_named_laws:
  "AsString sample_json (GetByPath sample_json sample_named ''name'') = Some ''name0''"
  "linkTags sample_json sample_named = []"
  "spec_link_name sample_json ''a'' (NewJSONObject sample_json) (\<lambda>_. None) =
     ((''name0'', sample_named), [OutLinkNameGenKey ''a'' \<mapsto> Int64ToBytes 1])"
proof -
  note J = sample_json_ok
  have d: "sprintf_d 0 = ''0''" by code_simp
  note none = empty_body(2)[OF J]
  show "spec_link_name sample_json ''a'' (NewJSONObject sample_json) (\<lambda>_. None) =
     ((''name0'', sample_named), [OutLinkNameGenKey ''a'' \<mapsto> Int64ToBytes 1])"
    using d none by (simp add: spec_link_name_def Let_def sample_named_def int64_of_def)
  from spec_link_name_ok[OF J empty_body_ok[OF J], of "''a''" "\<lambda>_. None" "''name0''" sample_named] this
  show "AsString sample_json (GetByPath sample_json sample_named ''name'') = Some ''name0''"
    and "linkTags sample_json sample_named = []"
    using empty_body(1)[OF J] by simp_all
qed

theorem graph_stays_mirrored_witness:
  "let w = snd (ll_request sample_env sample_registered 0 link_create_name ''a'' (linkRequest sample_json ''t'' ''b'') None sample_world)
   in w_view w (InLinkKey ''b'' ''a'' ''t'') \<noteq> None \<and>
     w_view w (OutLinkIndexKey ''a'' ''t'' ''b'' ''name'' ''name0'') \<noteq> None \<and>
     w_view w (OutLinkIndexKey ''a'' ''t'' ''b'' ''tag'' ''x'') = None"
proof -
  note J = sample_json_ok
  let ?w = "snd (ll_request sample_env sample_registered 0 link_create_name ''a'' (linkRequest sample_json ''t'' ''b'') None sample_world)"
  have "reachable_from (ll_init sample_env) (ll_step sample_env sample_registered) sample_world"
    by (rule reach_start) (simp add: ll_init_def)
  then have "reachable_from (ll_init sample_env) (ll_step sample_env sample_registered) ?w"
    by (rule reach_next) (rule step_link_create[OF sample_link(1)]; use linkRequest_ok[OF J] empty_body_ok[OF J] in simp)
  note c = graph_stays_mirrored[OF sample_env_ok sample_reg this sample_link(1)]
  have "served sample_env (spec_link_create sample_json ''a'' ''t'' ''b'' (NewJSONObject sample_json)) sample_world
     (ll_request sample_env sample_registered 0 link_create_name ''a'' (linkRequest sample_json ''t'' ''b'') None sample_world)"
    using serve_link_create[OF sample_runtime sample_link(1), of "linkRequest sample_json ''t'' ''b''" "NewJSONObject sample_json" 0
        "''ingress''" "''go''" None] linkRequest_ok[OF J] empty_body_ok[OF J] by simp
  then have "w_view ?w = spec_link_create sample_json ''a'' ''t'' ''b'' (NewJSONObject sample_json) (\<lambda>_. None)"
    by (simp add: served_def does_def)
  moreover have n: "simple_id ''x''" "simple_id ''name0''" by (simp_all add: simple_id_def key_char_def)
  ultimately have v: "w_view ?w (OutLinkBodyKey ''a'' ''t'' ''b'') = Some (ToBytes sample_json sample_named)"
    using sample_link(1) link_write_view(1)[OF sample_link(1) n(2) _ sample_link(1), of sample_json sample_named]
    by (simp add: spec_link_create_def spec_link_delete_def sample_named_laws)
  note k = conjunct2[OF conjunct2[OF conjunct2[OF c]], rule_format]
  have "w_view ?w (OutLinkIndexKey ''a'' ''t'' ''b'' ''name'' ''name0'') \<noteq> None"
    by (rule iffD2[OF k[of "''name''" "''name0''"]]) (use n v in \<open>simp_all add: sample_named_laws ej_bytes[OF J]\<close>)
  moreover have "\<not> w_view ?w (OutLinkIndexKey ''a'' ''t'' ''b'' ''tag'' ''x'') \<noteq> None"
    by (subst k[of "''tag''" "''x''"]) (use n v in \<open>simp_all add: sample_named_laws ej_bytes[OF J]\<close>)
  ultimately show ?thesis using c v unfolding Let_def by blast
qed

section \<open>Refusals and names\<close>








text \<open>
  A generated link name is not checked against the names in use: a link without a name, created
  at a vertex that has a link explicitly named \<open>name0\<close> and no generated one yet, is given
  that same name.
\<close>

lemma generated_link_name_can_clash:
  assumes "w_ok E w" and "w_view w (OutLinkNameGenKey A) = None" and "w_view w (OutLinkNameKey A ''name0'') \<noteq> None"
    and "AsString (ej E) (GetByPath (ej E) body ''name'') = None" and "simple_id A"
  shows "fst (fst (uniqueLinkName E A body w)) = ''name0''"
proof -
  have "sprintf_d 0 = ''0''" by code_simp
  then have "fst (fst (spec_link_name (ej E) A body (w_view w))) = ''name0''"
    using assms(2,4) by (simp add: spec_link_name_def Let_def int64_of_def)
  then show ?thesis using uniqueLinkName_does[OF assms(1,5), of body] by auto
qed

lemma generated_link_name_can_clash_witness:
  "fst (fst (uniqueLinkName sample_env ''a'' (NewJSONObject sample_json)
     (wSetValue sample_env (OutLinkNameKey ''a'' ''name0'') [] sample_world))) = ''name0''"
proof -
  let ?k = "OutLinkNameKey ''a'' ''name0''"
  have n: "simple_id ''name0''" by (simp add: simple_id_def key_char_def)
  have k: "valid_key ?k" "?k \<noteq> []" "OutLinkNameGenKey ''a'' \<noteq> ?k"
    using valid_graph_keys(3)[OF vertex_simple[OF sample_link(2)] n]
    by (simp_all add: OutLinkNameGenKey_def OutLinkNameKey_def)
  have v: "w_view (wSetValue sample_env ?k [] sample_world) = [?k \<mapsto> []]"
    "w_ok sample_env (wSetValue sample_env ?k [] sample_world)"
    using world.put_view[OF sample_world_ok(1) k(1,2)] world.put_ok[OF sample_world_ok(1)] by simp_all
  have "AsString sample_json (GetByPath sample_json (NewJSONObject sample_json) ''name'') = None"
    by (simp add: ej_missing_str[OF sample_json_ok] ej_exists_new[OF sample_json_ok] simple_path_def dot_free_def)
  then show ?thesis
    using generated_link_name_can_clash[OF v(2), of "''a''" "NewJSONObject sample_json"] sample_link(2) k(3) by (simp add: v(1))
qed

end
