(* ===== verification/HLCrud.thy ===== *)
theory HLCrud
  imports LLCrud
begin

text \<open>
  The high-level graph API, \<open>embedded/graph/crud/hl\_crud.go\<close>: types, objects and their links
  on top of the low-level API, and the triggers that an operation fires. A handler that returns
  without a reply gives \<open>None\<close>.
\<close>

section \<open>Names\<close>

definition Types :: string where "Types = ''types''"
definition Objects :: string where "Objects = ''objects''"
definition TypeLink :: string where "TypeLink = ''__type''"
definition ObjectLink :: string where "ObjectLink = ''__object''"
definition TypeTag :: string where "TypeTag = ''TYPE_''"

definition elems :: "string list" where
  "elems = [''create'', ''update'', ''delete'']"

section \<open>Replies and requests\<close>

definition NewJSONObjectWithKeyValue :: "'j easyjson \<Rightarrow> string \<Rightarrow> 'j \<Rightarrow> 'j" where
  "NewJSONObjectWithKeyValue J k v = SetByPath J (NewJSONObject J) k v"

definition reply ::
  "('j, 'kv) env \<Rightarrow> 'j StatefunContextProcessor \<Rightarrow> string \<Rightarrow> 'j \<Rightarrow> ('j, 'kv) world \<Rightarrow> 'j option \<times> ('j, 'kv) world" where
  "reply E ctx status data w =
     (let J = ej E in
      case GetQueryID E ctx w of (qid, w) \<Rightarrow>
        (let r = SetByPath J (SetByPath J (NewJSONObject J) ''status'' (NewJSONString J status)) ''result'' data
         in ReplyQueryID E qid (NewJSONObjectWithKeyValue J ''payload'' r) ctx w))"

definition replyOk :: "('j, 'kv) env \<Rightarrow> 'j StatefunContextProcessor \<Rightarrow> ('j, 'kv) world \<Rightarrow> 'j option \<times> ('j, 'kv) world" where
  "replyOk E ctx w = reply E ctx ''ok'' (JSONFromArray (ej E) []) w"

definition replyError ::
  "('j, 'kv) env \<Rightarrow> 'j StatefunContextProcessor \<Rightarrow> string \<Rightarrow> ('j, 'kv) world \<Rightarrow> 'j option \<times> ('j, 'kv) world" where
  "replyError E ctx err w = reply E ctx ''failed'' (NewJSONString (ej E) err) w"

definition checkRequestError :: "'j easyjson \<Rightarrow> string + 'j \<Rightarrow> string option" where
  "checkRequestError J res =
     (case res of
        Inl err \<Rightarrow> Some err
      | Inr result \<Rightarrow>
         (if AsStringDefault J (GetByPath J result ''status'') ''failed'' = ''failed''
          then Some (AsStringDefault J (GetByPath J result ''result'') ''unknown error'')
          else None))"

definition returnOpStack :: "'j easyjson \<Rightarrow> 'j" where
  "returnOpStack J = NewJSONObjectWithKeyValue J ''return_op_stack'' (NewJSONBool J True)"

definition lastToken :: "string \<Rightarrow> string" where
  "lastToken key = last (split_dot key)"

section \<open>What the graph says of types\<close>

definition findObjectType :: "('j, 'kv) env \<Rightarrow> string \<Rightarrow> ('j, 'kv) world \<Rightarrow> string \<times> ('j, 'kv) world" where
  "findObjectType E objectID w =
     (case wGetKeysByPattern E (OutLinkBodyKey objectID TypeLink ''>'') w of
        (keys, w) \<Rightarrow> (if length keys = 0 then ([], w) else (lastToken (keys ! 0), w)))"

definition findTypeObjects :: "('j, 'kv) env \<Rightarrow> string \<Rightarrow> ('j, 'kv) world \<Rightarrow> string list \<times> ('j, 'kv) world" where
  "findTypeObjects E typeID w =
     (case wGetKeysByPattern E (OutLinkBodyKey typeID ObjectLink ''>'') w of
        (keys, w) \<Rightarrow> (map lastToken keys, w))"

definition getTypesLinkBody :: "('j, 'kv) env \<Rightarrow> string \<Rightarrow> string \<Rightarrow> ('j, 'kv) world \<Rightarrow> (string + 'j) \<times> ('j, 'kv) world" where
  "getTypesLinkBody E from to w =
     (case wGetValueAsJSON E (OutLinkBodyKey from TypeLink to) w of
        (Inl err, w) \<Rightarrow> (Inl (''link '' @ from @ '', '' @ to @ '' not found: '' @ err), w)
      | (Inr body, w) \<Rightarrow> (Inr body, w))"

definition getReferenceLinkTypeBetweenTwoObjects ::
  "('j, 'kv) env \<Rightarrow> string \<Rightarrow> string \<Rightarrow> ('j, 'kv) world \<Rightarrow> (string + string) \<times> ('j, 'kv) world" where
  "getReferenceLinkTypeBetweenTwoObjects E fromObjectId toObjectId w =
     (case findObjectType E fromObjectId w of (fromTypeID, w) \<Rightarrow>
      case findObjectType E toObjectId w of (toTypeID, w) \<Rightarrow>
      case getTypesLinkBody E fromTypeID toTypeID w of
        (Inl err, w) \<Rightarrow> (Inl err, w)
      | (Inr linkBody, w) \<Rightarrow>
         (case AsString (ej E) (GetByPath (ej E) linkBody ''link_type'') of
            None \<Rightarrow> (Inl ''type of a link was not defined in link type'', w)
          | Some linkType \<Rightarrow> (Inr linkType, w)))"

definition isVertexAnObject :: "('j, 'kv) env \<Rightarrow> string \<Rightarrow> ('j, 'kv) world \<Rightarrow> bool \<times> ('j, 'kv) world" where
  "isVertexAnObject E ident w = (case findObjectType E ident w of (t, w) \<Rightarrow> (length t > 0, w))"

section \<open>Triggers\<close>

definition triggersOf :: "'j easyjson \<Rightarrow> string + 'j \<Rightarrow> 'j" where
  "triggersOf J body =
     (case body of Inl err \<Rightarrow> NewJSONObject J
      | Inr b \<Rightarrow> (if PathExists J b ''triggers'' then GetByPath J b ''triggers'' else NewJSONObject J))"

definition getObjectTypeTriggers :: "('j, 'kv) env \<Rightarrow> string \<Rightarrow> ('j, 'kv) world \<Rightarrow> 'j \<times> ('j, 'kv) world" where
  "getObjectTypeTriggers E objectID w =
     (case findObjectType E objectID w of (typeName, w) \<Rightarrow>
      case wGetValueAsJSON E typeName w of (typeBody, w) \<Rightarrow> (triggersOf (ej E) typeBody, w))"

definition getObjectsLinkTypeTriggers ::
  "('j, 'kv) env \<Rightarrow> string \<Rightarrow> string \<Rightarrow> ('j, 'kv) world \<Rightarrow> 'j \<times> ('j, 'kv) world" where
  "getObjectsLinkTypeTriggers E fromObjectId toObjectId w =
     (case findObjectType E fromObjectId w of (fromTypeName, w) \<Rightarrow>
      case findObjectType E toObjectId w of (toTypeName, w) \<Rightarrow>
      case getTypesLinkBody E fromTypeName toTypeName w of (body, w) \<Rightarrow> (triggersOf (ej E) body, w))"

definition triggerFunctions :: "'j easyjson \<Rightarrow> 'j \<Rightarrow> nat \<Rightarrow> string list" where
  "triggerFunctions J triggers tt =
     (case AsArrayString J (GetByPath J triggers (elems ! tt)) of Some arr \<Rightarrow> arr | None \<Rightarrow> [])"

definition signalAll ::
  "'j easyjson \<Rightarrow> 'j StatefunContextProcessor \<Rightarrow> string \<Rightarrow> 'j \<Rightarrow> string list \<Rightarrow> ('j, 'kv) world \<Rightarrow> ('j, 'kv) world" where
  "signalAll J ctx target payload functions w =
     fold (\<lambda>f w. snd (signal J JetstreamGlobalSignal (SelfTypename ctx) (SelfID ctx) f target (Some payload) None w))
       functions w"

definition executeObjectTriggers ::
  "('j, 'kv) env \<Rightarrow> 'j StatefunContextProcessor \<Rightarrow> string \<Rightarrow> 'j option \<Rightarrow> 'j option \<Rightarrow> nat \<Rightarrow> ('j, 'kv) world \<Rightarrow> ('j, 'kv) world" where
  "executeObjectTriggers E ctx objectID oldObjectBody newObjectBody tt w =
     (let J = ej E in
      case getObjectTypeTriggers E objectID w of (triggers, w) \<Rightarrow>
        (if IsNonEmptyObject J triggers \<and> tt < 3 then
           (let triggerData = setOpt J ''new_body'' newObjectBody (setOpt J ''old_body'' oldObjectBody (NewJSONObject J));
                payload = SetByPath J (NewJSONObject J) (''trigger.object.'' @ elems ! tt) triggerData
            in signalAll J ctx objectID payload (triggerFunctions J triggers tt) w)
         else w))"

definition executeLinkTriggers ::
  "('j, 'kv) env \<Rightarrow> 'j StatefunContextProcessor \<Rightarrow> string \<Rightarrow> string \<Rightarrow> string \<Rightarrow> 'j option \<Rightarrow> 'j option \<Rightarrow> nat \<Rightarrow>
    ('j, 'kv) world \<Rightarrow> ('j, 'kv) world" where
  "executeLinkTriggers E ctx fromObjectId toObjectId linkType oldLinkBody newLinkBody tt w =
     (let J = ej E in
      case getObjectsLinkTypeTriggers E fromObjectId toObjectId w of (triggers, w) \<Rightarrow>
        (if IsNonEmptyObject J triggers \<and> tt < 3 then
           (case getReferenceLinkTypeBetweenTwoObjects E fromObjectId toObjectId w of
              (Inl err, w) \<Rightarrow> w
            | (Inr referenceLinkType, w) \<Rightarrow>
               (if referenceLinkType \<noteq> linkType then w
                else
                  (let triggerData = SetByPath J (SetByPath J (NewJSONObject J) ''to'' (NewJSONString J toObjectId))
                         ''type'' (NewJSONString J linkType);
                       triggerData = setOpt J ''new_body'' newLinkBody (setOpt J ''old_body'' oldLinkBody triggerData);
                       payload = SetByPath J (NewJSONObject J) (''trigger.link.'' @ elems ! tt) triggerData
                   in signalAll J ctx fromObjectId payload (triggerFunctions J triggers tt) w)))
         else w))"

definition optPath :: "'j easyjson \<Rightarrow> 'j \<Rightarrow> string \<Rightarrow> 'j option" where
  "optPath J j p = (if PathExists J j p then Some (GetByPath J j p) else None)"

definition executeVertexOp ::
  "('j, 'kv) env \<Rightarrow> 'j StatefunContextProcessor \<Rightarrow> 'j \<Rightarrow> nat \<Rightarrow> ('j, 'kv) world \<Rightarrow> ('j, 'kv) world" where
  "executeVertexOp E ctx opData j w =
     (let J = ej E; vId = AsStringDefault J (GetByPath J opData ''id'') [] in
      if length vId > 0 then
        (case isVertexAnObject E vId w of (isObject, w) \<Rightarrow>
           (if isObject then executeObjectTriggers E ctx vId (optPath J opData ''old_body'') (optPath J opData ''new_body'') j w
            else w))
      else w)"

definition executeLinkOp ::
  "('j, 'kv) env \<Rightarrow> 'j StatefunContextProcessor \<Rightarrow> 'j \<Rightarrow> nat \<Rightarrow> ('j, 'kv) world \<Rightarrow> ('j, 'kv) world" where
  "executeLinkOp E ctx opData j w =
     (let J = ej E; fromVId = AsStringDefault J (GetByPath J opData ''from_id'') [];
          toVId = AsStringDefault J (GetByPath J opData ''to_id'') [];
          lType = AsStringDefault J (GetByPath J opData ''type'') [] in
      if length lType > 0 \<and> length fromVId > 0 \<and> length toVId > 0 then
        (case isVertexAnObject E fromVId w of (fromObject, w) \<Rightarrow>
           (if fromObject then
              (case isVertexAnObject E toVId w of (toObject, w) \<Rightarrow>
                 (if toObject
                  then executeLinkTriggers E ctx fromVId toVId lType (optPath J opData ''old_body'') (optPath J opData ''new_body'') j w
                  else w))
            else w))
      else w)"

definition executeOp :: "('j, 'kv) env \<Rightarrow> 'j StatefunContextProcessor \<Rightarrow> 'j \<Rightarrow> ('j, 'kv) world \<Rightarrow> ('j, 'kv) world" where
  "executeOp E ctx opData w =
     (let opStr = AsStringDefault (ej E) (GetByPath (ej E) opData ''op'') [] in
      if length opStr > 0 then
        fold (\<lambda>j w.
          (let w = (if opStr = llAPIVertexCUDNames ! j then executeVertexOp E ctx opData j w else w)
           in if opStr = llAPILinkCUDNames ! j then executeLinkOp E ctx opData j w else w)) [0..<3] w
      else w)"

definition executeTriggersFromLLOpStack ::
  "('j, 'kv) env \<Rightarrow> 'j StatefunContextProcessor \<Rightarrow> 'j option \<Rightarrow> ('j, 'kv) world \<Rightarrow> ('j, 'kv) world" where
  "executeTriggersFromLLOpStack E ctx opStack w =
     (case opStack of None \<Rightarrow> w
      | Some st \<Rightarrow>
         (if IsArray (ej E) st
          then fold (\<lambda>i. executeOp E ctx (ArrayElement (ej E) st i)) [0..<ArraySize (ej E) st] w
          else w))"

definition triggersOfResult ::
  "('j, 'kv) env \<Rightarrow> 'j StatefunContextProcessor \<Rightarrow> string + 'j \<Rightarrow> ('j, 'kv) world \<Rightarrow> ('j, 'kv) world" where
  "triggersOfResult E ctx res w =
     (case res of Inl err \<Rightarrow> w
      | Inr result \<Rightarrow> executeTriggersFromLLOpStack E ctx (optPath (ej E) result ''op_stack'') w)"

section \<open>Types\<close>

definition typeTags :: "'j easyjson \<Rightarrow> string \<Rightarrow> 'j" where
  "typeTags J ident = JSONFromArray J [TypeTag @ ident]"

definition linkTo :: "'j easyjson \<Rightarrow> string \<Rightarrow> string \<Rightarrow> 'j" where
  "linkTo J to linkType =
     SetByPath J (SetByPath J (NewJSONObject J) ''descendant_uuid'' (NewJSONString J to))
       ''link_type'' (NewJSONString J linkType)"

definition CreateType :: "('j, 'kv) env \<Rightarrow> ('j, 'kv) handler" where
  "CreateType E req ctx w =
     (let J = ej E; selfID = SelfID ctx; payload = Payload ctx;
          prefix = AsStringDefault J (GetByPath J payload ''prefix'') [] in
      case wGetValue E (OutLinkBodyKey (prefix @ Types) TypeLink selfID) w of
        (Inr _, w) \<Rightarrow> replyOk E ctx w
      | (Inl _, w) \<Rightarrow>
         (case req ''functions.graph.api.vertex.create'' selfID (Some payload) None w of
            (Inl err, w) \<Rightarrow> replyError E ctx err w
          | (Inr _, w) \<Rightarrow>
             (let link = SetByPath J (linkTo J selfID TypeLink) ''link_body.tags'' (typeTags J selfID) in
              case req ''functions.graph.api.link.create'' (prefix @ Types) (Some link) None w of
                (Inl err, w) \<Rightarrow> replyError E ctx err w
              | (Inr _, w) \<Rightarrow> replyOk E ctx w)))"

definition UpdateType :: "('j, 'kv) env \<Rightarrow> ('j, 'kv) handler" where
  "UpdateType E req ctx w =
     (case req ''functions.graph.api.vertex.update'' (SelfID ctx) (Some (Payload ctx)) None w of
        (res, w) \<Rightarrow>
          (case checkRequestError (ej E) res of Some err \<Rightarrow> replyError E ctx err w | None \<Rightarrow> replyOk E ctx w))"

definition DeleteType :: "('j, 'kv) env \<Rightarrow> ('j, 'kv) handler" where
  "DeleteType E req ctx w = replyOk E ctx w"

section \<open>Objects\<close>

fun createLinks ::
  "('j, 'kv) env \<Rightarrow> ('j, 'kv) requester \<Rightarrow> (string \<times> string \<times> string) list \<Rightarrow> ('j, 'kv) world \<Rightarrow> string option \<times> ('j, 'kv) world" where
  "createLinks E req [] w = (None, w)"
| "createLinks E req ((from, to, lt) # links) w =
     (let J = ej E;
          link = SetByPath J (linkTo J to lt) ''link_body'' (NewJSONObject J);
          link = (if lt = TypeLink then SetByPath J link ''link_body.tags'' (typeTags J to) else link) in
      case req ''functions.graph.api.link.create'' from (Some link) None w of
        (r, w) \<Rightarrow> (case checkRequestError J r of Some err \<Rightarrow> (Some err, w) | None \<Rightarrow> createLinks E req links w))"

definition CreateObject :: "('j, 'kv) env \<Rightarrow> ('j, 'kv) handler" where
  "CreateObject E req ctx w =
     (let J = ej E; selfID = SelfID ctx; payload = Payload ctx in
      case AsString J (GetByPath J payload ''origin_type'') of
        None \<Rightarrow> (None, w)
      | Some originType \<Rightarrow>
         (let prefix = AsStringDefault J (GetByPath J payload ''prefix'') [] in
          case wGetValue E (OutLinkBodyKey (prefix @ Objects) ObjectLink selfID) w of
            (Inr _, w) \<Rightarrow> replyOk E ctx w
          | (Inl _, w) \<Rightarrow>
             (case req ''functions.graph.api.vertex.create'' selfID (Some payload) (Some (returnOpStack J)) w of
                (result, w) \<Rightarrow>
                  (case checkRequestError J result of
                     Some err \<Rightarrow> replyError E ctx err w
                   | None \<Rightarrow>
                      (case createLinks E req
                              [(prefix @ Objects, selfID, ObjectLink), (selfID, prefix @ originType, TypeLink),
                               (prefix @ originType, selfID, ObjectLink)] w of
                         (Some err, w) \<Rightarrow> replyError E ctx err w
                       | (None, w) \<Rightarrow> replyOk E ctx (triggersOfResult E ctx result w))))))"

definition UpdateObject :: "('j, 'kv) env \<Rightarrow> ('j, 'kv) handler" where
  "UpdateObject E req ctx w =
     (case req ''functions.graph.api.vertex.update'' (SelfID ctx) (Some (Payload ctx)) (Some (returnOpStack (ej E))) w of
        (result, w) \<Rightarrow>
          (case checkRequestError (ej E) result of
             Some err \<Rightarrow> replyError E ctx err w
           | None \<Rightarrow> replyOk E ctx (triggersOfResult E ctx result w)))"

definition deleteVertex ::
  "('j, 'kv) env \<Rightarrow> ('j, 'kv) requester \<Rightarrow> 'j StatefunContextProcessor \<Rightarrow> string \<Rightarrow> ('j, 'kv) world \<Rightarrow>
    string option \<times> ('j, 'kv) world" where
  "deleteVertex E req ctx elem w =
     (case req ''functions.graph.api.vertex.delete'' elem (Some (NewJSONObject (ej E))) (Some (returnOpStack (ej E))) w of
        (result, w) \<Rightarrow>
          (case checkRequestError (ej E) result of
             Some err \<Rightarrow> (Some err, w)
           | None \<Rightarrow> (None, triggersOfResult E ctx result w)))"

definition visitChild :: "string \<Rightarrow> string list \<times> string list \<Rightarrow> string list \<times> string list" where
  "visitChild ident st =
     (case st of (visited, queue) \<Rightarrow>
        (if ident \<in> set visited then (visited, queue) else (ident # visited, queue @ [ident])))"

text \<open>The breadth-first loop of the cascade: an error ends it, \<open>None\<close> is a lack of fuel.\<close>

fun cascadeDelete ::
  "('j, 'kv) env \<Rightarrow> ('j, 'kv) requester \<Rightarrow> 'j StatefunContextProcessor \<Rightarrow> nat \<Rightarrow> string list \<Rightarrow> string list \<Rightarrow>
    ('j, 'kv) world \<Rightarrow> (string option \<times> ('j, 'kv) world) option" where
  "cascadeDelete E req ctx 0 visited queue w = None"
| "cascadeDelete E req ctx (Suc fuel) visited [] w = Some (None, w)"
| "cascadeDelete E req ctx (Suc fuel) visited (elem # rest) w =
     (case wGetKeysByPattern E (OutLinkBodyPattern elem) w of (children, w) \<Rightarrow>
      case fold visitChild (map lastToken children) (visited, elem # rest) of (visited, queue) \<Rightarrow>
        (if tl queue = [] then Some (None, w)
         else (case deleteVertex E req ctx elem w of
                 (Some err, w) \<Rightarrow> Some (Some err, w)
               | (None, w) \<Rightarrow> cascadeDelete E req ctx fuel visited (tl queue) w)))"

definition DeleteObject :: "nat \<Rightarrow> ('j, 'kv) env \<Rightarrow> ('j, 'kv) handler" where
  "DeleteObject fuel E req ctx w =
     (let J = ej E; selfID = SelfID ctx; mode = AsStringDefault J (GetByPath J (Payload ctx) ''mode'') ''vertex'' in
      if mode = ''cascade'' then
        (case cascadeDelete E req ctx fuel [selfID] [selfID] w of
           None \<Rightarrow> (None, w)
         | Some (Some err, w) \<Rightarrow> replyError E ctx err w
         | Some (None, w) \<Rightarrow> replyOk E ctx w)
      else if mode = ''vertex'' then
        (case deleteVertex E req ctx selfID w of
           (Some err, w) \<Rightarrow> replyError E ctx err w
         | (None, w) \<Rightarrow> replyOk E ctx w)
      else replyOk E ctx w)"

section \<open>Links between types\<close>

definition CreateTypesLink :: "('j, 'kv) env \<Rightarrow> ('j, 'kv) handler" where
  "CreateTypesLink E req ctx w =
     (let J = ej E; selfID = SelfID ctx; payload = Payload ctx in
      case (AsString J (GetByPath J payload ''object_link_type''), AsString J (GetByPath J payload ''to'')) of
        (Some objectLinkType, Some to) \<Rightarrow>
          (case wGetValue E (OutLinkBodyKey selfID TypeLink to) w of
             (Inr _, w) \<Rightarrow> replyOk E ctx w
           | (Inl _, w) \<Rightarrow>
              (let link = SetByPath J (SetByPath J (linkTo J to TypeLink) ''link_body.link_type'' (NewJSONString J objectLinkType))
                     ''link_body.tags'' (typeTags J to) in
               case req ''functions.graph.api.link.create'' selfID (Some link) None w of
                 (result, w) \<Rightarrow>
                   (case checkRequestError J result of
                      Some err \<Rightarrow> replyError E ctx err w
                    | None \<Rightarrow> replyOk E ctx w)))
      | _ \<Rightarrow> (None, w))"

fun relinkTargets ::
  "('j, 'kv) env \<Rightarrow> ('j, 'kv) requester \<Rightarrow> string \<Rightarrow> string \<Rightarrow> string list \<Rightarrow> ('j, 'kv) world \<Rightarrow> string option \<times> ('j, 'kv) world" where
  "relinkTargets E req objectLinkType objectID [] w = (None, w)"
| "relinkTargets E req objectLinkType objectID (key # keys) w =
     (let p = SetByPath (ej E) (linkTo (ej E) (lastToken key) objectLinkType) ''link_body'' (NewJSONObject (ej E)) in
      case req ''functions.graph.api.link.update'' objectID (Some p) None w of
        (result, w) \<Rightarrow>
          (case checkRequestError (ej E) result of
             Some err \<Rightarrow> (Some err, w)
           | None \<Rightarrow> relinkTargets E req objectLinkType objectID keys w))"

fun relinkObjects ::
  "('j, 'kv) env \<Rightarrow> ('j, 'kv) requester \<Rightarrow> string \<Rightarrow> string \<Rightarrow> string list \<Rightarrow> ('j, 'kv) world \<Rightarrow> string option \<times> ('j, 'kv) world" where
  "relinkObjects E req current objectLinkType [] w = (None, w)"
| "relinkObjects E req current objectLinkType (objectID # ids) w =
     (case wGetKeysByPattern E (OutLinkBodyKey objectID current ''>'') w of (keys, w) \<Rightarrow>
      case relinkTargets E req objectLinkType objectID keys w of
        (Some err, w) \<Rightarrow> (Some err, w)
      | (None, w) \<Rightarrow> relinkObjects E req current objectLinkType ids w)"

definition UpdateTypesLink :: "('j, 'kv) env \<Rightarrow> ('j, 'kv) handler" where
  "UpdateTypesLink E req ctx w =
     (let J = ej E; selfID = SelfID ctx; payload = Payload ctx in
      case AsString J (GetByPath J payload ''to'') of
        None \<Rightarrow> replyError E ctx ''to undefined'' w
      | Some to \<Rightarrow>
         (let objectLinkType = AsStringDefault J (GetByPath J payload ''object_link_type'') [];
              body = GetByPath J payload ''body'' in
          if objectLinkType = [] \<and> \<not> IsNonEmptyObject J body then replyError E ctx ''nothing to update'' w
          else
            (let update = SetByPath J (SetByPath J (linkTo J to TypeLink) ''link_body'' body) ''link_body.tags'' (typeTags J to);
                 needUpdateObjectLinkType = (objectLinkType \<noteq> []) in
             case (if needUpdateObjectLinkType
                   then (case getTypesLinkBody E selfID to w of
                           (Inl err, w) \<Rightarrow> (Inl err, w)
                         | (Inr currentBody, w) \<Rightarrow>
                            (Inr (SetByPath J update ''link_body.link_type'' (NewJSONString J objectLinkType),
                               case AsString J (GetByPath J currentBody ''link_body.link_type'') of None \<Rightarrow> [] | Some s \<Rightarrow> s), w))
                   else (Inr (update, []), w)) of
               (Inl err, w) \<Rightarrow> replyError E ctx err w
             | (Inr (update, currentObjectLinkType), w) \<Rightarrow>
                (case req ''functions.graph.api.link.update'' selfID (Some update) None w of
                   (result, w) \<Rightarrow>
                     (case checkRequestError J result of
                        Some err \<Rightarrow> replyError E ctx err w
                      | None \<Rightarrow>
                         (if needUpdateObjectLinkType then
                            (case findTypeObjects E selfID w of (objects, w) \<Rightarrow>
                             case relinkObjects E req currentObjectLinkType objectLinkType objects w of
                               (Some err, w) \<Rightarrow> replyError E ctx err w
                             | (None, w) \<Rightarrow> replyOk E ctx w)
                          else replyOk E ctx w))))))"

definition DeleteTypesLink :: "('j, 'kv) env \<Rightarrow> ('j, 'kv) handler" where
  "DeleteTypesLink E req ctx w = replyOk E ctx w"

section \<open>Links between objects\<close>

definition objectsLink ::
  "('j, 'kv) env \<Rightarrow> string \<Rightarrow> 'j option \<Rightarrow> string \<Rightarrow> string \<Rightarrow> ('j, 'kv) handler" where
  "objectsLink E typename linkBody objectToID linkType req ctx w =
     (let J = ej E; objectLink = setOpt J ''link_body'' linkBody (linkTo J objectToID linkType) in
      case req typename (SelfID ctx) (Some objectLink) (Some (returnOpStack J)) w of
        (result, w) \<Rightarrow>
          (case checkRequestError J result of
             Some err \<Rightarrow> replyError E ctx err w
           | None \<Rightarrow> replyOk E ctx (triggersOfResult E ctx result w)))"

definition CreateObjectsLink :: "('j, 'kv) env \<Rightarrow> ('j, 'kv) handler" where
  "CreateObjectsLink E req ctx w =
     (let J = ej E; selfID = SelfID ctx; payload = Payload ctx in
      case AsString J (GetByPath J payload ''to'') of
        None \<Rightarrow> replyError E ctx ''to undefined'' w
      | Some objectToID \<Rightarrow>
         (case getReferenceLinkTypeBetweenTwoObjects E selfID objectToID w of
            (Inl err, w) \<Rightarrow> replyError E ctx err w
          | (Inr linkType, w) \<Rightarrow>
             (case wGetValue E (OutLinkBodyKey selfID linkType objectToID) w of
                (Inr _, w) \<Rightarrow> replyOk E ctx w
              | (Inl _, w) \<Rightarrow>
                 objectsLink E ''functions.graph.api.link.create'' (Some (GetByPath J payload ''body''))
                   objectToID linkType req ctx w)))"

definition UpdateObjectsLink :: "('j, 'kv) env \<Rightarrow> ('j, 'kv) handler" where
  "UpdateObjectsLink E req ctx w =
     (let J = ej E; selfID = SelfID ctx; payload = Payload ctx in
      case AsString J (GetByPath J payload ''to'') of
        None \<Rightarrow> (None, w)
      | Some objectToID \<Rightarrow>
         (case getReferenceLinkTypeBetweenTwoObjects E selfID objectToID w of
            (Inl err, w) \<Rightarrow> replyError E ctx err w
          | (Inr linkType, w) \<Rightarrow>
             objectsLink E ''functions.graph.api.link.update'' (Some (GetByPath J payload ''body''))
               objectToID linkType req ctx w))"

definition DeleteObjectsLink :: "('j, 'kv) env \<Rightarrow> ('j, 'kv) handler" where
  "DeleteObjectsLink E req ctx w =
     (let J = ej E; selfID = SelfID ctx; payload = Payload ctx in
      case AsString J (GetByPath J payload ''to'') of
        None \<Rightarrow> (None, w)
      | Some objectToID \<Rightarrow>
         (case getReferenceLinkTypeBetweenTwoObjects E selfID objectToID w of
            (Inl err, w) \<Rightarrow> replyError E ctx err w
          | (Inr linkType, w) \<Rightarrow>
             objectsLink E ''functions.graph.api.link.delete'' None objectToID linkType req ctx w))"

text \<open>The registration of the high-level functions; \<open>fuel\<close> is that of the cascade.\<close>

definition hlFunction :: "nat \<Rightarrow> ('j, 'kv) env \<Rightarrow> string \<Rightarrow> ('j, 'kv) handler option" where
  "hlFunction fuel E typename =
     map_of [(''functions.cmdb.api.type.create'', CreateType E), (''functions.cmdb.api.type.update'', UpdateType E),
             (''functions.cmdb.api.type.delete'', DeleteType E),
             (''functions.cmdb.api.types.link.create'', CreateTypesLink E),
             (''functions.cmdb.api.types.link.update'', UpdateTypesLink E),
             (''functions.cmdb.api.types.link.delete'', DeleteTypesLink E),
             (''functions.cmdb.api.object.create'', CreateObject E), (''functions.cmdb.api.object.update'', UpdateObject E),
             (''functions.cmdb.api.object.delete'', DeleteObject fuel E),
             (''functions.cmdb.api.objects.link.create'', CreateObjectsLink E),
             (''functions.cmdb.api.objects.link.update'', UpdateObjectsLink E),
             (''functions.cmdb.api.objects.link.delete'', DeleteObjectsLink E)] typename"

end
