(* ===== verification/HLSpec.thy ===== *)
theory HLSpec
  imports HLCrud LLApi
begin

text \<open>
  What the high-level operations do to the store: their requests are the specified operations of the
  low-level API one after the other, and the triggers they fire only publish messages.
\<close>

section \<open>Worlds that differ in the messages only\<close>

definition brings :: "('j, 'kv) env \<Rightarrow> ((string \<Rightarrow> bytes option) \<Rightarrow> string \<Rightarrow> bytes option) \<Rightarrow>
    ('j, 'kv) world \<Rightarrow> ('j, 'kv) world \<Rightarrow> bool" where
  "brings E f w w' \<longleftrightarrow> w_ok E w' \<and> w_view w' = f (w_view w) \<and> running w' = running w \<and> delayed w' = delayed w"

lemma does_brings: "does E f w w' \<Longrightarrow> brings E f w w'"
  by (simp add: does_def brings_def same_rest_def)

lemma brings_refl: "w_ok E w \<Longrightarrow> brings E id w w"
  by (simp add: brings_def)

lemma brings_trans: "brings E f w w1 \<Longrightarrow> brings E g w1 w2 \<Longrightarrow> brings E (g \<circ> f) w w2"
  by (simp add: brings_def)

lemma brings_quiet: "brings E f w w1 \<Longrightarrow> brings E id w1 w2 \<Longrightarrow> brings E f w w2"
  by (simp add: brings_def)

lemma bringsD:
  assumes "brings E f w w'"
  shows brings_ok: "w_ok E w'" and brings_view: "w_view w' = f (w_view w)" and brings_running: "running w' = running w"
  using assms by (simp_all add: brings_def)

section \<open>Reading the graph\<close>

lemma pattern_same:
  assumes "w_ok E w"
  shows "wGetKeysByPattern E (OutLinkBodyKey ident T ''>'') w = (fst (wGetKeysByPattern E (OutLinkBodyKey ident T ''>'') w), w)"
proof -
  have "OutLinkBodyKey ident T ''>'' = (ident @ ''.out.body.'' @ T) @ ''.>''" by (simp add: OutLinkBodyKey_def)
  with world.keys_same[OF assms, of "ident @ ''.out.body.'' @ T"] show ?thesis
    by (metis prod.collapse)
qed

lemma json_same: "w_ok E w \<Longrightarrow> wGetValueAsJSON E k w = (fst (wGetValueAsJSON E k w), w)"
  using wGetValueAsJSON_cases[of E w k] by auto

lemma find_type_same: "w_ok E w \<Longrightarrow> findObjectType E i w = (fst (findObjectType E i w), w)"
  by (subst findObjectType_def, subst pattern_same, assumption) (simp add: findObjectType_def split: prod.split)

lemma types_link_same: "w_ok E w \<Longrightarrow> getTypesLinkBody E a b w = (fst (getTypesLinkBody E a b w), w)"
  using wGetValueAsJSON_cases[of E w "OutLinkBodyKey a TypeLink b"] by (auto simp: getTypesLinkBody_def)

lemma is_object_same: "w_ok E w \<Longrightarrow> isVertexAnObject E i w = (fst (isVertexAnObject E i w), w)"
  using find_type_same[of E w i] by (auto simp: isVertexAnObject_def split: prod.splits)

lemma reference_same:
  assumes "w_ok E w"
  shows "getReferenceLinkTypeBetweenTwoObjects E a b w = (fst (getReferenceLinkTypeBetweenTwoObjects E a b w), w)"
  unfolding getReferenceLinkTypeBetweenTwoObjects_def
  by (subst (1 2) find_type_same[OF assms], simp, subst (1 2) find_type_same[OF assms], simp,
      subst (1 2) types_link_same[OF assms], simp split: sum.split option.split)

lemma object_triggers_same: "w_ok E w \<Longrightarrow> getObjectTypeTriggers E i w = (fst (getObjectTypeTriggers E i w), w)"
  using find_type_same[of E w i] json_same[of E w "fst (findObjectType E i w)"]
  by (auto simp: getObjectTypeTriggers_def split: prod.splits)

lemma link_triggers_same:
  "w_ok E w \<Longrightarrow> getObjectsLinkTypeTriggers E a b w = (fst (getObjectsLinkTypeTriggers E a b w), w)"
  using find_type_same[of E w a] find_type_same[of E w b]
    types_link_same[of E w "fst (findObjectType E a w)" "fst (findObjectType E b w)"]
  by (auto simp: getObjectsLinkTypeTriggers_def split: prod.splits)

section \<open>Triggers only publish\<close>

lemma signal_quiet: "w_ok E w \<Longrightarrow> brings E id w (snd (signal J JetstreamGlobalSignal a b c d p q w))"
  by (simp add: brings_def signal_def)

lemma fold_quiet:
  assumes "\<And>x w. w_ok E w \<Longrightarrow> brings E id w (f x w)"
  shows "w_ok E w \<Longrightarrow> brings E id w (fold f xs w)"
proof (induction xs arbitrary: w)
  case (Cons x xs)
  have 1: "brings E id w (f x w)" using assms[OF Cons.prems] .
  from brings_quiet[OF 1 Cons.IH[OF brings_ok[OF 1]]] show ?case by (simp only: fold_simps)
qed (simp add: brings_refl)

lemma signalAll_quiet: "w_ok E w \<Longrightarrow> brings E id w (signalAll J ctx target p fs w)"
  unfolding signalAll_def by (rule fold_quiet) (rule signal_quiet)

lemma object_trigger_quiet:
  assumes w: "w_ok E w"
  shows "brings E id w (executeObjectTriggers E ctx i old new tt w)"
proof -
  obtain tr where "getObjectTypeTriggers E i w = (tr, w)" using object_triggers_same[OF w] by (rule that)
  then show ?thesis
    using signalAll_quiet[OF w] brings_refl[OF w] by (simp add: executeObjectTriggers_def Let_def)
qed

lemma link_trigger_quiet:
  assumes w: "w_ok E w"
  shows "brings E id w (executeLinkTriggers E ctx a b lt old new tt w)"
proof -
  obtain tr where "getObjectsLinkTypeTriggers E a b w = (tr, w)" using link_triggers_same[OF w] by (rule that)
  moreover obtain rf where "getReferenceLinkTypeBetweenTwoObjects E a b w = (rf, w)" using reference_same[OF w] by (rule that)
  ultimately show ?thesis
    using signalAll_quiet[OF w] brings_refl[OF w] by (simp add: executeLinkTriggers_def Let_def split: sum.split)
qed

lemma vertex_op_quiet:
  assumes w: "w_ok E w"
  shows "brings E id w (executeVertexOp E ctx op j w)"
proof -
  obtain b where "isVertexAnObject E (AsStringDefault (ej E) (GetByPath (ej E) op ''id'') []) w = (b, w)"
    using is_object_same[OF w] by (rule that)
  then show ?thesis
    using object_trigger_quiet[OF w] brings_refl[OF w] by (simp add: executeVertexOp_def Let_def)
qed

lemma link_op_quiet:
  assumes w: "w_ok E w"
  shows "brings E id w (executeLinkOp E ctx op j w)"
proof -
  obtain a where "isVertexAnObject E (AsStringDefault (ej E) (GetByPath (ej E) op ''from_id'') []) w = (a, w)"
    using is_object_same[OF w] by (rule that)
  moreover obtain b where "isVertexAnObject E (AsStringDefault (ej E) (GetByPath (ej E) op ''to_id'') []) w = (b, w)"
    using is_object_same[OF w] by (rule that)
  ultimately show ?thesis
    using link_trigger_quiet[OF w] brings_refl[OF w] by (simp add: executeLinkOp_def Let_def)
qed

lemma executeOp_quiet: "w_ok E w \<Longrightarrow> brings E id w (executeOp E ctx op w)"
proof -
  let ?f = "\<lambda>j w. (let w = (if AsStringDefault (ej E) (GetByPath (ej E) op ''op'') [] = llAPIVertexCUDNames ! j
        then executeVertexOp E ctx op j w else w)
     in if AsStringDefault (ej E) (GetByPath (ej E) op ''op'') [] = llAPILinkCUDNames ! j
        then executeLinkOp E ctx op j w else w)"
  assume w: "w_ok E w"
  have "brings E id w (?f j w)" if w: "w_ok E w" for j w
  proof -
    define w1 where "w1 = (if AsStringDefault (ej E) (GetByPath (ej E) op ''op'') [] = llAPIVertexCUDNames ! j
      then executeVertexOp E ctx op j w else w)"
    have 1: "brings E id w w1" using vertex_op_quiet[OF w] brings_refl[OF w] by (simp add: w1_def)
    show ?thesis
      unfolding Let_def w1_def[symmetric]
      using 1 brings_quiet[OF 1 link_op_quiet[OF brings_ok[OF 1]]] by simp
  qed
  from fold_quiet[of E ?f, OF this w] w show ?thesis by (simp add: executeOp_def Let_def brings_refl)
qed

lemma triggers_quiet: "w_ok E w \<Longrightarrow> brings E id w (executeTriggersFromLLOpStack E ctx st w)"
  by (auto simp: executeTriggersFromLLOpStack_def brings_refl split: option.split intro: fold_quiet executeOp_quiet)

lemma result_quiet: "w_ok E w \<Longrightarrow> brings E id w (triggersOfResult E ctx res w)"
  by (auto simp: triggersOfResult_def brings_refl split: sum.split intro: triggers_quiet)

section \<open>Replies\<close>

definition hl_ok :: "'j easyjson \<Rightarrow> 'j \<Rightarrow> bool" where
  "hl_ok J r \<longleftrightarrow> AsString J (GetByPath J (GetByPath J r ''payload'') ''status'') = Some ''ok''"

definition hl_answers :: "('j, 'kv) env \<Rightarrow> ((string \<Rightarrow> bytes option) \<Rightarrow> string \<Rightarrow> bytes option) \<Rightarrow>
    ('j, 'kv) world \<Rightarrow> 'j option \<times> ('j, 'kv) world \<Rightarrow> bool" where
  "hl_answers E f w out \<longleftrightarrow> (\<exists>r. fst out = Some r \<and> hl_ok (ej E) r) \<and> brings E f w (snd out)"

definition hl_served :: "('j, 'kv) env \<Rightarrow> ((string \<Rightarrow> bytes option) \<Rightarrow> string \<Rightarrow> bytes option) \<Rightarrow>
    ('j, 'kv) world \<Rightarrow> (string + 'j) \<times> ('j, 'kv) world \<Rightarrow> bool" where
  "hl_served E f w out \<longleftrightarrow> (\<exists>r. fst out = Inr r \<and> hl_ok (ej E) r) \<and> brings E f w (snd out)"

lemma reply_status:
  assumes J: "easyjson_ok J"
  shows "AsString J (GetByPath J (GetByPath J (NewJSONObjectWithKeyValue J ''payload''
    (SetByPath J (SetByPath J (NewJSONObject J) ''status'' (NewJSONString J st)) ''result'' d)) ''payload'') ''status'') = Some st"
  using ej_obj_new[OF J] ej_obj_set[OF J] ej_get_set[OF J] ej_get_other[OF J] ej_str[OF J]
  by (simp add: NewJSONObjectWithKeyValue_def simple_path_def dot_free_def)

lemma replyOk_answers:
  assumes E: "env_ok E" and ctx: "hasReply ctx" and w: "brings E f w w1"
  shows "hl_answers E f w (replyOk E ctx w1)"
proof -
  obtain q w2 where g: "GetQueryID E ctx w1 = (q, w2)" by fastforce
  have "brings E f w w2" using brings_quiet[OF w does_brings[OF does_query[OF brings_ok[OF w] g]]] .
  then show ?thesis
    using ctx g reply_status[OF env_ok_ej[OF E], of "''ok''"]
    by (simp add: hl_answers_def replyOk_def reply_def Let_def ReplyQueryID_reply hl_ok_def)
qed

lemma hl_served_request:
  assumes "registered typename = Some (h, ftOptions)" and "(typename, ident) \<notin> set (running w)"
    and "hl_answers E f (w\<lparr>running := (typename, ident) # running w\<rparr>)
      (h (goLangLocalRequest E registered n typename ident)
         (handlerContext (ej E) ftOptions typename ident ct ci payload options True)
         (w\<lparr>running := (typename, ident) # running w\<rparr>))"
  shows "hl_served E f w (goLangLocalRequest E registered (Suc n) ct ci typename ident payload options w)"
proof -
  obtain rep w' where h: "h (goLangLocalRequest E registered n typename ident)
         (handlerContext (ej E) ftOptions typename ident ct ci payload options True)
         (w\<lparr>running := (typename, ident) # running w\<rparr>) = (rep, w')" by fastforce
  with assms show ?thesis
    by (auto simp: goLangLocalRequest.simps(2) hl_served_def hl_answers_def brings_def)
qed

lemma served_no_error: "easyjson_ok J \<Longrightarrow> ok_reply J r \<Longrightarrow> checkRequestError J (Inr r) = None"
  by (simp add: checkRequestError_def ok_reply_def ej_str_default)

section \<open>Links of types and objects\<close>

definition hlLinkBody :: "'j easyjson \<Rightarrow> string \<Rightarrow> string \<Rightarrow> 'j" where
  "hlLinkBody J to lt = (if lt = TypeLink then SetByPath J (NewJSONObject J) ''tags'' (typeTags J to) else NewJSONObject J)"

lemma hl_names: "simple_id TypeLink" "simple_id ObjectLink" "TypeLink \<noteq> ObjectLink" "vertex_id Types" "vertex_id Objects"
  by (simp_all add: TypeLink_def ObjectLink_def Types_def Objects_def vertex_id_plain simple_id_def key_char_def)

lemma simple_tag:
  assumes "simple_id t"
  shows "simple_id (TypeTag @ t)"
proof -
  have "list_all key_char TypeTag" unfolding TypeTag_def by code_simp
  with assms show ?thesis unfolding simple_id_def list_all_append by blast
qed

lemma hlLinkBody_ok:
  assumes J: "easyjson_ok J" and "simple_id to"
  shows "link_body_ok J (hlLinkBody J to lt)"
proof -
  have n: "AsString J (GetByPath J (hlLinkBody J to lt) ''name'') = None"
    using ej_missing_str[OF J] ej_exists_new[OF J] ej_exists_set[OF J] ej_obj_new[OF J]
    by (simp add: hlLinkBody_def simple_path_def dot_free_def)
  have "linkTags J (hlLinkBody J to lt) = (if lt = TypeLink then [TypeTag @ to] else [])"
    using ej_get_set[OF J ej_obj_new[OF J], of "''tags''"] ej_array_ne[OF J] ej_array_strings[OF J]
      ej_missing_arr[OF J, of "NewJSONObject J" "''tags''"] ej_exists_new[OF J, of "''tags''"] ej_nonempty_arr[OF J]
    by (auto simp: linkTags_def hlLinkBody_def typeTags_def simple_path_def dot_free_def)
  with n assms(2) show ?thesis
    using ej_obj_new[OF J] ej_obj_set[OF J]
    by (auto simp: link_body_ok_def simple_tag hlLinkBody_def simple_path_def dot_free_def)
qed

lemma linkTo_payload:
  assumes J: "easyjson_ok J"
  shows "link_payload J (SetByPath J (linkTo J to lt) ''link_body'' b) lt to"
    and "GetByPath J (SetByPath J (linkTo J to lt) ''link_body'' b) ''link_body'' = b"
    and "IsObject J (linkTo J to lt)" and "\<not> PathExists J (linkTo J to lt) ''link_body''"
    and "link_payload J (linkTo J to lt) lt to"
  using ej_obj_new[OF J] ej_obj_set[OF J] ej_get_set[OF J] ej_get_other[OF J] ej_str[OF J] ej_exists_set[OF J]
    ej_exists_new[OF J]
  by (simp_all add: linkTo_def link_payload_def simple_path_def dot_free_def)

lemma set_link_tags:
  assumes J: "easyjson_ok J" and j: "IsObject J j" "PathExists J j ''link_body'' \<Longrightarrow> IsObject J (GetByPath J j ''link_body'')"
  shows "SetByPath J j ''link_body.tags'' v =
    SetByPath J j ''link_body'' (SetByPath J (if PathExists J j ''link_body'' then GetByPath J j ''link_body'' else NewJSONObject J) ''tags'' v)"
  using ej_set_nested[OF J j(1), of "''link_body''" "''tags''" v] j(2)
  by (simp add: simple_path_def dot_free_def)

lemma hl_link_payload:
  fixes J :: "'j easyjson" and to lt :: string
  assumes J: "easyjson_ok J"
  defines "l \<equiv> SetByPath J (linkTo J to lt) ''link_body'' (NewJSONObject J)"
  defines "l' \<equiv> (if lt = TypeLink then SetByPath J l ''link_body.tags'' (typeTags J to) else l)"
  shows "link_payload J l' lt to" and "GetByPath J l' ''link_body'' = hlLinkBody J to lt"
proof -
  have p: "simple_path ''link_body''" by (simp add: simple_path_def dot_free_def)
  have l: "IsObject J l" "GetByPath J l ''link_body'' = NewJSONObject J" "PathExists J l ''link_body''" "link_payload J l lt to"
    using linkTo_payload[OF J] ej_obj_set[OF J _ p] ej_exists_set[OF J _ p p]
    by (simp_all add: l_def)
  have "l' = (if lt = TypeLink then SetByPath J l ''link_body'' (hlLinkBody J to lt) else l)"
    using set_link_tags[OF J l(1), where v = "typeTags J to"] l(2,3) ej_obj_new[OF J] by (simp add: l'_def hlLinkBody_def)
  moreover have "link_payload J (SetByPath J l ''link_body'' b) lt to" "GetByPath J (SetByPath J l ''link_body'' b) ''link_body'' = b" for b
    using l ej_get_set[OF J l(1) p] ej_get_other[OF J l(1) p] ej_exists_set[OF J l(1) p]
    by (simp_all add: link_payload_def simple_path_def dot_free_def)
  ultimately show "link_payload J l' lt to" "GetByPath J l' ''link_body'' = hlLinkBody J to lt"
    using l by (cases "lt = TypeLink"; simp add: hlLinkBody_def)+
qed

lemma createLinks_does:
  assumes E: "env_ok E" and reg: "ll_registered E registered"
  shows "w_ok E w \<Longrightarrow> ll_idle (running w) \<Longrightarrow> \<forall>(f, t, l)\<in>set ls. link_ok (f, l, t) \<Longrightarrow>
    \<exists>w'. createLinks E (goLangLocalRequest E registered (n + 5) tt ti) ls w = (None, w') \<and>
      does E (fold (\<lambda>(f, t, l). spec_link_create (ej E) f l t (hlLinkBody (ej E) t l)) ls) w w'"
proof (induction ls arbitrary: w)
  case Nil
  then show ?case using does_refl[of E w] by (simp add: id_def)
next
  case (Cons x ls)
  obtain f t l where x: "x = (f, t, l)" by (cases x)
  note J = env_ok_ej[OF E]
  define p where "p = (if l = TypeLink
    then SetByPath (ej E) (SetByPath (ej E) (linkTo (ej E) t l) ''link_body'' (NewJSONObject (ej E))) ''link_body.tags'' (typeTags (ej E) t)
    else SetByPath (ej E) (linkTo (ej E) t l) ''link_body'' (NewJSONObject (ej E)))"
  have p: "link_payload (ej E) p l t" "GetByPath (ej E) p ''link_body'' = hlLinkBody (ej E) t l"
    unfolding p_def by (rule hl_link_payload[OF J])+
  have lk: "link_ok (f, l, t)" "link_body_ok (ej E) (hlLinkBody (ej E) t l)"
    using Cons.prems(3) hlLinkBody_ok[OF J, of t l] by (simp_all add: x link_ok_def)
  have s: "served E (spec_link_create (ej E) f l t (hlLinkBody (ej E) t l)) w
     (ll_request_from E registered n tt ti link_create_name f p None w)"
    by (rule serve_link_create[OF E reg Cons.prems(1,2) lk(1) p lk(2)])
  then obtain r w1 where r: "ll_request_from E registered n tt ti link_create_name f p None w = (Inr r, w1)"
    "ok_reply (ej E) r" and d: "does E (spec_link_create (ej E) f l t (hlLinkBody (ej E) t l)) w w1"
    by (cases "ll_request_from E registered n tt ti link_create_name f p None w") (auto simp: served_def)
  obtain w' where w': "createLinks E (goLangLocalRequest E registered (n + 5) tt ti) ls w1 = (None, w')"
    "does E (fold (\<lambda>(f, t, l). spec_link_create (ej E) f l t (hlLinkBody (ej E) t l)) ls) w1 w'"
    using Cons.IH[OF does_ok[OF d]] Cons.prems(2,3) does_running[OF d] by auto
  have "createLinks E (goLangLocalRequest E registered (n + 5) tt ti) (x # ls) w = (None, w')"
    using r w'(1) served_no_error[OF J r(2)] by (simp add: x Let_def p_def)
  with does_trans[OF d w'(2)] show ?case by (intro exI[of _ w']) (simp add: x o_def del: createLinks.simps)
qed

end
