(* ===== verification/HLObjects.thy ===== *)
theory HLObjects
  imports HLSpec
begin

text \<open>
  The creation of types and objects as functions on the store, the type that an object has, and the
  messages that the update of an object sends.
\<close>

section \<open>Creating types and objects\<close>

definition spec_type_put ::
  "'j easyjson \<Rightarrow> string \<Rightarrow> string \<Rightarrow> 'j \<Rightarrow> (string \<Rightarrow> bytes option) \<Rightarrow> string \<Rightarrow> bytes option" where
  "spec_type_put J types ident body m =
     (if m (OutLinkBodyKey types TypeLink ident) \<noteq> None then m
      else spec_link_create J types TypeLink ident (hlLinkBody J ident TypeLink) (spec_vertex_create J ident body m))"

definition spec_object_put ::
  "'j easyjson \<Rightarrow> string \<Rightarrow> string \<Rightarrow> string \<Rightarrow> 'j \<Rightarrow> (string \<Rightarrow> bytes option) \<Rightarrow> string \<Rightarrow> bytes option" where
  "spec_object_put J objects T ident body m =
     (if m (OutLinkBodyKey objects ObjectLink ident) \<noteq> None then m
      else spec_link_create J T ObjectLink ident (hlLinkBody J ident ObjectLink)
        (spec_link_create J ident TypeLink T (hlLinkBody J T TypeLink)
          (spec_link_create J objects ObjectLink ident (hlLinkBody J ident ObjectLink)
            (spec_vertex_create J ident body m))))"

lemma read_present: "w_ok E w \<Longrightarrow> \<exists>r. wGetValue E k w = (r, w) \<and> (w_view w k = None \<longleftrightarrow> (\<exists>e. r = Inl e))"
  using wGetValue_cases[of E w k] by (cases "w_view w k") auto

lemma split_served:
  assumes "served E f w out"
  obtains r w' where "out = (Inr r, w')" "ok_reply (ej E) r" "does E f w w'"
  using assms by (cases out) (auto simp: served_def)

lemma create_object_handler:
  assumes E: "env_ok E" and reg: "ll_registered E registered" and w: "w_ok E w" "ll_idle (running w)" "graph_ok (w_view w)"
    and ctx: "hasReply ctx" "SelfID ctx = ident" "Payload ctx = p"
    and p: "AsString (ej E) (GetByPath (ej E) p ''origin_type'') = Some ot"
      "AsStringDefault (ej E) (GetByPath (ej E) p ''prefix'') [] = pre" "IsObject (ej E) (GetByPath (ej E) p ''body'')"
    and ids: "vertex_id ident" "vertex_id (pre @ Objects)" "vertex_id (pre @ ot)"
  shows "hl_answers E (spec_object_put (ej E) (pre @ Objects) (pre @ ot) ident (GetByPath (ej E) p ''body'')) w
     (CreateObject E (goLangLocalRequest E registered (n + 5) tt ti) ctx w)"
proof -
  let ?J = "ej E" and ?req = "goLangLocalRequest E registered (n + 5) tt ti"
  let ?key = "OutLinkBodyKey (pre @ Objects) ObjectLink ident" and ?body = "GetByPath (ej E) p ''body''"
  note J = env_ok_ej[OF E]
  obtain r where get: "wGetValue E ?key w = (r, w)" "w_view w ?key = None \<longleftrightarrow> (\<exists>e. r = Inl e)"
    using read_present[OF w(1)] by blast
  show ?thesis
  proof (cases r)
    case (Inr v)
    with get ctx p have "CreateObject E ?req ctx w = replyOk E ctx w"
      by (simp add: CreateObject_def Let_def)
    moreover have "spec_object_put ?J (pre @ Objects) (pre @ ot) ident ?body (w_view w) = w_view w"
      using Inr get(2) by (simp add: spec_object_put_def)
    ultimately show ?thesis
      using replyOk_answers[OF E ctx(1) brings_refl[OF w(1)]] by (simp add: hl_answers_def brings_def)
  next
    case (Inl e)
    have "served E (spec_vertex_create ?J ident ?body) w
       (ll_request_from E registered n tt ti ''functions.graph.api.vertex.create'' ident p (Some (returnOpStack ?J)) w)"
      by (rule serve_vertex_create[OF E reg w(1,2) ids(1) w(3) refl p(3)])
    then obtain res w1 where v: "ll_request_from E registered n tt ti ''functions.graph.api.vertex.create'' ident p
        (Some (returnOpStack ?J)) w = (Inr res, w1)" "ok_reply ?J res" "does E (spec_vertex_create ?J ident ?body) w w1"
      by (rule split_served)
    let ?links = "[(pre @ Objects, ident, ObjectLink), (ident, pre @ ot, TypeLink), (pre @ ot, ident, ObjectLink)]"
    have "\<forall>(f, t, l)\<in>set ?links. link_ok (f, l, t)" using ids hl_names by (simp add: link_ok_def)
    then obtain w2 where l: "createLinks E ?req ?links w1 = (None, w2)"
      "does E (fold (\<lambda>(f, t, l). spec_link_create ?J f l t (hlLinkBody ?J t l)) ?links) w1 w2"
      using createLinks_does[OF E reg does_ok[OF v(3)], of ?links n tt ti] w(2) does_running[OF v(3)] by auto
    have "does E (spec_object_put ?J (pre @ Objects) (pre @ ot) ident ?body) w w2"
      using does_trans[OF v(3) l(2)] Inl get(2) by (simp add: does_def spec_object_put_def)
    from brings_quiet[OF does_brings[OF this] result_quiet[OF does_ok[OF l(2)]]]
    have "hl_answers E (spec_object_put ?J (pre @ Objects) (pre @ ot) ident ?body) w
        (replyOk E ctx (triggersOfResult E ctx (Inr res) w2))"
      by (rule replyOk_answers[OF E ctx(1)])
    moreover have "CreateObject E ?req ctx w = replyOk E ctx (triggersOfResult E ctx (Inr res) w2)"
      using get(1) Inl ctx(2,3) p v(1) served_no_error[OF J v(2)] l(1)
      by (simp add: CreateObject_def Let_def del: createLinks.simps)
    ultimately show ?thesis by simp
  qed
qed

lemma create_type_handler:
  assumes E: "env_ok E" and reg: "ll_registered E registered" and w: "w_ok E w" "ll_idle (running w)" "graph_ok (w_view w)"
    and ctx: "hasReply ctx" "SelfID ctx = ident" "Payload ctx = p"
    and p: "AsStringDefault (ej E) (GetByPath (ej E) p ''prefix'') [] = pre" "IsObject (ej E) (GetByPath (ej E) p ''body'')"
    and ids: "vertex_id ident" "vertex_id (pre @ Types)"
  shows "hl_answers E (spec_type_put (ej E) (pre @ Types) ident (GetByPath (ej E) p ''body'')) w
     (CreateType E (goLangLocalRequest E registered (n + 5) tt ti) ctx w)"
proof -
  let ?J = "ej E" and ?req = "goLangLocalRequest E registered (n + 5) tt ti"
  let ?key = "OutLinkBodyKey (pre @ Types) TypeLink ident" and ?body = "GetByPath (ej E) p ''body''"
  note J = env_ok_ej[OF E]
  obtain r where get: "wGetValue E ?key w = (r, w)" "w_view w ?key = None \<longleftrightarrow> (\<exists>e. r = Inl e)"
    using read_present[OF w(1)] by blast
  show ?thesis
  proof (cases r)
    case (Inr v)
    with get ctx p have "CreateType E ?req ctx w = replyOk E ctx w"
      by (simp add: CreateType_def Let_def)
    moreover have "spec_type_put ?J (pre @ Types) ident ?body (w_view w) = w_view w"
      using Inr get(2) by (simp add: spec_type_put_def)
    ultimately show ?thesis
      using replyOk_answers[OF E ctx(1) brings_refl[OF w(1)]] by (simp add: hl_answers_def brings_def)
  next
    case (Inl e)
    have "served E (spec_vertex_create ?J ident ?body) w
       (ll_request_from E registered n tt ti ''functions.graph.api.vertex.create'' ident p None w)"
      by (rule serve_vertex_create[OF E reg w(1,2) ids(1) w(3) refl p(2)])
    then obtain res w1 where v: "ll_request_from E registered n tt ti ''functions.graph.api.vertex.create'' ident p None w = (Inr res, w1)"
      "does E (spec_vertex_create ?J ident ?body) w w1"
      by (rule split_served)
    define l where "l = SetByPath ?J (linkTo ?J ident TypeLink) ''link_body.tags'' (typeTags ?J ident)"
    have l: "l = SetByPath ?J (linkTo ?J ident TypeLink) ''link_body'' (hlLinkBody ?J ident TypeLink)"
      unfolding l_def using set_link_tags[OF J linkTo_payload(3)[OF J], of ident TypeLink "typeTags ?J ident"] linkTo_payload(4)[OF J, of ident TypeLink]
      by (simp add: hlLinkBody_def)
    have "served E (spec_link_create ?J (pre @ Types) TypeLink ident (hlLinkBody ?J ident TypeLink)) w1
       (ll_request_from E registered n tt ti link_create_name (pre @ Types) l None w1)"
    proof (rule serve_link_create[OF E reg does_ok[OF v(2)]])
      show "ll_idle (running w1)" using w(2) does_running[OF v(2)] by simp
      show "link_ok (pre @ Types, TypeLink, ident)" using ids hl_names by (simp add: link_ok_def)
      show "link_payload ?J l TypeLink ident" "GetByPath ?J l ''link_body'' = hlLinkBody ?J ident TypeLink"
        unfolding l by (rule linkTo_payload[OF J])+
      show "link_body_ok ?J (hlLinkBody ?J ident TypeLink)" by (rule hlLinkBody_ok[OF J]) (use ids in simp)
    qed
    then obtain res2 w2 where k: "ll_request_from E registered n tt ti link_create_name (pre @ Types) l None w1 = (Inr res2, w2)"
      "does E (spec_link_create ?J (pre @ Types) TypeLink ident (hlLinkBody ?J ident TypeLink)) w1 w2"
      by (rule split_served)
    have "does E (spec_type_put ?J (pre @ Types) ident ?body) w w2"
      using does_trans[OF v(2) k(2)] Inl get(2) by (simp add: does_def spec_type_put_def)
    from replyOk_answers[OF E ctx(1) does_brings[OF this]]
    show ?thesis
      using get(1) Inl ctx(2,3) p v(1) k(1) by (simp add: CreateType_def Let_def l_def)
  qed
qed

section \<open>The type of an object\<close>

lemma link_create_body:
  assumes J: "easyjson_ok J" and l: "link_ok (A, T, B)" and b: "link_body_ok J body" and l': "link_ok (F, T', B')"
  shows "spec_link_create J A T B body m (OutLinkBodyKey F T' B') = None \<longleftrightarrow>
    (F, T', B') \<noteq> (A, T, B) \<and> m (OutLinkBodyKey F T' B') = None"
proof -
  let ?m1 = "spec_link_delete J A T B m"
  have A: "simple_id A" using l by (simp add: link_ok_def)
  obtain N body' m2 where n: "spec_link_name J A body ?m1 = ((N, body'), m2)" by (rule nested_pair)
  then have N: "simple_id N" "\<forall>t\<in>set (linkTags J body'). simple_id t"
    using spec_link_name_ok[OF J b, of A ?m1 N body'] b by (simp_all add: link_body_ok_def)
  have "m2 (OutLinkBodyKey F T' B') = ?m1 (OutLinkBodyKey F T' B')"
    using n A l' by (auto simp: spec_link_name_def Let_def split: if_splits)
  moreover have "?m1 (OutLinkBodyKey F T' B') = None \<longleftrightarrow> (F, T', B') = (A, T, B) \<or> m (OutLinkBodyKey F T' B') = None"
    unfolding spec_link_delete_removes using removes_body[OF l l', of J m] by auto
  ultimately show ?thesis
    using l l' by (auto simp: spec_link_create_def n link_write_view(1)[OF l N l'])
qed

text \<open>An object with a single type link has that type.\<close>

definition sole_type :: "(string \<Rightarrow> bytes option) \<Rightarrow> string \<Rightarrow> string \<Rightarrow> bool" where
  "sole_type m ident T \<longleftrightarrow> link_ok (ident, TypeLink, T) \<and>
     (\<forall>B. link_ok (ident, TypeLink, B) \<longrightarrow> (m (OutLinkBodyKey ident TypeLink B) \<noteq> None) = (B = T))"

lemma findObjectType_sole:
  assumes w: "w_ok E w" "graph_ok (w_view w)" and s: "sole_type (w_view w) ident T"
  shows "findObjectType E ident w = (T, w)"
proof -
  let ?p = "ident @ ''.out.body.'' @ TypeLink"
  have l: "link_ok (ident, TypeLink, T)" and d: "dot_free ident" "dot_free T" using s by (auto simp: sole_type_def link_ok_def)
  have p: "split_dot ?p = [ident, ''out'', ''body'', TypeLink]"
    using split_dot_append[of ident "''out.body.'' @ TypeLink"] d by (simp add: split_dot_free TypeLink_def)
  obtain ks where ks: "wGetKeysByPattern E (?p @ ''.>'') w = (ks, w)"
    "set ks = {k. w_view w k \<noteq> None \<and> (\<exists>rest. rest \<noteq> [] \<and> split_dot k = split_dot ?p @ rest)}"
    using pattern_keys[OF w(1), of ?p] by blast
  have "set ks = {OutLinkBodyKey ident TypeLink T}"
  proof (intro equalityI subsetI)
    fix k assume "k \<in> set ks"
    then obtain rest where k: "w_view w k \<noteq> None" "rest \<noteq> []" "split_dot k = ident # ''out'' # ''body'' # TypeLink # rest"
      unfolding ks(2) p by auto
    from graph_okD(1)[OF w(2) k(1), of ident "TypeLink # rest"] k(3) obtain B where
      B: "rest = [B]" "link_ok (ident, TypeLink, B)" by auto
    then have "split_dot k = split_dot (OutLinkBodyKey ident TypeLink B)" using k(3) by (auto simp: link_ok_def)
    then have "k = OutLinkBodyKey ident TypeLink B" by simp
    with k(1) B(2) s show "k \<in> {OutLinkBodyKey ident TypeLink T}" by (auto simp: sole_type_def)
  next
    fix k assume "k \<in> {OutLinkBodyKey ident TypeLink T}"
    moreover have "split_dot (OutLinkBodyKey ident TypeLink T) = split_dot ?p @ [T]" using l p by (auto simp: link_ok_def)
    ultimately show "k \<in> set ks" unfolding ks(2) using s l by (auto simp: sole_type_def)
  qed
  then obtain ks' where "ks = OutLinkBodyKey ident TypeLink T # ks'" by (cases ks) auto
  moreover have "lastToken (OutLinkBodyKey ident TypeLink T) = T" using l by (auto simp: lastToken_def link_ok_def)
  moreover have "OutLinkBodyKey ident TypeLink ''>'' = ?p @ ''.>''" by (simp add: OutLinkBodyKey_def)
  ultimately show ?thesis using ks(1) by (simp add: findObjectType_def)
qed

lemma object_put_type:
  assumes J: "easyjson_ok J" and m: "graph_ok m" and new: "m (OutLinkBodyKey objects ObjectLink ident) = None"
    and fresh: "m ident \<noteq> None \<or> (\<forall>B. m (OutLinkBodyKey ident TypeLink B) = None)"
    and ids: "vertex_id ident" "vertex_id objects" "vertex_id T"
  shows "sole_type (spec_object_put J objects T ident body m) ident T" and "graph_ok (spec_object_put J objects T ident body m)"
proof -
  have lk: "link_ok (objects, ObjectLink, ident)" "link_ok (ident, TypeLink, T)" "link_ok (T, ObjectLink, ident)"
    using ids hl_names by (simp_all add: link_ok_def)
  note lb = hlLinkBody_ok[OF J vertex_simple[OF ids(1)]] hlLinkBody_ok[OF J vertex_simple[OF ids(3)]]
  have v: "spec_vertex_create J ident body m (OutLinkBodyKey ident TypeLink B) = None" if l: "link_ok (ident, TypeLink, B)" for B
    using fresh l ids(1) spec_vertex_delete_view(3)[OF m ids(1) l, of J]
    by (auto simp: spec_vertex_create_def)
  have "(spec_object_put J objects T ident body m (OutLinkBodyKey ident TypeLink B) \<noteq> None) = (B = T)"
    if l: "link_ok (ident, TypeLink, B)" for B
    using new v[OF l] hl_names(3)
    by (auto simp: spec_object_put_def link_create_body[OF J lk(1) lb(1) l] link_create_body[OF J lk(2) lb(2) l]
        link_create_body[OF J lk(3) lb(1) l])
  then show "sole_type (spec_object_put J objects T ident body m) ident T" using lk(2) by (simp add: sole_type_def)
  show "graph_ok (spec_object_put J objects T ident body m)"
    using new vertex_graph(1)[OF m ids(1), of J body] lk lb
    by (simp add: spec_object_put_def link_create_graph[OF J])
qed

section \<open>The triggers of an update\<close>

definition storedBody :: "'j easyjson \<Rightarrow> (string \<Rightarrow> bytes option) \<Rightarrow> string \<Rightarrow> 'j" where
  "storedBody J m A = (case m A of None \<Rightarrow> NewJSONObject J
     | Some v \<Rightarrow> (case JSONFromBytes J v of None \<Rightarrow> NewJSONObject J | Some j \<Rightarrow> j))"

abbreviation vertex_update_name :: string where
  "vertex_update_name \<equiv> ''functions.graph.api.vertex.update''"

definition updateOp :: "'j easyjson \<Rightarrow> string \<Rightarrow> 'j \<Rightarrow> 'j \<Rightarrow> 'j" where
  "updateOp J ident old new = setOpt J ''new_body'' (Some new) (setOpt J ''old_body'' (Some old)
     (SetByPath J (SetByPath J (NewJSONObject J) ''op'' (NewJSONString J vertex_update_name)) ''id'' (NewJSONString J ident)))"

lemma updateOp_fields:
  assumes J: "easyjson_ok J"
  shows "AsStringDefault J (GetByPath J (updateOp J i old new) ''op'') [] = vertex_update_name"
    and "AsStringDefault J (GetByPath J (updateOp J i old new) ''id'') [] = i"
    and "optPath J (updateOp J i old new) ''old_body'' = Some old" and "optPath J (updateOp J i old new) ''new_body'' = Some new"
proof -
  note laws = ej_obj_new[OF J] ej_obj_set[OF J] ej_get_set[OF J] ej_get_other[OF J] ej_str[OF J]
    ej_exists_set[OF J] ej_exists_new[OF J] ej_str_default[OF J] simple_path_def dot_free_def setOpt_def
  show "AsStringDefault J (GetByPath J (updateOp J i old new) ''op'') [] = vertex_update_name"
    by (simp add: updateOp_def laws)
  show "AsStringDefault J (GetByPath J (updateOp J i old new) ''id'') [] = i"
    by (simp add: updateOp_def laws)
  show "optPath J (updateOp J i old new) ''old_body'' = Some old" "optPath J (updateOp J i old new) ''new_body'' = Some new"
    by (simp_all add: updateOp_def optPath_def laws)
qed

lemma return_op_stack:
  assumes J: "easyjson_ok J"
  shows "getOpStackFromOptions J (Some (DeepMerge J (NewJSONObject J) (returnOpStack J))) = Some (NewJSONArray J)"
proof -
  have p: "simple_path ''return_op_stack''" by (simp add: simple_path_def dot_free_def)
  have "IsObject J (returnOpStack J)" "GetByPath J (returnOpStack J) ''return_op_stack'' = NewJSONBool J True"
    using ej_obj_set[OF J ej_obj_new[OF J] p] ej_get_set[OF J ej_obj_new[OF J] p]
    by (simp_all add: returnOpStack_def NewJSONObjectWithKeyValue_def)
  then show ?thesis
    by (simp add: getOpStackFromOptions_def ej_merge_new[OF J] ej_bool_default[OF J] ej_bool[OF J])
qed

lemma one_op:
  fixes J :: "'j easyjson" and op :: 'j
  assumes J: "easyjson_ok J"
  defines "r \<equiv> addOpStackToResult J (statusResult J ''ok'' []) (Some (AddToArray J (NewJSONArray J) op))"
  shows "optPath J r ''op_stack'' = Some (AddToArray J (NewJSONArray J) op)"
    and "IsArray J (AddToArray J (NewJSONArray J) op)" and "ArraySize J (AddToArray J (NewJSONArray J) op) = 1"
    and "ArrayElement J (AddToArray J (NewJSONArray J) op) 0 = op"
proof -
  have p: "simple_path ''op_stack''" by (simp add: simple_path_def dot_free_def)
  show a: "IsArray J (AddToArray J (NewJSONArray J) op)" "ArraySize J (AddToArray J (NewJSONArray J) op) = 1"
    "ArrayElement J (AddToArray J (NewJSONArray J) op) 0 = op"
    using ej_arr_add[OF J ej_arr_new[OF J]] ej_size_add[OF J ej_arr_new[OF J]] ej_elem_add[OF J ej_arr_new[OF J], of 0 op]
    by (simp_all add: ej_size_new[OF J])
  show "optPath J r ''op_stack'' = Some (AddToArray J (NewJSONArray J) op)"
    using status_result(1)[OF J, of "''ok''" "[]"] a(1) ej_get_set[OF J _ p] ej_exists_set[OF J _ p p]
    by (simp add: r_def addOpStackToResult_def optPath_def)
qed

text \<open>The reply of the low-level update holds the old and the new body.\<close>

lemma vertex_update_reply:
  assumes E: "env_ok E" and w: "w_ok E w" and A: "vertex_id A"
    and ctx: "hasReply ctx" "SelfID ctx = A" "SelfTypename ctx = vertex_update_name"
      "GetByPath (ej E) (Payload ctx) ''body'' = body" "IsObject (ej E) body"
      "AsStringDefault (ej E) (GetByPath (ej E) (Payload ctx) ''mode'') ''merge'' = mode"
      "getOpStackFromOptions (ej E) (Some (Options ctx)) = Some (NewJSONArray (ej E))"
  shows "fst (LLAPIVertexUpdate E req ctx w) = Some (addOpStackToResult (ej E) (statusResult (ej E) ''ok'' [])
     (Some (AddToArray (ej E) (NewJSONArray (ej E))
        (updateOp (ej E) A (storedBody (ej E) (w_view w) A) (updatedBody (ej E) mode (storedBody (ej E) (w_view w) A) body)))))"
proof -
  obtain q w1 where g: "GetQueryID E ctx w = (q, w1)" by fastforce
  have 1: "does E id w w1" using does_query[OF w g] .
  have old: "getContext E A w1 = (storedBody (ej E) (w_view w) A, w1)"
    using getContext_view[OF does_ok[OF 1], of A] does_view[OF 1] by (simp add: storedBody_def)
  show ?thesis
    using ctx g old ej_arr_new[OF env_ok_ej[OF E]]
    by (auto simp: LLAPIVertexUpdate_def Let_def ReplyQueryID_reply GetObjectContext_def SetObjectContext_def
        setContext_def updatedBody_def addVertexOpToOpStack_def addOp_def updateOp_def)
qed

lemma published_signals:
  "published (signalAll J ctx target payload fs w) =
     published w @ map (\<lambda>f. (f @ CHR ''.'' # target, buildNatsData J (SelfTypename ctx) (SelfID ctx) (Some payload) None)) fs"
  unfolding signalAll_def by (induction fs arbitrary: w) (simp_all add: signal_def)

definition objectChange :: "'j easyjson \<Rightarrow> 'j \<Rightarrow> 'j \<Rightarrow> 'j" where
  "objectChange J old new =
     SetByPath J (SetByPath J (NewJSONObject J) ''old_body'' old) ''new_body'' new"

lemma vertex_not_Nil: "vertex_id s \<Longrightarrow> s \<noteq> []"
  using vertex_simple[of s] unfolding simple_id_def by blast

lemma update_op_triggers:
  assumes E: "env_ok E" and w: "w_ok E w" "graph_ok (w_view w)" and s: "sole_type (w_view w) ident T"
    and t: "w_view w T = Some tv" "JSONFromBytes (ej E) tv = Some tb" "PathExists (ej E) tb ''triggers''"
      "IsNonEmptyObject (ej E) (GetByPath (ej E) tb ''triggers'')"
      "AsArrayString (ej E) (GetByPath (ej E) (GetByPath (ej E) tb ''triggers'') ''update'') = Some fs"
    and i: "ident \<noteq> []"
  shows "executeOp E ctx (updateOp (ej E) ident old new) w =
    signalAll (ej E) ctx ident (SetByPath (ej E) (NewJSONObject (ej E)) ''trigger.object.update'' (objectChange (ej E) old new)) fs w"
proof -
  note J = env_ok_ej[OF E]
  note f = findObjectType_sole[OF w s]
  have T: "T \<noteq> []" using s vertex_not_Nil[of T] by (auto simp: sole_type_def link_ok_def)
  have "wGetValueAsJSON E T w = (Inr tb, w)" using wGetValueAsJSON_cases[OF w(1), of T] t(1,2) by auto
  then have "getObjectTypeTriggers E ident w = (GetByPath (ej E) tb ''triggers'', w)"
    using f t(3) by (simp add: getObjectTypeTriggers_def triggersOf_def)
  then have "executeVertexOp E ctx (updateOp (ej E) ident old new) 1 w =
    signalAll (ej E) ctx ident (SetByPath (ej E) (NewJSONObject (ej E)) ''trigger.object.update'' (objectChange (ej E) old new)) fs w"
    using f T i t(4,5)
    by (simp add: executeVertexOp_def Let_def isVertexAnObject_def executeObjectTriggers_def elems_def triggerFunctions_def
        objectChange_def setOpt_def updateOp_fields[OF J])
  moreover have "[0..<3] = [0, 1, 2 :: nat]" by code_simp
  ultimately show ?thesis
    by (simp add: executeOp_def Let_def llAPIVertexCUDNames_def llAPILinkCUDNames_def updateOp_fields(1)[OF J])
qed

lemma update_object_handler:
  assumes E: "env_ok E" and reg: "ll_registered E registered" and w: "w_ok E w" "ll_idle (running w)" "graph_ok (w_view w)"
    and ctx: "hasReply ctx" "SelfID ctx = ident" "Payload ctx = p" and A: "vertex_id ident"
    and p: "GetByPath (ej E) p ''body'' = body" "IsObject (ej E) body"
      "AsStringDefault (ej E) (GetByPath (ej E) p ''mode'') ''merge'' = mode"
    and s: "sole_type (w_view w) ident T" "T \<noteq> ident"
    and t: "w_view w T = Some tv" "JSONFromBytes (ej E) tv = Some tb" "PathExists (ej E) tb ''triggers''"
      "IsNonEmptyObject (ej E) (GetByPath (ej E) tb ''triggers'')"
      "AsArrayString (ej E) (GetByPath (ej E) (GetByPath (ej E) tb ''triggers'') ''update'') = Some fs"
  defines "old \<equiv> storedBody (ej E) (w_view w) ident"
  shows "hl_answers E (spec_vertex_update (ej E) ident mode body) w (UpdateObject E (goLangLocalRequest E registered (n + 5) tt ti) ctx w) \<and>
    published (snd (UpdateObject E (goLangLocalRequest E registered (n + 5) tt ti) ctx w)) = published w @
      map (\<lambda>f. (f @ CHR ''.'' # ident, buildNatsData (ej E) (SelfTypename ctx) ident
        (Some (SetByPath (ej E) (NewJSONObject (ej E)) ''trigger.object.update'' (objectChange (ej E) old (updatedBody (ej E) mode old body)))) None)) fs"
proof -
  let ?J = "ej E" and ?new = "updatedBody (ej E) mode old body" and ?req = "goLangLocalRequest E registered (n + 5) tt ti"
  note J = env_ok_ej[OF E]
  let ?w = "w\<lparr>running := (vertex_update_name, ident) # running w\<rparr>"
  let ?ctx = "handlerContext ?J (NewJSONObject ?J) vertex_update_name ident tt ti (Some p) (Some (returnOpStack ?J)) True"
  let ?res = "addOpStackToResult ?J (statusResult ?J ''ok'' []) (Some (AddToArray ?J (NewJSONArray ?J) (updateOp ?J ident old ?new)))"
  have "served E (spec_vertex_update ?J ident mode body) w
      (ll_request_from E registered n tt ti vertex_update_name ident p (Some (returnOpStack ?J)) w)"
    by (rule serve_vertex_update[OF E reg w(1,2) A p])
  then obtain res w1 where v: "?req vertex_update_name ident (Some p) (Some (returnOpStack ?J)) w = (Inr res, w1)"
    "does E (spec_vertex_update ?J ident mode body) w w1" by (rule split_served)
  have "fst (LLAPIVertexUpdate E (goLangLocalRequest E registered (n + 4) vertex_update_name ident) ?ctx ?w) = Some ?res"
    using vertex_update_reply[OF E, of ?w ident ?ctx body mode "goLangLocalRequest E registered (n + 4) vertex_update_name ident"]
      w(1) A p return_op_stack[OF J] by (simp add: handlerContext_def old_def)
  moreover have "(vertex_update_name, ident) \<notin> set (running w)" using w(2) by (simp add: ll_idle_iff)
  moreover have five: "n + 5 = Suc (n + 4)" by simp
  ultimately have res: "res = ?res"
    using v(1)[unfolded five goLangLocalRequest.simps(2)] ll_functions(2)[OF reg] by (auto split: prod.splits)
  have v1: "w_view w1 = (w_view w)(ident \<mapsto> ToBytes ?J ?new)"
    using does_view[OF v(2)] by (simp add: spec_vertex_update_def old_def storedBody_def Let_def)
  have "graph_ok (w_view w1)" unfolding v1 by (rule vertex_set_graph[OF w(3) A])
  moreover have "sole_type (w_view w1) ident T"
    using s(1) A unfolding v1 sole_type_def by auto
  moreover have "w_view w1 T = Some tv" using s(2) t(1) by (simp add: v1)
  moreover have "ident \<noteq> []" by (rule vertex_not_Nil[OF A])
  ultimately have tr: "triggersOfResult E ctx (Inr res) w1 = signalAll ?J ctx ident
      (SetByPath ?J (NewJSONObject ?J) ''trigger.object.update'' (objectChange ?J old ?new)) fs w1"
    using update_op_triggers[OF E does_ok[OF v(2)] _ _ _ t(2-5), where ident = ident and T = T and ctx = ctx and old = old and new = ?new] one_op[OF J, of "updateOp ?J ident old ?new"]
    by (simp add: triggersOfResult_def res executeTriggersFromLLOpStack_def)
  have "checkRequestError ?J (Inr res) = None" using served_no_error[OF J ok_result(1)[OF J]] by (simp add: res)
  then have u: "UpdateObject E ?req ctx w = replyOk E ctx (triggersOfResult E ctx (Inr res) w1)"
    using v(1) ctx(2,3) by (simp add: UpdateObject_def)
  have "hl_answers E (spec_vertex_update ?J ident mode body) w (UpdateObject E ?req ctx w)"
    unfolding u by (rule replyOk_answers[OF E ctx(1) brings_quiet[OF does_brings[OF v(2)] result_quiet[OF does_ok[OF v(2)]]]])
  moreover have "published (snd (replyOk E ctx w2)) = published w2" for w2
    using ctx(1) by (auto simp: replyOk_def reply_def Let_def ReplyQueryID_reply GetQueryID_def GetUniqueStrID_def split: option.split)
  moreover have "published w1 = published w" using v(2) by (simp add: does_def same_rest_def)
  ultimately show ?thesis unfolding u tr by (simp add: published_signals ctx(2))
qed

end
