(* ===== verification/HLProps.thy ===== *)
theory HLProps
  imports HLObjects LLProps
begin

text \<open>
  The properties of the high-level graph API, over requests to a runtime in which no low-level
  function is in the call chain, each with an instance on the sample environment.
\<close>

section \<open>Requests to high-level functions\<close>

abbreviation hl_request ::
  "('j, 'kv) env \<Rightarrow> (string \<Rightarrow> (('j, 'kv) handler \<times> 'j) option) \<Rightarrow> nat \<Rightarrow> string \<Rightarrow> string \<Rightarrow> 'j \<Rightarrow> 'j option \<Rightarrow>
     ('j, 'kv) world \<Rightarrow> (string + 'j) \<times> ('j, 'kv) world" where
  "hl_request E registered n typename ident p options w \<equiv>
     goLangLocalRequest E registered (Suc (n + 5)) ''ingress'' ''go'' typename ident (Some p) options w"

definition hl_registered :: "nat \<Rightarrow> ('j, 'kv) env \<Rightarrow> (string \<Rightarrow> (('j, 'kv) handler \<times> 'j) option) \<Rightarrow> bool" where
  "hl_registered fuel E registered \<longleftrightarrow> ll_registered E registered \<and>
     (\<forall>typename h. hlFunction fuel E typename = Some h \<longrightarrow> registered typename = Some (h, NewJSONObject (ej E)))"

lemma hl_functions:
  assumes "hl_registered fuel E registered"
  shows "registered ''functions.cmdb.api.type.create'' = Some (CreateType E, NewJSONObject (ej E))"
    and "registered ''functions.cmdb.api.object.create'' = Some (CreateObject E, NewJSONObject (ej E))"
    and "registered ''functions.cmdb.api.object.update'' = Some (UpdateObject E, NewJSONObject (ej E))"
    and "registered ''functions.cmdb.api.object.delete'' = Some (DeleteObject fuel E, NewJSONObject (ej E))"
    and "ll_registered E registered"
  using assms unfolding hl_registered_def by (simp_all add: hlFunction_def)

text \<open>A request of the creation of an object, and what makes it one.\<close>

definition object_payload :: "'j easyjson \<Rightarrow> 'j \<Rightarrow> string \<Rightarrow> string \<Rightarrow> bool" where
  "object_payload J p pre ot \<longleftrightarrow>
     AsString J (GetByPath J p ''origin_type'') = Some ot \<and> AsStringDefault J (GetByPath J p ''prefix'') [] = pre \<and>
     IsObject J (GetByPath J p ''body'') \<and> vertex_id (pre @ Objects) \<and> vertex_id (pre @ ot)"

lemma idle_cons: "ll_idle ((''functions.cmdb.api.'' @ n, i) # busy) = ll_idle busy"
  by (simp add: ll_idle_iff)

lemma serve_create_object:
  assumes E: "env_ok E" and reg: "hl_registered fuel E registered" and w: "w_ok E w" "ll_idle (running w)" "graph_ok (w_view w)"
    and free: "(''functions.cmdb.api.object.create'', ident) \<notin> set (running w)"
    and p: "object_payload (ej E) p pre ot" and A: "vertex_id ident"
  shows "hl_served E (spec_object_put (ej E) (pre @ Objects) (pre @ ot) ident (GetByPath (ej E) p ''body'')) w
     (hl_request E registered n ''functions.cmdb.api.object.create'' ident p options w)"
proof (rule hl_served_request[where registered = registered, OF hl_functions(2)[OF reg] free])
  let ?w = "w\<lparr>running := (''functions.cmdb.api.object.create'', ident) # running w\<rparr>"
  let ?ctx = "handlerContext (ej E) (NewJSONObject (ej E)) ''functions.cmdb.api.object.create'' ident ''ingress'' ''go'' (Some p) options True"
  have "hl_answers E (spec_object_put (ej E) (pre @ Objects) (pre @ ot) ident (GetByPath (ej E) p ''body'')) ?w
     (CreateObject E (goLangLocalRequest E registered (n + 5) ''functions.cmdb.api.object.create'' ident) ?ctx ?w)"
  proof (rule create_object_handler[OF E hl_functions(5)[OF reg]])
    show "ll_idle (running ?w)" using w(2) idle_cons[of "''object.create''" ident "running w"] by simp
  qed (use w p A in \<open>auto simp: handlerContext_def object_payload_def\<close>)
  then show "hl_answers E (spec_object_put (ej E) (pre @ Objects) (pre @ ot) ident (GetByPath (ej E) p ''body'')) ?w
     (CreateObject E (goLangLocalRequest E registered (n + 5) ''functions.cmdb.api.object.create'' ident) ?ctx ?w)" .
qed

text \<open>
  C14: a request to create an object is answered ok; an object that is already among the objects is
  left alone, otherwise its vertex is created and linked with the objects and, both ways, with its type.
\<close>

theorem create_object_refines:
  assumes "env_ok E" and "hl_registered fuel E registered" and "w_ok E w" and "ll_idle (running w)" and "graph_ok (w_view w)"
    and "(''functions.cmdb.api.object.create'', ident) \<notin> set (running w)"
    and "object_payload (ej E) p pre ot" and "vertex_id ident"
  shows "hl_served E (spec_object_put (ej E) (pre @ Objects) (pre @ ot) ident (GetByPath (ej E) p ''body'')) w
     (hl_request E registered n ''functions.cmdb.api.object.create'' ident p options w)"
  by (rule serve_create_object[OF assms])

text \<open>
  C15: after the creation of a new object the graph is well-formed and the type that
  \<open>findObjectType\<close> finds for it is the one of the request.
\<close>

theorem created_object_has_its_type:
  assumes "env_ok E" and "hl_registered fuel E registered" and "w_ok E w" and "ll_idle (running w)" and "graph_ok (w_view w)"
    and "(''functions.cmdb.api.object.create'', ident) \<notin> set (running w)"
    and "object_payload (ej E) p pre ot" and "vertex_id ident"
    and "w_view w (OutLinkBodyKey (pre @ Objects) ObjectLink ident) = None"
    and "w_view w ident \<noteq> None \<or> (\<forall>B. w_view w (OutLinkBodyKey ident TypeLink B) = None)"
  shows "let w' = snd (hl_request E registered n ''functions.cmdb.api.object.create'' ident p options w)
    in findObjectType E ident w' = (pre @ ot, w') \<and> graph_ok (w_view w')"
proof -
  let ?w' = "snd (hl_request E registered n ''functions.cmdb.api.object.create'' ident p options w)"
  have b: "brings E (spec_object_put (ej E) (pre @ Objects) (pre @ ot) ident (GetByPath (ej E) p ''body'')) w ?w'"
    using serve_create_object[OF assms(1-8)] by (simp add: hl_served_def)
  note t = object_put_type[OF env_ok_ej[OF assms(1)] assms(5,9,10,8)]
  have ids: "vertex_id (pre @ Objects)" "vertex_id (pre @ ot)" using assms(7) by (auto simp: object_payload_def)
  have g: "graph_ok (w_view ?w')" unfolding brings_view[OF b] by (rule t(2)[OF ids])
  moreover have "sole_type (w_view ?w') ident (pre @ ot)" unfolding brings_view[OF b] by (rule t(1)[OF ids])
  ultimately show ?thesis using findObjectType_sole[OF brings_ok[OF b] g] by (simp add: Let_def)
qed

text \<open>
  C16: the update of an object updates its vertex and, when the object has one type and the type has
  triggers for updates, sends each function of the trigger one message for the object, with the body
  before and after the update, in the order of the list.
\<close>

theorem update_object_fires_triggers:
  assumes "env_ok E" and "hl_registered fuel E registered" and "w_ok E w" and "ll_idle (running w)" and "graph_ok (w_view w)"
    and "(''functions.cmdb.api.object.update'', ident) \<notin> set (running w)" and "vertex_id ident"
    and "IsObject (ej E) (GetByPath (ej E) p ''body'')"
    and "sole_type (w_view w) ident T" and "T \<noteq> ident"
    and "w_view w T = Some tv" and "JSONFromBytes (ej E) tv = Some tb" and "PathExists (ej E) tb ''triggers''"
    and "IsNonEmptyObject (ej E) (GetByPath (ej E) tb ''triggers'')"
    and "AsArrayString (ej E) (GetByPath (ej E) (GetByPath (ej E) tb ''triggers'') ''update'') = Some fs"
  shows "let out = hl_request E registered n ''functions.cmdb.api.object.update'' ident p options w;
      mode = AsStringDefault (ej E) (GetByPath (ej E) p ''mode'') ''merge'';
      old = storedBody (ej E) (w_view w) ident;
      new = updatedBody (ej E) mode old (GetByPath (ej E) p ''body'');
      message = SetByPath (ej E) (NewJSONObject (ej E)) ''trigger.object.update'' (objectChange (ej E) old new)
    in hl_served E (spec_vertex_update (ej E) ident mode (GetByPath (ej E) p ''body'')) w out \<and>
       published (snd out) = published w @
         map (\<lambda>f. (f @ CHR ''.'' # ident, buildNatsData (ej E) ''functions.cmdb.api.object.update'' ident (Some message) None)) fs"
proof -
  let ?name = "''functions.cmdb.api.object.update''"
  let ?w = "w\<lparr>running := (?name, ident) # running w\<rparr>"
  let ?ctx = "handlerContext (ej E) (NewJSONObject (ej E)) ?name ident ''ingress'' ''go'' (Some p) options True"
  let ?req = "goLangLocalRequest E registered (n + 5) ?name ident"
  have c: "hasReply ?ctx" "SelfID ?ctx = ident" "Payload ?ctx = p" "SelfTypename ?ctx = ?name" by (simp_all add: handlerContext_def)
  have w: "w_ok E ?w" "ll_idle (running ?w)" "graph_ok (w_view ?w)" "sole_type (w_view ?w) ident T" "w_view ?w T = Some tv"
    using assms(3-5,9,11) idle_cons[of "''object.update''" ident "running w"] by simp_all
  note h = update_object_handler[OF assms(1) hl_functions(5)[OF assms(2)] w(1-3) c(1-3) assms(7) refl assms(8) refl w(4) assms(10) w(5)
    assms(12-15), of n ?name ident]
  obtain rep w' where r: "UpdateObject E ?req ?ctx ?w = (rep, w')" by fastforce
  have out: "hl_request E registered n ?name ident p options w =
      (Inr (case rep of None \<Rightarrow> NewJSONObject (ej E) | Some x \<Rightarrow> x), w'\<lparr>running := running w\<rparr>)"
    using assms(6) r by (subst goLangLocalRequest.simps(2)) (simp add: hl_functions(3)[OF assms(2)])
  have "published w' = published (snd (hl_request E registered n ?name ident p options w))" unfolding out by simp
  moreover have "hl_served E (spec_vertex_update (ej E) ident (AsStringDefault (ej E) (GetByPath (ej E) p ''mode'') ''merge'') (GetByPath (ej E) p ''body'')) w
      (hl_request E registered n ?name ident p options w)"
    by (rule hl_served_request[where registered = registered, OF hl_functions(3)[OF assms(2)] assms(6)]) (use h in simp)
  ultimately show ?thesis using h unfolding Let_def r c(4) by simp
qed

text \<open>
  A cascading deletion of an object without outgoing links is answered ok and deletes nothing:
  the loop ends before it deletes the last vertex of its queue.
\<close>

lemma cascade_keeps_last_vertex:
  assumes "env_ok E" and "hl_registered (Suc fuel) E registered" and "w_ok E w" and "graph_ok (w_view w)"
    and "(''functions.cmdb.api.object.delete'', ident) \<notin> set (running w)" and "vertex_id ident"
    and "AsStringDefault (ej E) (GetByPath (ej E) p ''mode'') ''vertex'' = ''cascade''"
    and "\<forall>T B. w_view w (OutLinkBodyKey ident T B) = None"
  shows "hl_served E id w (hl_request E registered n ''functions.cmdb.api.object.delete'' ident p options w)"
proof (rule hl_served_request[where registered = registered, OF hl_functions(4)[OF assms(2)] assms(5)])
  let ?name = "''functions.cmdb.api.object.delete''"
  let ?w = "w\<lparr>running := (?name, ident) # running w\<rparr>"
  let ?ctx = "handlerContext (ej E) (NewJSONObject (ej E)) ?name ident ''ingress'' ''go'' (Some p) options True"
  have w: "w_ok E ?w" using assms(3) by simp
  obtain ks where ks: "wGetKeysByPattern E ((ident @ ''.out.body'') @ ''.>'') ?w = (ks, ?w)"
    "set ks = {k. w_view ?w k \<noteq> None \<and> (\<exists>rest. rest \<noteq> [] \<and> split_dot k = split_dot (ident @ ''.out.body'') @ rest)}"
    using pattern_keys[OF w, of "ident @ ''.out.body''"] by blast
  have "out_links (w_view w) ident = {}" using assms(8) by (auto simp: out_links_def)
  then have "set (map (outLinkOfKey ident) ks) = {}"
    using out_link_keys[OF assms(4,6), of ks] ks(2) by (simp only: w_view_frame)
  then have "ks = []" by simp
  then have k: "wGetKeysByPattern E (OutLinkBodyPattern ident) ?w = ([], ?w)"
    using ks(1) by (simp add: OutLinkBodyPattern_def)
  have "hl_answers E id ?w (replyOk E ?ctx ?w)"
    by (rule replyOk_answers[OF assms(1) _ brings_refl[OF w]]) (simp add: handlerContext_def)
  moreover have "DeleteObject (Suc fuel) E (goLangLocalRequest E registered (n + 5) ?name ident) ?ctx ?w = replyOk E ?ctx ?w"
    using k assms(7) by (simp add: DeleteObject_def Let_def handlerContext_def)
  ultimately show "hl_answers E id ?w (DeleteObject (Suc fuel) E (goLangLocalRequest E registered (n + 5) ?name ident) ?ctx ?w)" by simp
qed

section \<open>Samples\<close>

definition sample_hl :: "string \<Rightarrow> ((json, sample_kv) handler \<times> json) option" where
  "sample_hl t = (case hlFunction 1 sample_env t of Some h \<Rightarrow> Some (h, NewJSONObject sample_json) | None \<Rightarrow> sample_registered t)"

lemma sample_hl_registered: "hl_registered (Suc 0) sample_env sample_hl"
proof -
  have "hlFunction 1 sample_env t = None" if "llFunction sample_env t = Some h" for t h
    using that by (auto simp: llFunction_def hlFunction_def llAPIVertexCUDNames_def llAPILinkCUDNames_def split: if_splits)
  then show ?thesis
    using sample_reg by (auto simp: hl_registered_def ll_registered_def sample_hl_def)
qed

definition objectRequest :: json where
  "objectRequest = JObj [(''origin_type'', JStr ''t''), (''body'', JObj [(''x'', JNum 1)])]"

lemma sample_ids: "vertex_id ''t''" "vertex_id Objects"
  using sample_link hl_names by (simp_all add: link_ok_def vertex_id_plain)

lemma objectRequest_ok: "object_payload sample_json objectRequest [] ''t''"
  using sample_ids by (simp add: object_payload_def objectRequest_def sample_json_def)

lemmas sample_hl_runtime = sample_env_ok sample_hl_registered sample_world_ok(1) sample_idle

lemma sample_graph: "graph_ok (w_view sample_world)"
  by (simp add: graph_ok_empty)

theorem create_object_refines_witness:
  "hl_served sample_env (spec_object_put sample_json Objects ''t'' ''a'' (JObj [(''x'', JNum 1)])) sample_world
     (hl_request sample_env sample_hl 0 ''functions.cmdb.api.object.create'' ''a'' objectRequest None sample_world)"
proof -
  have "GetByPath sample_json objectRequest ''body'' = JObj [(''x'', JNum 1)]"
    by (simp add: objectRequest_def sample_json_def)
  then show ?thesis
    using create_object_refines[OF sample_hl_runtime sample_graph, of "''a''" objectRequest "[]" "''t''" 0 None]
      objectRequest_ok sample_link(2) by simp
qed

theorem created_object_has_its_type_witness:
  "fst (findObjectType sample_env ''a''
     (snd (hl_request sample_env sample_hl 0 ''functions.cmdb.api.object.create'' ''a'' objectRequest None sample_world))) = ''t''"
  using created_object_has_its_type[OF sample_hl_runtime sample_graph, of "''a''" objectRequest "[]" "''t''" 0 None]
    objectRequest_ok sample_link(2) by (simp add: Let_def)

lemma cascade_keeps_last_vertex_witness:
  "hl_served sample_env id sample_world (hl_request sample_env sample_hl 0 ''functions.cmdb.api.object.delete'' ''a''
     (JObj [(''mode'', JStr ''cascade'')]) None sample_world)"
proof -
  have "AsStringDefault sample_json (GetByPath sample_json (JObj [(''mode'', JStr ''cascade'')]) ''mode'') ''vertex'' = ''cascade''"
    by (simp add: sample_json_def)
  then show ?thesis
    using cascade_keeps_last_vertex[OF sample_hl_runtime(1-3) sample_graph, of "''a''" "JObj [(''mode'', JStr ''cascade'')]" 0 None]
      sample_link(2) by simp
qed

text \<open>The object \<open>a\<close> of the type \<open>t\<close>, whose updates trigger the function \<open>f\<close>.\<close>

definition triggeringType :: json where
  "triggeringType = JObj [(''triggers'', JObj [(''update'', JArr [JStr ''f''])])]"

definition typed_world :: "(json, sample_kv) world" where
  "typed_world = wSetValue sample_env ''t'' (enc triggeringType)
     (wSetValue sample_env (InLinkKey ''t'' ''a'' TypeLink) []
       (wSetValue sample_env (OutLinkBodyKey ''a'' TypeLink ''t'') [] sample_world))"

lemma typed_world_ok:
  "w_ok sample_env typed_world" "running typed_world = []" "published typed_world = []" "graph_ok (w_view typed_world)"
  "sole_type (w_view typed_world) ''a'' ''t''" "w_view typed_world ''t'' = Some (enc triggeringType)" "w_view typed_world ''a'' = None"
proof -
  let ?w1 = "wSetValue sample_env (OutLinkBodyKey ''a'' TypeLink ''t'') [] sample_world"
  let ?w2 = "wSetValue sample_env (InLinkKey ''t'' ''a'' TypeLink) [] ?w1"
  have l: "link_ok (''a'', TypeLink, ''t'')" using sample_ids sample_link(2) hl_names by (simp add: link_ok_def)
  have ids: "simple_id ''a''" "simple_id ''t''" "simple_id TypeLink" using sample_ids sample_link(2) hl_names by simp_all
  have 1: "does sample_env (\<lambda>m. m(OutLinkBodyKey ''a'' TypeLink ''t'' \<mapsto> [])) sample_world ?w1"
    by (rule does_set) (use ids in simp_all)
  have 2: "does sample_env (\<lambda>m. m(InLinkKey ''t'' ''a'' TypeLink \<mapsto> [])) ?w1 ?w2"
    by (rule does_set[OF does_ok[OF 1]]) (use ids in simp_all)
  have 3: "does sample_env (\<lambda>m. m(''t'' \<mapsto> enc triggeringType)) ?w2 typed_world"
    unfolding typed_world_def by (rule does_set[OF does_ok[OF 2]]) (use ids in simp_all)
  have v: "w_view typed_world = [OutLinkBodyKey ''a'' TypeLink ''t'' \<mapsto> [], InLinkKey ''t'' ''a'' TypeLink \<mapsto> [], ''t'' \<mapsto> enc triggeringType]"
    using does_view[OF 1] does_view[OF 2] does_view[OF 3] by simp
  show "w_ok sample_env typed_world" using does_ok[OF 3] .
  show "running typed_world = []" using does_running[OF 1] does_running[OF 2] does_running[OF 3] by simp
  show "published typed_world = []" using 1 2 3 by (simp add: does_def same_rest_def sample_world_def)
  show "w_view typed_world ''t'' = Some (enc triggeringType)" by (simp add: v)
  show "w_view typed_world ''a'' = None" using l ids by (auto simp: v dest: sym)
  show "sole_type (w_view typed_world) ''a'' ''t''" using l ids by (auto simp: v sole_type_def)
  show "graph_ok (w_view typed_world)"
    using l ids by (auto simp: v graph_ok_def mirrored_def split: if_splits)
qed

theorem update_object_fires_triggers_witness:
  "published (snd (hl_request sample_env sample_hl 0 ''functions.cmdb.api.object.update'' ''a'' objectRequest None typed_world)) =
     [(''f.a'', buildNatsData sample_json ''functions.cmdb.api.object.update'' ''a'' (Some
        (SetByPath sample_json (NewJSONObject sample_json) ''trigger.object.update''
          (objectChange sample_json (JObj []) (JObj [(''x'', JNum 1)])))) None)]"
proof -
  have p: "AsStringDefault sample_json (GetByPath sample_json objectRequest ''mode'') ''merge'' = ''merge''"
    "GetByPath sample_json objectRequest ''body'' = JObj [(''x'', JNum 1)]" "NewJSONObject sample_json = JObj []"
    by (simp_all add: objectRequest_def sample_json_def)
  have t0: "JSONFromBytes sample_json (enc triggeringType) = Some triggeringType" by (simp add: sample_json_def)
  have t: "PathExists sample_json triggeringType ''triggers''"
    "IsNonEmptyObject sample_json (GetByPath sample_json triggeringType ''triggers'')"
    "AsArrayString sample_json (GetByPath sample_json (GetByPath sample_json triggeringType ''triggers'') ''update'') = Some [''f'']"
    "IsObject sample_json (JObj [(''x'', JNum 1)])"
    by (simp_all add: triggeringType_def sample_json_def)
  have u: "updatedBody sample_json ''merge'' (JObj []) (JObj [(''x'', JNum 1)]) = JObj [(''x'', JNum 1)]"
    using ej_merge_new[OF sample_json_ok t(4)] by (simp add: updatedBody_def p(3))
  have o: "storedBody sample_json (w_view typed_world) ''a'' = JObj []"
    by (simp add: storedBody_def typed_world_ok p(3))
  show ?thesis
    using update_object_fires_triggers[where E = sample_env and registered = sample_hl and w = typed_world and ident = "''a''"
        and p = objectRequest and T = "''t''" and tv = "enc triggeringType" and tb = triggeringType and fs = "[''f'']"
        and n = 0 and options = None, OF sample_env_ok sample_hl_registered] typed_world_ok sample_link(2) t t0
    by (simp add: Let_def p u o)
qed

end
