(* ===== verification/Dispatch.thy ===== *)
theory Dispatch
  imports FunctionConfig Transitions "HOL-Library.Multiset"
begin

text \<open>
  How a function type gives messages to the handlers of its ids (\<open>statefun/function\_type.go\<close>):
  \<open>sendMsg\<close>, the handler routines and the garbage collection of idle ids. A channel and the
  routine that reads it are one record, and \<open>ch\_waiting\<close> says that the routine has reached
  the receive and found nothing; \<open>idHandlersChannel\<close> maps an id to the number of its
  open channel. \<open>ft\_executor\<close> holds the ids that have an executor (\<open>plugins.go\<close>), or \<open>None\<close>
  without a plugin; the counters \<open>rt\_gt0\<close>, \<open>rt\_glce\<close>, \<open>rt\_gc\<close> belong to the
  runtime. \<open>received\<close>, \<open>refused\<close>, \<open>handled\<close> and the fields
  \<open>ch\_sent\<close>, \<open>ch\_taken\<close> of a channel record the history of the messages.
\<close>

section \<open>The state of a function type\<close>

record 'j channel =
  ch_id :: string
  ch_queue :: "'j FunctionTypeMsg list"
  ch_closed :: bool
  ch_current :: "'j FunctionTypeMsg option"
  ch_waiting :: bool
  ch_reply :: bool
  ch_sent :: "'j FunctionTypeMsg list"
  ch_taken :: "'j FunctionTypeMsg list"

record 'j FunctionType =
  ft_name :: string
  ft_config :: "'j FunctionTypeConfig"
  idKeyMutex :: "string set"
  idHandlersChannel :: "(string \<times> nat) list"
  idHandlersLastMsgTime :: "(string \<times> int) list"
  ft_executor :: "string list option"
  instancesControl :: nat
  channels :: "(nat \<times> 'j channel) list"
  nextChannel :: nat
  rt_gt0 :: int
  rt_glce :: int
  rt_gc :: nat
  ft_panicked :: bool
  received :: "'j FunctionTypeMsg list"
  refused :: "'j FunctionTypeMsg list"
  handled :: "'j FunctionTypeMsg list"

definition ft_subject :: "'j FunctionType \<Rightarrow> string" where
  "ft_subject ft = ft_name ft @ ''.*''"

definition NewFunctionType :: "string \<Rightarrow> 'j FunctionTypeConfig \<Rightarrow> 'j FunctionType" where
  "NewFunctionType name config =
     \<lparr>ft_name = name, ft_config = config, idKeyMutex = {}, idHandlersChannel = [],
      idHandlersLastMsgTime = [], ft_executor = None, instancesControl = 0, channels = [],
      nextChannel = 0, rt_gt0 = 0, rt_glce = 0, rt_gc = 0, ft_panicked = False,
      received = [], refused = [], handled = []\<rparr>"

definition limited :: "'j FunctionType \<Rightarrow> bool" where
  "limited ft \<longleftrightarrow> maxIdHandlers (ft_config ft) > 0"

definition SetExecutor :: "'j FunctionType \<Rightarrow> 'j FunctionType" where
  "SetExecutor ft = ft\<lparr>ft_executor := Some []\<rparr>"

section \<open>Sending a message\<close>

text \<open>The limit of id handlers is reached: the message is refused and the id stays locked.\<close>

definition refuseAtLimit :: "string \<Rightarrow> 'j FunctionTypeMsg \<Rightarrow> 'j FunctionType \<Rightarrow> 'j FunctionType" where
  "refuseAtLimit i msg ft =
     ft\<lparr>idKeyMutex := insert i (idKeyMutex ft), refused := refused ft @ [msg],
        ft_panicked := ft_panicked ft \<or> \<not> hasRefusalCallback msg\<rparr>"

definition newHandler :: "string \<Rightarrow> 'j FunctionType \<Rightarrow> 'j FunctionType" where
  "newHandler i ft =
     ft\<lparr>instancesControl := (if limited ft then Suc (instancesControl ft) else instancesControl ft),
        channels := AList.update (nextChannel ft)
          \<lparr>ch_id = i, ch_queue = [], ch_closed = False, ch_current = None, ch_waiting = False,
           ch_reply = False, ch_sent = [], ch_taken = []\<rparr> (channels ft),
        idHandlersChannel := AList.update i (nextChannel ft) (idHandlersChannel ft),
        ft_executor := map_option (List.insert i) (ft_executor ft),
        nextChannel := Suc (nextChannel ft)\<rparr>"

definition countMessage :: "int \<Rightarrow> 'j FunctionType \<Rightarrow> 'j FunctionType" where
  "countMessage now ft =
     (let ft = (if rt_gc ft = 0 then ft\<lparr>rt_glce := now, rt_gt0 := now\<rparr> else ft)
      in ft\<lparr>rt_gc := Suc (rt_gc ft)\<rparr>)"

text \<open>The executor plugin is asked for the executor of the id when a message is begun; the
  question panics when the id has none.\<close>

definition missingExecutor :: "string \<Rightarrow> 'j FunctionType \<Rightarrow> bool" where
  "missingExecutor i ft = (case ft_executor ft of None \<Rightarrow> False | Some ids \<Rightarrow> i \<notin> set ids)"

text \<open>The message goes from the sender to a routine that waits at the receive.\<close>

definition handOver :: "nat \<Rightarrow> 'j channel \<Rightarrow> 'j FunctionTypeMsg \<Rightarrow> 'j FunctionType \<Rightarrow> 'j FunctionType" where
  "handOver c ch msg ft =
     ft\<lparr>channels := AList.update c
       (ch\<lparr>ch_current := Some msg, ch_waiting := False, ch_sent := ch_sent ch @ [msg],
           ch_taken := ch_taken ch @ [msg]\<rparr>) (channels ft),
        ft_panicked := ft_panicked ft \<or> missingExecutor (ch_id ch) ft\<rparr>"

text \<open>The \<open>select\<close> of \<open>sendMsg\<close>: the send proceeds when the buffer has room or a
  routine waits (the only way with \<open>msgChannelSize = 0\<close>), else the message is refused.\<close>

definition offerMsg :: "int \<Rightarrow> string \<Rightarrow> nat \<Rightarrow> 'j FunctionTypeMsg \<Rightarrow> 'j FunctionType \<Rightarrow> 'j FunctionType" where
  "offerMsg now i c msg ft =
     (let ft = ft\<lparr>idHandlersLastMsgTime := AList.update i now (idHandlersLastMsgTime ft)\<rparr>
      in case map_of (channels ft) c of
           None \<Rightarrow> ft
         | Some ch \<Rightarrow>
            (if length (ch_queue ch) < msgChannelSize (ft_config ft)
             then countMessage now (ft\<lparr>channels := AList.update c
                    (ch\<lparr>ch_queue := ch_queue ch @ [msg], ch_sent := ch_sent ch @ [msg]\<rparr>) (channels ft)\<rparr>)
             else if ch_waiting ch \<and> ch_queue ch = [] then countMessage now (handOver c ch msg ft)
             else ft\<lparr>refused := refused ft @ [msg]\<rparr>))"

text \<open>\<open>None\<close>: the caller waits for the id's mutex.\<close>

definition sendMsg :: "int \<Rightarrow> string \<Rightarrow> 'j FunctionTypeMsg \<Rightarrow> 'j FunctionType \<Rightarrow> 'j FunctionType option" where
  "sendMsg now i msg ft =
     (if i \<in> idKeyMutex ft then None
      else Some
       (let ft = ft\<lparr>received := received ft @ [msg]\<rparr>
        in case map_of (idHandlersChannel ft) i of
             Some c \<Rightarrow> offerMsg now i c msg ft
           | None \<Rightarrow>
              (if limited ft \<and> int (instancesControl ft) \<ge> maxIdHandlers (ft_config ft)
               then refuseAtLimit i msg ft
               else offerMsg now i (nextChannel ft) msg (newHandler i ft))))"

section \<open>Handler routines\<close>

definition waitMsg :: "nat \<Rightarrow> 'j channel \<Rightarrow> 'j FunctionType \<Rightarrow> 'j FunctionType" where
  "waitMsg c ch ft = ft\<lparr>channels := AList.update c (ch\<lparr>ch_waiting := True\<rparr>) (channels ft)\<rparr>"

definition takeMsg :: "nat \<Rightarrow> 'j channel \<Rightarrow> 'j FunctionType \<Rightarrow> 'j FunctionType" where
  "takeMsg c ch ft =
     ft\<lparr>channels := AList.update c
       (ch\<lparr>ch_current := Some (hd (ch_queue ch)), ch_queue := tl (ch_queue ch), ch_waiting := False,
           ch_taken := ch_taken ch @ [hd (ch_queue ch)]\<rparr>) (channels ft),
        ft_panicked := ft_panicked ft \<or> missingExecutor (ch_id ch) ft\<rparr>"

definition finishMsg :: "int \<Rightarrow> nat \<Rightarrow> 'j channel \<Rightarrow> 'j FunctionTypeMsg \<Rightarrow> 'j FunctionType \<Rightarrow> 'j FunctionType" where
  "finishMsg now c ch msg ft =
     ft\<lparr>channels := AList.update c
          (ch\<lparr>ch_current := None, ch_reply := ch_reply ch \<or> hasRequestCallback msg\<rparr>) (channels ft),
        handled := handled ft @ [msg], rt_glce := now\<rparr>"

definition exitRoutine :: "nat \<Rightarrow> 'j FunctionType \<Rightarrow> 'j FunctionType" where
  "exitRoutine c ft =
     ft\<lparr>channels := AList.delete c (channels ft),
        instancesControl := (if limited ft then instancesControl ft - 1 else instancesControl ft)\<rparr>"

section \<open>Garbage collection\<close>

text \<open>The comparison is one of \<open>int64\<close> values: the sum wraps around.\<close>

definition expired :: "int \<Rightarrow> int \<Rightarrow> string \<Rightarrow> 'j FunctionType \<Rightarrow> bool" where
  "expired typenameIDLifetimeMs now i ft =
     (case map_of (idHandlersLastMsgTime ft) i of None \<Rightarrow> False
      | Some t \<Rightarrow> int64_of (uint64_of (t + typenameIDLifetimeMs * 1000000)) < now)"

lemma expired_in_range:
  assumes "map_of (idHandlersLastMsgTime ft) i = Some t" and "in_int64 (t + life * 1000000)"
  shows "expired life now i ft \<longleftrightarrow> t + life * 1000000 < now"
  using assms by (simp add: expired_def)

text \<open>The collection of one expired id: \<open>None\<close> while the id is locked.\<close>

definition gcId :: "string \<Rightarrow> 'j FunctionType \<Rightarrow> 'j FunctionType option" where
  "gcId i ft =
     (if i \<in> idKeyMutex ft then None
      else (case map_of (idHandlersChannel ft) i of
              None \<Rightarrow> Some (ft\<lparr>ft_panicked := True\<rparr>)
            | Some c \<Rightarrow> Some
               (ft\<lparr>channels := (case map_of (channels ft) c of None \<Rightarrow> channels ft
                     | Some ch \<Rightarrow> AList.update c (ch\<lparr>ch_closed := True\<rparr>) (channels ft)),
                   idHandlersChannel := AList.delete i (idHandlersChannel ft),
                   idHandlersLastMsgTime := AList.delete i (idHandlersLastMsgTime ft),
                   ft_executor := map_option (removeAll i) (ft_executor ft)\<rparr>)))"

fun gcLoop :: "int \<Rightarrow> int \<Rightarrow> string list \<Rightarrow> nat \<times> nat \<Rightarrow> 'j FunctionType \<Rightarrow> ((nat \<times> nat) \<times> 'j FunctionType) option" where
  "gcLoop life now [] n ft = Some (n, ft)"
| "gcLoop life now (i # ids) (collected, handlersRunning) ft =
     (if expired life now i ft
      then (case gcId i ft of None \<Rightarrow> None | Some ft \<Rightarrow> gcLoop life now ids (Suc collected, handlersRunning) ft)
      else gcLoop life now ids (collected, Suc handlersRunning) ft)"

definition gc :: "int \<Rightarrow> int \<Rightarrow> 'j FunctionType \<Rightarrow> ((nat \<times> nat) \<times> 'j FunctionType) option" where
  "gc typenameIDLifetimeMs now ft =
     gcLoop typenameIDLifetimeMs now (map fst (idHandlersLastMsgTime ft)) (0, 0) ft"

section \<open>Steps\<close>

text \<open>Any goroutine may call \<open>sendMsg\<close>; a routine takes the next message of its channel
  when it has finished the previous one, waits when there is none, and ends when its channel is
  closed and empty. The collector tests the age of an id before it locks it, so a message may still
  arrive in between: a step collects any known id. A panic ends the process, so nothing follows it.\<close>

inductive ft_step :: "'j FunctionType \<Rightarrow> 'j FunctionType \<Rightarrow> bool" where
  step_send: "\<not> ft_panicked ft \<Longrightarrow> sendMsg now i msg ft = Some ft' \<Longrightarrow> ft_step ft ft'"
| step_take: "\<not> ft_panicked ft \<Longrightarrow> map_of (channels ft) c = Some ch \<Longrightarrow> ch_current ch = None \<Longrightarrow>
     ch_queue ch \<noteq> [] \<Longrightarrow> ft_step ft (takeMsg c ch ft)"
| step_wait: "\<not> ft_panicked ft \<Longrightarrow> map_of (channels ft) c = Some ch \<Longrightarrow> ch_current ch = None \<Longrightarrow>
     ch_queue ch = [] \<Longrightarrow> \<not> ch_closed ch \<Longrightarrow> ft_step ft (waitMsg c ch ft)"
| step_finish: "\<not> ft_panicked ft \<Longrightarrow> map_of (channels ft) c = Some ch \<Longrightarrow> ch_current ch = Some msg \<Longrightarrow>
     ft_step ft (finishMsg now c ch msg ft)"
| step_exit: "\<not> ft_panicked ft \<Longrightarrow> map_of (channels ft) c = Some ch \<Longrightarrow> ch_current ch = None \<Longrightarrow>
     ch_queue ch = [] \<Longrightarrow> ch_closed ch \<Longrightarrow> ft_step ft (exitRoutine c ft)"
| step_gc: "\<not> ft_panicked ft \<Longrightarrow> map_of (idHandlersLastMsgTime ft) i = Some t \<Longrightarrow> gcId i ft = Some ft' \<Longrightarrow>
     ft_step ft ft'"

lemma panic_ends_process: "ft_step ft ft' \<Longrightarrow> \<not> ft_panicked ft"
  by (erule ft_step.cases) simp_all

end
