(* ===== verification/DispatchInv.thy ===== *)
theory DispatchInv
  imports Dispatch
begin

text \<open>
  The invariant of a function type: the maps agree with the live routines, the number of routines
  is within the limit, a channel is read in the order it was written, and every message received is
  waiting, being handled, handled or refused.
\<close>

declare map_of_eq_Some_iff [simp del]

section \<open>Sums over association lists\<close>

lemma length_update_old: "map_of xs k = Some v \<Longrightarrow> length (AList.update k v' xs) = length xs"
  by (induction xs) auto

lemma length_update_new: "map_of xs k = None \<Longrightarrow> length (AList.update k v' xs) = Suc (length xs)"
  by (induction xs) (auto split: if_splits)

lemma length_delete_old:
  "map_of xs k = Some v \<Longrightarrow> distinct (map fst xs) \<Longrightarrow> Suc (length (AList.delete k xs)) = length xs"
proof (induction xs)
  case (Cons x xs)
  show ?case
  proof (cases "fst x = k")
    case True
    with Cons.prems have "AList.delete k xs = xs" by (intro AList.delete_id) auto
    with True show ?thesis by (cases x) (simp add: AList.delete_eq)
  next
    case False
    with Cons show ?thesis by (cases x) (auto simp: AList.delete_eq)
  qed
qed simp

definition total :: "('b \<Rightarrow> 'a multiset) \<Rightarrow> ('k \<times> 'b) list \<Rightarrow> 'a multiset" where
  "total f xs = sum_list (map (f \<circ> snd) xs)"

lemma total_update_old: "map_of xs k = Some v \<Longrightarrow> total f (AList.update k v' xs) + f v = total f xs + f v'"
  by (induction xs) (auto simp: total_def ac_simps)

lemma total_update_new: "map_of xs k = None \<Longrightarrow> total f (AList.update k v' xs) = total f xs + f v'"
  by (induction xs) (auto simp: total_def ac_simps split: if_splits)

lemma total_delete:
  "map_of xs k = Some v \<Longrightarrow> distinct (map fst xs) \<Longrightarrow> total f (AList.delete k xs) + f v = total f xs"
proof (induction xs)
  case (Cons x xs)
  show ?case
  proof (cases "fst x = k")
    case True
    with Cons.prems have "AList.delete k xs = xs" by (intro AList.delete_id) auto
    with True Cons.prems show ?thesis by (cases x) (auto simp: AList.delete_eq total_def ac_simps)
  next
    case False
    with Cons show ?thesis by (cases x) (auto simp: AList.delete_eq total_def ac_simps)
  qed
qed simp

section \<open>The invariant\<close>

definition load :: "'j channel \<Rightarrow> 'j FunctionTypeMsg multiset" where
  "load ch = mset (ch_queue ch) + (case ch_current ch of None \<Rightarrow> {#} | Some m \<Rightarrow> {#m#})"

definition maps_inv :: "'j FunctionType \<Rightarrow> bool" where
  "maps_inv ft \<longleftrightarrow>
     distinct (map fst (channels ft)) \<and> (\<forall>c ch. map_of (channels ft) c = Some ch \<longrightarrow> c < nextChannel ft) \<and>
     (\<forall>i c. map_of (idHandlersChannel ft) i = Some c \<longrightarrow>
        (\<exists>ch. map_of (channels ft) c = Some ch \<and> ch_id ch = i \<and> \<not> ch_closed ch)) \<and>
     (\<forall>c ch. map_of (channels ft) c = Some ch \<longrightarrow> \<not> ch_closed ch \<longrightarrow>
        map_of (idHandlersChannel ft) (ch_id ch) = Some c) \<and>
     dom (map_of (idHandlersLastMsgTime ft)) = dom (map_of (idHandlersChannel ft)) \<and>
     idKeyMutex ft \<inter> dom (map_of (idHandlersChannel ft)) = {}"

definition channel_ok :: "nat \<Rightarrow> 'j channel \<Rightarrow> bool" where
  "channel_ok cap ch \<longleftrightarrow> length (ch_queue ch) \<le> cap \<and> ch_sent ch = ch_taken ch @ ch_queue ch \<and>
     (ch_waiting ch \<longrightarrow> ch_current ch = None)"

definition channels_inv :: "'j FunctionType \<Rightarrow> bool" where
  "channels_inv ft \<longleftrightarrow>
     (\<forall>c ch. map_of (channels ft) c = Some ch \<longrightarrow> channel_ok (msgChannelSize (ft_config ft)) ch) \<and>
     (limited ft \<longrightarrow> instancesControl ft = length (channels ft) \<and>
        int (instancesControl ft) \<le> maxIdHandlers (ft_config ft))"

definition messages_inv :: "'j FunctionType \<Rightarrow> bool" where
  "messages_inv ft \<longleftrightarrow>
     mset (received ft) = mset (refused ft) + mset (handled ft) + total load (channels ft) \<and>
     (ft_executor ft = None \<and> (\<forall>m\<in>set (received ft). hasRefusalCallback m) \<longrightarrow> \<not> ft_panicked ft)"

definition ft_inv :: "'j FunctionType \<Rightarrow> bool" where
  "ft_inv ft \<longleftrightarrow> maps_inv ft \<and> channels_inv ft \<and> messages_inv ft"

definition ft_init :: "'j FunctionType \<Rightarrow> bool" where
  "ft_init ft \<longleftrightarrow> (\<exists>name config. ft = NewFunctionType name config \<or> ft = SetExecutor (NewFunctionType name config))"

lemma ft_init_inv: "ft_init ft \<Longrightarrow> ft_inv ft"
  by (auto simp: ft_init_def ft_inv_def maps_inv_def channels_inv_def messages_inv_def NewFunctionType_def SetExecutor_def total_def limited_def)

section \<open>Sending\<close>

lemma count_inv [simp]: "ft_inv (countMessage now ft) = ft_inv ft"
  by (simp add: countMessage_def Let_def ft_inv_def maps_inv_def channels_inv_def messages_inv_def limited_def)

lemma maps_replace:
  assumes inv: "maps_inv ft" and ch: "map_of (channels ft) c = Some ch"
    and same: "ch_id ch' = ch_id ch" "ch_closed ch' = ch_closed ch"
  shows "maps_inv (ft\<lparr>channels := AList.update c ch' (channels ft)\<rparr>)"
proof -
  have 1: "\<exists>h. map_of (channels ft) d = Some h \<and> ch_id h = i \<and> \<not> ch_closed h"
    if "map_of (idHandlersChannel ft) i = Some d" for i d
    using inv that unfolding maps_inv_def by blast
  have 2: "map_of (idHandlersChannel ft) (ch_id h) = Some d" if "map_of (channels ft) d = Some h" "\<not> ch_closed h" for d h
    using inv that unfolding maps_inv_def by blast
  have 3: "d < nextChannel ft" if "map_of (channels ft) d = Some h" for d h
    using inv that unfolding maps_inv_def by blast
  let ?ft = "ft\<lparr>channels := AList.update c ch' (channels ft)\<rparr>"
  show ?thesis
    unfolding maps_inv_def
  proof (intro conjI allI impI)
    show "distinct (map fst (channels ?ft))"
      using inv by (simp add: maps_inv_def distinct_update)
    show "d < nextChannel ?ft" if "map_of (channels ?ft) d = Some h" for d h
      using that 3[of d] 3[OF ch] by (auto simp: update_conv' split: if_splits)
    show "\<exists>h. map_of (channels ?ft) d = Some h \<and> ch_id h = i \<and> \<not> ch_closed h"
      if "map_of (idHandlersChannel ?ft) i = Some d" for i d
      using 1[of i d] that ch same by (cases "d = c") (auto simp: update_conv')
    show "map_of (idHandlersChannel ?ft) (ch_id h) = Some d" if "map_of (channels ?ft) d = Some h" "\<not> ch_closed h" for d h
      using 2[of d h] 2[OF ch] that same by (cases "d = c") (auto simp: update_conv')
    show "dom (map_of (idHandlersLastMsgTime ?ft)) = dom (map_of (idHandlersChannel ?ft))"
      and "idKeyMutex ?ft \<inter> dom (map_of (idHandlersChannel ?ft)) = {}"
      using inv by (simp_all add: maps_inv_def)
  qed
qed

lemma maps_time:
  "maps_inv ft \<Longrightarrow> map_of (idHandlersChannel ft) i = Some c \<Longrightarrow>
   maps_inv (ft\<lparr>idHandlersLastMsgTime := AList.update i now (idHandlersLastMsgTime ft)\<rparr>)"
  by (auto simp: maps_inv_def update_conv')

lemma handOver_inv:
  assumes inv: "maps_inv ft" "channels_inv ft" and ch: "map_of (channels ft) c = Some ch" "ch_current ch = None" "ch_queue ch = []"
    and msgs: "mset (received ft) = mset (refused ft) + mset (handled ft) + total load (channels ft) + {#msg#}"
      "ft_executor ft = None \<and> (\<forall>m\<in>set (received ft). hasRefusalCallback m) \<longrightarrow> \<not> ft_panicked ft"
  shows "ft_inv (handOver c ch msg ft)"
proof -
  let ?ch = "ch\<lparr>ch_current := Some msg, ch_waiting := False, ch_sent := ch_sent ch @ [msg], ch_taken := ch_taken ch @ [msg]\<rparr>"
  have "channel_ok (msgChannelSize (ft_config ft)) ?ch"
    using inv(2) ch unfolding channels_inv_def by (auto simp: channel_ok_def)
  moreover have "load ?ch = load ch + {#msg#}" using ch by (simp add: load_def)
  moreover have "maps_inv (ft\<lparr>channels := AList.update c ?ch (channels ft)\<rparr>)"
    by (rule maps_replace[OF inv(1) ch(1)]) simp_all
  ultimately show ?thesis
    using inv(2) msgs total_update_old[OF ch(1), of load ?ch] ch(1)
    unfolding ft_inv_def handOver_def channels_inv_def messages_inv_def
    by (auto simp: update_conv' length_update_old limited_def maps_inv_def missingExecutor_def ac_simps)
qed

lemma offer_inv:
  assumes inv: "maps_inv ft" "channels_inv ft" and c: "map_of (idHandlersChannel ft) i = Some c"
    and msgs: "mset (received ft) = mset (refused ft) + mset (handled ft) + total load (channels ft) + {#msg#}"
      "ft_executor ft = None \<and> (\<forall>m\<in>set (received ft). hasRefusalCallback m) \<longrightarrow> \<not> ft_panicked ft"
  shows "ft_inv (offerMsg now i c msg ft)"
proof -
  obtain ch where ch: "map_of (channels ft) c = Some ch" "ch_id ch = i" "\<not> ch_closed ch"
    using inv(1) c unfolding maps_inv_def by blast
  let ?ch = "ch\<lparr>ch_queue := ch_queue ch @ [msg], ch_sent := ch_sent ch @ [msg]\<rparr>"
  have dom: "insert i (dom (map_of (idHandlersChannel ft))) = dom (map_of (idHandlersChannel ft))"
    using c by auto
  show ?thesis
  proof (cases "length (ch_queue ch) < msgChannelSize (ft_config ft)")
    case True
    let ?ft = "ft\<lparr>idHandlersLastMsgTime := AList.update i now (idHandlersLastMsgTime ft),
        channels := AList.update c ?ch (channels ft)\<rparr>"
    have off: "offerMsg now i c msg ft = countMessage now ?ft"
      using ch True by (simp add: offerMsg_def Let_def)
    have "maps_inv ?ft" using maps_replace[OF maps_time[OF inv(1) c, of now], of c ch ?ch] ch(1) by simp
    moreover have "channels_inv ?ft"
      using inv(2) ch(1) True unfolding channels_inv_def
      by (auto simp: update_conv' length_update_old channel_ok_def limited_def)
    moreover have "messages_inv ?ft"
      using msgs total_update_old[OF ch(1), of load ?ch] unfolding messages_inv_def
      by (auto simp: load_def ac_simps)
    ultimately have "ft_inv ?ft" by (simp add: ft_inv_def)
    then show ?thesis unfolding off count_inv .
  next
    case full: False
    show ?thesis
    proof (cases "ch_waiting ch \<and> ch_queue ch = []")
      case True
      let ?ft = "ft\<lparr>idHandlersLastMsgTime := AList.update i now (idHandlersLastMsgTime ft)\<rparr>"
      have off: "offerMsg now i c msg ft = countMessage now (handOver c ch msg ?ft)"
        using ch full True by (simp add: offerMsg_def Let_def)
      have "ch_current ch = None" using inv(2) ch(1) True by (auto simp: channels_inv_def channel_ok_def)
      moreover have "channels_inv ?ft" using inv(2) by (auto simp: channels_inv_def limited_def)
      ultimately have "ft_inv (handOver c ch msg ?ft)"
        using handOver_inv[OF maps_time[OF inv(1) c, of now], of c ch msg] ch(1) True msgs by simp
      then show ?thesis unfolding off count_inv .
    next
      case False
      with full show ?thesis
        using inv msgs ch c dom unfolding ft_inv_def maps_inv_def channels_inv_def messages_inv_def offerMsg_def Let_def
        by (auto simp: update_conv' limited_def)
    qed
  qed
qed

lemma new_handler_inv:
  fixes now :: int
  assumes inv: "maps_inv ft" "channels_inv ft" and none: "map_of (idHandlersChannel ft) i = None"
    and free: "i \<notin> idKeyMutex ft"
    and room: "limited ft \<Longrightarrow> int (instancesControl ft) < maxIdHandlers (ft_config ft)"
  defines "ft' \<equiv> (newHandler i ft)\<lparr>idHandlersLastMsgTime := AList.update i now (idHandlersLastMsgTime ft)\<rparr>"
  shows "maps_inv ft'" and "channels_inv ft'" and "total load (channels ft') = total load (channels ft)"
proof -
  have new: "map_of (channels ft) (nextChannel ft) = None"
    using inv(1) unfolding maps_inv_def by (metis less_irrefl not_None_eq)
  let ?ch = "\<lparr>ch_id = i, ch_queue = [], ch_closed = False, ch_current = None, ch_waiting = False,
     ch_reply = False, ch_sent = [], ch_taken = []\<rparr> :: 'a channel"
  have chans: "map_of (channels ft') = (map_of (channels ft))(nextChannel ft \<mapsto> ?ch)"
    "map_of (idHandlersChannel ft') = (map_of (idHandlersChannel ft))(i \<mapsto> nextChannel ft)"
    by (simp_all add: ft'_def newHandler_def update_conv')
  have old: "map_of (idHandlersChannel ft) (ch_id ch) = Some c" if "map_of (channels ft) c = Some ch" "\<not> ch_closed ch" for c ch
    using inv(1) that unfolding maps_inv_def by blast
  show "maps_inv ft'"
    unfolding maps_inv_def
  proof (intro conjI allI impI)
    show "distinct (map fst (channels ft'))"
      using inv(1) by (simp add: maps_inv_def ft'_def newHandler_def distinct_update)
    show "c < nextChannel ft'" if "map_of (channels ft') c = Some ch" for c ch
      using that inv(1) unfolding chans maps_inv_def
      by (auto simp: ft'_def newHandler_def less_Suc_eq split: if_splits)
    show "\<exists>ch. map_of (channels ft') c = Some ch \<and> ch_id ch = j \<and> \<not> ch_closed ch"
      if "map_of (idHandlersChannel ft') j = Some c" for j c
    proof (cases "j = i")
      case False
      with that have "map_of (idHandlersChannel ft) j = Some c" by (simp add: chans)
      then obtain ch where "map_of (channels ft) c = Some ch" "ch_id ch = j" "\<not> ch_closed ch"
        using inv(1) unfolding maps_inv_def by blast
      moreover have "c \<noteq> nextChannel ft" using calculation(1) new by auto
      ultimately show ?thesis unfolding chans by auto
    qed (use that in \<open>auto simp: chans\<close>)
    show "map_of (idHandlersChannel ft') (ch_id ch) = Some c" if "map_of (channels ft') c = Some ch" "\<not> ch_closed ch" for c ch
      using that old[of c ch] none by (auto simp: chans split: if_splits)
    show "dom (map_of (idHandlersLastMsgTime ft')) = dom (map_of (idHandlersChannel ft'))"
      using inv(1) unfolding chans maps_inv_def by (simp add: ft'_def update_conv')
    show "idKeyMutex ft' \<inter> dom (map_of (idHandlersChannel ft')) = {}"
      using inv(1) free unfolding chans maps_inv_def by (auto simp: ft'_def newHandler_def)
  qed
  show "channels_inv ft'"
    using inv(2) new room unfolding channels_inv_def chans
    by (auto simp: ft'_def newHandler_def channel_ok_def limited_def length_update_new)
  show "total load (channels ft') = total load (channels ft)"
    using total_update_new[OF new, of load ?ch] by (simp add: ft'_def newHandler_def load_def)
qed

lemma offer_after_time:
  "offerMsg now i c msg ft = offerMsg now i c msg (ft\<lparr>idHandlersLastMsgTime := AList.update i now (idHandlersLastMsgTime ft)\<rparr>)"
  by (simp add: offerMsg_def Let_def update_last)

lemma send_inv:
  assumes "ft_inv ft" and "sendMsg now i msg ft = Some ft'"
  shows "ft_inv ft'"
proof -
  let ?ft = "ft\<lparr>received := received ft @ [msg]\<rparr>"
  have inv: "maps_inv ?ft" "channels_inv ?ft"
    using assms(1) by (auto simp: ft_inv_def maps_inv_def channels_inv_def limited_def)
  have msgs: "mset (received ?ft) = mset (refused ?ft) + mset (handled ?ft) + total load (channels ?ft) + {#msg#}"
    "ft_executor ?ft = None \<and> (\<forall>m\<in>set (received ?ft). hasRefusalCallback m) \<longrightarrow> \<not> ft_panicked ?ft"
    using assms(1) by (auto simp: ft_inv_def messages_inv_def)
  have free: "i \<notin> idKeyMutex ft" using assms(2) by (auto simp: sendMsg_def split: if_splits)
  show ?thesis
  proof (cases "map_of (idHandlersChannel ft) i")
    case (Some c)
    with assms(2) free have "ft' = offerMsg now i c msg ?ft" by (simp add: sendMsg_def Let_def)
    moreover have "ft_inv (offerMsg now i c msg ?ft)" by (rule offer_inv[OF inv _ msgs]) (simp add: Some)
    ultimately show ?thesis by simp
  next
    case None
    show ?thesis
    proof (cases "limited ft \<and> int (instancesControl ft) \<ge> maxIdHandlers (ft_config ft)")
      case True
      with assms(2) free None have "ft' = refuseAtLimit i msg ?ft"
        by (simp add: sendMsg_def Let_def limited_def)
      with inv msgs None show ?thesis
        by (auto simp: ft_inv_def refuseAtLimit_def maps_inv_def channels_inv_def messages_inv_def limited_def)
    next
      case False
      let ?nh = "(newHandler i ?ft)\<lparr>idHandlersLastMsgTime := AList.update i now (idHandlersLastMsgTime ?ft)\<rparr>"
      have ft': "ft' = offerMsg now i (nextChannel ft) msg ?nh"
        using assms(2) free None False offer_after_time[of now i "nextChannel ft" msg "newHandler i ?ft"]
        by (auto simp: sendMsg_def Let_def limited_def newHandler_def)
      note nh = new_handler_inv[OF inv, of i now]
      have "ft_inv (offerMsg now i (nextChannel ft) msg ?nh)"
      proof (rule offer_inv)
        show "maps_inv ?nh" "channels_inv ?nh"
          using nh(1,2) None free False by (auto simp: limited_def)
        show "map_of (idHandlersChannel ?nh) i = Some (nextChannel ft)" by (simp add: newHandler_def update_conv')
        have "total load (channels ?nh) = total load (channels ft)"
          using nh(3) None free False by (auto simp: limited_def)
        then show "mset (received ?nh) = mset (refused ?nh) + mset (handled ?nh) + total load (channels ?nh) + {#msg#}"
          using msgs(1) by (simp add: newHandler_def)
        show "ft_executor ?nh = None \<and> (\<forall>m\<in>set (received ?nh). hasRefusalCallback m) \<longrightarrow> \<not> ft_panicked ?nh"
          using msgs(2) by (simp add: newHandler_def)
      qed
      then show ?thesis by (simp add: ft')
    qed
  qed
qed

section \<open>Routines and garbage collection\<close>

lemma maps_panicked [simp]: "maps_inv (ft\<lparr>ft_panicked := b\<rparr>) = maps_inv ft"
  by (simp add: maps_inv_def)

lemma no_executor [simp]: "ft_executor ft = None \<Longrightarrow> \<not> missingExecutor i ft"
  by (simp add: missingExecutor_def)

lemma take_inv:
  assumes inv: "ft_inv ft" and ch: "map_of (channels ft) c = Some ch" "ch_current ch = None" "ch_queue ch \<noteq> []"
  shows "ft_inv (takeMsg c ch ft)"
proof -
  let ?ch = "ch\<lparr>ch_current := Some (hd (ch_queue ch)), ch_queue := tl (ch_queue ch), ch_waiting := False,
    ch_taken := ch_taken ch @ [hd (ch_queue ch)]\<rparr>"
  have "load ?ch = load ch" using ch(2,3) by (cases "ch_queue ch") (auto simp: load_def)
  moreover have "channel_ok n ?ch" if "channel_ok n ch" for n
    using that ch(3) by (cases "ch_queue ch") (auto simp: channel_ok_def)
  ultimately show ?thesis
    using inv maps_replace[OF _ ch(1), of ?ch] total_update_old[OF ch(1), of load ?ch] ch(1)
    unfolding ft_inv_def takeMsg_def channels_inv_def messages_inv_def
    by (auto simp: update_conv' length_update_old limited_def)
qed

lemma wait_inv:
  assumes inv: "ft_inv ft" and ch: "map_of (channels ft) c = Some ch" "ch_current ch = None"
  shows "ft_inv (waitMsg c ch ft)"
proof -
  let ?ch = "ch\<lparr>ch_waiting := True\<rparr>"
  have "load ?ch = load ch" by (simp add: load_def)
  moreover have "channel_ok n ?ch" if "channel_ok n ch" for n using that ch(2) by (simp add: channel_ok_def)
  ultimately show ?thesis
    using inv maps_replace[OF _ ch(1), of ?ch] total_update_old[OF ch(1), of load ?ch] ch(1)
    unfolding ft_inv_def waitMsg_def channels_inv_def messages_inv_def
    by (auto simp: update_conv' length_update_old limited_def)
qed

lemma finish_inv:
  assumes inv: "ft_inv ft" and ch: "map_of (channels ft) c = Some ch" "ch_current ch = Some msg"
  shows "ft_inv (finishMsg now c ch msg ft)"
proof -
  let ?ch = "ch\<lparr>ch_current := None, ch_reply := ch_reply ch \<or> hasRequestCallback msg\<rparr>"
  let ?ft = "ft\<lparr>channels := AList.update c ?ch (channels ft)\<rparr>"
  have "load ch = load ?ch + {#msg#}" using ch(2) by (simp add: load_def)
  then have t: "total load (AList.update c ?ch (channels ft)) + {#msg#} = total load (channels ft)"
    using total_update_old[OF ch(1), of load ?ch] by (simp add: ac_simps)
  have "maps_inv ?ft" using inv maps_replace[OF _ ch(1), of ?ch] by (simp add: ft_inv_def)
  then have "maps_inv (finishMsg now c ch msg ft)" by (simp add: maps_inv_def finishMsg_def)
  moreover have "channels_inv (finishMsg now c ch msg ft)"
    using inv ch(1) unfolding ft_inv_def channels_inv_def
    by (auto simp: finishMsg_def update_conv' length_update_old limited_def channel_ok_def)
  moreover have "messages_inv (finishMsg now c ch msg ft)"
    using inv unfolding ft_inv_def messages_inv_def by (auto simp: finishMsg_def t[symmetric] ac_simps)
  ultimately show ?thesis by (simp add: ft_inv_def)
qed

lemma exit_inv:
  assumes inv: "ft_inv ft" and ch: "map_of (channels ft) c = Some ch" "ch_current ch = None" "ch_queue ch = []" "ch_closed ch"
  shows "ft_inv (exitRoutine c ft)"
proof -
  have d: "distinct (map fst (channels ft))" using inv by (simp add: ft_inv_def maps_inv_def)
  have t: "total load (AList.delete c (channels ft)) = total load (channels ft)"
    using total_delete[OF ch(1) d, of load] ch(2,3) by (simp add: load_def)
  have len: "Suc (length (AList.delete c (channels ft))) = length (channels ft)" by (rule length_delete_old[OF ch(1) d])
  have 1: "\<exists>h. map_of (channels ft) e = Some h \<and> ch_id h = i \<and> \<not> ch_closed h"
    if "map_of (idHandlersChannel ft) i = Some e" for i e
    using inv that unfolding ft_inv_def maps_inv_def by blast
  have notc: "e \<noteq> c" if "map_of (idHandlersChannel ft) i = Some e" for i e
    using 1[OF that] ch by auto
  have "maps_inv (exitRoutine c ft)"
    using inv d 1 notc unfolding ft_inv_def maps_inv_def exitRoutine_def
    by (auto simp: delete_conv' distinct_delete)
  moreover have "channels_inv (exitRoutine c ft)"
    using inv len unfolding ft_inv_def channels_inv_def exitRoutine_def
    by (auto simp: delete_conv' limited_def split: if_splits)
  moreover have "messages_inv (exitRoutine c ft)"
    using inv t unfolding ft_inv_def messages_inv_def exitRoutine_def by simp
  ultimately show ?thesis by (simp add: ft_inv_def)
qed

lemma gc_inv:
  assumes inv: "ft_inv ft" and e: "map_of (idHandlersLastMsgTime ft) i = Some t" and g: "gcId i ft = Some ft'"
  shows "ft_inv ft'"
proof -
  have "i \<in> dom (map_of (idHandlersLastMsgTime ft))" using e by auto
  then obtain c where c: "map_of (idHandlersChannel ft) i = Some c"
    using inv unfolding ft_inv_def maps_inv_def by auto
  obtain ch where ch: "map_of (channels ft) c = Some ch" "ch_id ch = i" "\<not> ch_closed ch"
    using inv c unfolding ft_inv_def maps_inv_def by blast
  let ?ch = "ch\<lparr>ch_closed := True\<rparr>"
  have ft': "ft' = ft\<lparr>channels := AList.update c ?ch (channels ft), idHandlersChannel := AList.delete i (idHandlersChannel ft),
      idHandlersLastMsgTime := AList.delete i (idHandlersLastMsgTime ft), ft_executor := map_option (removeAll i) (ft_executor ft)\<rparr>"
    using g c ch(1) by (simp add: gcId_def split: if_splits)
  have 1: "\<exists>h. map_of (channels ft) e = Some h \<and> ch_id h = j \<and> \<not> ch_closed h"
    if "map_of (idHandlersChannel ft) j = Some e" for j e
    using inv that unfolding ft_inv_def maps_inv_def by blast
  have 2: "map_of (idHandlersChannel ft) (ch_id h) = Some e" if "map_of (channels ft) e = Some h" "\<not> ch_closed h" for e h
    using inv that unfolding ft_inv_def maps_inv_def by blast
  have "maps_inv ft'"
    unfolding maps_inv_def
  proof (intro conjI allI impI)
    show "distinct (map fst (channels ft'))"
      using inv by (simp add: ft_inv_def maps_inv_def ft' distinct_update)
    show "e < nextChannel ft'" if "map_of (channels ft') e = Some h" for e h
      using that inv ch(1) unfolding ft_inv_def maps_inv_def by (auto simp: ft' update_conv' split: if_splits)
    show "\<exists>h. map_of (channels ft') e = Some h \<and> ch_id h = j \<and> \<not> ch_closed h"
      if "map_of (idHandlersChannel ft') j = Some e" for j e
    proof -
      have j: "map_of (idHandlersChannel ft) j = Some e" "j \<noteq> i" using that by (auto simp: ft' delete_conv' split: if_splits)
      then obtain h where h: "map_of (channels ft) e = Some h" "ch_id h = j" "\<not> ch_closed h" using 1 by blast
      then have "e \<noteq> c" using ch(1,2) j(2) by auto
      with h show ?thesis by (simp add: ft' update_conv')
    qed
    show "map_of (idHandlersChannel ft') (ch_id h) = Some e" if "map_of (channels ft') e = Some h" "\<not> ch_closed h" for e h
    proof -
      have h: "e \<noteq> c" "map_of (channels ft) e = Some h" using that by (auto simp: ft' update_conv' split: if_splits)
      then have "map_of (idHandlersChannel ft) (ch_id h) = Some e" using 2 that(2) by blast
      moreover have "ch_id h \<noteq> i" using calculation c h(1) by auto
      ultimately show ?thesis by (simp add: ft' delete_conv')
    qed
    show "dom (map_of (idHandlersLastMsgTime ft')) = dom (map_of (idHandlersChannel ft'))"
      using inv unfolding ft_inv_def maps_inv_def by (simp add: ft' delete_conv')
    show "idKeyMutex ft' \<inter> dom (map_of (idHandlersChannel ft')) = {}"
      using inv unfolding ft_inv_def maps_inv_def by (auto simp: ft' delete_conv')
  qed
  moreover have "channels_inv ft'"
    using inv ch(1) unfolding ft_inv_def channels_inv_def
    by (auto simp: ft' update_conv' length_update_old limited_def channel_ok_def)
  moreover have "messages_inv ft'"
    using inv total_update_old[OF ch(1), of load ?ch] unfolding ft_inv_def messages_inv_def by (auto simp: ft' load_def)
  ultimately show ?thesis by (simp add: ft_inv_def)
qed

interpretation dispatch: invariant_system "\<lambda>_. True" ft_init ft_step ft_inv
proof
  fix s t :: "'j FunctionType"
  show "ft_init s \<Longrightarrow> ft_inv s" by (rule ft_init_inv)
  assume "ft_inv s" and "ft_step s t"
  from this(2,1) show "ft_inv t"
    by cases (auto intro: send_inv take_inv wait_inv finish_inv exit_inv gc_inv)
qed

end
