(* ===== verification/DispatchProps.thy ===== *)
theory DispatchProps
  imports DispatchInv
begin

text \<open>
  What the dispatch of a function type guarantees in every reachable state: the account of the
  messages, the collection of idle ids, and the two ways in which an id loses its single,
  answering handler (a refusal at the limit, a collection while the handler is busy).
\<close>

section \<open>Invariants and runs\<close>

definition times_inv :: "'j FunctionType \<Rightarrow> bool" where
  "times_inv ft \<longleftrightarrow> distinct (map fst (idHandlersLastMsgTime ft))"

lemma times_inv_offer [simp]: "times_inv ft \<Longrightarrow> times_inv (offerMsg now i c msg ft)"
  by (auto simp: times_inv_def offerMsg_def handOver_def countMessage_def Let_def distinct_update split: option.split)

lemma times_inv_step: "ft_step ft ft' \<Longrightarrow> times_inv ft \<Longrightarrow> times_inv ft'"
proof (induction rule: ft_step.induct)
  case (step_send ft now i msg ft')
  have "times_inv (ft\<lparr>received := received ft @ [msg]\<rparr>)" "times_inv (newHandler i (ft\<lparr>received := received ft @ [msg]\<rparr>))"
    using step_send.prems by (simp_all add: times_inv_def newHandler_def)
  with step_send show ?case
    by (auto simp: sendMsg_def Let_def refuseAtLimit_def times_inv_def[of "_\<lparr>idKeyMutex := _\<rparr>"] split: if_splits option.splits)
      (simp_all add: times_inv_def)
qed (auto simp: times_inv_def takeMsg_def waitMsg_def finishMsg_def exitRoutine_def gcId_def distinct_delete split: if_splits option.splits)

interpretation dispatch_times: invariant_system "\<lambda>_. True" ft_init ft_step "\<lambda>ft. ft_inv ft \<and> times_inv ft"
proof
  fix s t :: "'j FunctionType"
  show "ft_init s \<Longrightarrow> ft_inv s \<and> times_inv s"
    by (auto simp: ft_init_inv ft_init_def times_inv_def NewFunctionType_def SetExecutor_def)
  show "ft_inv s \<and> times_inv s \<Longrightarrow> True \<Longrightarrow> ft_step s t \<Longrightarrow> ft_inv t \<and> times_inv t"
    by (auto intro: dispatch.inv_step times_inv_step)
qed

abbreviation ft_run :: "'j FunctionType \<Rightarrow> 'j FunctionType \<Rightarrow> bool" where
  "ft_run \<equiv> ft_step\<^sup>*\<^sup>*"

lemma reach_run: "ft_run ft ft' \<Longrightarrow> reachable_from ft_init ft_step ft \<Longrightarrow> reachable_from ft_init ft_step ft'"
proof (induction rule: rtranclp_induct)
  case (step s t)
  then show ?case by (auto intro: reach_next)
qed

section \<open>The account of the messages\<close>

text \<open>
  C17: in every reachable state of a function type each message received is exactly one of refused,
  handled, in the hand of a routine or waiting in a channel; a channel is read in the order it was
  written and holds at most \<open>msgChannelSize\<close> messages; the routines are at most
  \<open>maxIdHandlers\<close>; two routines with open channels serve different ids; and nothing
  panicked if there is no executor plugin and every message could be refused.
\<close>

theorem dispatch_accounts_for_messages:
  assumes "reachable_from ft_init ft_step ft"
  shows "mset (received ft) = mset (refused ft) + mset (handled ft) + total load (channels ft) \<and>
    (\<forall>c ch. map_of (channels ft) c = Some ch \<longrightarrow> channel_ok (msgChannelSize (ft_config ft)) ch) \<and>
    (limited ft \<longrightarrow> int (length (channels ft)) \<le> maxIdHandlers (ft_config ft)) \<and>
    (\<forall>c d h k. map_of (channels ft) c = Some h \<longrightarrow> map_of (channels ft) d = Some k \<longrightarrow>
       \<not> ch_closed h \<longrightarrow> \<not> ch_closed k \<longrightarrow> ch_id h = ch_id k \<longrightarrow> c = d) \<and>
    (ft_executor ft = None \<and> (\<forall>m\<in>set (received ft). hasRefusalCallback m) \<longrightarrow> \<not> ft_panicked ft)"
proof -
  have inv: "maps_inv ft" "channels_inv ft" "messages_inv ft"
    using dispatch.reach_inv[OF assms] by (simp_all add: ft_inv_def)
  have "c = d" if "map_of (channels ft) c = Some h" "map_of (channels ft) d = Some k"
    "\<not> ch_closed h" "\<not> ch_closed k" "ch_id h = ch_id k" for c d h k
    using that inv(1) unfolding maps_inv_def by (metis option.inject)
  with inv(2,3) show ?thesis
    unfolding channels_inv_def messages_inv_def by auto
qed

section \<open>The collection of idle ids\<close>

definition same_history :: "'j FunctionType \<Rightarrow> 'j FunctionType \<Rightarrow> bool" where
  "same_history ft ft' \<longleftrightarrow> received ft' = received ft \<and> refused ft' = refused ft \<and>
     handled ft' = handled ft \<and> ft_panicked ft' = ft_panicked ft"

lemma gcId_effect:
  assumes "ft_inv ft" and "times_inv ft" and "map_of (idHandlersLastMsgTime ft) i = Some t"
  obtains ft' where "gcId i ft = Some ft'" "ft_inv ft'" "times_inv ft'" "same_history ft ft'"
    "idHandlersLastMsgTime ft' = AList.delete i (idHandlersLastMsgTime ft)"
proof -
  have "i \<in> dom (map_of (idHandlersChannel ft))" "i \<notin> idKeyMutex ft"
    using assms(1,3) unfolding ft_inv_def maps_inv_def by blast+
  then obtain c where c: "map_of (idHandlersChannel ft) i = Some c" "i \<notin> idKeyMutex ft" by blast
  then obtain ft' where g: "gcId i ft = Some ft'" "same_history ft ft'"
    "idHandlersLastMsgTime ft' = AList.delete i (idHandlersLastMsgTime ft)"
    by (simp add: gcId_def same_history_def)
  from gc_inv[OF assms(1,3) g(1)] have "ft_inv ft'" .
  moreover have "times_inv ft'" using assms(2) by (simp add: times_inv_def g(3) distinct_delete)
  ultimately show thesis using g that by blast
qed

lemma gcLoop_effect:
  assumes "ft_inv ft" and "times_inv ft" and "distinct ids" and "set ids \<subseteq> dom (map_of (idHandlersLastMsgTime ft))"
  shows "\<exists>n m ft'. gcLoop life now ids (a, b) ft = Some ((a + n, b + m), ft') \<and> n + m = length ids \<and>
    n = length (filter (\<lambda>i. expired life now i ft) ids) \<and>
    ft_inv ft' \<and> same_history ft ft' \<and>
    (\<forall>j. map_of (idHandlersLastMsgTime ft') j =
       (if j \<in> set ids \<and> expired life now j ft then None else map_of (idHandlersLastMsgTime ft) j))"
  using assms
proof (induction ids arbitrary: a b ft)
  case Nil
  then show ?case by (simp add: same_history_def)
next
  case (Cons i ids)
  show ?case
  proof (cases "expired life now i ft")
    case False
    from Cons.IH[of ft a "Suc b"] Cons.prems False show ?thesis
      by (fastforce simp: add_Suc_shift[symmetric] simp del: add_Suc_shift)
  next
    case True
    from Cons.prems(4) obtain t where t: "map_of (idHandlersLastMsgTime ft) i = Some t" by auto
    obtain f1 where g: "gcId i ft = Some f1" "same_history ft f1"
      "idHandlersLastMsgTime f1 = AList.delete i (idHandlersLastMsgTime ft)"
      and inv: "ft_inv f1" "times_inv f1"
      using gcId_effect[OF Cons.prems(1,2) t] .
    have exp: "expired life now j f1 = expired life now j ft" if "j \<in> set ids" for j
      using that Cons.prems(3) by (auto simp: expired_def g(3) delete_conv')
    have "set ids \<subseteq> dom (map_of (idHandlersLastMsgTime f1))"
      using Cons.prems(3,4) by (auto simp: g(3) delete_conv')
    with Cons.IH[OF inv, of "Suc a" b] Cons.prems(3) obtain n m ft' where r:
      "gcLoop life now ids (Suc a, b) f1 = Some ((Suc a + n, b + m), ft')" "n + m = length ids"
      "n = length (filter (\<lambda>i. expired life now i f1) ids)"
      "ft_inv ft'" "same_history f1 ft'"
      "\<forall>j. map_of (idHandlersLastMsgTime ft') j =
         (if j \<in> set ids \<and> expired life now j f1 then None else map_of (idHandlersLastMsgTime f1) j)"
      by auto
    have fl: "filter (\<lambda>i. expired life now i f1) ids = filter (\<lambda>i. expired life now i ft) ids"
      by (rule filter_cong) (auto simp: exp)
    have "gcLoop life now (i # ids) (a, b) ft = Some ((a + Suc n, b + m), ft')" using True g(1) r(1) by simp
    moreover have "same_history ft ft'" using g(2) r(5) by (simp add: same_history_def)
    moreover have "map_of (idHandlersLastMsgTime ft') j =
       (if j \<in> set (i # ids) \<and> expired life now j ft then None else map_of (idHandlersLastMsgTime ft) j)" for j
      using r(6)[rule_format, of j] exp[of j] True by (auto simp: g(3) delete_conv')
    ultimately show ?thesis using r(2,3,4) True fl
      by (intro exI[of _ "Suc n"] exI[of _ m] exI[of _ ft']) auto
  qed
qed

text \<open>
  C28: a round of the collector returns in every reachable state (it never waits for an id whose
  mutex was lost and never panics), it counts each id once as collected or running, afterwards the
  known ids are those that had not expired (by the comparison of \<open>int64\<close> values in the code),
  and the messages that wait in the channels it closed are still there for their routines.
\<close>

theorem gc_collects_expired_ids:
  assumes "reachable_from ft_init ft_step ft"
  shows "\<exists>n m ft'. gc life now ft = Some ((n, m), ft') \<and> n + m = length (idHandlersLastMsgTime ft) \<and>
    dom (map_of (idHandlersLastMsgTime ft')) =
      {i \<in> dom (map_of (idHandlersLastMsgTime ft)). \<not> expired life now i ft} \<and>
    ft_panicked ft' = ft_panicked ft \<and> total load (channels ft') = total load (channels ft)"
proof -
  have inv: "ft_inv ft" "times_inv ft" using dispatch_times.reach_inv[OF assms] by simp_all
  let ?ids = "map fst (idHandlersLastMsgTime ft)"
  have ids: "distinct ?ids" "set ?ids \<subseteq> dom (map_of (idHandlersLastMsgTime ft))"
    using inv(2) by (simp_all add: times_inv_def dom_map_of_conv_image_fst)
  obtain n m ft' where r: "gcLoop life now ?ids (0, 0) ft = Some ((0 + n, 0 + m), ft')" "n + m = length ?ids"
    "ft_inv ft'" "same_history ft ft'"
    "\<forall>j. map_of (idHandlersLastMsgTime ft') j =
       (if j \<in> set ?ids \<and> expired life now j ft then None else map_of (idHandlersLastMsgTime ft) j)"
    using gcLoop_effect[OF inv ids, of life now 0 0] by blast
  from r(3) have "total load (channels ft') = total load (channels ft)"
    using inv(1) r(4) by (simp add: ft_inv_def messages_inv_def same_history_def)
  moreover have "dom (map_of (idHandlersLastMsgTime ft')) =
      {i \<in> dom (map_of (idHandlersLastMsgTime ft)). \<not> expired life now i ft}"
    using r(5) dom_map_of_conv_image_fst[of "idHandlersLastMsgTime ft"]
    by (auto simp: dom_def simp del: not_None_eq split: if_splits)
  ultimately show ?thesis
    using r(1,2,4) by (intro exI[of _ n] exI[of _ m] exI[of _ ft']) (simp add: gc_def same_history_def)
qed

section \<open>Handling what waits\<close>

lemma total_nonempty: "total f xs \<noteq> {#} \<Longrightarrow> distinct (map fst xs) \<Longrightarrow> \<exists>k v. map_of xs k = Some v \<and> f v \<noteq> {#}"
proof (induction xs)
  case (Cons x xs)
  show ?case
  proof (cases "f (snd x) = {#}")
    case True
    with Cons.prems(1) have "total f xs \<noteq> {#}" by (simp add: total_def)
    then obtain k v where "map_of xs k = Some v" "f v \<noteq> {#}" using Cons.IH Cons.prems(2) by auto
    moreover from this(1) have "k \<in> fst ` set xs" by (metis domI dom_map_of_conv_image_fst)
    ultimately show ?thesis using Cons.prems(2) by (intro exI[of _ k]) (cases x, auto)
  qed (intro exI[of _ "fst x"] exI[of _ "snd x"], cases x, auto)
qed (simp add: total_def)

definition same_arrivals :: "'j FunctionType \<Rightarrow> 'j FunctionType \<Rightarrow> bool" where
  "same_arrivals ft ft' \<longleftrightarrow> received ft' = received ft \<and> refused ft' = refused ft"

text \<open>Nothing waits in a channel whose id has lost its executor. Without an executor plugin
  this is always so.\<close>

definition executors_ready :: "'j FunctionType \<Rightarrow> bool" where
  "executors_ready ft \<longleftrightarrow>
     (\<forall>c ch. map_of (channels ft) c = Some ch \<longrightarrow> ch_queue ch \<noteq> [] \<longrightarrow> \<not> missingExecutor (ch_id ch) ft)"

lemma no_plugin_ready: "ft_executor ft = None \<Longrightarrow> executors_ready ft"
  by (simp add: executors_ready_def)

lemma routine_progress:
  assumes "total load (channels ft) \<noteq> {#}" and "distinct (map fst (channels ft))"
    and "\<not> ft_panicked ft" and "executors_ready ft"
  shows "\<exists>ft' m. ft_run ft ft' \<and> same_arrivals ft ft' \<and> handled ft' = handled ft @ [m] \<and>
    \<not> ft_panicked ft' \<and> executors_ready ft'"
proof -
  obtain c ch where ch: "map_of (channels ft) c = Some ch" "load ch \<noteq> {#}"
    using total_nonempty[OF assms(1,2)] by blast
  show ?thesis
  proof (cases "ch_current ch")
    case (Some m)
    with assms(3) ch(1) have "ft_step ft (finishMsg 0 c ch m ft)" by (intro step_finish)
    moreover have "same_arrivals ft (finishMsg 0 c ch m ft)" "handled (finishMsg 0 c ch m ft) = handled ft @ [m]"
      "\<not> ft_panicked (finishMsg 0 c ch m ft)"
      using assms(3) by (simp_all add: same_arrivals_def finishMsg_def)
    moreover have "executors_ready (finishMsg 0 c ch m ft)"
      using assms(4) ch(1) by (auto simp: executors_ready_def finishMsg_def missingExecutor_def update_conv' split: option.splits)
    ultimately show ?thesis by blast
  next
    case None
    with ch(2) have ne: "ch_queue ch \<noteq> []" by (auto simp: load_def)
    let ?ch = "ch\<lparr>ch_current := Some (hd (ch_queue ch)), ch_queue := tl (ch_queue ch), ch_waiting := False,
      ch_taken := ch_taken ch @ [hd (ch_queue ch)]\<rparr>"
    let ?ft = "takeMsg c ch ft" let ?ft' = "finishMsg 0 c ?ch (hd (ch_queue ch)) ?ft"
    have ready: "\<not> missingExecutor (ch_id ch) ft" using assms(4) ch(1) ne by (auto simp: executors_ready_def)
    have "ft_step ft ?ft" using assms(3) ch(1) None ne by (intro step_take)
    moreover have "ft_step ?ft ?ft'"
      by (rule step_finish) (simp_all add: takeMsg_def update_conv' assms(3) ready)
    moreover have "same_arrivals ft ?ft'" "handled ?ft' = handled ft @ [hd (ch_queue ch)]" "\<not> ft_panicked ?ft'"
      using assms(3) ready by (simp_all add: same_arrivals_def finishMsg_def takeMsg_def)
    moreover have "executors_ready ?ft'"
      using assms(4) ready ch(1)
      by (auto simp: executors_ready_def finishMsg_def takeMsg_def missingExecutor_def update_conv' split: option.splits)
    ultimately show ?thesis by (meson r_into_rtranclp rtranclp.rtrancl_into_rtrancl)
  qed
qed

text \<open>
  C29: while the process has not panicked and no message waits in a channel whose id has lost its
  executor (so always without an executor plugin), the routines alone can finish the work: there is
  a run without a panic that ends with no message waiting or in hand and with every message that was
  waiting handled. A channel whose id was collected while a message waits in it is the exception: its
  routine panics (\<open>collected\_id\_loses\_executor\<close>).
\<close>

theorem waiting_messages_can_be_handled:
  assumes "reachable_from ft_init ft_step ft" and "\<not> ft_panicked ft"
    and "ft_executor ft = None \<or> executors_ready ft"
  shows "\<exists>ft'. ft_run ft ft' \<and> received ft' = received ft \<and> refused ft' = refused ft \<and> \<not> ft_panicked ft' \<and>
    total load (channels ft') = {#} \<and> mset (handled ft') = mset (handled ft) + total load (channels ft)"
proof -
  have "executors_ready ft" using assms(3) no_plugin_ready by blast
  with assms(1,2) show ?thesis
  proof (induction "size (total load (channels ft))" arbitrary: ft rule: less_induct)
    case less
    have inv: "ft_inv ft" using dispatch.reach_inv[OF less.prems(1)] .
    show ?case
    proof (cases "total load (channels ft) = {#}")
      case False
      from inv have "distinct (map fst (channels ft))" by (simp add: ft_inv_def maps_inv_def)
      from routine_progress[OF False this less.prems(2,3)] obtain f1 m where f1:
        "ft_run ft f1" "same_arrivals ft f1" "handled f1 = handled ft @ [m]"
        "\<not> ft_panicked f1" "executors_ready f1" by blast
      have r1: "reachable_from ft_init ft_step f1" using reach_run[OF f1(1) less.prems(1)] .
      then have "ft_inv f1" by (rule dispatch.reach_inv)
      with inv f1(2,3) have l: "total load (channels ft) = add_mset m (total load (channels f1))"
        by (simp add: ft_inv_def messages_inv_def same_arrivals_def)
      then obtain f2 where "ft_run f1 f2" "received f2 = received f1" "refused f2 = refused f1" "\<not> ft_panicked f2"
        "total load (channels f2) = {#}" "mset (handled f2) = mset (handled f1) + total load (channels f1)"
        using less.hyps[OF _ r1 f1(4,5)] by auto
      with f1 l show ?thesis
        by (intro exI[of _ f2]) (auto simp: same_arrivals_def)
    qed (intro exI[of _ ft], simp add: less.prems(2))
  qed
qed

section \<open>How an id loses its handler\<close>

lemma offer_keeps_locks [simp]: "idKeyMutex (offerMsg now i c msg ft) = idKeyMutex ft"
  by (simp add: offerMsg_def handOver_def countMessage_def Let_def split: option.split)

lemma locks_kept: "ft_step ft ft' \<Longrightarrow> idKeyMutex ft \<subseteq> idKeyMutex ft'"
proof (induction rule: ft_step.induct)
  case (step_send ft now i msg ft')
  then show ?case
    by (auto simp: sendMsg_def Let_def refuseAtLimit_def newHandler_def split: if_splits option.splits)
qed (auto simp: takeMsg_def waitMsg_def finishMsg_def exitRoutine_def gcId_def split: if_splits option.splits)

lemma locks_kept_run: "ft_run ft ft' \<Longrightarrow> idKeyMutex ft \<subseteq> idKeyMutex ft'"
  by (induction rule: rtranclp_induct) (auto dest: locks_kept)

text \<open>
  An id whose first message is refused because the limit of handlers is reached is lost: its
  mutex stays locked, so whatever happens later, also when all the handlers have ended, every
  \<open>sendMsg\<close> for it waits for ever.
\<close>

lemma refusal_at_limit_blocks_id:
  assumes "sendMsg now i msg ft = Some ft1" and "map_of (idHandlersChannel ft) i = None"
    and "limited ft" and "int (instancesControl ft) \<ge> maxIdHandlers (ft_config ft)"
    and "ft_run ft1 ft2"
  shows "sendMsg later i msg2 ft2 = None"
proof -
  have "i \<in> idKeyMutex ft1"
    using assms(1-4) by (auto simp: sendMsg_def Let_def refuseAtLimit_def limited_def split: if_splits)
  with locks_kept_run[OF assms(5)] show ?thesis by (auto simp: sendMsg_def)
qed

lemma channels_count [simp]: "channels (countMessage now ft) = channels ft"
  by (simp add: countMessage_def Let_def)

lemma first_message:
  assumes "msgChannelSize (ft_config ft) > 0"
  shows "map_of (channels (offerMsg now i (nextChannel ft) msg (newHandler i ft))) =
    (map_of (channels ft))(nextChannel ft \<mapsto>
       \<lparr>ch_id = i, ch_queue = [msg], ch_closed = False, ch_current = None, ch_waiting = False,
        ch_reply = False, ch_sent = [msg], ch_taken = []\<rparr>)"
  using assms by (simp add: offerMsg_def newHandler_def Let_def update_conv')

lemma first_message_panic:
  "msgChannelSize (ft_config ft) > 0 \<Longrightarrow>
   ft_panicked (offerMsg now i (nextChannel ft) msg (newHandler i ft)) = ft_panicked ft"
  by (simp add: offerMsg_def newHandler_def countMessage_def Let_def update_conv')

text \<open>
  C36: in a process that runs, a handler that works longer than the lifetime of an idle id is replaced while it works: the
  collector closes its channel, the next message of the id starts a second routine, and two
  routines handle messages of one id at once.
\<close>

theorem busy_id_is_split:
  assumes "reachable_from ft_init ft_step ft"
    and "map_of (channels ft) c = Some h" and "ch_id h = i" and "\<not> ch_closed h" and "ch_current h = Some m"
    and "expired life now i ft" and "msgChannelSize (ft_config ft) > 0"
    and "limited ft \<Longrightarrow> int (instancesControl ft) < maxIdHandlers (ft_config ft)" and "\<not> ft_panicked ft"
  shows "\<exists>ft' d h' k. ft_run ft ft' \<and> d \<noteq> c \<and> map_of (channels ft') c = Some h' \<and> ch_current h' = Some m \<and>
    map_of (channels ft') d = Some k \<and> ch_current k = Some msg \<and> ch_id h' = i \<and> ch_id k = i"
proof -
  have inv: "maps_inv ft" using dispatch.reach_inv[OF assms(1)] by (simp add: ft_inv_def)
  have ic: "map_of (idHandlersChannel ft) i = Some c" using inv assms(2-4) unfolding maps_inv_def by blast
  then have free: "i \<notin> idKeyMutex ft" using inv unfolding maps_inv_def by blast
  have "c < nextChannel ft" using inv assms(2) unfolding maps_inv_def by blast
  obtain t where t: "map_of (idHandlersLastMsgTime ft) i = Some t"
    using assms(6) by (auto simp: expired_def split: option.splits)
  obtain f1 where f1: "gcId i ft = Some f1" "i \<notin> idKeyMutex f1" "map_of (idHandlersChannel f1) i = None"
    "map_of (channels f1) c = Some (h\<lparr>ch_closed := True\<rparr>)" "limited f1 = limited ft"
    "instancesControl f1 = instancesControl ft" "ft_config f1 = ft_config ft" "nextChannel f1 = nextChannel ft" "\<not> ft_panicked f1"
    using ic free assms(2,9) by (simp add: gcId_def delete_conv' update_conv' limited_def)
  let ?d = "nextChannel ft"
  have "\<not> (limited f1 \<and> int (instancesControl f1) \<ge> maxIdHandlers (ft_config f1))"
    using assms(8) f1(5-7) by auto
  then have "sendMsg now i msg f1 = Some (offerMsg now i ?d msg (newHandler i (f1\<lparr>received := received f1 @ [msg]\<rparr>)))"
    using f1(2,3,8) by (auto simp: sendMsg_def Let_def limited_def)
  then obtain f2 where f2: "sendMsg now i msg f1 = Some f2" "map_of (channels f2) =
    (map_of (channels f1))(?d \<mapsto>
       \<lparr>ch_id = i, ch_queue = [msg], ch_closed = False, ch_current = None, ch_waiting = False,
        ch_reply = False, ch_sent = [msg], ch_taken = []\<rparr>)" "\<not> ft_panicked f2"
    using first_message[of "f1\<lparr>received := received f1 @ [msg]\<rparr>" now i msg]
      first_message_panic[of "f1\<lparr>received := received f1 @ [msg]\<rparr>" now i msg] f1(7-9) assms(7) by simp
  define k where "k = \<lparr>ch_id = i, ch_queue = [msg], ch_closed = False, ch_current = None, ch_waiting = False,
    ch_reply = False, ch_sent = [msg], ch_taken = []\<rparr>"
  have d: "map_of (channels f2) ?d = Some k" "ch_current k = None" "ch_queue k \<noteq> []"
    by (simp_all add: f2(2) k_def)
  have "ft_step ft f1" "ft_step f1 f2" "ft_step f2 (takeMsg ?d k f2)"
    using step_gc[OF assms(9) t f1(1)] step_send[OF f1(9) f2(1)] step_take[OF f2(3) d] by simp_all
  then have "ft_run ft (takeMsg ?d k f2)" by (meson converse_rtranclp_into_rtranclp r_into_rtranclp)
  moreover have "map_of (channels (takeMsg ?d k f2)) c = Some (h\<lparr>ch_closed := True\<rparr>)"
    "\<exists>k'. map_of (channels (takeMsg ?d k f2)) ?d = Some k' \<and> ch_current k' = Some msg \<and> ch_id k' = i"
    using f1(4) \<open>c < nextChannel ft\<close> by (simp_all add: f2(2) takeMsg_def update_conv' k_def)
  ultimately show ?thesis
    using assms(3,5) \<open>c < nextChannel ft\<close> by (intro exI[of _ "takeMsg ?d k f2"] exI[of _ ?d]) auto
qed

text \<open>
  With an executor plugin the collection of a busy id also ends the process: the messages that
  still wait in the closed channel are handled without the id's executor, and the first of them panics.
\<close>

lemma collected_id_loses_executor:
  assumes "reachable_from ft_init ft_step ft" and "ft_executor ft \<noteq> None"
    and "map_of (channels ft) c = Some h" and "ch_id h = i" and "\<not> ch_closed h"
    and "ch_current h = Some m" and "ch_queue h = msg # rest" and "expired life now i ft" and "\<not> ft_panicked ft"
  shows "\<exists>ft'. ft_run ft ft' \<and> ft_panicked ft'"
proof -
  have inv: "maps_inv ft" using dispatch.reach_inv[OF assms(1)] by (simp add: ft_inv_def)
  have ic: "map_of (idHandlersChannel ft) i = Some c" using inv assms(3-5) unfolding maps_inv_def by blast
  then have free: "i \<notin> idKeyMutex ft" using inv unfolding maps_inv_def by blast
  obtain t where t: "map_of (idHandlersLastMsgTime ft) i = Some t"
    using assms(8) by (auto simp: expired_def split: option.splits)
  let ?h = "h\<lparr>ch_closed := True\<rparr>" let ?h2 = "?h\<lparr>ch_current := None, ch_reply := ch_reply h \<or> hasRequestCallback m\<rparr>"
  obtain f1 where f1: "gcId i ft = Some f1" "map_of (channels f1) c = Some ?h"
    "\<exists>ids. ft_executor f1 = Some ids \<and> i \<notin> set ids" "\<not> ft_panicked f1"
    using ic free assms(2,3,9) by (auto simp: gcId_def update_conv')
  let ?f2 = "finishMsg now c ?h m f1"
  have s2: "ft_step f1 ?f2" using f1(2,4) assms(6) by (intro step_finish) auto
  have c2: "map_of (channels ?f2) c = Some ?h2" "ft_executor ?f2 = ft_executor f1"
    by (simp_all add: finishMsg_def update_conv')
  have s3: "ft_step ?f2 (takeMsg c ?h2 ?f2)" using c2(1) f1(4) assms(7) by (intro step_take) (auto simp: finishMsg_def)
  have "ft_run ft (takeMsg c ?h2 ?f2)"
    using step_gc[OF assms(9) t f1(1)] s2 s3 by (meson converse_rtranclp_into_rtranclp r_into_rtranclp)
  moreover have "ft_panicked (takeMsg c ?h2 ?f2)"
    using f1(3) c2(2) assms(4) by (auto simp: takeMsg_def missingExecutor_def)
  ultimately show ?thesis by blast
qed

section \<open>A sample run\<close>

text \<open>One message is in the hand of its routine, and the limit is one handler.\<close>

definition sample_config :: "int \<Rightarrow> unit FunctionTypeConfig" where
  "sample_config n =
     \<lparr>msgAckWaitMs = 10000, msgChannelSize = 64, msgAckChannelSize = 64, balanceNeeded = True,
      serviceActive = False, mutexLifeTimeSec = 120, fc_options = (), multipleInstancesAllowed = False,
      maxIdHandlers = n\<rparr>"

definition sample_msg :: "nat \<Rightarrow> unit FunctionTypeMsg" where
  "sample_msg n = \<lparr>msgNo = n, Caller = (''ingress'', ''nats''), msgPayload = None, msgOptions = None,
     hasRefusalCallback = True, hasRequestCallback = False, hasAckCallback = True\<rparr>"

definition sample_routine :: "unit channel" where
  "sample_routine = \<lparr>ch_id = ''a'', ch_queue = [], ch_closed = False, ch_current = Some (sample_msg 0),
     ch_waiting = False, ch_reply = False, ch_sent = [sample_msg 0], ch_taken = [sample_msg 0]\<rparr>"

definition sample_busy :: "int \<Rightarrow> unit FunctionType" where
  "sample_busy n = (NewFunctionType ''f'' (sample_config n))
     \<lparr>idHandlersChannel := [(''a'', 0)], idHandlersLastMsgTime := [(''a'', 0)],
      instancesControl := (if n > 0 then 1 else 0), channels := [(0, sample_routine)], nextChannel := 1,
      rt_gc := 1, received := [sample_msg 0]\<rparr>"

lemmas sample_simps = sample_busy_def sample_config_def sample_routine_def NewFunctionType_def limited_def

lemma sample_busy_reachable: "reachable_from ft_init ft_step (sample_busy n)"
proof -
  let ?ft = "NewFunctionType ''f'' (sample_config n)"
  let ?ch = "sample_routine\<lparr>ch_current := None, ch_queue := [sample_msg 0], ch_taken := []\<rparr>"
  let ?ft1 = "(sample_busy n)\<lparr>channels := [(0, ?ch)]\<rparr>"
  have "reachable_from ft_init ft_step ?ft" by (rule reach_start) (auto simp: ft_init_def)
  moreover have "sendMsg 0 ''a'' (sample_msg 0) ?ft = Some ?ft1"
    by (simp add: sendMsg_def NewFunctionType_def offerMsg_def newHandler_def countMessage_def limited_def Let_def
        sample_busy_def sample_config_def sample_routine_def)
  moreover have "\<not> ft_panicked ?ft" by (simp add: NewFunctionType_def SetExecutor_def)
  ultimately have "reachable_from ft_init ft_step ?ft1" by (blast intro: reach_next step_send)
  moreover have "ft_step ?ft1 (takeMsg 0 ?ch ?ft1)"
    by (rule step_take) (simp_all add: sample_simps)
  ultimately have "reachable_from ft_init ft_step (takeMsg 0 ?ch ?ft1)" by (rule reach_next)
  moreover have "takeMsg 0 ?ch ?ft1 = sample_busy n"
    by (simp add: takeMsg_def sample_busy_def sample_routine_def NewFunctionType_def missingExecutor_def)
  ultimately show ?thesis by simp
qed

theorem dispatch_accounts_for_messages_witness:
  "mset (received (sample_busy 1)) =
     mset (refused (sample_busy 1)) + mset (handled (sample_busy 1)) + total load (channels (sample_busy 1)) \<and>
   received (sample_busy 1) = [sample_msg 0]"
  using dispatch_accounts_for_messages[OF sample_busy_reachable[of 1]] by (simp add: sample_simps)

theorem gc_collects_expired_ids_witness:
  "\<exists>n m ft'. gc 5000 6000000000 (sample_busy 1) = Some ((n, m), ft') \<and> n + m = 1 \<and>
     idHandlersLastMsgTime ft' = [] \<and> total load (channels ft') = {#sample_msg 0#}"
proof -
  have e: "{i \<in> dom (map_of (idHandlersLastMsgTime (sample_busy 1))). \<not> expired 5000 6000000000 i (sample_busy 1)} = {}"
    by (auto simp: expired_def in_int64_def sample_simps)
  have l: "length (idHandlersLastMsgTime (sample_busy 1)) = 1" "total load (channels (sample_busy 1)) = {#sample_msg 0#}"
    by (simp_all add: sample_simps total_def load_def)
  show ?thesis
    using gc_collects_expired_ids[OF sample_busy_reachable[of 1], of 5000 6000000000] unfolding e l
    by auto
qed

theorem waiting_messages_can_be_handled_witness:
  "\<exists>ft'. ft_run (sample_busy 1) ft' \<and> handled ft' = [sample_msg 0] \<and> total load (channels ft') = {#}"
proof -
  have "total load (channels (sample_busy 1)) = {#sample_msg 0#}" "handled (sample_busy 1) = []"
    by (simp_all add: sample_simps total_def load_def)
  moreover have "\<not> ft_panicked (sample_busy 1)" "ft_executor (sample_busy 1) = None"
    by (simp_all add: sample_simps)
  ultimately show ?thesis
    using waiting_messages_can_be_handled[OF sample_busy_reachable[of 1]] by auto
qed

lemma refusal_at_limit_blocks_id_witness:
  "\<exists>ft. sendMsg 1 ''b'' (sample_msg 1) (sample_busy 1) = Some ft \<and>
     (\<forall>later. sendMsg later ''b'' (sample_msg 2) ft = None)"
proof -
  have s: "sendMsg 1 ''b'' (sample_msg 1) (sample_busy 1) =
     Some (refuseAtLimit ''b'' (sample_msg 1) ((sample_busy 1)\<lparr>received := [sample_msg 0, sample_msg 1]\<rparr>))"
    by (simp add: sendMsg_def sample_simps)
  have c: "map_of (idHandlersChannel (sample_busy 1)) ''b'' = None" "limited (sample_busy 1)"
    "int (instancesControl (sample_busy 1)) \<ge> maxIdHandlers (ft_config (sample_busy 1))"
    by (simp_all add: sample_simps)
  show ?thesis
    using refusal_at_limit_blocks_id[OF s c rtranclp.rtrancl_refl] s by auto
qed

theorem busy_id_is_split_witness:
  "\<exists>ft' d h' k. ft_run (sample_busy 2) ft' \<and> d \<noteq> 0 \<and> map_of (channels ft') 0 = Some h' \<and>
     ch_current h' = Some (sample_msg 0) \<and> map_of (channels ft') d = Some k \<and>
     ch_current k = Some (sample_msg 1) \<and> ch_id h' = ''a'' \<and> ch_id k = ''a''"
proof -
  have "map_of (channels (sample_busy 2)) 0 = Some sample_routine" by (simp add: sample_simps)
  then show ?thesis
    by (rule busy_id_is_split[OF sample_busy_reachable, where life = 5000 and now = 6000000000])
      (simp_all add: expired_def in_int64_def sample_simps)
qed

text \<open>With an executor, a second message waits behind the first.\<close>

definition sample_queued :: "unit FunctionType" where
  "sample_queued = (sample_busy 1)
     \<lparr>ft_executor := Some [''a''], received := [sample_msg 0, sample_msg 1], rt_gc := 2,
      channels := [(0, sample_routine\<lparr>ch_queue := [sample_msg 1], ch_sent := [sample_msg 0, sample_msg 1]\<rparr>)]\<rparr>"

lemma sample_queued_reachable: "reachable_from ft_init ft_step sample_queued"
proof -
  let ?ft = "SetExecutor (NewFunctionType ''f'' (sample_config 1)) :: unit FunctionType"
  let ?ch = "sample_routine\<lparr>ch_current := None, ch_queue := [sample_msg 0], ch_taken := []\<rparr>"
  let ?ft1 = "(sample_busy 1)\<lparr>channels := [(0, ?ch)], ft_executor := Some [''a'']\<rparr>"
  let ?ft2 = "(sample_busy 1)\<lparr>ft_executor := Some [''a'']\<rparr>"
  have "reachable_from ft_init ft_step ?ft" by (rule reach_start) (auto simp: ft_init_def)
  moreover have "sendMsg 0 ''a'' (sample_msg 0) ?ft = Some ?ft1"
    by (simp add: sendMsg_def SetExecutor_def offerMsg_def newHandler_def countMessage_def Let_def sample_simps)
  moreover have "\<not> ft_panicked ?ft" by (simp add: NewFunctionType_def SetExecutor_def)
  ultimately have "reachable_from ft_init ft_step ?ft1" by (blast intro: reach_next step_send)
  moreover have "ft_step ?ft1 (takeMsg 0 ?ch ?ft1)"
    by (rule step_take) (simp_all add: sample_simps)
  ultimately have "reachable_from ft_init ft_step (takeMsg 0 ?ch ?ft1)" by (rule reach_next)
  moreover have "takeMsg 0 ?ch ?ft1 = ?ft2"
    by (simp add: takeMsg_def missingExecutor_def sample_simps)
  ultimately have "reachable_from ft_init ft_step ?ft2" by simp
  moreover have "sendMsg 0 ''a'' (sample_msg 1) ?ft2 = Some sample_queued"
    by (simp add: sendMsg_def offerMsg_def countMessage_def Let_def sample_simps sample_queued_def)
  moreover have "\<not> ft_panicked ?ft2" by (simp add: sample_simps)
  ultimately show ?thesis by (blast intro: reach_next step_send)
qed

lemma collected_id_loses_executor_witness:
  "\<exists>ft'. ft_run sample_queued ft' \<and> ft_panicked ft'"
proof -
  have "map_of (channels sample_queued) 0 =
     Some (sample_routine\<lparr>ch_queue := [sample_msg 1], ch_sent := [sample_msg 0, sample_msg 1]\<rparr>)"
    by (simp add: sample_queued_def)
  from collected_id_loses_executor[OF sample_queued_reachable _ this, of "''a''" "sample_msg 0" "sample_msg 1" "[]" 5000 6000000000]
  show ?thesis by (simp add: expired_def in_int64_def sample_queued_def sample_simps)
qed

end
