(* ===== verification/Messages.thy ===== *)
theory Messages
  imports StatefunContext Dispatch KVMutex
begin

text \<open>
  From a message to a logic handler and back: the handling of one message by a routine
  (\<open>handleMsgForID\<close> of \<open>statefun/function\_type.go\<close>), the messages that arrive from
  NATS (\<open>statefun/nats\_sources.go\<close>), the entry points of a runtime
  (\<open>statefun/ingress.go\<close>), the object mutex that a handler can take, and the executors of a
  typename (\<open>statefun/plugins/plugins.go\<close>).
\<close>

section \<open>Handling one message\<close>

text \<open>
  A routine has one context processor for all its messages, and its \<open>Reply\<close> is set by the
  first request and never reset: \<open>replySet\<close> says whether an earlier message was a request.
  What a logic handler replies reaches the caller of the message only if the message is a request.

  When the handler returns, its reply channel holds the default reply, the reply it was given, or
  nothing if the handler cancelled the default (\<open>CancelDefault\<close>) and left the reply to
  somebody else; then \<open>late\<close> is the reply that arrives within the request timeout, if one
  does. If none does, the reply is nil: \<open>SetByPath\<close> is called on the nil pointer, and the
  callback gets it if that call returns (\<open>out\_response\<close> is then \<open>Some None\<close>).
\<close>

datatype 'j replied = DefaultReply | CancelledReply | ReplyWith 'j

type_synonym ('j, 'kv) msgHandler =
  "('j, 'kv) requester \<Rightarrow> 'j StatefunContextProcessor \<Rightarrow> ('j, 'kv) world \<Rightarrow> 'j replied \<times> ('j, 'kv) world"

text \<open>A handler that replies before it returns or leaves the default.\<close>

definition prompt :: "('j, 'kv) handler \<Rightarrow> ('j, 'kv) msgHandler" where
  "prompt h req ctx w =
     (case h req ctx w of (r, w') \<Rightarrow> (case r of None \<Rightarrow> DefaultReply | Some d \<Rightarrow> ReplyWith d, w'))"

record 'j outcome =
  out_replySet :: bool
  out_reply :: "'j replied"
  out_response :: "'j option option"
  out_acked :: bool

definition replyData :: "'j easyjson \<Rightarrow> 'j option \<Rightarrow> 'j replied \<Rightarrow> 'j option" where
  "replyData J late r =
     (case r of DefaultReply \<Rightarrow> Some (NewJSONObject J) | ReplyWith d \<Rightarrow> Some d | CancelledReply \<Rightarrow> late)"

definition handleMsgForID ::
  "'j easyjson \<Rightarrow> 'j \<Rightarrow> ('j, 'kv) msgHandler \<Rightarrow> ('j, 'kv) requester \<Rightarrow> string \<Rightarrow> string \<Rightarrow> bool \<Rightarrow> 'j option \<Rightarrow>
    'j FunctionTypeMsg \<Rightarrow> ('j, 'kv) world \<Rightarrow> 'j outcome \<times> ('j, 'kv) world" where
  "handleMsgForID J ftOptions logicHandler req typename ident replySet late msg w =
     (let reply = replySet \<or> hasRequestCallback msg
      in case logicHandler req
                (handlerContext J ftOptions typename ident (fst (Caller msg)) (snd (Caller msg))
                   (msgPayload msg) (msgOptions msg) reply) w of
           (r, w') \<Rightarrow>
             (\<lparr>out_replySet = reply, out_reply = r,
               out_response = (if hasRequestCallback msg then Some (replyData J late r) else None),
               out_acked = hasAckCallback msg\<rparr>, w'))"

text \<open>The messages of one routine, in the order it takes them.\<close>

fun handleMsgs ::
  "'j easyjson \<Rightarrow> 'j \<Rightarrow> ('j, 'kv) msgHandler \<Rightarrow> ('j, 'kv) requester \<Rightarrow> string \<Rightarrow> string \<Rightarrow> bool \<Rightarrow> (nat \<Rightarrow> 'j option) \<Rightarrow>
    'j FunctionTypeMsg list \<Rightarrow> ('j, 'kv) world \<Rightarrow> 'j outcome list \<times> ('j, 'kv) world" where
  "handleMsgs J ftOptions h req typename ident replySet late [] w = ([], w)"
| "handleMsgs J ftOptions h req typename ident replySet late (msg # msgs) w =
     (case handleMsgForID J ftOptions h req typename ident replySet (late (msgNo msg)) msg w of
        (out, w1) \<Rightarrow> (case handleMsgs J ftOptions h req typename ident (out_replySet out) late msgs w1 of
           (outs, w2) \<Rightarrow> (out # outs, w2)))"

section \<open>Messages from NATS\<close>

record natsMsg =
  natsSubject :: string
  natsData :: bytes

definition objectAt :: "'j easyjson \<Rightarrow> 'j \<Rightarrow> string \<Rightarrow> 'j" where
  "objectAt J data p = (if IsObject J (GetByPath J data p) then GetByPath J data p else NewJSONObject J)"

definition natsCaller :: "'j easyjson \<Rightarrow> 'j \<Rightarrow> string \<times> string" where
  "natsCaller J data =
     (case (AsString J (GetByPath J data ''caller_typename''), AsString J (GetByPath J data ''caller_id'')) of
        (Some t, Some i) \<Rightarrow> (t, i)
      | _ \<Rightarrow> ([], []))"

text \<open>The id and the message that \<open>handleNatsMsg\<close> passes to \<open>sendMsg\<close>, or the error it
  returns after it has acknowledged the message.\<close>

definition natsMessage ::
  "'j easyjson \<Rightarrow> nat \<Rightarrow> string \<Rightarrow> natsMsg \<Rightarrow> bool \<Rightarrow> string + (string \<times> 'j FunctionTypeMsg)" where
  "natsMessage J n ftName msg requestReply =
     (let ident = last (split_dot (natsSubject msg))
      in case JSONFromBytes J (natsData msg) of
           None \<Rightarrow> Inl (''nats.Msg for function '' @ ftName @ '' with id='' @ ident @ '' is not a JSON'' @ [CHR 0x0A])
         | Some data \<Rightarrow> Inr (ident,
             \<lparr>msgNo = n, Caller = natsCaller J data, msgPayload = Some (objectAt J data ''payload''),
              msgOptions = Some (objectAt J data ''options''), hasRefusalCallback = True,
              hasRequestCallback = requestReply, hasAckCallback = \<not> requestReply\<rparr>))"

definition handleNatsMsg ::
  "'j easyjson \<Rightarrow> nat \<Rightarrow> int \<Rightarrow> 'j FunctionType \<Rightarrow> natsMsg \<Rightarrow> bool \<Rightarrow> (string option \<times> 'j FunctionType) option" where
  "handleNatsMsg J n now ft msg requestReply =
     (case natsMessage J n (ft_name ft) msg requestReply of
        Inl err \<Rightarrow> Some (Some err, ft)
      | Inr (ident, m) \<Rightarrow> map_option (\<lambda>ft'. (None, ft')) (sendMsg now ident m ft))"

section \<open>The consumer of a function type\<close>

record consumerConfig =
  cc_name :: string
  cc_deliverSubject :: string
  cc_deliverGroup :: string
  cc_filterSubject :: string
  cc_ackWaitMs :: int

definition consumerName :: "string \<Rightarrow> string" where
  "consumerName typename = replace_all typename ''.'' ''''"

definition AddSignalSourceJetstreamQueuePushConsumer ::
  "'j FunctionType \<Rightarrow> (string \<times> consumerConfig) list \<Rightarrow> (string \<times> consumerConfig) list" where
  "AddSignalSourceJetstreamQueuePushConsumer ft consumers =
     (let name = consumerName (ft_name ft)
      in if name \<in> fst ` set consumers then consumers
         else consumers @ [(name, \<lparr>cc_name = name, cc_deliverSubject = name, cc_deliverGroup = name @ ''-group'',
           cc_filterSubject = ft_subject ft, cc_ackWaitMs = msgAckWaitMs (ft_config ft)\<rparr>)])"

section \<open>Entry points of a runtime\<close>

datatype RequestProvider = NatsCoreGlobalRequest | GolangLocalRequest | UnknownRequestProvider int

text \<open>\<open>ncRequest\<close> is \<open>nats.Conn.Request\<close> with the runtime's timeout.\<close>

definition natsCoreGlobalRequest ::
  "'j easyjson \<Rightarrow> (string \<Rightarrow> bytes \<Rightarrow> 'w \<Rightarrow> (string + bytes) \<times> 'w) \<Rightarrow> string \<Rightarrow> string \<Rightarrow> string \<Rightarrow> string \<Rightarrow>
    'j option \<Rightarrow> 'j option \<Rightarrow> 'w \<Rightarrow> (string + 'j) \<times> 'w" where
  "natsCoreGlobalRequest J ncRequest callerTypename callerID targetTypename targetID payload options w =
     (case ncRequest (''service.'' @ targetTypename @ CHR ''.'' # targetID)
             (buildNatsData J callerTypename callerID payload options) w of
        (Inl err, w') \<Rightarrow> (Inl err, w')
      | (Inr data, w') \<Rightarrow>
         (case JSONFromBytes J data of
            Some j \<Rightarrow> (Inr j, w')
          | None \<Rightarrow> (Inl (''response from function typename '' @ quoted targetTypename @ '' with id '' @
              quoted targetID @ '' is not a json''), w')))"

definition request ::
  "('j, 'kv) env \<Rightarrow> (string \<Rightarrow> bytes \<Rightarrow> ('j, 'kv) world \<Rightarrow> (string + bytes) \<times> ('j, 'kv) world) \<Rightarrow>
    (string \<Rightarrow> (('j, 'kv) handler \<times> 'j) option) \<Rightarrow> nat \<Rightarrow> RequestProvider \<Rightarrow> string \<Rightarrow> string \<Rightarrow> ('j, 'kv) requester" where
  "request E ncRequest registered fuel provider callerTypename callerID targetTypename targetID payload options w =
     (case provider of
        NatsCoreGlobalRequest \<Rightarrow>
          natsCoreGlobalRequest (ej E) ncRequest callerTypename callerID targetTypename targetID payload options w
      | GolangLocalRequest \<Rightarrow>
          goLangLocalRequest E registered fuel callerTypename callerID targetTypename targetID payload options w
      | UnknownRequestProvider n \<Rightarrow> (Inl (''unknown request provider: '' @ sprintf_d n), w))"

definition Request ::
  "('j, 'kv) env \<Rightarrow> (string \<Rightarrow> bytes \<Rightarrow> ('j, 'kv) world \<Rightarrow> (string + bytes) \<times> ('j, 'kv) world) \<Rightarrow>
    (string \<Rightarrow> (('j, 'kv) handler \<times> 'j) option) \<Rightarrow> nat \<Rightarrow> RequestProvider \<Rightarrow> ('j, 'kv) requester" where
  "Request E ncRequest registered fuel provider typename ident payload options w =
     request E ncRequest registered fuel provider ''ingress'' ''go'' typename ident payload options w"

definition Signal ::
  "'j easyjson \<Rightarrow> SignalProvider \<Rightarrow> string \<Rightarrow> string \<Rightarrow> 'j option \<Rightarrow> 'j option \<Rightarrow> ('j, 'kv) world \<Rightarrow>
    string option \<times> ('j, 'kv) world" where
  "Signal J provider typename ident payload options w =
     signal J provider ''ingress'' ''nats'' typename ident payload options w"

section \<open>Mutexes of objects, contexts and typenames\<close>

definition ContextMutexLock ::
  "('j, 'kv) env \<Rightarrow> nat \<Rightarrow> nat \<Rightarrow> 'f FunctionType \<Rightarrow> string \<Rightarrow> bool \<Rightarrow> nat \<Rightarrow> 'kv \<Rightarrow> ((string + nat) \<times> 'kv) option" where
  "ContextMutexLock E life fuel ft ident errorOnLocked k s =
     KeyMutexLock E life fuel (ft_name ft @ CHR ''.'' # ident) errorOnLocked False k s"

definition ContextMutexUnlock ::
  "('j, 'kv) env \<Rightarrow> 'f FunctionType \<Rightarrow> string \<Rightarrow> nat \<Rightarrow> 'kv \<Rightarrow> string option \<times> 'kv" where
  "ContextMutexUnlock E ft ident lockRevisionID s = KeyMutexUnlock E (ft_name ft @ CHR ''.'' # ident) lockRevisionID s"

definition FunctionTypeMutexLock ::
  "('j, 'kv) env \<Rightarrow> nat \<Rightarrow> nat \<Rightarrow> 'f FunctionType \<Rightarrow> bool \<Rightarrow> nat \<Rightarrow> 'kv \<Rightarrow> ((string + nat) \<times> 'kv) option" where
  "FunctionTypeMutexLock E life fuel ft errorOnLocked k s = KeyMutexLock E life fuel (ft_name ft) errorOnLocked False k s"

definition FunctionTypeMutexUnlock ::
  "('j, 'kv) env \<Rightarrow> 'f FunctionType \<Rightarrow> nat \<Rightarrow> 'kv \<Rightarrow> string option \<times> 'kv" where
  "FunctionTypeMutexUnlock E ft lockRevisionID s = KeyMutexUnlock E (ft_name ft) lockRevisionID s"

text \<open>The mutex of an object keeps the revision of its lock in the context \<open>id-lock\<close>. The
  runtime's key/value store is the one of its cache.\<close>

definition with_kv :: "('j, 'kv) world \<Rightarrow> 'kv \<Rightarrow> ('j, 'kv) world" where
  "with_kv w s = w\<lparr>w_cache := (w_cache w)\<lparr>cs_kv := s\<rparr>\<rparr>"

definition ObjectMutexLock ::
  "('j, 'kv) env \<Rightarrow> nat \<Rightarrow> nat \<Rightarrow> string \<Rightarrow> bool \<Rightarrow> nat \<Rightarrow> ('j, 'kv) world \<Rightarrow> (string option \<times> ('j, 'kv) world) option" where
  "ObjectMutexLock E life fuel ident errorOnLocked k w =
     (let lockId = ident @ ''-lock''
      in case KeyMutexLock E life fuel lockId errorOnLocked False k (cs_kv (w_cache w)) of
           None \<Rightarrow> None
         | Some (Inl err, s) \<Rightarrow> Some (Some err, with_kv w s)
         | Some (Inr revId, s) \<Rightarrow>
            (case getContext E lockId (with_kv w s) of
               (objCtx, w1) \<Rightarrow> Some (None, setContext E lockId
                 (Some (SetByPath (ej E) objCtx ''__lock_rev_id'' (NewJSONNumber (ej E) (int revId)))) w1)))"

definition ObjectMutexUnlock ::
  "('j, 'kv) env \<Rightarrow> string \<Rightarrow> ('j, 'kv) world \<Rightarrow> string option \<times> ('j, 'kv) world" where
  "ObjectMutexUnlock E ident w =
     (let lockId = ident @ ''-lock''
      in case getContext E lockId w of
           (objCtx, w1) \<Rightarrow>
             (case AsNumeric (ej E) (GetByPath (ej E) objCtx ''__lock_rev_id'') of
                None \<Rightarrow> (Some (''object:'' @ lockId @ '' was not locked''), w1)
              | Some v \<Rightarrow>
                 (case KeyMutexUnlock E lockId (nat v) (cs_kv (w_cache w1)) of
                    (Some err, s) \<Rightarrow> (Some err, with_kv w1 s)
                  | (None, s) \<Rightarrow> (None, wDeleteValue E lockId (with_kv w1 s)))))"

section \<open>Executors of a typename\<close>

text \<open>\<open>construct\<close> is the constructor of the plugin, if it has one; an id without an executor
  makes \<open>GetForID\<close> panic (\<open>None\<close>).\<close>

record 'x TypenameExecutorPlugin =
  tx_alias :: string
  tx_source :: string
  tx_construct :: "(string \<Rightarrow> string \<Rightarrow> 'x) option"
  idExecutors :: "string \<rightharpoonup> 'x option"

definition NewTypenameExecutor ::
  "string \<Rightarrow> string \<Rightarrow> (string \<Rightarrow> string \<Rightarrow> 'x) option \<Rightarrow> 'x TypenameExecutorPlugin" where
  "NewTypenameExecutor alias source construct =
     \<lparr>tx_alias = alias, tx_source = source, tx_construct = construct, idExecutors = Map.empty\<rparr>"

definition AddForID :: "string \<Rightarrow> 'x TypenameExecutorPlugin \<Rightarrow> 'x TypenameExecutorPlugin" where
  "AddForID ident t =
     t\<lparr>idExecutors := (idExecutors t)(ident \<mapsto>
         map_option (\<lambda>f. f (tx_alias t) (tx_source t)) (tx_construct t))\<rparr>"

definition RemoveForID :: "string \<Rightarrow> 'x TypenameExecutorPlugin \<Rightarrow> 'x TypenameExecutorPlugin" where
  "RemoveForID ident t = t\<lparr>idExecutors := (idExecutors t)(ident := None)\<rparr>"

definition GetForID :: "string \<Rightarrow> 'x TypenameExecutorPlugin \<Rightarrow> 'x option" where
  "GetForID ident t = (case idExecutors t ident of None \<Rightarrow> None | Some e \<Rightarrow> e)"

end
