(* ===== verification/MessagesProps.thy ===== *)
theory MessagesProps
  imports Messages CacheProps
begin

text \<open>
  What arrives at a logic handler: a request through NATS runs the same handler with the same
  context as a local one, and an answer that is lost because the routine kept the reply of an
  earlier request.
\<close>

section \<open>Reading back what was published\<close>

lemma nats_paths: "simple_path ''caller_typename''" "simple_path ''caller_id''" "simple_path ''payload''" "simple_path ''options''"
  by (simp_all add: simple_path_def dot_free_def)

lemma nats_fields_differ: "''caller_typename'' \<noteq> ''caller_id''" "''payload'' \<noteq> ''caller_id''"
  "''payload'' \<noteq> ''caller_typename''" "''options'' \<noteq> ''caller_id''" "''options'' \<noteq> ''caller_typename''"
  "''options'' \<noteq> ''payload''"
  by simp_all

lemma setOpt_obj: "easyjson_ok J \<Longrightarrow> IsObject J j \<Longrightarrow> simple_path p \<Longrightarrow> IsObject J (setOpt J p x j)"
  by (cases x) (simp_all add: setOpt_def ej_obj_set)

lemma setOpt_other:
  "easyjson_ok J \<Longrightarrow> IsObject J j \<Longrightarrow> simple_path p \<Longrightarrow> simple_path q \<Longrightarrow> p \<noteq> q \<Longrightarrow>
   GetByPath J (setOpt J p x j) q = GetByPath J j q"
  by (cases x) (simp_all add: setOpt_def ej_get_other)

lemma setOpt_exists:
  "easyjson_ok J \<Longrightarrow> IsObject J j \<Longrightarrow> simple_path p \<Longrightarrow> simple_path q \<Longrightarrow>
   PathExists J (setOpt J p x j) q = ((p = q \<and> x \<noteq> None) \<or> PathExists J j q)"
  by (cases x) (auto simp: setOpt_def ej_exists_set)

lemma setOpt_same:
  assumes "easyjson_ok J" and "IsObject J j" and "simple_path p" and "\<not> PathExists J j p"
    and "\<And>v. x = Some v \<Longrightarrow> IsObject J v"
  shows "objectAt J (setOpt J p x j) p = (case x of None \<Rightarrow> NewJSONObject J | Some v \<Rightarrow> v)"
  using assms ej_missing_obj[OF assms(1,4)]
  by (cases x) (simp_all add: setOpt_def objectAt_def ej_get_set)

definition nats_data :: "'j easyjson \<Rightarrow> string \<Rightarrow> string \<Rightarrow> 'j option \<Rightarrow> 'j option \<Rightarrow> 'j" where
  "nats_data J ct ci payload options =
     setOpt J ''options'' options (setOpt J ''payload'' payload
       (SetByPath J (SetByPath J (NewJSONObject J) ''caller_typename'' (NewJSONString J ct)) ''caller_id'' (NewJSONString J ci)))"

lemma nats_data_fields:
  assumes J: "easyjson_ok J" and "\<And>v. payload = Some v \<Longrightarrow> IsObject J v" and "\<And>v. options = Some v \<Longrightarrow> IsObject J v"
  shows "natsCaller J (nats_data J ct ci payload options) = (ct, ci)"
    and "objectAt J (nats_data J ct ci payload options) ''payload'' = (case payload of None \<Rightarrow> NewJSONObject J | Some v \<Rightarrow> v)"
    and "objectAt J (nats_data J ct ci payload options) ''options'' = (case options of None \<Rightarrow> NewJSONObject J | Some v \<Rightarrow> v)"
proof -
  let ?c = "SetByPath J (SetByPath J (NewJSONObject J) ''caller_typename'' (NewJSONString J ct)) ''caller_id'' (NewJSONString J ci)"
  have c: "IsObject J ?c" by (intro ej_obj_set[OF J] ej_obj_new[OF J] nats_paths)
  let ?p = "setOpt J ''payload'' payload ?c"
  have p: "IsObject J ?p" by (rule setOpt_obj[OF J c nats_paths(3)])
  have g: "GetByPath J ?c ''caller_typename'' = NewJSONString J ct" "GetByPath J ?c ''caller_id'' = NewJSONString J ci"
    by (simp_all add: ej_get_set[OF J] ej_get_other[OF J] ej_obj_set[OF J] ej_obj_new[OF J] nats_paths)
  have x: "\<not> PathExists J ?c ''payload''" "\<not> PathExists J ?c ''options''"
    by (simp_all add: ej_exists_set[OF J] ej_exists_new[OF J] ej_obj_set[OF J] ej_obj_new[OF J] nats_paths)
  note o = setOpt_other[OF J p nats_paths(4), of _ options] setOpt_other[OF J c nats_paths(3), of _ payload]
  have "GetByPath J (nats_data J ct ci payload options) ''caller_typename'' = NewJSONString J ct"
    "GetByPath J (nats_data J ct ci payload options) ''caller_id'' = NewJSONString J ci"
    unfolding nats_data_def using o g nats_paths by simp_all
  then show "natsCaller J (nats_data J ct ci payload options) = (ct, ci)"
    by (simp add: natsCaller_def ej_str[OF J])
  have "GetByPath J (nats_data J ct ci payload options) ''payload'' = GetByPath J ?p ''payload''"
    unfolding nats_data_def using o nats_paths by simp
  then have "objectAt J (nats_data J ct ci payload options) ''payload'' = objectAt J ?p ''payload''"
    by (simp add: objectAt_def)
  also have "\<dots> = (case payload of None \<Rightarrow> NewJSONObject J | Some v \<Rightarrow> v)"
    by (rule setOpt_same[OF J c nats_paths(3) x(1) assms(2)])
  finally show "objectAt J (nats_data J ct ci payload options) ''payload'' = (case payload of None \<Rightarrow> NewJSONObject J | Some v \<Rightarrow> v)" .
  have "\<not> PathExists J ?p ''options''"
    using setOpt_exists[OF J c nats_paths(3,4), of payload] x(2) by simp
  then show "objectAt J (nats_data J ct ci payload options) ''options'' = (case options of None \<Rightarrow> NewJSONObject J | Some v \<Rightarrow> v)"
    unfolding nats_data_def by (rule setOpt_same[OF J p nats_paths(4) _ assms(3)])
qed

lemma published_message:
  assumes "easyjson_ok J" and "dot_free ti"
    and "\<And>v. payload = Some v \<Longrightarrow> IsObject J v" and "\<And>v. options = Some v \<Longrightarrow> IsObject J v"
  shows "natsMessage J n tt \<lparr>natsSubject = pre @ tt @ CHR ''.'' # ti, natsData = buildNatsData J ct ci payload options\<rparr> reqReply =
    Inr (ti, \<lparr>msgNo = n, Caller = (ct, ci),
       msgPayload = Some (case payload of None \<Rightarrow> NewJSONObject J | Some v \<Rightarrow> v),
       msgOptions = Some (case options of None \<Rightarrow> NewJSONObject J | Some v \<Rightarrow> v),
       hasRefusalCallback = True, hasRequestCallback = reqReply, hasAckCallback = \<not> reqReply\<rparr>)"
proof -
  have "buildNatsData J ct ci payload options = ToBytes J (nats_data J ct ci payload options)"
    by (simp add: buildNatsData_def nats_data_def)
  moreover have "split_dot (pre @ tt @ CHR ''.'' # ti) = split_dot (pre @ tt) @ [ti]"
    using split_dot_append[of "pre @ tt" ti] split_dot_free[OF assms(2)] by simp
  ultimately show ?thesis
    using nats_data_fields[OF assms(1,3,4)] by (simp add: natsMessage_def ej_bytes[OF assms(1)] Let_def)
qed

text \<open>
  C26: a request through NATS and a local request are the same to the target: the message made of what
  \<open>natsCoreGlobalRequest\<close> publishes carries the id, the caller, the payload and the options of
  the request, and handling it answers what the local request answers, with the same effects. The
  handler is one that replies before it returns or leaves the default reply.
\<close>

theorem nats_and_local_requests_agree:
  assumes "easyjson_ok (ej E)" and "dot_free ti" and "registered tt = Some (h, ftOptions)"
    and "(tt, ti) \<notin> set (running w)" and "IsObject (ej E) opts"
    and "case payload of None \<Rightarrow> True | Some p \<Rightarrow> IsObject (ej E) p"
  shows "\<exists>msg. natsMessage (ej E) n tt
      \<lparr>natsSubject = ''service.'' @ tt @ CHR ''.'' # ti, natsData = buildNatsData (ej E) ct ci payload (Some opts)\<rparr> True =
      Inr (ti, msg) \<and>
    (case handleMsgForID (ej E) ftOptions (prompt h) (goLangLocalRequest E registered fuel tt ti) tt ti False late msg
            (w\<lparr>running := (tt, ti) # running w\<rparr>) of
       (out, w') \<Rightarrow> \<exists>r. out_response out = Some (Some r) \<and>
         goLangLocalRequest E registered (Suc fuel) ct ci tt ti payload (Some opts) w =
           (Inr r, w'\<lparr>running := running w\<rparr>))"
proof -
  have p: "IsObject (ej E) v" if "payload = Some v" for v using assms(6) that by simp
  have o: "IsObject (ej E) v" if "Some opts = Some v" for v using assms(5) that by simp
  note m = published_message[OF assms(1,2) p o, where n = n and tt = tt and pre = "''service.''" and ct = ct and ci = ci and reqReply = True]
  show ?thesis
  proof (intro exI conjI, rule m)
    show "case handleMsgForID (ej E) ftOptions (prompt h) (goLangLocalRequest E registered fuel tt ti) tt ti False late
        \<lparr>msgNo = n, Caller = (ct, ci), msgPayload = Some (case payload of None \<Rightarrow> NewJSONObject (ej E) | Some v \<Rightarrow> v),
         msgOptions = Some (case Some opts of None \<Rightarrow> NewJSONObject (ej E) | Some v \<Rightarrow> v),
         hasRefusalCallback = True, hasRequestCallback = True, hasAckCallback = \<not> True\<rparr>
        (w\<lparr>running := (tt, ti) # running w\<rparr>) of
       (out, w') \<Rightarrow> \<exists>r. out_response out = Some (Some r) \<and>
         goLangLocalRequest E registered (Suc fuel) ct ci tt ti payload (Some opts) w =
           (Inr r, w'\<lparr>running := running w\<rparr>)"
      using assms(3,4)
      by (simp add: handleMsgForID_def handlerContext_def goLangLocalRequest.simps(2) prompt_def replyData_def
          split: prod.split option.split)
  qed
qed

text \<open>
  The reply of a request outlives it: when a routine that served a request handles a signal from
  outside, whose answer belongs on the query topic, the logic handler still finds a reply in its
  context and puts the answer there, where nobody reads it; without the earlier request the answer
  is published.
\<close>

lemma stale_reply_swallows_answer:
  assumes "hasRequestCallback m1" and "\<not> hasRequestCallback m2" and "Caller m2 = ([], [])"
  shows "let h = prompt (\<lambda>req ctx w. ReplyQueryID E queryID result ctx w);
           after = handleMsgs (ej E) ftOptions h req typename ident False late [m1, m2] w;
           alone = handleMsgs (ej E) ftOptions h req typename ident False late [m2] w
         in published (snd after) = published w \<and> map out_response (fst after) = [Some (Some result), None] \<and>
            published (snd alone) = published w @
              [(''functions.graph.query.'' @ queryID, buildNatsData (ej E) typename ident (Some result) None)]"
  using assms by (simp add: handleMsgForID_def handlerContext_def ReplyQueryID_def signal_def prompt_def replyData_def Let_def)

section \<open>Samples\<close>

definition quiet_world :: "(json, sample_kv) world" where
  "quiet_world = \<lparr>w_cache = sample_cache, uids = 0, published = [], running = [], delayed = []\<rparr>"

definition echo :: "(json, sample_kv) handler" where
  "echo req ctx w = (Some (Payload ctx), w)"

lemma sample_objects: "IsObject sample_json (JObj m)"
  by (simp add: sample_json_def)

theorem nats_and_local_requests_agree_witness:
  "\<exists>msg. natsMessage sample_json 0 ''f''
      \<lparr>natsSubject = ''service.'' @ ''f'' @ ''.a'',
       natsData = buildNatsData sample_json ''g'' ''b'' (Some (JObj [(''x'', JNum 1)])) (Some (JObj []))\<rparr> True = Inr (''a'', msg) \<and>
    (case handleMsgForID sample_json (JObj []) (prompt echo) (goLangLocalRequest sample_env [''f'' \<mapsto> (echo, JObj [])] 0 ''f'' ''a'')
            ''f'' ''a'' False None msg (quiet_world\<lparr>running := [(''f'', ''a'')]\<rparr>) of
       (out, w') \<Rightarrow> \<exists>r. out_response out = Some (Some r) \<and>
         goLangLocalRequest sample_env [''f'' \<mapsto> (echo, JObj [])] (Suc 0) ''g'' ''b'' ''f'' ''a''
            (Some (JObj [(''x'', JNum 1)])) (Some (JObj [])) quiet_world =
           (Inr r, w'\<lparr>running := []\<rparr>))"
proof -
  have "easyjson_ok (ej sample_env)" "dot_free ''a''" "[''f'' \<mapsto> (echo, JObj [])] ''f'' = Some (echo, JObj [])"
    "(''f'', ''a'') \<notin> set (running quiet_world)" "IsObject (ej sample_env) (JObj [])"
    "case Some (JObj [(''x'', JNum 1)]) of None \<Rightarrow> True | Some p \<Rightarrow> IsObject (ej sample_env) p"
    by (simp_all add: sample_json_ok dot_free_def quiet_world_def sample_objects)
  from nats_and_local_requests_agree[where E = sample_env and ti = "''a''" and registered = "[''f'' \<mapsto> (echo, JObj [])]"
      and tt = "''f''" and w = quiet_world and opts = "JObj []" and payload = "Some (JObj [(''x'', JNum 1)])"
      and h = echo and ftOptions = "JObj []" and n = 0 and ct = "''g''" and ci = "''b''" and fuel = 0 and late = None, OF this]
  show ?thesis by (simp add: quiet_world_def)
qed

definition query_msg :: "bool \<Rightarrow> json FunctionTypeMsg" where
  "query_msg reqReply = \<lparr>msgNo = 0, Caller = ([], []), msgPayload = None, msgOptions = None,
     hasRefusalCallback = True, hasRequestCallback = reqReply, hasAckCallback = \<not> reqReply\<rparr>"

lemma stale_reply_swallows_answer_witness:
  "published (snd (handleMsgs sample_json (JObj []) (prompt (\<lambda>req ctx w. ReplyQueryID sample_env ''q'' (JNum 7) ctx w)) (\<lambda>_ _ _ _ w. (Inl [], w))
      ''f'' ''a'' False (\<lambda>_. None) [query_msg True, query_msg False] quiet_world)) = [] \<and>
   published (snd (handleMsgs sample_json (JObj []) (prompt (\<lambda>req ctx w. ReplyQueryID sample_env ''q'' (JNum 7) ctx w)) (\<lambda>_ _ _ _ w. (Inl [], w))
      ''f'' ''a'' False (\<lambda>_. None) [query_msg False] quiet_world)) =
     [(''functions.graph.query.q'', buildNatsData sample_json ''f'' ''a'' (Some (JNum 7)) None)]"
  using stale_reply_swallows_answer[of "query_msg True" "query_msg False" sample_env "''q''" "JNum 7" "JObj []" "\<lambda>_ _ _ _ w. (Inl [], w)" "''f''" "''a''" "\<lambda>_. None" quiet_world]
  by (simp add: query_msg_def Let_def quiet_world_def)

end
