(* ===== verification/RuntimeStart.thy ===== *)
theory RuntimeStart
  imports Dispatch KVMutex
begin

text \<open>
  How a runtime starts its functions (\<open>statefun/runtime.go\<close>): the streams it asks for, the
  key/value mutexes that let a function type run in one runtime only, the refreshing of these
  mutexes, and a round of the garbage collector over all function types.
\<close>

section \<open>Streams\<close>

definition getStreamName :: "('j, 'kv) env \<Rightarrow> 'f FunctionType \<Rightarrow> string" where
  "getStreamName E ft = md5hex E (ft_subject ft) @ ''_stream''"

definition streamsToAdd :: "('j, 'kv) env \<Rightarrow> string list \<Rightarrow> 'f FunctionType list \<Rightarrow> (string \<times> string list) list" where
  "streamsToAdd E existingStreams fts =
     map (\<lambda>ft. (getStreamName E ft, [ft_subject ft]))
       (filter (\<lambda>ft. getStreamName E ft \<notin> set existingStreams) fts)"

section \<open>Starting function types\<close>

text \<open>
  The registered function types in the order of the map's iteration; \<open>subs\<close> are the names
  subscribed so far, \<open>revs\<close> the revisions of their mutexes. \<open>fuel\<close> bounds the rounds of
  each lock, and \<open>k\<close> counts the readings of the clock.
\<close>

fun startFunctions ::
  "('j, 'kv) env \<Rightarrow> nat \<Rightarrow> nat \<Rightarrow> 'f FunctionType list \<Rightarrow> nat \<Rightarrow> string list \<Rightarrow> (string \<times> nat) list \<Rightarrow> 'kv \<Rightarrow>
    ((string + (string list \<times> (string \<times> nat) list)) \<times> 'kv) option" where
  "startFunctions E life fuel [] k subs revs s = Some (Inr (subs, revs), s)"
| "startFunctions E life fuel (ft # fts) k subs revs s =
     (if multipleInstancesAllowed (ft_config ft)
      then startFunctions E life fuel fts k (subs @ [ft_name ft]) revs s
      else (case KeyMutexLock E life fuel (md5hex E (ft_name ft)) True False k s of
              None \<Rightarrow> None
            | Some (Inl err, s') \<Rightarrow>
               (if err = mutexLockedError then startFunctions E life fuel fts (k + fuel) subs revs s'
                else Some (Inl err, s'))
            | Some (Inr revId, s') \<Rightarrow>
               startFunctions E life fuel fts (k + fuel) (subs @ [ft_name ft]) (AList.update (ft_name ft) revId revs) s'))"

text \<open>A round of \<open>singleInstanceFunctionLocksUpdater\<close>.\<close>

fun updateLocks ::
  "('j, 'kv) env \<Rightarrow> (string \<times> nat) list \<Rightarrow> nat \<Rightarrow> 'kv \<Rightarrow> (string \<times> nat) list \<times> 'kv" where
  "updateLocks E [] k s = ([], s)"
| "updateLocks E ((ftName, revId) # sifr) k s =
     (case KeyMutexLockUpdate E (md5hex E ftName) revId k s of
        (r, s1) \<Rightarrow> (case updateLocks E sifr (Suc k) s1 of
          (sifr', s2) \<Rightarrow> ((ftName, case r of Inl err \<Rightarrow> revId | Inr newRevId \<Rightarrow> newRevId) # sifr', s2)))"

section \<open>Garbage collection\<close>

text \<open>A round over all function types; \<open>None\<close> while one of them waits for a locked id.\<close>

fun gcRound :: "int \<Rightarrow> int \<Rightarrow> 'f FunctionType list \<Rightarrow> ((nat \<times> nat) \<times> 'f FunctionType list) option" where
  "gcRound life now [] = Some ((0, 0), [])"
| "gcRound life now (ft # fts) =
     (case gc life now ft of None \<Rightarrow> None
      | Some ((n1, n2), ft') \<Rightarrow>
         (case gcRound life now fts of None \<Rightarrow> None
          | Some ((c, r), fts') \<Rightarrow> Some ((n1 + c, n2 + r), ft' # fts')))"

text \<open>The counter of runs after a round that collected and running totals belong to.\<close>

definition runsAfter :: "nat \<Rightarrow> nat \<Rightarrow> int \<Rightarrow> int \<Rightarrow> nat \<Rightarrow> nat" where
  "runsAfter collected handlers glce gt0 runs =
     (if collected > 0 \<and> handlers = 0 \<and> runs > 0 \<and> glce - gt0 > 0 then 0 else runs)"

section \<open>Starting twice\<close>

lemma start_keeps:
  assumes K: "natskv_ok (nk E)"
  shows "startFunctions E life fuel fts k subs revs s = Some (r, s') \<Longrightarrow> locked_since E k0 key s \<Longrightarrow> k0 \<le> k \<Longrightarrow>
    locked_since E k0 key s'"
proof (induction fts arbitrary: k subs revs s)
  case (Cons ft fts)
  show ?case
  proof (cases "multipleInstancesAllowed (ft_config ft)")
    case False
    with Cons.prems(1) obtain x t where x: "KeyMutexLock E life fuel (md5hex E (ft_name ft)) True False k s = Some (x, t)"
      by (cases "KeyMutexLock E life fuel (md5hex E (ft_name ft)) True False k s") auto
    have "locked_since E k0 key t" using lock_keeps[OF K x Cons.prems(2,3)] .
    with False x Cons show ?thesis by (cases x) (auto split: if_splits)
  qed (use Cons in auto)
qed simp

lemma start_locks:
  assumes K: "natskv_ok (nk E)"
  shows "startFunctions E life fuel fts k subs revs s = Some (Inr (subs', revs'), s') \<Longrightarrow> k0 \<le> k \<Longrightarrow>
    ft \<in> set fts \<Longrightarrow> \<not> multipleInstancesAllowed (ft_config ft) \<Longrightarrow> distinct (map ft_name fts) \<Longrightarrow>
    ft_name ft \<in> set subs' \<Longrightarrow> ft_name ft \<notin> set subs \<Longrightarrow> locked_since E k0 (md5hex E (ft_name ft)) s'"
proof (induction fts arbitrary: k subs revs s)
  case (Cons f fts)
  have notin: "n \<in> set sb \<Longrightarrow> n \<in> set subs2 \<union> ft_name ` set fs"
    if "startFunctions E life fuel fs k2 subs2 revs2 s2 = Some (Inr (sb, rv), s3)" for n fs k2 subs2 revs2 s2 sb rv s3
    using that by (induction fs arbitrary: k2 subs2 revs2 s2) (fastforce split: if_splits option.splits sum.splits)+
  show ?case
  proof (cases "f = ft")
    case False
    with Cons.prems have ft: "ft \<in> set fts" "ft_name f \<noteq> ft_name ft" by auto
    show ?thesis
      using Cons.prems Cons.IH ft by (fastforce split: if_splits option.splits sum.splits)
  next
    case True
    with Cons.prems(1,4) obtain x t where x: "KeyMutexLock E life fuel (md5hex E (ft_name ft)) True False k s = Some (x, t)"
      by (cases "KeyMutexLock E life fuel (md5hex E (ft_name ft)) True False k s") auto
    show ?thesis
    proof (cases x)
      case (Inl err)
      with x True Cons.prems(1,4) have "startFunctions E life fuel fts (k + fuel) subs revs t = Some (Inr (subs', revs'), s')"
        by (simp split: if_splits)
      from notin[OF this, of "ft_name ft"] Cons.prems(5,6,7) True show ?thesis by auto
    next
      case (Inr revId)
      with x have "locked_since E k (md5hex E (ft_name ft)) t" using lock_record[OF K] by blast
      then have "locked_since E k0 (md5hex E (ft_name ft)) t"
        using Cons.prems(2) unfolding locked_since_def by (meson order_trans)
      then show ?thesis
        using Inr x True Cons.prems(1,2,4) start_keeps[OF K] by (fastforce intro: trans_le_add1)
    qed
  qed
qed simp

lemma updates_keep:
  assumes K: "natskv_ok (nk E)"
  shows "locked_since E k0 key s \<Longrightarrow> k0 \<le> k \<Longrightarrow> locked_since E k0 key (snd (updateLocks E sifr k s))"
proof (induction sifr arbitrary: k s)
  case (Cons x sifr)
  obtain n q where x: "x = (n, q)" by (cases x)
  obtain r t where u: "KeyMutexLockUpdate E (md5hex E n) q k s = (r, t)" by fastforce
  have "locked_since E k0 key t"
  proof (cases "\<exists>v rev. kv_Get (nk E) (mutex_key (md5hex E n)) s = Inr (v, rev) \<and> lock_time v \<noteq> 0")
    case True
    then obtain v rev where g: "kv_Get (nk E) (mutex_key (md5hex E n)) s = Inr (v, rev)" "lock_time v \<noteq> 0" by blast
    then have u': "kv_Update (nk E) (mutex_key (md5hex E n)) (time_bytes (clock E k)) rev s = (r, t)"
      using u by (simp add: KeyMutexLockUpdate_def Let_def)
    from nk_update[OF K, of "mutex_key (md5hex E n)" "time_bytes (clock E k)" s rev] Cons.prems show ?thesis
      unfolding u' natskv_write_laws_def locked_since_def
      by (cases "key = md5hex E n") (auto split: sum.splits)
  next
    case False
    with u have "t = s" by (auto simp: KeyMutexLockUpdate_def Let_def split: sum.splits if_splits)
    with Cons.prems show ?thesis by simp
  qed
  then show ?case using Cons.IH[of t "Suc k"] Cons.prems(2) by (auto simp: x u split: prod.split)
qed simp

lemma start_skips_locked:
  assumes E: "env_ok E" "mono (clock E)" and K: "natskv_ok (nk E)" and locked: "locked_since E k0 (md5hex E n) s"
    and fits: "lifetime_fits E life"
  shows "startFunctions E life (Suc fuel) fts k subs revs s = Some (Inr (subs', revs'), s') \<Longrightarrow> k0 \<le> k \<Longrightarrow>
    clock E (k + length fts * Suc fuel) \<le> clock E k0 + int life * 1000000000 \<Longrightarrow>
    (\<forall>ft\<in>set fts. ft_name ft = n \<longrightarrow> \<not> multipleInstancesAllowed (ft_config ft)) \<Longrightarrow>
    n \<notin> set subs \<Longrightarrow> n \<notin> set subs'"
  using locked
proof (induction fts arbitrary: k subs revs s)
  case (Cons f fts)
  let ?m = "md5hex E (ft_name f)"
  have step: "clock E k' \<le> clock E k0 + int life * 1000000000" if "k' \<le> k + length (f # fts) * Suc fuel" for k'
    using monoD[OF E(2) that] Cons.prems(3) by linarith
  have next_k: "clock E (k + Suc fuel + length fts * Suc fuel) \<le> clock E k0 + int life * 1000000000"
    "clock E (k + length fts * Suc fuel) \<le> clock E k0 + int life * 1000000000"
    by (rule step, simp)+
  show ?case
  proof (cases "multipleInstancesAllowed (ft_config f)")
    case True
    then have "ft_name f \<noteq> n" using Cons.prems(4) by auto
    with True Cons.prems next_k(2) show ?thesis by (intro Cons.IH[of k "subs @ [ft_name f]" revs s]) simp_all
  next
    case False
    then obtain x t where x: "KeyMutexLock E life (Suc fuel) ?m True False k s = Some (x, t)"
      using Cons.prems(1) by (cases "KeyMutexLock E life (Suc fuel) ?m True False k s") (auto simp del: KeyMutexLock.simps)
    have t: "locked_since E k0 (md5hex E n) t" using lock_keeps[OF K x Cons.prems(6,2)] .
    have k: "k0 \<le> k + Suc fuel" using Cons.prems(2) by simp
    show ?thesis
    proof (cases x)
      case (Inl err)
      with x False Cons.prems(1) have "startFunctions E life (Suc fuel) fts (k + Suc fuel) subs revs t = Some (Inr (subs', revs'), s')"
        by (simp split: if_splits del: KeyMutexLock.simps)
      from Cons.IH[OF this k next_k(1) _ Cons.prems(5) t] Cons.prems(4) show ?thesis by simp
    next
      case (Inr revId)
      with x False Cons.prems(1) have s: "startFunctions E life (Suc fuel) fts (k + Suc fuel) (subs @ [ft_name f])
          (AList.update (ft_name f) revId revs) t = Some (Inr (subs', revs'), s')"
        by (simp del: KeyMutexLock.simps)
      have "ft_name f \<noteq> n"
        using held_lock_refuses[OF E, of k0 "md5hex E n" s k life fuel] Cons.prems(6) step[of k] fits x Inr
        by (auto simp del: KeyMutexLock.simps)
      with Cons.IH[OF s k next_k(1) _ _ t] Cons.prems(4,5) show ?thesis by simp
    qed
  qed
qed simp

text \<open>
  C27: a function type that does not allow several instances is not started twice by runtimes that
  start one after the other: when a runtime has subscribed it (and perhaps refreshed its mutexes), a
  runtime that starts afterwards, within the lifetime of the mutex, does not subscribe it. Two
  runtimes that start at the same moment while the mutex has no record yet are not covered
  (\<open>KeyMutexLock\<close> then puts the record unconditionally).
\<close>

theorem single_instance_functions_start_once:
  assumes "env_ok E" and "mono (clock E)" and "natskv_ok (nk E)"
    and "startFunctions E life fuel fts k [] [] s = Some (Inr (subs, revs), s1)" and "distinct (map ft_name fts)"
    and "ft \<in> set fts" and "\<not> multipleInstancesAllowed (ft_config ft)" and "ft_name ft \<in> set subs"
    and "updateLocks E revs k1 s1 = (revs1, s2)" and "k \<le> k1"
    and "startFunctions E life (Suc fuel2) fts2 k2 [] [] s2 = Some (Inr (subs2, revs2), s3)" and "k \<le> k2"
    and "clock E (k2 + length fts2 * Suc fuel2) \<le> clock E k + int life * 1000000000"
    and "\<forall>ft2\<in>set fts2. ft_name ft2 = ft_name ft \<longrightarrow> \<not> multipleInstancesAllowed (ft_config ft2)"
    and "lifetime_fits E life"
  shows "ft_name ft \<notin> set subs2"
proof -
  have "locked_since E k (md5hex E (ft_name ft)) s1"
    using start_locks[OF assms(3,4) _ assms(6,7,5,8)] by simp
  then have "locked_since E k (md5hex E (ft_name ft)) s2"
    using updates_keep[OF assms(3), of k _ s1 k1 revs] assms(9,10) by simp
  from start_skips_locked[OF assms(1,2,3) this assms(15,11,12,13,14)] show ?thesis by simp
qed

text \<open>Two runtimes that start the function type \<open>f\<close> one after the other.\<close>

definition sample_single :: "unit FunctionType" where
  "sample_single = NewFunctionType ''f''
     \<lparr>msgAckWaitMs = 10000, msgChannelSize = 64, msgAckChannelSize = 64, balanceNeeded = True,
      serviceActive = False, mutexLifeTimeSec = 120, fc_options = (), multipleInstancesAllowed = False,
      maxIdHandlers = 20\<rparr>"

theorem single_instance_functions_start_once_witness:
  "\<exists>s1 revs. startFunctions sample_env 120 1 [sample_single] 0 [] [] ([], 0) = Some (Inr ([''f''], revs), s1) \<and>
     startFunctions sample_env 120 1 [sample_single] 2 [] [] (snd (updateLocks sample_env revs 1 s1)) =
       Some (Inr ([], []), snd (updateLocks sample_env revs 1 s1)) \<and> ''f'' \<notin> set []"
proof -
  have f: "ft_name sample_single = ''f''" "\<not> multipleInstancesAllowed (ft_config sample_single)"
    by (simp_all add: sample_single_def NewFunctionType_def)
  obtain s1 q where s1: "KeyMutexLock sample_env 120 1 (md5hex sample_env ''f'') True False 0 ([], 0) = Some (Inr q, s1)"
    by (simp add: lock_decide_def sample_nats_def sample_get_def sample_put_def)
  have start: "startFunctions sample_env 120 1 [sample_single] 0 [] [] ([], 0) = Some (Inr ([''f''], [(''f'', q)]), s1)"
    using s1 f by (simp del: KeyMutexLock.simps)
  obtain revs1 s2 where u: "updateLocks sample_env [(''f'', q)] 1 s1 = (revs1, s2)" by (rule prod.exhaust)
  have l: "locked_since sample_env 0 (md5hex sample_env ''f'') s2"
    using updates_keep[OF _ conjunct1[OF lock_record[OF _ s1]], of 1 "[(''f'', q)]"] u by (simp add: sample_nats_ok)
  have "clock sample_env 2 \<le> clock sample_env 0 + int 120 * 1000000000" by (simp add: sample_env_def)
  from held_lock_refuses[OF sample_env_ok sample_clock_mono l this sample_lifetime_fits, of 0]
  have start2: "startFunctions sample_env 120 (Suc 0) [sample_single] 2 [] [] s2 = Some (Inr ([], []), s2)"
    using f by (simp del: KeyMutexLock.simps)
  have "clock sample_env (2 + length [sample_single] * Suc 0) \<le> clock sample_env 0 + int 120 * 1000000000"
    by (simp add: sample_env_def)
  with single_instance_functions_start_once[OF sample_env_ok sample_clock_mono _ start _ _ f(2) _ u _ start2]
  have "''f'' \<notin> set []" using f by (simp add: sample_nats_ok sample_lifetime_fits)
  with start start2 u show ?thesis by auto
qed

end
