(* ===== verification/Regexp.thy ===== *)
theory Regexp
  imports Prelude
begin

text \<open>
  The part of Go's \<open>regexp\<close> that the query language uses. A match is found by trying the
  alternatives in the order of the expression, as a backtracking search does: \<open>rx_run\<close> lists
  all matches at the start of a string, the preferred one first, each with what it consumed, its
  groups and the rest. The repetitions of the SDK's expressions are over one character, so
  they are repetitions of a character class, greedy or lazy. Strings are byte sequences: the classes
  name ASCII characters only, so that a byte of a longer UTF-8 sequence is in none of them and in
  all of the negated ones.
\<close>

datatype rx =
    Chr "char \<Rightarrow> bool"
  | Star "char \<Rightarrow> bool"
  | LazyStar "char \<Rightarrow> bool"
  | Cat rx rx
  | Alt rx rx
  | Opt rx
  | Group nat rx

type_synonym rx_match = "string \<times> (nat \<times> string) list \<times> string"

fun greedy :: "(char \<Rightarrow> bool) \<Rightarrow> string \<Rightarrow> (string \<times> string) list" where
  "greedy p [] = [([], [])]"
| "greedy p (c # s) = (if p c then map (\<lambda>(a, b). (c # a, b)) (greedy p s) else []) @ [([], c # s)]"

fun rx_run :: "rx \<Rightarrow> string \<Rightarrow> rx_match list" where
  "rx_run (Chr p) s = (case s of [] \<Rightarrow> [] | c # s' \<Rightarrow> (if p c then [([c], [], s')] else []))"
| "rx_run (Star p) s = map (\<lambda>(a, b). (a, [], b)) (greedy p s)"
| "rx_run (LazyStar p) s = rev (map (\<lambda>(a, b). (a, [], b)) (greedy p s))"
| "rx_run (Cat r q) s = concat (map (\<lambda>(a, g, b). map (\<lambda>(a', g', b'). (a @ a', g @ g', b')) (rx_run q b)) (rx_run r s))"
| "rx_run (Alt r q) s = rx_run r s @ rx_run q s"
| "rx_run (Opt r) s = rx_run r s @ [([], [], s)]"
| "rx_run (Group n r) s = map (\<lambda>(a, g, b). (a, (n, a) # g, b)) (rx_run r s)"

text \<open>\<open>FindAllStringSubmatch(s, 1)\<close>: the preferred match at the leftmost position that has
  one; the text of a group that took no part in the match is empty.\<close>

fun rx_find :: "rx \<Rightarrow> string \<Rightarrow> rx_match option" where
  "rx_find r s = (case rx_run r s of m # _ \<Rightarrow> Some m
     | [] \<Rightarrow> (case s of [] \<Rightarrow> None | _ # s' \<Rightarrow> rx_find r s'))"

declare rx_find.simps [simp del]

definition submatch :: "rx_match \<Rightarrow> nat \<Rightarrow> string" where
  "submatch m n = (case map_of (fst (snd m)) n of None \<Rightarrow> [] | Some s \<Rightarrow> s)"

definition rx_first :: "rx \<Rightarrow> string \<Rightarrow> rx_match option" where
  "rx_first r s = (case rx_run r s of [] \<Rightarrow> None | m # _ \<Rightarrow> Some m)"

section \<open>Matches\<close>

lemma greedy_parts: "(a, b) \<in> set (greedy p s) \<Longrightarrow> s = a @ b \<and> list_all p a"
  by (induction s arbitrary: a b) (auto split: if_splits)

text \<open>What a match consumed and the rest are the string.\<close>

lemma rx_run_parts: "(a, g, b) \<in> set (rx_run r s) \<Longrightarrow> s = a @ b"
  by (induction r arbitrary: s a g b) (fastforce split: list.splits if_splits dest: greedy_parts)+

lemma rx_find_first: "rx_run r s = m # ms \<Longrightarrow> rx_find r s = Some m"
  by (subst rx_find.simps) simp

text \<open>The greedy repetition over a string that is in the class: what goes on after it comes first.\<close>

lemma greedy_append:
  assumes "list_all p u"
  obtains zs where "greedy p (u @ v) = map (\<lambda>(a, b). (u @ a, b)) (greedy p v) @ zs"
proof -
  have "\<exists>zs. greedy p (u @ v) = map (\<lambda>(a, b). (u @ a, b)) (greedy p v) @ zs"
    using assms
  proof (induction u)
    case Nil
    then show ?case by (simp add: case_prod_unfold)
  next
    case (Cons c u)
    then obtain zs where "greedy p (u @ v) = map (\<lambda>(a, b). (u @ a, b)) (greedy p v) @ zs" by auto
    with Cons.prems show ?case by (auto simp: case_prod_unfold comp_def)
  qed
  with that show thesis by blast
qed

lemma greedy_stop: "v = [] \<or> \<not> p (hd v) \<Longrightarrow> greedy p v = [([], v)]"
  by (cases v) auto

lemma greedy_all:
  assumes "list_all p u" and "v = [] \<or> \<not> p (hd v)"
  obtains zs where "greedy p (u @ v) = (u, v) # zs"
proof -
  obtain zs where zs: "greedy p (u @ v) = map (\<lambda>(a, b). (u @ a, b)) (greedy p v) @ zs"
    using assms(1) by (rule greedy_append)
  have "greedy p v = [([], v)]" using assms(2) by (rule greedy_stop)
  with zs that show thesis by simp
qed

text \<open>
  The preferred match of a sequence: matches of the first part that the second part cannot continue
  are passed over.
\<close>

lemma rx_cat_first:
  assumes "rx_run r s = pre @ (a, g, b) # post" and "\<forall>(a', g', b')\<in>set pre. rx_run q b' = []"
    and "rx_run q b = (u, h, t) # more"
  obtains rest where "rx_run (Cat r q) s = (a @ u, g @ h, t) # rest"
proof -
  let ?f = "\<lambda>(a, g, b). map (\<lambda>(a', g', b'). (a @ a', g @ g', b')) (rx_run q b)"
  have "concat (map ?f pre) = []" using assms(2) by auto
  then have "rx_run (Cat r q) s = ?f (a, g, b) @ concat (map ?f post)"
    using assms(1) by simp
  with assms(3) that show thesis by simp
qed

lemma rx_group_split:
  "rx_run r s = pre @ (a, g, b) # post \<Longrightarrow>
   rx_run (Group n r) s = map (\<lambda>(a, g, b). (a, (n, a) # g, b)) pre @ (a, (n, a) # g, b) #
     map (\<lambda>(a, g, b). (a, (n, a) # g, b)) post"
  by simp

lemma rx_alt_split: "rx_run r s = pre @ m # post \<Longrightarrow> rx_run (Alt r q) s = pre @ m # (post @ rx_run q s)"
  by simp

lemma rx_chr_cat: "p c \<Longrightarrow> rx_run (Cat (Chr p) q) (c # s) = map (\<lambda>(a, g, b). (c # a, g, b)) (rx_run q s)"
  by simp

end
