(* ===== verification/JPGParse.thy ===== *)
theory JPGParse
  imports Regexp
begin

text \<open>
  The text of a query, \<open>embedded/graph/jpgql/tools.go\<close>: the filter expressions of links and
  the split of a query into the step at its head and the rest. A query is a sequence of steps
  \<open>.type[filter]\<close>; a step that is written with two dots is sought at any depth.
\<close>

text \<open>What a Go function does that can panic: the caller gets a value or an error, or nothing.\<close>

datatype 'a goResult = Panics | Fails string | Returns 'a

section \<open>Filters\<close>

record filterFeature =
  ff_name :: string
  ff_value :: string

definition featureKey :: "filterFeature \<Rightarrow> string" where
  "featureKey ft = ff_name ft @ CHR ''.'' # ff_value ft"

record FilterData =
  disjunctiveNormalFormOfFeatures :: "filterFeature list list"

definition NewFilterDataWithConjunctionFeatures :: "filterFeature list \<Rightarrow> FilterData" where
  "NewFilterDataWithConjunctionFeatures conjunctionFeatures =
     \<lparr>disjunctiveNormalFormOfFeatures = [conjunctionFeatures]\<rparr>"

definition NewFilterDataWithOneFeature :: "filterFeature \<Rightarrow> FilterData" where
  "NewFilterDataWithOneFeature feature = \<lparr>disjunctiveNormalFormOfFeatures = [[feature]]\<rparr>"

text \<open>
  The package \<open>gval\<close> parses a filter expression and evaluates it with the operators and
  functions that \<open>filterParseLanguage\<close> adds. Its parser is a parameter of the model, which
  gives the tree of the expression or an error; \<open>OtherValue\<close> is an expression whose
  value is neither a string nor a filter.
\<close>

datatype filterExpr =
    StringConst string
  | OtherValue
  | TagsCall "filterExpr list"
  | NameCall "filterExpr list"
  | OrOp filterExpr filterExpr
  | AndOp filterExpr filterExpr

datatype filterValue = StringValue string | FilterValue FilterData | NoFilterValue

definition filterOr :: "filterValue \<Rightarrow> filterValue \<Rightarrow> filterValue goResult" where
  "filterOr a b = (case (a, b) of
     (FilterValue filterA, FilterValue filterB) \<Rightarrow>
       Returns (FilterValue \<lparr>disjunctiveNormalFormOfFeatures =
         disjunctiveNormalFormOfFeatures filterA @ disjunctiveNormalFormOfFeatures filterB\<rparr>)
   | _ \<Rightarrow> Panics)"

definition filterAnd :: "filterValue \<Rightarrow> filterValue \<Rightarrow> filterValue goResult" where
  "filterAnd a b = (case (a, b) of
     (FilterValue filterA, FilterValue filterB) \<Rightarrow>
       Returns (FilterValue \<lparr>disjunctiveNormalFormOfFeatures =
         fold (\<lambda>tagsB. map (\<lambda>featuresA. featuresA @ tagsB)) (disjunctiveNormalFormOfFeatures filterB)
           (disjunctiveNormalFormOfFeatures filterA)\<rparr>)
   | _ \<Rightarrow> Panics)"

fun tagFeatures :: "filterValue list \<Rightarrow> filterFeature list option" where
  "tagFeatures [] = Some []"
| "tagFeatures (StringValue s # args) = map_option (\<lambda>fs. \<lparr>ff_name = ''tag'', ff_value = s\<rparr> # fs) (tagFeatures args)"
| "tagFeatures (_ # args) = None"

definition tagsFunction :: "filterValue list \<Rightarrow> filterValue goResult" where
  "tagsFunction args =
     (if length args = 0 then Fails ''at least one tag must be declared''
      else (case tagFeatures args of None \<Rightarrow> Panics
            | Some fs \<Rightarrow> Returns (FilterValue (NewFilterDataWithConjunctionFeatures fs))))"

definition nameFunction :: "filterValue list \<Rightarrow> filterValue goResult" where
  "nameFunction args =
     (if length args > 1 then Fails ''multiple names are not permitted''
      else if length args < 1 then Fails ''name must be declared''
      else (case args ! 0 of
              StringValue name \<Rightarrow>
                (if length name = 0 then Fails ''name must not be empty''
                 else Returns (FilterValue (NewFilterDataWithOneFeature \<lparr>ff_name = ''name'', ff_value = name\<rparr>)))
            | _ \<Rightarrow> Panics))"

fun goBind :: "'a goResult \<Rightarrow> ('a \<Rightarrow> 'b goResult) \<Rightarrow> 'b goResult" where
  "goBind Panics f = Panics"
| "goBind (Fails e) f = Fails e"
| "goBind (Returns x) f = f x"

fun goSequence :: "'a goResult list \<Rightarrow> 'a list goResult" where
  "goSequence [] = Returns []"
| "goSequence (r # rs) = goBind r (\<lambda>x. goBind (goSequence rs) (\<lambda>xs. Returns (x # xs)))"

fun evaluateFilter :: "filterExpr \<Rightarrow> filterValue goResult" where
  "evaluateFilter (StringConst s) = Returns (StringValue s)"
| "evaluateFilter OtherValue = Returns NoFilterValue"
| "evaluateFilter (TagsCall es) = goBind (goSequence (map evaluateFilter es)) tagsFunction"
| "evaluateFilter (NameCall es) = goBind (goSequence (map evaluateFilter es)) nameFunction"
| "evaluateFilter (OrOp a b) = goBind (evaluateFilter a) (\<lambda>x. goBind (evaluateFilter b) (filterOr x))"
| "evaluateFilter (AndOp a b) = goBind (evaluateFilter a) (\<lambda>x. goBind (evaluateFilter b) (filterAnd x))"

type_synonym filterParser = "string \<Rightarrow> string + filterExpr"

definition ParseFilter :: "filterParser \<Rightarrow> string \<Rightarrow> FilterData goResult" where
  "ParseFilter parse filterQuery =
     (case parse (replace_all filterQuery [CHR 0x27] [CHR 0x22]) of
        Inl err \<Rightarrow> Fails err
      | Inr e \<Rightarrow> goBind (evaluateFilter e) (\<lambda>v. case v of
            FilterValue filterData \<Rightarrow> Returns filterData
          | _ \<Rightarrow> Fails ''parseFilter error: cannot parse filterData''))"

section \<open>Queries\<close>

record AnyDepthStop =
  ads_LinkType :: string
  ads_FilterQuery :: string
  ads_QueryTail :: string

text \<open>The expression \<open>jsonPathPartsExtractRegexp\<close>: a dot, a name, and optionally brackets
  or a quoted rest (group 1) whose content (group 2) is the filter.\<close>

definition name_char :: "char \<Rightarrow> bool" where
  "name_char c \<longleftrightarrow>
     (let n = (of_char c :: nat)
      in c = CHR ''*'' \<or> (97 \<le> n \<and> n \<le> 122) \<or> (65 \<le> n \<and> n \<le> 90) \<or> (48 \<le> n \<and> n \<le> 57) \<or>
         c = CHR ''_'' \<or> c = CHR ''-'')"

abbreviation is_char :: "char \<Rightarrow> char \<Rightarrow> bool" where
  "is_char c \<equiv> (\<lambda>d. d = c)"

abbreviation not_newline :: "char \<Rightarrow> bool" where
  "not_newline c \<equiv> c \<noteq> CHR 0x0A"

definition plainFilterRx :: rx where
  "plainFilterRx = Cat (Chr (\<lambda>c. c \<noteq> CHR ''['')) (Cat (Star (\<lambda>c. c \<noteq> CHR ''['')) (Star (is_char (CHR '']''))))"

definition nestedFilterRx :: rx where
  "nestedFilterRx = Cat (LazyStar not_newline) (Cat (Chr (is_char (CHR ''['')))
     (Cat (LazyStar not_newline) (Cat (Chr (is_char (CHR '']''))) (LazyStar not_newline))))"

definition bracketsRx :: rx where
  "bracketsRx = Alt (Cat (Chr (is_char (CHR ''[''))) (Chr (is_char (CHR '']''))))
     (Alt (Cat (Chr (is_char (CHR ''[''))) (Cat (Group 2 (Alt plainFilterRx nestedFilterRx)) (Chr (is_char (CHR '']'')))))
       (Group 3 (Cat (Chr (is_char (CHR 0x22))) (Cat (Chr (\<lambda>_. True)) (Star (\<lambda>_. True))))))"

definition jsonPathPartsExtractRegexp :: rx where
  "jsonPathPartsExtractRegexp = Cat (Chr (is_char (CHR ''.''))) (Cat (Star name_char) (Opt (Group 1 bracketsRx)))"

definition GetQueryHeadAndTailsParts ::
  "string \<Rightarrow> (string \<times> string \<times> string \<times> AnyDepthStop option) goResult" where
  "GetQueryHeadAndTailsParts query0 =
     (if query0 = [] then Panics
      else if take 1 query0 \<noteq> ''.'' then
        Fails (''getQueryHeadAndTailsParts error: query must start from '' @ [CHR 0x22] @ ''.'' @ [CHR 0x22] @
          '', query='' @ [CHR 0x22] @ query0 @ [CHR 0x22])
      else if length query0 = 1 then Returns ([], [], [], None)
      else
        (let anyDepth = (take 2 query0 = ''..'');
             query = (if anyDepth then drop 1 query0 else query0);
             res = rx_find jsonPathPartsExtractRegexp query;
             queryWithoutFilters = (case res of Some m \<Rightarrow> replace_first query (submatch m 1) [] | None \<Rightarrow> query);
             queryHeadFilter = (case res of Some m \<Rightarrow> submatch m 2 | None \<Rightarrow> []);
             queryHeadLinkType = split_dot (drop 1 queryWithoutFilters) ! 0;
             queryTail = replace_first queryWithoutFilters (CHR ''.'' # queryHeadLinkType) []
         in if anyDepth
            then Returns (''*'', [], CHR ''.'' # query,
                   Some \<lparr>ads_LinkType = queryHeadLinkType, ads_FilterQuery = queryHeadFilter, ads_QueryTail = queryTail\<rparr>)
            else Returns (queryHeadLinkType, queryHeadFilter, queryTail, None)))"

end
