(* ===== verification/JPGLinks.thy ===== *)
theory JPGLinks
  imports LLCrud JPGParse
begin

text \<open>
  The links that one step of a query follows, \<open>embedded/graph/jpgql/tools.go\<close>: the keys of the
  out links of an object, the indices of a link and the objects at the other end. A Go map is an
  association list with distinct keys; a filter that makes its parser panic gives \<open>Panics\<close>.
\<close>

type_synonym objectMap = "(string \<times> nat) list"

definition linksQuery :: "string \<Rightarrow> string \<Rightarrow> string" where
  "linksQuery objectID linkType =
     (if linkType \<noteq> ''*'' then objectID @ ''.out.body.'' @ linkType @ ''.>'' else objectID @ ''.out.body.>'')"

definition lastButOne :: "string list \<Rightarrow> string" where
  "lastButOne tokens = tokens ! (length tokens - 2)"

definition GetObjectIDsFromLinkType ::
  "('j, 'kv) env \<Rightarrow> string \<Rightarrow> string \<Rightarrow> ('j, 'kv) world \<Rightarrow> objectMap \<times> ('j, 'kv) world" where
  "GetObjectIDsFromLinkType E objectID linkType w =
     (if length linkType = 0 then ([(objectID, 0)], w)
      else (case wGetKeysByPattern E (linksQuery objectID linkType) w of
              (keys, w) \<Rightarrow> (fold (\<lambda>key. AList.update (last (split_dot key)) 0) keys [], w)))"

definition GetAllLinksFromSpecifiedLinkType ::
  "('j, 'kv) env \<Rightarrow> string \<Rightarrow> string \<Rightarrow> ('j, 'kv) world \<Rightarrow> (string \<times> string) list \<times> ('j, 'kv) world" where
  "GetAllLinksFromSpecifiedLinkType E objectID linkType w =
     (if length linkType = 0 then ([], w)
      else (case wGetKeysByPattern E (linksQuery objectID linkType) w of
              (keys, w) \<Rightarrow> (map (\<lambda>key. (lastButOne (split_dot key), last (split_dot key))) keys, w)))"

definition GetSpecificLinkIndices ::
  "('j, 'kv) env \<Rightarrow> string \<Rightarrow> string \<Rightarrow> string \<Rightarrow> ('j, 'kv) world \<Rightarrow> string list \<times> ('j, 'kv) world" where
  "GetSpecificLinkIndices E fromObjectID linkType toObjectId w =
     (if length linkType = 0 then ([], w)
      else (case wGetKeysByPattern E (fromObjectID @ ''.out.index.'' @ linkType @ CHR ''.'' # toObjectId @ ''.>'') w of
              (keys, w) \<Rightarrow>
                (fold (\<lambda>key. List.insert (lastButOne (split_dot key) @ CHR ''.'' # last (split_dot key))) keys [], w)))"

definition featuresFound :: "FilterData \<Rightarrow> string list \<Rightarrow> bool" where
  "featuresFound filterData linkIndicesMap =
     list_ex (list_all (\<lambda>feature. featureKey feature \<in> set linkIndicesMap)) (disjunctiveNormalFormOfFeatures filterData)"

fun filterPairs ::
  "('j, 'kv) env \<Rightarrow> string \<Rightarrow> FilterData \<Rightarrow> (string \<times> string) list \<Rightarrow> objectMap \<Rightarrow> ('j, 'kv) world \<Rightarrow> objectMap \<times> ('j, 'kv) world" where
  "filterPairs E objectID filterData [] resultObjects w = (resultObjects, w)"
| "filterPairs E objectID filterData ((realLinkType, realObjectId) # pairs) resultObjects w =
     (case GetSpecificLinkIndices E objectID realLinkType realObjectId w of
        (linkIndicesMap, w) \<Rightarrow>
          filterPairs E objectID filterData pairs
            (if map_of resultObjects realObjectId = None \<and> featuresFound filterData linkIndicesMap
             then AList.update realObjectId 0 resultObjects else resultObjects) w)"

definition GetObjectIDsFromLinkTypeAndFilterData ::
  "('j, 'kv) env \<Rightarrow> string \<Rightarrow> string \<Rightarrow> FilterData \<Rightarrow> ('j, 'kv) world \<Rightarrow> objectMap \<times> ('j, 'kv) world" where
  "GetObjectIDsFromLinkTypeAndFilterData E objectID linkType filterData w =
     (if length (disjunctiveNormalFormOfFeatures filterData) = 0 then GetObjectIDsFromLinkType E objectID linkType w
      else (case GetAllLinksFromSpecifiedLinkType E objectID linkType w of
              (linkTypeObjectIdPairs, w) \<Rightarrow> filterPairs E objectID filterData linkTypeObjectIdPairs [] w))"

definition GetObjectIDsFromLinkTypeAndLinkFilterQuery ::
  "('j, 'kv) env \<Rightarrow> filterParser \<Rightarrow> string \<Rightarrow> string \<Rightarrow> string \<Rightarrow> ('j, 'kv) world \<Rightarrow> objectMap goResult \<times> ('j, 'kv) world" where
  "GetObjectIDsFromLinkTypeAndLinkFilterQuery E parse objectID linkType linkFilterQuery w =
     (if length linkFilterQuery = 0 then map_prod Returns id (GetObjectIDsFromLinkType E objectID linkType w)
      else (case ParseFilter parse linkFilterQuery of
              Panics \<Rightarrow> (Panics, w)
            | Fails err \<Rightarrow> (Returns [], w)
            | Returns filterData \<Rightarrow>
                map_prod Returns id (GetObjectIDsFromLinkTypeAndFilterData E objectID linkType filterData w)))"

definition GetObjectIDsFromLinkTypeAndLinkFilterQueryWithAnyDepthStop ::
  "('j, 'kv) env \<Rightarrow> filterParser \<Rightarrow> string \<Rightarrow> string \<Rightarrow> string \<Rightarrow> AnyDepthStop option \<Rightarrow> ('j, 'kv) world \<Rightarrow>
    objectMap goResult \<times> ('j, 'kv) world" where
  "GetObjectIDsFromLinkTypeAndLinkFilterQueryWithAnyDepthStop E parse objectID linkType linkFilterQuery anyDepthStop w =
     (case GetObjectIDsFromLinkTypeAndLinkFilterQuery E parse objectID linkType linkFilterQuery w of
        (Returns resultObjects, w) \<Rightarrow>
          (case anyDepthStop of
             None \<Rightarrow> (Returns resultObjects, w)
           | Some stop \<Rightarrow>
               (case GetObjectIDsFromLinkTypeAndLinkFilterQuery E parse objectID (ads_LinkType stop) (ads_FilterQuery stop) w of
                  (Returns anyDepthStopResultObjects, w) \<Rightarrow>
                    (Returns (fold (\<lambda>(linkObjectID, _). AList.update linkObjectID 1) anyDepthStopResultObjects resultObjects), w)
                | (r, w) \<Rightarrow> (r, w)))
      | (r, w) \<Rightarrow> (r, w))"

end
