(* ===== verification/CacheLevels.thy ===== *)
theory CacheLevels
  imports CacheLaws
begin

text \<open>
  The levels of the cache: the keys right below a prefix and the callbacks subscribed to them. The
  contract extends the one of the store by the write that leaves an existing value alone, the
  subscription and the queue of notifications of a callback.
\<close>

section \<open>Level subscriptions\<close>

lemma walkTokens_existing:
  "node_at (rootValue cs) (level @ ts) \<noteq> None \<Longrightarrow> walkTokens E b level ts cs = (Some (level @ ts), cs)"
proof (induction ts arbitrary: level)
  case (Cons t ts)
  then have "node_at (rootValue cs) ((level @ [t]) @ ts) \<noteq> None" by simp
  moreover from node_at_prefix[OF this] have "LoadChild level t cs = Some (level @ [t])"
    by (simp add: LoadChild_def)
  ultimately show ?case using Cons.IH[of "level @ [t]"] by simp
qed simp

lemma notified_queue:
  "map_of (notifyUpdates i) cid = Some q \<Longrightarrow>
   map_of (notifyUpdates (notifySubscribers key v i)) cid = Some (q @ [(key, v)])"
  by (simp add: notifySubscribers_def map_of_map)

text \<open>A callback subscribed to a level gets every write of a key at that level, at the end of its queue.\<close>

lemma level_notified:
  assumes E: "env_ok E" and key: "valid_key key" "key \<noteq> []"
    and sub: "info_at (rootValue cs) (butlast (split_dot key)) = Some i" "map_of (notifyUpdates i) callbackID = Some q"
  shows "\<exists>i'. info_at (rootValue (snd (SetValue E key v u t [] cs))) (butlast (split_dot key)) = Some i' \<and>
     map_of (notifyUpdates i') callbackID = Some (q @ [(last (split_dot key), Some v)])"
proof -
  let ?tok = "last (split_dot key)" and ?par = "butlast (split_dot key)"
  have tok: "?tok \<noteq> []" using key by (rule valid_key_last)
  obtain t' c1 where c1: "orCurrentTime E t cs = (t', c1)" by fastforce
  note root1 = orCurrentTime_root[OF c1] and t0 = orCurrentTime_pos[OF E c1]
  have par: "node_at (rootValue c1) ([] @ ?par) \<noteq> None" using sub by (auto simp: root1 info_at_def)
  from walkTokens_existing[OF this, of E True]
  have look: "getLastKeyTokenAndItsParentCacheStoreValue E key True c1 = ((?tok, Some ?par), c1)"
    by (simp add: getLastKeyTokenAndItsParentCacheStoreValue_def Let_def)
  show ?thesis
  proof (cases "LoadChild ?par ?tok c1")
    case None
    then obtain n where n: "node_at (rootValue c1) ?par = Some n" "map_of (store n) ?tok = None"
      using par node_at_snoc[of "rootValue c1" ?par ?tok] by (auto simp: LoadChild_def split: if_splits)
    have "?par \<noteq> ?par @ [?tok]" by (simp del: append_butlast_last_id)
    then have "info_at (rootValue (StoreChild ?par ?tok (newLeafValue v u t') c1)) ?par =
        Some (notifySubscribers ?tok (Some v) i)"
      using sub root1 info_at_add_child[OF n]
      by (simp add: StoreChild_def info_at_upd_info newLeafValue_def del: append_butlast_last_id)
    then show ?thesis
      using key tok c1 look None notified_queue[OF sub(2)] by (simp add: SetValue_def usableParent_def)
  next
    case (Some csv)
    then have csv: "csv = split_dot key" by (auto simp: LoadChild_def split: if_splits)
    have "?par \<noteq> split_dot key" by (metis append_butlast_last_id append_self_conv list.discI split_on_not_Nil)
    then have "info_at (rootValue (Put E csv v u t' c1)) ?par = Some (notifySubscribers ?tok (Some v) i)"
      using sub root1 t0 csv by (simp add: Put_def notifyParent_def info_at_upd_info)
    then show ?thesis
      using key tok c1 look Some notified_queue[OF sub(2)] by (simp add: SetValue_def usableParent_def)
  qed
qed

section \<open>The queue of a level\<close>

definition level_queue :: "'kv Store \<Rightarrow> string \<Rightarrow> string \<Rightarrow> (string \<times> bytes option) list option" where
  "level_queue cs level callbackID =
     (case info_at (rootValue cs) (split_dot level) of None \<Rightarrow> None | Some i \<Rightarrow> map_of (notifyUpdates i) callbackID)"

definition key_absent :: "'kv Store \<Rightarrow> string \<Rightarrow> bool" where
  "key_absent cs key \<longleftrightarrow> node_at (rootValue cs) (split_dot key) = None"

definition levelKey :: "string \<Rightarrow> string \<Rightarrow> string" where
  "levelKey level token = level @ CHR ''.'' # token"

lemma split_levelKey [simp]: "dot_free t \<Longrightarrow> split_dot (levelKey p t) = split_dot p @ [t]"
  by (simp add: levelKey_def split_dot_append split_dot_free)

lemma levelKey_not_Nil [simp]: "levelKey p t \<noteq> []"
  by (simp add: levelKey_def)

lemma put_level_queue:
  assumes ok: "cache_ok E cs" and key: "valid_key (levelKey p t)" "dot_free t" and q: "level_queue cs p cid = Some q"
  shows "level_queue (snd (SetValue E (levelKey p t) v u n [] cs)) p cid = Some (q @ [(t, Some v)])"
proof -
  have E: "env_ok E" using ok by (simp add: cache_ok_def)
  from q obtain i where i: "info_at (rootValue cs) (split_dot p) = Some i" "map_of (notifyUpdates i) cid = Some q"
    by (auto simp: level_queue_def split: option.splits)
  with level_notified[OF E key(1), of cs i cid q v u n] key(2) show ?thesis
    by (auto simp: level_queue_def)
qed

lemma level_lookup:
  assumes "level_queue cs p cid = Some q" and "dot_free t" and "rootValue c1 = rootValue cs"
  shows "getLastKeyTokenAndItsParentCacheStoreValue E (levelKey p t) b c1 = ((t, Some (split_dot p)), c1)"
proof -
  have "node_at (rootValue c1) ([] @ split_dot p) \<noteq> None"
    using assms(1,3) by (auto simp: level_queue_def info_at_def split: option.splits)
  from walkTokens_existing[OF this, of E b] show ?thesis
    using assms(2) by (simp add: getLastKeyTokenAndItsParentCacheStoreValue_def Let_def)
qed

lemma putnew_existing:
  assumes ok: "cache_ok E cs" and key: "valid_key (levelKey p t)" "dot_free t" and q: "level_queue cs p cid = Some q"
    and v: "cache_view cs (levelKey p t) \<noteq> None"
  shows "\<exists>n. SetValueIfDoesNotExist E (levelKey p t) x u m cs = (False, cs\<lparr>ticks := n\<rparr>)"
proof -
  obtain t' c1 where c1: "orCurrentTime E m cs = (t', c1)" by fastforce
  note root1 = orCurrentTime_root[OF c1]
  have tick: "\<exists>n. c1 = cs\<lparr>ticks := n\<rparr>"
    using c1 by (auto simp: orCurrentTime_def GetCurrentTimeNs_def split: if_splits intro: exI[of _ "ticks cs"])
  have t: "t \<noteq> []" using valid_key_last[OF key(1)] key(2) by simp
  from v obtain i where i: "info_at (rootValue c1) (split_dot p @ [t]) = Some i" "valueExists i"
    using key(2) by (auto simp: cache_view_def live_def core_at_def root1 split: option.splits if_splits)
  then have "LoadChild (split_dot p) t c1 = Some (split_dot p @ [t])" by (auto simp: LoadChild_def info_at_def)
  then show ?thesis
    using key(1) c1 level_lookup[OF q key(2) root1, of E True] t i tick
    by (auto simp: SetValueIfDoesNotExist_def usableParent_def)
qed

lemma putnew_absent:
  assumes E: "env_ok E" and key: "valid_key key" "key \<noteq> []" and a: "key_absent cs key"
  shows "SetValueIfDoesNotExist E key x u m cs = (True, snd (SetValue E key x u m [] cs))"
proof -
  let ?tok = "last (split_dot key)" and ?par = "butlast (split_dot key)"
  have tok: "?tok \<noteq> []" using key by (rule valid_key_last)
  obtain t' c1 where c1: "orCurrentTime E m cs = (t', c1)" by fastforce
  obtain g where look: "getLastKeyTokenAndItsParentCacheStoreValue E key True c1 = ((?tok, Some ?par), g)"
    and g: "grows c1 g" and par: "node_at (rootValue g) ?par \<noteq> None"
    by (rule parent_create)
  show ?thesis
  proof (cases "LoadChild ?par ?tok g")
    case None
    then show ?thesis using key(1) tok c1 look by (simp add: SetValueIfDoesNotExist_def SetValue_def usableParent_def)
  next
    case (Some csv)
    then have csv: "csv = split_dot key" "node_at (rootValue g) (split_dot key) \<noteq> None" by (auto simp: LoadChild_Some)
    have "core_at (rootValue c1) (split_dot key) = None" using a orCurrentTime_root[OF c1] by (simp add: key_absent_def)
    with g csv(2) obtain n where "core_at (rootValue g) (split_dot key) = Some (newInnerValue n)"
      unfolding grows_def by (metis core_at_None)
    then obtain i where i: "info_at (rootValue g) (split_dot key) = Some i" "core i = newInnerValue n"
      by (auto simp: core_at_def)
    have "value i = None" "\<not> valueExists i"
      using i(2) by (metis core_sel(1) newInnerValue_def StoreValue.select_convs(1), metis core_sel(2) newInnerValue_sel(1))
    with i Some csv(1) show ?thesis
      using key(1) tok c1 look by (simp add: SetValueIfDoesNotExist_def SetValue_def usableParent_def)
  qed
qed

lemma put_level_absent:
  assumes E: "env_ok E" and key: "valid_key (levelKey p t)" "dot_free t" and q: "level_queue cs p cid = Some q"
    and t': "dot_free t'" "t' \<noteq> t" and a: "key_absent cs (levelKey p t')"
  shows "key_absent (snd (SetValue E (levelKey p t) v u m [] cs)) (levelKey p t')"
proof -
  obtain n c1 where c1: "orCurrentTime E m cs = (n, c1)" by fastforce
  note root1 = orCurrentTime_root[OF c1] and n0 = orCurrentTime_pos[OF E c1]
  have t: "t \<noteq> []" using valid_key_last[OF key(1)] key(2) by simp
  have par: "node_at (rootValue c1) (split_dot p) \<noteq> None"
    using q by (auto simp: level_queue_def root1 info_at_def split: option.splits)
  have a1: "node_at (rootValue c1) (split_dot p @ [t']) = None" using a t' by (simp add: key_absent_def root1)
  show ?thesis
  proof (cases "LoadChild (split_dot p) t c1")
    case None
    with a1 show ?thesis
      using key t c1 level_lookup[OF q key(2) root1, of E True] node_at_StoreChild[OF par None] t'
      by (simp add: SetValue_def usableParent_def key_absent_def)
  next
    case (Some csv)
    with a1 show ?thesis
      using key t c1 n0 level_lookup[OF q key(2) root1, of E True] t'
      by (simp add: SetValue_def usableParent_def key_absent_def Put_def notifyParent_def)
  qed
qed
section \<open>Subscribing\<close>

lemma walkTokens_new_nodes:
  "walkTokens E True level ts cs = (r, cs') \<Longrightarrow> node_at (rootValue cs) level \<noteq> None \<Longrightarrow>
   node_at (rootValue cs') q \<noteq> None \<Longrightarrow> node_at (rootValue cs) q \<noteq> None \<or> (\<exists>n. q = level @ take n ts)"
proof (induction ts arbitrary: level cs)
  case (Cons t ts)
  have step: "level @ t # take n ts = level @ take (Suc n) (t # ts)" for n by simp
  show ?case
  proof (cases "LoadChild level t cs")
    case None
    let ?c0 = "snd (GetCurrentTimeNs E cs)"
    let ?c1 = "StoreChild level t (newInnerValue (fst (GetCurrentTimeNs E cs))) ?c0"
    have c0: "rootValue ?c0 = rootValue cs" by (simp add: GetCurrentTimeNs_def)
    have pre: "node_at (rootValue ?c0) level \<noteq> None" "LoadChild level t ?c0 = None"
      using Cons.prems(2) None c0 by (simp_all add: LoadChild_None)
    have "walkTokens E True (level @ [t]) ts ?c1 = (r, cs')"
      using Cons.prems(1) None by (simp add: case_prod_beta)
    moreover have "node_at (rootValue ?c1) (level @ [t]) \<noteq> None" by (simp add: node_at_StoreChild[OF pre])
    ultimately have "node_at (rootValue ?c1) q \<noteq> None \<or> (\<exists>n. q = (level @ [t]) @ take n ts)"
      using Cons.prems(3) by (intro Cons.IH)
    then show ?thesis
    proof
      assume "node_at (rootValue ?c1) q \<noteq> None"
      then have "node_at (rootValue cs) q \<noteq> None \<or> q = level @ take 1 (t # ts)"
        by (auto simp: node_at_StoreChild[OF pre] c0)
      then show ?thesis by blast
    next
      assume "\<exists>n. q = (level @ [t]) @ take n ts"
      then obtain n where "q = level @ take (Suc n) (t # ts)" by auto
      then show ?thesis by blast
    qed
  next
    case (Some l)
    then have l: "l = level @ [t]" "node_at (rootValue cs) (level @ [t]) \<noteq> None" by (auto simp: LoadChild_Some)
    with Cons.prems Some have "node_at (rootValue cs) q \<noteq> None \<or> (\<exists>n. q = (level @ [t]) @ take n ts)"
      by (intro Cons.IH) simp_all
    then show ?thesis
    proof
      assume "\<exists>n. q = (level @ [t]) @ take n ts"
      then obtain n where "q = level @ take (Suc n) (t # ts)" by auto
      then show ?thesis by blast
    qed simp
  qed
qed simp

lemma parent_new_nodes:
  assumes "getLastKeyTokenAndItsParentCacheStoreValue E key True cs = (tp, g)" and "node_at (rootValue g) q \<noteq> None"
  shows "node_at (rootValue cs) q \<noteq> None \<or> (\<exists>n. q = take n (split_dot key))"
proof -
  obtain r where w: "walkTokens E True [] (butlast (split_dot key)) cs = (r, g)"
    using assms(1) by (auto simp: getLastKeyTokenAndItsParentCacheStoreValue_def Let_def split: prod.splits option.splits)
  from walkTokens_new_nodes[OF w _ assms(2)] show ?thesis
    by (auto simp: butlast_conv_take)
qed
lemma put_new_nodes:
  assumes "node_at (rootValue (snd (SetValue E key v u m [] cs))) q \<noteq> None"
  shows "node_at (rootValue cs) q \<noteq> None \<or> (\<exists>n. q = take n (split_dot key))"
proof (cases "valid_key key")
  case True
  obtain t' c1 where c1: "orCurrentTime E m cs = (t', c1)" by fastforce
  note root1 = orCurrentTime_root[OF c1]
  obtain g where look: "getLastKeyTokenAndItsParentCacheStoreValue E key True c1 = ((last (split_dot key), Some (butlast (split_dot key))), g)"
    and par: "node_at (rootValue g) (butlast (split_dot key)) \<noteq> None"
    by (rule parent_create)
  show ?thesis
  proof (cases "node_at (rootValue g) q")
    case (Some x)
    with parent_new_nodes[OF look, of q] show ?thesis by (simp add: root1)
  next
    case None
    have "q = split_dot key"
    proof (rule ccontr)
      assume "q \<noteq> split_dot key"
      then have "node_at (rootValue (snd (SetValue E key v u m [] cs))) q = None"
        using True None c1 look node_at_StoreChild[OF par, of "last (split_dot key)"] None[unfolded root1]
          orCurrentTime_root[OF surjective_pairing, of E t' g]
        by (simp add: SetValue_def usableParent_def Put_def notifyParent_def root1 case_prod_beta split: option.split)
      with assms show False by contradiction
    qed
    then have "q = take (length q) (split_dot key)" by simp
    then show ?thesis by blast
  qed
next
  case False
  with assms show ?thesis by (simp add: SetValue_def)
qed

lemma grows_tree:
  assumes "tree_ok (rootValue cs)" and "grows cs g" and "wf_node (rootValue g)"
  shows "tree_ok (rootValue g)"
  using assms unfolding tree_ok_def grows_def
  by (metis newInnerValue_sel(1,2) option.inject)

lemma subscribe_level:
  assumes ok: "cache_ok E cs"
  shows "cache_ok E (SubscribeLevelCallback E (levelKey p ''*'') cid cs) \<and>
    cache_view (SubscribeLevelCallback E (levelKey p ''*'') cid cs) = cache_view cs \<and>
    level_queue (SubscribeLevelCallback E (levelKey p ''*'') cid cs) p cid = Some [] \<and>
    (key_absent cs p \<longrightarrow> dot_free t \<longrightarrow> key_absent (SubscribeLevelCallback E (levelKey p ''*'') cid cs) (levelKey p t))"
proof -
  let ?f = "\<lambda>i. i\<lparr>notifyUpdates := AList.update cid [] (notifyUpdates i)\<rparr>"
  have star: "split_dot (levelKey p ''*'') = split_dot p @ [''*'']" by (simp add: dot_free_def)
  obtain g where look: "getLastKeyTokenAndItsParentCacheStoreValue E (levelKey p ''*'') True cs = ((''*'', Some (split_dot p)), g)"
    and g: "grows cs g" and par: "node_at (rootValue g) (split_dot p) \<noteq> None"
    using parent_create[of E "levelKey p ''*''" cs] by (auto simp: star)
  let ?s = "SubscribeLevelCallback E (levelKey p ''*'') cid cs"
  have s: "?s = g\<lparr>rootValue := upd_info (split_dot p) ?f (rootValue g)\<rparr>"
    by (simp add: SubscribeLevelCallback_def look)
  have "core (?f i) = core i" for i by (simp add: core_def)
  then have core: "core_at (rootValue ?s) = core_at (rootValue g)"
    by (auto simp: s core_at_def info_at_upd_info fun_eq_iff option.map_comp o_def)
  have wfg: "wf_node (rootValue g)"
    using wf_parent[of cs E "levelKey p ''*''" True] ok look by (simp add: cache_ok_def tree_ok_def)
  then have wf: "wf_node (rootValue ?s)" by (simp add: s wf_upd_info)
  have "tree_ok (rootValue cs)" using ok by (simp add: cache_ok_def)
  then have "tree_ok (rootValue g)" using g wfg by (rule grows_tree)
  then have "tree_ok (rootValue ?s)" using wf by (simp add: tree_ok_def core)
  moreover have "same_frame cs ?s" using grows_frame[OF g] by (rule same_frame_trans) (simp add: s)
  ultimately have "cache_ok E ?s"
    using grows_core[OF g] by (intro cache_ok_frame[OF ok]) (simp_all add: core del: core_at_None)
  moreover have "cache_view ?s = cache_view cs" by (simp add: cache_view_def core grows_live[OF g] fun_eq_iff)
  moreover have "level_queue ?s p cid = Some []"
    using par by (auto simp: level_queue_def s info_at_upd_info split: option.splits)
  moreover have "key_absent ?s (levelKey p t)" if a: "key_absent cs p" "dot_free t"
  proof -
    have "walkTokens E True [] (split_dot p) cs = (Some (split_dot p), g)"
      using look by (auto simp: getLastKeyTokenAndItsParentCacheStoreValue_def Let_def star split: prod.splits option.splits)
    have "split_dot p @ [t] \<noteq> take n (split_dot p)" for n
      by (rule notI, drule arg_cong[where f = length], simp)
    with walkTokens_new_nodes[OF \<open>walkTokens E True [] (split_dot p) cs = _\<close>, of "split_dot p @ [t]"]
    have "node_at (rootValue g) (split_dot p @ [t]) = None"
      using a node_at_prefix_None[of "rootValue cs" "split_dot p" "[t]"]
      by (simp add: key_absent_def del: not_None_eq) blast
    then show ?thesis using a by (simp add: key_absent_def s)
  qed
  ultimately show ?thesis by blast
qed
section \<open>The contract of a store with levels\<close>

locale level_store = kv_store +
  fixes putnew :: "string \<Rightarrow> bytes \<Rightarrow> 'a \<Rightarrow> bool \<times> 'a"
    and subscribe :: "string \<Rightarrow> string \<Rightarrow> 'a \<Rightarrow> 'a"
    and queue :: "'a \<Rightarrow> string \<Rightarrow> string \<Rightarrow> (string \<times> bytes option) list option"
    and absent :: "'a \<Rightarrow> string \<Rightarrow> bool"
  assumes absent_view: "absent s k \<Longrightarrow> view s k = None"
    and put_queue: "ok s \<Longrightarrow> valid_key (levelKey p t) \<Longrightarrow> dot_free t \<Longrightarrow> queue s p cid = Some q \<Longrightarrow>
      queue (put (levelKey p t) v s) p cid = Some (q @ [(t, Some v)])"
    and put_absent: "ok s \<Longrightarrow> valid_key (levelKey p t) \<Longrightarrow> dot_free t \<Longrightarrow> queue s p cid = Some q \<Longrightarrow>
      dot_free t' \<Longrightarrow> t' \<noteq> t \<Longrightarrow> absent s (levelKey p t') \<Longrightarrow> absent (put (levelKey p t) v s) (levelKey p t')"
    and putnew_new: "ok s \<Longrightarrow> valid_key k \<Longrightarrow> k \<noteq> [] \<Longrightarrow> absent s k \<Longrightarrow> putnew k v s = (True, put k v s)"
    and putnew_old: "ok s \<Longrightarrow> valid_key (levelKey p t) \<Longrightarrow> dot_free t \<Longrightarrow> queue s p cid = Some q \<Longrightarrow>
      view s (levelKey p t) \<noteq> None \<Longrightarrow> \<exists>s'. putnew (levelKey p t) v s = (False, s') \<and> ok s' \<and> view s' = view s \<and>
        queue s' = queue s \<and> absent s' = absent s"
    and subscribe_ok: "ok s \<Longrightarrow> ok (subscribe (levelKey p ''*'') cid s)"
    and subscribe_view: "ok s \<Longrightarrow> view (subscribe (levelKey p ''*'') cid s) = view s"
    and subscribe_queue: "ok s \<Longrightarrow> queue (subscribe (levelKey p ''*'') cid s) p cid = Some []"
    and subscribe_absent: "ok s \<Longrightarrow> absent s p \<Longrightarrow> dot_free t \<Longrightarrow> absent (subscribe (levelKey p ''*'') cid s) (levelKey p t)"

interpretation cache_level: level_store "cache_ok E" cache_view "GetValue E"
    "\<lambda>k v cs. snd (SetValue E k v True (-1) [] cs)" "\<lambda>k. DeleteValue E k True (-1) []" "GetKeysByPattern E"
    "\<lambda>k v. SetValueIfDoesNotExist E k v True (-1)" "SubscribeLevelCallback E" level_queue key_absent
  for E :: "('j, 'kv) env"
proof
  fix s :: "'kv Store" and k p t t' cid :: string and v :: bytes and q :: "(string \<times> bytes option) list"
  show "key_absent s k \<Longrightarrow> cache_view s k = None" by (simp add: key_absent_def cache_view_def core_at_def info_at_def)
  assume ok: "cache_ok E s"
  then have E: "env_ok E" by (simp add: cache_ok_def)
  show "valid_key (levelKey p t) \<Longrightarrow> dot_free t \<Longrightarrow> level_queue s p cid = Some q \<Longrightarrow>
      level_queue (snd (SetValue E (levelKey p t) v True (-1) [] s)) p cid = Some (q @ [(t, Some v)])"
    by (rule put_level_queue[OF ok])
  show "valid_key (levelKey p t) \<Longrightarrow> dot_free t \<Longrightarrow> level_queue s p cid = Some q \<Longrightarrow>
      dot_free t' \<Longrightarrow> t' \<noteq> t \<Longrightarrow> key_absent s (levelKey p t') \<Longrightarrow>
      key_absent (snd (SetValue E (levelKey p t) v True (-1) [] s)) (levelKey p t')"
    by (rule put_level_absent[OF E])
  show "valid_key k \<Longrightarrow> k \<noteq> [] \<Longrightarrow> key_absent s k \<Longrightarrow>
      SetValueIfDoesNotExist E k v True (-1) s = (True, snd (SetValue E k v True (-1) [] s))"
    by (rule putnew_absent[OF E])
  show "cache_ok E (SubscribeLevelCallback E (levelKey p ''*'') cid s)"
    "cache_view (SubscribeLevelCallback E (levelKey p ''*'') cid s) = cache_view s"
    "level_queue (SubscribeLevelCallback E (levelKey p ''*'') cid s) p cid = Some []"
    using subscribe_level[OF ok] by blast+
  show "key_absent s p \<Longrightarrow> dot_free t \<Longrightarrow> key_absent (SubscribeLevelCallback E (levelKey p ''*'') cid s) (levelKey p t)"
    using subscribe_level[OF ok] by blast
  show "valid_key (levelKey p t) \<Longrightarrow> dot_free t \<Longrightarrow> level_queue s p cid = Some q \<Longrightarrow> cache_view s (levelKey p t) \<noteq> None \<Longrightarrow>
      \<exists>s'. SetValueIfDoesNotExist E (levelKey p t) v True (-1) s = (False, s') \<and> cache_ok E s' \<and>
        cache_view s' = cache_view s \<and> level_queue s' = level_queue s \<and> key_absent s' = key_absent s"
  proof -
    assume "valid_key (levelKey p t)" "dot_free t" "level_queue s p cid = Some q" "cache_view s (levelKey p t) \<noteq> None"
    from putnew_existing[OF ok this, of v True "-1"] obtain n where
      "SetValueIfDoesNotExist E (levelKey p t) v True (-1) s = (False, s\<lparr>ticks := n\<rparr>)" by blast
    moreover have "cache_ok E (s\<lparr>ticks := n\<rparr>)"
      using ok by (intro cache_ok_frame[OF ok]) (simp_all add: cache_ok_def)
    ultimately show ?thesis by (auto simp: cache_view_def level_queue_def key_absent_def fun_eq_iff)
  qed
qed

end
