(* ===== verification/JPGQuery.thy ===== *)
theory JPGQuery
  imports JPGLinks Messages CacheLevels
begin

text \<open>
  The queries with direct aggregation in the cache,
  \<open>LLAPIQueryJPGQLDirectCacheResultAggregation\<close> of \<open>embedded/graph/jpgql/jpgql.go\<close>.
  The root of a query subscribes to the level of its pending processes and starts a goroutine that
  collects their results; a descendant follows one step of the query, registers the processes of
  the next objects on that level and leaves what it found under its own key.
\<close>

section \<open>The cache as the query handlers use it\<close>

definition wSetValueIfDoesNotExist ::
  "('j, 'kv) env \<Rightarrow> string \<Rightarrow> bytes \<Rightarrow> ('j, 'kv) world \<Rightarrow> bool \<times> ('j, 'kv) world" where
  "wSetValueIfDoesNotExist E key v w =
     (case SetValueIfDoesNotExist E key v True (-1) (w_cache w) of (b, c) \<Rightarrow> (b, w\<lparr>w_cache := c\<rparr>))"

definition wSubscribe :: "('j, 'kv) env \<Rightarrow> string \<Rightarrow> string \<Rightarrow> ('j, 'kv) world \<Rightarrow> ('j, 'kv) world" where
  "wSubscribe E key callbackID w = w\<lparr>w_cache := SubscribeLevelCallback E key callbackID (w_cache w)\<rparr>"

definition wUnsubscribe :: "('j, 'kv) env \<Rightarrow> string \<Rightarrow> string \<Rightarrow> ('j, 'kv) world \<Rightarrow> ('j, 'kv) world" where
  "wUnsubscribe E key callbackID w = w\<lparr>w_cache := UnsubscribeLevelCallback E key callbackID (w_cache w)\<rparr>"

definition evalTimeoutSec :: "'j easyjson \<Rightarrow> 'j StatefunContextProcessor \<Rightarrow> int" where
  "evalTimeoutSec J ctx =
     (case AsNumeric J (GetByPath J (Options ctx) ''eval_timeout_sec'') of Some v \<Rightarrow> v | None \<Rightarrow> 30)"

definition timedOut :: "int \<Rightarrow> int \<Rightarrow> int \<Rightarrow> bool" where
  "timedOut startedEvaluating timeoutSec now \<longleftrightarrow>
     int64_of (word_of_int (startedEvaluating + timeoutSec * 1000000000)) < now"

definition timeoutResult :: "'j easyjson \<Rightarrow> string \<Rightarrow> 'j" where
  "timeoutResult J errorString = statusResult J ''failed'' errorString"

section \<open>Pending processes\<close>

definition pendingLevel :: "string \<Rightarrow> string" where
  "pendingLevel aggregationID = ''jpgql_dcra.'' @ aggregationID @ ''.pending''"

definition pendingKey :: "string \<Rightarrow> string \<Rightarrow> string" where
  "pendingKey aggregationID processID = levelKey (pendingLevel aggregationID) processID"

definition pendingProcessID :: "('j, 'kv) env \<Rightarrow> string \<Rightarrow> string \<Rightarrow> string" where
  "pendingProcessID E objectID objectQuery = md5hex E (objectID @ CHR ''_'' # objectQuery)"

definition initPendingProcess ::
  "('j, 'kv) env \<Rightarrow> string \<Rightarrow> string \<Rightarrow> string \<Rightarrow> ('j, 'kv) world \<Rightarrow> bool \<times> ('j, 'kv) world" where
  "initPendingProcess E objectID objectQuery aggregationID w =
     wSetValueIfDoesNotExist E (pendingKey aggregationID (pendingProcessID E objectID objectQuery)) [1] w"

definition thisPendingDone ::
  "('j, 'kv) env \<Rightarrow> string \<Rightarrow> string \<Rightarrow> string list \<Rightarrow> ('j, 'kv) world \<Rightarrow> ('j, 'kv) world" where
  "thisPendingDone E aggregationID thisProcessID foundObjects w =
     wSetValue E (pendingKey aggregationID thisProcessID) (ToBytes (ej E) (JSONFromArray (ej E) foundObjects)) w"

section \<open>Messages to the next processes and calls on the targets\<close>

definition dcraPayload :: "'j easyjson \<Rightarrow> string \<Rightarrow> string \<Rightarrow> 'j option \<Rightarrow> 'j" where
  "dcraPayload J aggregationID query call =
     setOpt J ''call'' call
       (SetByPath J (SetByPath J (NewJSONObject J) ''aggregation_id'' (NewJSONString J aggregationID))
          ''jpgql_query'' (NewJSONString J query))"

definition signalSelf ::
  "'j easyjson \<Rightarrow> 'j StatefunContextProcessor \<Rightarrow> string \<Rightarrow> string \<Rightarrow> 'j \<Rightarrow> ('j, 'kv) world \<Rightarrow> ('j, 'kv) world" where
  "signalSelf J ctx typename ident payload w =
     snd (signal J JetstreamGlobalSignal (SelfTypename ctx) (SelfID ctx) typename ident (Some payload) None w)"

definition signalProcess ::
  "('j, 'kv) env \<Rightarrow> 'j StatefunContextProcessor \<Rightarrow> string \<Rightarrow> 'j \<Rightarrow> ('j, 'kv) world \<Rightarrow> ('j, 'kv) world" where
  "signalProcess E ctx objectID payload w =
     (case GetUniqueStrID E w of
        (processID, w) \<Rightarrow> signalSelf (ej E) ctx (SelfTypename ctx) (objectID @ ''==='' @ processID) payload w)"

definition callTarget ::
  "'j easyjson \<Rightarrow> 'j StatefunContextProcessor \<Rightarrow> 'j option \<Rightarrow> string \<Rightarrow> ('j, 'kv) world \<Rightarrow> ('j, 'kv) world" where
  "callTarget J ctx call objectID w =
     (case call of
        None \<Rightarrow> w
      | Some c \<Rightarrow>
         (case AsString J (GetByPath J c ''typename'') of
            Some typename \<Rightarrow>
              (let callPayload = GetByPath J c ''payload''
               in if IsObject J callPayload then signalSelf J ctx typename objectID callPayload w else w)
          | None \<Rightarrow> w))"

section \<open>The handler\<close>

record 'j dcra =
  dc_context :: "'j StatefunContextProcessor"
  dc_queryID :: string
  dc_aggregationID :: string
  dc_timeoutSec :: int
  dc_startedEvaluating :: int
  dc_pendingMap :: "(string \<times> bool) list"
  dc_resultObjects :: "string list"

fun dcraSteps ::
  "('j, 'kv) env \<Rightarrow> 'j StatefunContextProcessor \<Rightarrow> 'j option \<Rightarrow> string \<Rightarrow> string \<Rightarrow> AnyDepthStop option \<Rightarrow>
    (string \<times> nat) list \<Rightarrow> string list \<Rightarrow> ('j, 'kv) world \<Rightarrow> string list \<times> ('j, 'kv) world" where
  "dcraSteps E ctx call aggregationID queryTail anyDepthStop [] foundObjects w = (foundObjects, w)"
| "dcraSteps E ctx call aggregationID queryTail anyDepthStop ((objectID, anyDepthStopped) # objects) foundObjects w =
     (let nextQuery = (case anyDepthStop of
            Some stop \<Rightarrow> (if anyDepthStopped = 1 then ads_QueryTail stop else queryTail)
          | None \<Rightarrow> queryTail)
      in if length nextQuery = 0 then
           dcraSteps E ctx call aggregationID queryTail anyDepthStop objects (foundObjects @ [objectID])
             (callTarget (ej E) ctx call objectID w)
         else
           (case initPendingProcess E objectID nextQuery aggregationID w of
              (isNew, w) \<Rightarrow>
                dcraSteps E ctx call aggregationID queryTail anyDepthStop objects foundObjects
                  (if isNew then signalProcess E ctx objectID (dcraPayload (ej E) aggregationID nextQuery call) w else w)))"

definition dcraDescendant ::
  "('j, 'kv) env \<Rightarrow> filterParser \<Rightarrow> 'j StatefunContextProcessor \<Rightarrow> 'j option \<Rightarrow> string \<Rightarrow> ('j, 'kv) world \<Rightarrow>
    unit goResult \<times> ('j, 'kv) world" where
  "dcraDescendant E parse ctx call currentQuery w =
     (let J = ej E; thisObjectID = split_str ''==='' (SelfID ctx) ! 0 in
      case AsString J (GetByPath J (Payload ctx) ''aggregation_id'') of
        None \<Rightarrow> (Returns (), w)
      | Some aggregationID \<Rightarrow>
         (let thisProcessID = pendingProcessID E thisObjectID currentQuery in
          case GetQueryHeadAndTailsParts currentQuery of
            Panics \<Rightarrow> (Panics, w)
          | Fails err \<Rightarrow> (Returns (), w)
          | Returns (queryHeadLinkType, queryHeadFilter, queryTail, anyDepthStop) \<Rightarrow>
              (case GetObjectIDsFromLinkTypeAndLinkFilterQueryWithAnyDepthStop E parse thisObjectID
                      queryHeadLinkType queryHeadFilter anyDepthStop w of
                 (Returns resultObjects, w) \<Rightarrow>
                   (case dcraSteps E ctx call aggregationID queryTail anyDepthStop (mapEntries E resultObjects) [] w of
                      (foundObjects, w) \<Rightarrow> (Returns (), thisPendingDone E aggregationID thisProcessID foundObjects w))
               | (_, w) \<Rightarrow> (Panics, w))))"

definition dcraRoot ::
  "('j, 'kv) env \<Rightarrow> 'j StatefunContextProcessor \<Rightarrow> 'j option \<Rightarrow> string \<Rightarrow> ('j, 'kv) world \<Rightarrow> 'j dcra \<times> ('j, 'kv) world" where
  "dcraRoot E ctx call currentQuery w =
     (case GetQueryID E ctx w of (queryID, w) \<Rightarrow>
      case GetUniqueStrID E w of (aggregationID, w) \<Rightarrow>
      case wNow E (wSubscribe E (levelKey (pendingLevel aggregationID) ''*'') aggregationID w) of (started, w) \<Rightarrow>
      case initPendingProcess E (SelfID ctx) currentQuery aggregationID w of (isNew, w) \<Rightarrow>
        (\<lparr>dc_context = ctx, dc_queryID = queryID, dc_aggregationID = aggregationID,
          dc_timeoutSec = evalTimeoutSec (ej E) ctx, dc_startedEvaluating = started,
          dc_pendingMap = [], dc_resultObjects = []\<rparr>,
         if isNew then signalProcess E ctx (SelfID ctx) (dcraPayload (ej E) aggregationID currentQuery call) w else w))"

text \<open>The handler gives the goroutine it starts, if it starts one.\<close>

definition LLAPIQueryJPGQLDirectCacheResultAggregation ::
  "('j, 'kv) env \<Rightarrow> filterParser \<Rightarrow> 'j StatefunContextProcessor \<Rightarrow> ('j, 'kv) world \<Rightarrow>
    'j dcra option goResult \<times> ('j, 'kv) world" where
  "LLAPIQueryJPGQLDirectCacheResultAggregation E parse ctx w =
     (let J = ej E; payload = Payload ctx;
          call = (if IsObject J (GetByPath J payload ''call'') then Some (GetByPath J payload ''call'') else None);
          c = count_str (SelfID ctx) ''==='' in
      if c > 1 then (Returns None, w)
      else (case AsString J (GetByPath J payload ''jpgql_query'') of
              None \<Rightarrow> (Returns None, w)
            | Some currentQuery \<Rightarrow>
               (if length currentQuery = 0 then (Returns None, w)
                else if c = 0 then map_prod (\<lambda>a. Returns (Some a)) id (dcraRoot E ctx call currentQuery w)
                else (case dcraDescendant E parse ctx call currentQuery w of
                        (Returns _, w) \<Rightarrow> (Returns None, w)
                      | (_, w) \<Rightarrow> (Panics, w)))))"

section \<open>The goroutine that aggregates\<close>

text \<open>What it does with one notification: go on with a new state, or reply and return.\<close>

datatype 'j aggregation = Continues 'j | Replied

definition dcraResult :: "'j easyjson \<Rightarrow> string list \<Rightarrow> 'j" where
  "dcraResult J resultObjects =
     SetByPath J (SetByPath J (NewJSONObject J) ''status'' (NewJSONString J ''ok'')) ''result''
       (fold (\<lambda>resObj r. SetByPath J r resObj (NewJSONBool J True)) resultObjects (NewJSONObject J))"

definition dcraNotified ::
  "('j, 'kv) env \<Rightarrow> string \<times> bytes option \<Rightarrow> 'j dcra \<Rightarrow> ('j, 'kv) world \<Rightarrow>
    ('j dcra aggregation \<times> 'j option) \<times> ('j, 'kv) world" where
  "dcraNotified E kv a w =
     (let J = ej E in
      case kv of
        (key, None) \<Rightarrow> ((Continues a, None), w)
      | (key, Some v) \<Rightarrow>
         (if length v \<le> 1 then
            ((Continues (if map_of (dc_pendingMap a) key = None
                         then a\<lparr>dc_pendingMap := AList.update key True (dc_pendingMap a)\<rparr> else a), None), w)
          else
            (let found = (case JSONFromBytes J v of
                   None \<Rightarrow> []
                 | Some j \<Rightarrow> (if IsNonEmptyArray J j then (case AsArrayString J j of Some ts \<Rightarrow> ts | None \<Rightarrow> []) else []));
                 a = a\<lparr>dc_pendingMap := AList.update key False (dc_pendingMap a),
                       dc_resultObjects := dc_resultObjects a @ found\<rparr>;
                 pendingDone = list_all (\<lambda>(k, v). \<not> v) (dc_pendingMap a)
             in if pendingDone then
                  (let w = fold (wDeleteValue E) (mapOrder E (map fst (dc_pendingMap a))) w;
                       w = wUnsubscribe E (levelKey (pendingLevel (dc_aggregationID a)) ''*'') (dc_aggregationID a) w
                   in case ReplyQueryID E (dc_queryID a) (dcraResult J (dc_resultObjects a)) (dc_context a) w of
                        (reply, w) \<Rightarrow> ((Replied, reply), w))
                else ((Continues a, None), w))))"

definition dcraTick ::
  "('j, 'kv) env \<Rightarrow> 'j dcra \<Rightarrow> ('j, 'kv) world \<Rightarrow> ('j dcra aggregation \<times> 'j option) \<times> ('j, 'kv) world" where
  "dcraTick E a w =
     (case wNow E w of (now, w) \<Rightarrow>
        (if timedOut (dc_startedEvaluating a) (dc_timeoutSec a) now then
           (let w = wUnsubscribe E (levelKey (pendingLevel (dc_aggregationID a)) ''*'') (dc_aggregationID a) w
            in case ReplyQueryID E (dc_queryID a)
                 (timeoutResult (ej E) ''LLAPIQueryJPGQLDirectCacheResultAggregation evaluation timeout!'') (dc_context a) w of
                 (reply, w) \<Rightarrow> ((Replied, reply), w))
         else ((Continues a, None), w)))"

end
