(* ===== verification/JPGParseProps.thy ===== *)
theory JPGParseProps
  imports JPGParse
begin

text \<open>
  What the text of a query means: the split of a query inverts the writing of its steps, and a filter
  selects the links that its expression describes, as far as no disjunction stands to the right of a
  conjunction.
\<close>

section \<open>Writing a query\<close>

text \<open>A step: whether it is sought at any depth, the type of the links and the filter.\<close>

type_synonym step = "bool \<times> string \<times> string"

definition step_ok :: "string \<times> string \<Rightarrow> bool" where
  "step_ok st \<longleftrightarrow> fst st \<noteq> [] \<and> list_all name_char (fst st) \<and>
     list_all (\<lambda>c. c \<noteq> CHR ''['' \<and> c \<noteq> CHR '']'') (snd st)"

abbreviation steps_ok :: "step list \<Rightarrow> bool" where
  "steps_ok \<equiv> list_all (\<lambda>st. step_ok (snd st))"

definition filterText :: "string \<Rightarrow> string" where
  "filterText f = (if f = [] then [] else CHR ''['' # f @ '']'')"

lemma filterText_Nil [simp]: "filterText [] = []"
  by (simp add: filterText_def)

fun renderQuery :: "step list \<Rightarrow> string" where
  "renderQuery [] = []"
| "renderQuery ((deep, t, f) # sts) = (if deep then ''.'' else []) @ CHR ''.'' # t @ filterText f @ renderQuery sts"

lemma name_char_not [simp]:
  "\<not> name_char CHR ''.''" "\<not> name_char CHR ''[''" "\<not> name_char CHR '']''" "\<not> name_char CHR 0x22"
  by (simp_all add: name_char_def)

lemma name_chars_free:
  assumes "list_all name_char t"
  shows "CHR ''.'' \<notin> set t" and "CHR ''['' \<notin> set t" and "CHR '']'' \<notin> set t"
  using assms by (auto simp: list_all_iff)

text \<open>The character that a step is followed by, and no closing bracket before an opening one.\<close>

lemma render_start: "renderQuery sts = [] \<or> hd (renderQuery sts) = CHR ''.''"
  by (cases sts rule: renderQuery.cases) auto

definition opens_first :: "string \<Rightarrow> bool" where
  "opens_first s \<longleftrightarrow> CHR '']'' \<notin> set (takeWhile (\<lambda>c. c \<noteq> CHR ''['') s)"

lemma render_opens: "steps_ok sts \<Longrightarrow> opens_first (renderQuery sts)"
proof (induction sts rule: renderQuery.induct)
  case (2 deep t f sts)
  have t: "\<forall>c\<in>set t. c \<noteq> CHR ''[''" "CHR '']'' \<notin> set t"
    using 2(2) name_chars_free[of t] by (auto simp: step_ok_def)
  then show ?case
    using 2 by (cases "f = []") (auto simp: opens_first_def filterText_def takeWhile_append2)
qed (simp add: opens_first_def)

lemma opens_first_suffix:
  assumes "opens_first s" and "s = a @ b" and "list_all (\<lambda>c. c \<noteq> CHR ''['') a"
  shows "b = [] \<or> hd b \<noteq> CHR '']''"
  using assms by (cases b) (auto simp: opens_first_def takeWhile_append2 list_all_iff)

section \<open>The match at the head of a query\<close>

lemma star_close: "b = [] \<or> hd b \<noteq> CHR '']'' \<Longrightarrow> rx_run (Star (is_char (CHR '']''))) b = [([], [], b)]"
  by (simp add: greedy_stop)

lemma close_fails: "b = [] \<or> hd b \<noteq> CHR '']'' \<Longrightarrow> rx_run (Chr (is_char (CHR '']''))) b = []"
  by (cases b) auto

text \<open>
  The content of plain brackets: the search for the bracket that closes them looks at everything up to
  the next opening one and comes back to the last closing one.
\<close>

lemma filter_candidates:
  assumes f: "list_all (\<lambda>c. c \<noteq> CHR ''['') f" and rest: "opens_first rest"
  obtains pre post where "rx_run (Cat (Star (\<lambda>c. c \<noteq> CHR ''['')) (Star (is_char (CHR '']'')))) (f @ CHR '']'' # rest)
      = pre @ (f, [], CHR '']'' # rest) # post"
    and "\<forall>(a, g, b)\<in>set pre. b = [] \<or> hd b \<noteq> CHR '']''"
proof -
  let ?p = "\<lambda>c. c \<noteq> CHR ''[''" and ?stars = "Star (is_char (CHR '']''))"
  let ?F = "\<lambda>(a, b). map (\<lambda>(a', g', b'). (a @ a', g', b')) (rx_run ?stars b)"
  obtain zs where zs: "greedy ?p (f @ CHR '']'' # rest) =
      map (\<lambda>(a, b). (f @ a, b)) (greedy ?p (CHR '']'' # rest)) @ zs"
    using f by (rule greedy_append)
  define xs where "xs = map (\<lambda>(a, b). (f @ CHR '']'' # a, b)) (greedy ?p rest)"
  have "map (\<lambda>(a, b). (f @ a, b)) (greedy ?p (CHR '']'' # rest)) = xs @ [(f, CHR '']'' # rest)]"
    by (simp add: xs_def comp_def case_prod_unfold)
  with zs have g: "greedy ?p (f @ CHR '']'' # rest) = xs @ (f, CHR '']'' # rest) # zs" by simp
  have rest0: "rest = [] \<or> hd rest \<noteq> CHR '']''" using opens_first_suffix[OF rest, of "[]" rest] by simp
  have run: "rx_run (Cat (Star ?p) ?stars) s = concat (map ?F (greedy ?p s))" for s
    by (simp add: comp_def case_prod_unfold)
  have y: "?F (f, CHR '']'' # rest) = [(f @ '']'', [], rest), (f, [], CHR '']'' # rest)]"
    using rest0 by (simp add: greedy_stop)
  have "b = [] \<or> hd b \<noteq> CHR '']''" if ab: "(a, g, b) \<in> set (concat (map ?F xs))" for a g b
  proof -
    obtain x where x: "x \<in> set xs" "(a, g, b) \<in> set (?F x)"
      using ab unfolding set_concat set_map by blast
    then obtain a0 b0 where ab0: "(a0, b0) \<in> set (greedy ?p rest)" "x = (f @ CHR '']'' # a0, b0)"
      by (auto simp: xs_def)
    have "b0 = [] \<or> hd b0 \<noteq> CHR '']''"
      using greedy_parts[OF ab0(1)] opens_first_suffix[OF rest] by blast
    with x(2) ab0(2) show ?thesis using star_close[of b0] by auto
  qed
  then have "\<forall>(a, g, b)\<in>set (concat (map ?F xs)). b = [] \<or> hd b \<noteq> CHR '']''" by blast
  moreover have "\<forall>(a, g, b)\<in>set [(f @ '']'', [], rest)]. b = [] \<or> hd b \<noteq> CHR '']''" using rest0 by simp
  ultimately have "\<forall>(a, g, b)\<in>set (concat (map ?F xs) @ [(f @ '']'', [], rest)]). b = [] \<or> hd b \<noteq> CHR '']''"
    unfolding set_append by (rule ball_Un[THEN iffD2, OF conjI])
  moreover have "rx_run (Cat (Star ?p) ?stars) (f @ CHR '']'' # rest) =
      (concat (map ?F xs) @ [(f @ '']'', [], rest)]) @ (f, [], CHR '']'' # rest) # concat (map ?F zs)"
    unfolding run g by (simp only: map_append list.map concat_append concat.simps y append.simps append_assoc append_Nil)
  ultimately show thesis using that by blast
qed

lemma plain_filter:
  assumes f: "f \<noteq> []" "list_all (\<lambda>c. c \<noteq> CHR ''['') f" and rest: "opens_first rest"
  obtains ms where "rx_run (Cat (Group 2 (Alt plainFilterRx nestedFilterRx)) (Chr (is_char (CHR '']'')))) (f @ CHR '']'' # rest)
    = (f @ '']'', [(2, f)], rest) # ms"
proof -
  obtain c f' where cf: "f = c # f'" using f(1) by (cases f) auto
  with f(2) have c: "c \<noteq> CHR ''[''" and f': "list_all (\<lambda>c. c \<noteq> CHR ''['') f'" by auto
  obtain pre post where run: "rx_run (Cat (Star (\<lambda>c. c \<noteq> CHR ''['')) (Star (is_char (CHR '']'')))) (f' @ CHR '']'' # rest)
      = pre @ (f', [], CHR '']'' # rest) # post"
    and pre: "\<forall>(a, g, b)\<in>set pre. b = [] \<or> hd b \<noteq> CHR '']''"
    using f' rest by (rule filter_candidates)
  let ?c = "\<lambda>(a, g, b). (c # a, g, b)"
  have "rx_run plainFilterRx (f @ CHR '']'' # rest) =
      map ?c pre @ (f, [], CHR '']'' # rest) # map ?c post"
    unfolding plainFilterRx_def cf append_Cons rx_chr_cat[of "\<lambda>c. c \<noteq> CHR ''[''", OF c] run by simp
  from rx_group_split[OF rx_alt_split[OF this], of 2 nestedFilterRx]
  obtain pre' post' where run2: "rx_run (Group 2 (Alt plainFilterRx nestedFilterRx)) (f @ CHR '']'' # rest)
      = pre' @ (f, [(2, f)], CHR '']'' # rest) # post'"
    and pre': "pre' = map (\<lambda>(a, g, b). (a, (2, a) # g, b)) (map ?c pre)"
    by blast
  have "\<forall>(a, g, b)\<in>set pre'. rx_run (Chr (is_char (CHR '']''))) b = []"
    using pre unfolding pre' by (fastforce intro: close_fails simp del: rx_run.simps)
  then show thesis
    using rx_cat_first[OF run2, of "Chr (is_char (CHR '']''))" "'']''" "[]" rest "[]"] that by auto
qed
text \<open>The whole match at a step and what follows it.\<close>

lemma brackets_match:
  assumes f: "f \<noteq> []" "list_all (\<lambda>c. c \<noteq> CHR ''['' \<and> c \<noteq> CHR '']'') f" and rest: "opens_first rest"
  obtains ms where "rx_run bracketsRx (filterText f @ rest) = (filterText f, [(2, f)], rest) # ms"
proof -
  have f': "list_all (\<lambda>c. c \<noteq> CHR ''['') f" using f(2) by (auto simp: list_all_iff)
  obtain c fs where cf: "f = c # fs" using f(1) by (cases f) auto
  with f(2) have c: "c \<noteq> CHR '']''" by simp
  obtain ms where "rx_run (Cat (Group 2 (Alt plainFilterRx nestedFilterRx)) (Chr (is_char (CHR '']'')))) (f @ CHR '']'' # rest)
    = (f @ '']'', [(2, f)], rest) # ms"
    using f(1) f' rest by (rule plain_filter)
  then have second: "rx_run (Cat (Chr (is_char (CHR ''['')))
      (Cat (Group 2 (Alt plainFilterRx nestedFilterRx)) (Chr (is_char (CHR '']''))))) (filterText f @ rest)
    = (filterText f, [(2, f)], rest) # map (\<lambda>(a, g, b). (CHR ''['' # a, g, b)) ms"
    using f(1) by (simp add: filterText_def rx_chr_cat del: rx_run.simps(4))
  have "rx_run (Cat (Chr (is_char (CHR ''[''))) (Chr (is_char (CHR '']'')))) (filterText f @ rest) = []"
    using c by (simp add: filterText_def cf)
  then show thesis
    using second that by (simp only: bracketsRx_def rx_run.simps(5) append_Nil append_Cons)
qed

lemma brackets_absent: "s = [] \<or> hd s = CHR ''.'' \<Longrightarrow> rx_run bracketsRx s = []"
  by (cases s) (auto simp: bracketsRx_def)

lemma parts_match:
  assumes st: "step_ok (t, f)" and rest: "opens_first rest" "rest = [] \<or> hd rest = CHR ''.''"
  shows "\<exists>m. rx_find jsonPathPartsExtractRegexp (CHR ''.'' # t @ filterText f @ rest) = Some m \<and>
    submatch m 1 = filterText f \<and> submatch m 2 = f"
proof -
  let ?s = "t @ filterText f @ rest"
  have t: "list_all name_char t" using st by (simp add: step_ok_def)
  have "filterText f @ rest = [] \<or> \<not> name_char (hd (filterText f @ rest))"
    using rest(2) by (cases rest) (auto simp: filterText_def)
  with t obtain zs where "greedy name_char ?s = (t, filterText f @ rest) # zs" by (rule greedy_all)
  then have star: "rx_run (Star name_char) ?s = [] @ (t, [], filterText f @ rest) # map (\<lambda>(a, b). (a, [], b)) zs"
    by simp
  obtain g ms where opt: "rx_run (Opt (Group 1 bracketsRx)) (filterText f @ rest) = (filterText f, g, rest) # ms"
    and g: "(case map_of g 1 of None \<Rightarrow> [] | Some x \<Rightarrow> x) = filterText f" "(case map_of g 2 of None \<Rightarrow> [] | Some x \<Rightarrow> x) = f"
  proof (cases "f = []")
    case True
    have "rx_run (Opt (Group 1 bracketsRx)) (filterText f @ rest) = (filterText f, [], rest) # []"
      using brackets_absent[OF rest(2)] True by simp
    then show thesis by (rule that) (simp_all add: True)
  next
    case False
    have f: "list_all (\<lambda>c. c \<noteq> CHR ''['' \<and> c \<noteq> CHR '']'') f" using st by (simp add: step_ok_def)
    obtain ms where "rx_run bracketsRx (filterText f @ rest) = (filterText f, [(2, f)], rest) # ms"
      using False f rest(1) by (rule brackets_match)
    then have "rx_run (Opt (Group 1 bracketsRx)) (filterText f @ rest) = (filterText f, [(1, filterText f), (2, f)], rest) #
        (map (\<lambda>(a, g, b). (a, (1, a) # g, b)) ms @ [([], [], filterText f @ rest)])" by simp
    then show thesis by (rule that) simp_all
  qed
  obtain ms' where "rx_run (Cat (Star name_char) (Opt (Group 1 bracketsRx))) ?s = (t @ filterText f, [] @ g, rest) # ms'"
    using rx_cat_first[OF star _ opt] by auto
  then have "rx_run jsonPathPartsExtractRegexp (CHR ''.'' # ?s) =
      (CHR ''.'' # t @ filterText f, g, rest) # map (\<lambda>(a, g, b). (CHR ''.'' # a, g, b)) ms'"
    unfolding jsonPathPartsExtractRegexp_def by (simp add: rx_chr_cat del: rx_run.simps)
  then have "rx_find jsonPathPartsExtractRegexp (CHR ''.'' # ?s) = Some (CHR ''.'' # t @ filterText f, g, rest)"
    by (rule rx_find_first)
  with g show ?thesis by (auto simp: submatch_def)
qed
section \<open>The head and the tail of a query\<close>

lemma replace_first_later:
  "c \<notin> set u \<Longrightarrow> replace_first (u @ (c # old) @ v) (c # old) new = u @ new @ v"
proof (induction u)
  case Nil
  then show ?case using replace_first_prefix[of "c # old" v new] by simp
next
  case (Cons d u)
  then have "d \<noteq> c" by auto
  with Cons show ?case by (simp add: has_prefix_def)
qed

lemma without_filter:
  assumes "step_ok (t, f)"
  shows "replace_first (CHR ''.'' # t @ filterText f @ rest) (filterText f) [] = CHR ''.'' # t @ rest"
proof (cases "f = []")
  case False
  have "CHR ''['' \<notin> set (CHR ''.'' # t)" using assms name_chars_free[of t] by (simp add: step_ok_def)
  from replace_first_later[OF this, of "f @ '']''" rest "[]"] False show ?thesis by (simp add: filterText_def)
qed simp

lemma head_of_steps:
  assumes "step_ok (t, f)" and "rest = [] \<or> hd rest = CHR ''.''"
  shows "split_dot (t @ rest) ! 0 = t"
proof -
  have "dot_free t" using assms(1) name_chars_free[of t] by (simp add: step_ok_def dot_free_def)
  then show ?thesis
    using assms(2) split_dot_append[of t] by (cases rest) (auto simp: split_dot_free)
qed

lemma step_start: "step_ok (t, f) \<Longrightarrow> take 2 (CHR ''.'' # t @ s) \<noteq> ''..''"
  by (cases t) (auto simp: step_ok_def)

lemma split_query:
  assumes st: "step_ok (t, f)" and sts: "steps_ok sts"
  shows "GetQueryHeadAndTailsParts (renderQuery ((False, t, f) # sts)) = Returns (t, f, renderQuery sts, None)"
    and "GetQueryHeadAndTailsParts (renderQuery ((True, t, f) # sts)) =
      Returns (''*'', [], renderQuery ((True, t, f) # sts),
        Some \<lparr>ads_LinkType = t, ads_FilterQuery = f, ads_QueryTail = renderQuery sts\<rparr>)"
proof -
  let ?rest = "renderQuery sts"
  have rest: "opens_first ?rest" "?rest = [] \<or> hd ?rest = CHR ''.''"
    using render_opens[OF sts] render_start by auto
  obtain m where m: "rx_find jsonPathPartsExtractRegexp (CHR ''.'' # t @ filterText f @ ?rest) = Some m"
    "submatch m 1 = filterText f" "submatch m 2 = f"
    using parts_match[OF st rest] by blast
  have tail: "replace_first (CHR ''.'' # t @ ?rest) (CHR ''.'' # t) [] = ?rest"
    using replace_first_prefix[of "CHR ''.'' # t" ?rest "[]"] by simp
  have t: "t \<noteq> []" using st by (simp add: step_ok_def)
  note parts = m without_filter[OF st] head_of_steps[OF st rest(2)] tail
  show "GetQueryHeadAndTailsParts (renderQuery ((False, t, f) # sts)) = Returns (t, f, renderQuery sts, None)"
    "GetQueryHeadAndTailsParts (renderQuery ((True, t, f) # sts)) =
      Returns (''*'', [], renderQuery ((True, t, f) # sts),
        Some \<lparr>ads_LinkType = t, ads_FilterQuery = f, ads_QueryTail = renderQuery sts\<rparr>)"
    using t step_start[OF st, of "filterText f @ ?rest"] parts
    by (simp_all add: GetQueryHeadAndTailsParts_def Let_def)
qed

text \<open>
  C39: writing a query and splitting it are inverse: the head of a query that was written from its steps is
  the link type and the filter of the first step and its tail is what the other steps are written as;
  when the first step is sought at any depth the same query is asked again of every object.
\<close>

theorem query_text_roundtrip:
  assumes "steps_ok ((deep, t, f) # sts)"
  shows "GetQueryHeadAndTailsParts (renderQuery ((deep, t, f) # sts)) =
    (if deep then Returns (''*'', [], renderQuery ((deep, t, f) # sts),
        Some \<lparr>ads_LinkType = t, ads_FilterQuery = f, ads_QueryTail = renderQuery sts\<rparr>)
     else Returns (t, f, renderQuery sts, None))"
  using assms split_query[of t f sts] by (cases deep) simp_all

theorem query_text_roundtrip_witness:
  "GetQueryHeadAndTailsParts ''.a[x]..b'' = Returns (''a'', ''x'', ''..b'', None) \<and>
   GetQueryHeadAndTailsParts ''..a[x].b'' = Returns (''*'', [], ''..a[x].b'',
     Some \<lparr>ads_LinkType = ''a'', ads_FilterQuery = ''x'', ads_QueryTail = ''.b''\<rparr>)"
proof -
  have "steps_ok [(False, ''a'', ''x''), (True, ''b'', [])]" "steps_ok [(True, ''a'', ''x''), (False, ''b'', [])]"
    by (simp_all add: step_ok_def name_char_def)
  from query_text_roundtrip[OF this(1)] query_text_roundtrip[OF this(2)] show ?thesis by (simp add: filterText_def)
qed

section \<open>What a filter selects\<close>

text \<open>A link is given by its indices, the strings \<open>name.value\<close>.\<close>

definition filterMatches :: "FilterData \<Rightarrow> string set \<Rightarrow> bool" where
  "filterMatches fd indices \<longleftrightarrow>
     (\<exists>features\<in>set (disjunctiveNormalFormOfFeatures fd). \<forall>ft\<in>set features. featureKey ft \<in> indices)"

text \<open>The meaning of a filter expression.\<close>

fun constString :: "filterExpr \<Rightarrow> string option" where
  "constString (StringConst s) = Some s"
| "constString _ = None"

fun filterHolds :: "filterExpr \<Rightarrow> string set \<Rightarrow> bool" where
  "filterHolds (TagsCall es) ixs = (\<forall>e\<in>set es. \<exists>s. constString e = Some s \<and> ''tag.'' @ s \<in> ixs)"
| "filterHolds (NameCall es) ixs = (\<exists>e\<in>set es. \<exists>s. constString e = Some s \<and> ''name.'' @ s \<in> ixs)"
| "filterHolds (OrOp a b) ixs = (filterHolds a ixs \<or> filterHolds b ixs)"
| "filterHolds (AndOp a b) ixs = (filterHolds a ixs \<and> filterHolds b ixs)"
| "filterHolds _ ixs = False"

fun orFree :: "filterExpr \<Rightarrow> bool" where
  "orFree (OrOp a b) = False"
| "orFree (AndOp a b) = (orFree a \<and> orFree b)"
| "orFree _ = True"

fun andsOrFreeRight :: "filterExpr \<Rightarrow> bool" where
  "andsOrFreeRight (OrOp a b) = (andsOrFreeRight a \<and> andsOrFreeRight b)"
| "andsOrFreeRight (AndOp a b) = (andsOrFreeRight a \<and> orFree b)"
| "andsOrFreeRight _ = True"
lemma goBind_Returns: "goBind r f = Returns y \<longleftrightarrow> (\<exists>x. r = Returns x \<and> f x = Returns y)"
  by (cases r) auto

lemma filter_functions:
  "tagsFunction vs = Returns v \<Longrightarrow> \<exists>fs. tagFeatures vs = Some fs \<and> vs \<noteq> [] \<and> v = FilterValue (NewFilterDataWithConjunctionFeatures fs)"
  "nameFunction vs = Returns v \<Longrightarrow> \<exists>s. vs = [StringValue s] \<and> v = FilterValue (NewFilterDataWithOneFeature \<lparr>ff_name = ''name'', ff_value = s\<rparr>)"
  "filterOr x y = Returns v \<Longrightarrow> \<exists>a b. x = FilterValue a \<and> y = FilterValue b \<and> v = FilterValue
     \<lparr>disjunctiveNormalFormOfFeatures = disjunctiveNormalFormOfFeatures a @ disjunctiveNormalFormOfFeatures b\<rparr>"
  "filterAnd x y = Returns v \<Longrightarrow> \<exists>a b. x = FilterValue a \<and> y = FilterValue b \<and> v = FilterValue
     \<lparr>disjunctiveNormalFormOfFeatures = fold (\<lambda>tagsB. map (\<lambda>featuresA. featuresA @ tagsB))
        (disjunctiveNormalFormOfFeatures b) (disjunctiveNormalFormOfFeatures a)\<rparr>"
  subgoal by (auto simp: tagsFunction_def split: if_splits option.splits)
  subgoal by (cases vs; cases "tl vs") (auto simp: nameFunction_def split: if_splits filterValue.splits)
  subgoal by (auto simp: filterOr_def split: filterValue.splits)
  subgoal by (auto simp: filterAnd_def split: filterValue.splits)
  done

lemma evaluated_string: "evaluateFilter e = Returns (StringValue s) \<Longrightarrow> e = StringConst s"
  by (cases e) (auto simp: goBind_Returns dest!: filter_functions)

lemma goSequence_Returns: "goSequence rs = Returns xs \<longleftrightarrow> rs = map Returns xs"
  by (induction rs arbitrary: xs) (auto simp: goBind_Returns)

lemma tagFeatures_Some:
  "tagFeatures vs = Some fs \<Longrightarrow> \<exists>ss. vs = map StringValue ss \<and> fs = map (\<lambda>s. \<lparr>ff_name = ''tag'', ff_value = s\<rparr>) ss"
proof (induction vs arbitrary: fs rule: tagFeatures.induct)
  case (2 s vs)
  then obtain ss fs' where "vs = map StringValue ss" "fs = \<lparr>ff_name = ''tag'', ff_value = s\<rparr> # fs'"
    "fs' = map (\<lambda>s. \<lparr>ff_name = ''tag'', ff_value = s\<rparr>) ss" by auto
  then show ?case by (intro exI[of _ "s # ss"]) simp
qed simp_all

lemma evaluated_strings: "map evaluateFilter es = map (Returns \<circ> StringValue) ss \<Longrightarrow> es = map StringConst ss"
proof (induction es arbitrary: ss)
  case (Cons e es)
  then show ?case by (cases ss) (auto dest: evaluated_string)
qed simp

lemma evaluated_calls:
  "evaluateFilter (TagsCall es) = Returns v \<Longrightarrow> \<exists>ss. es = map StringConst ss \<and>
     v = FilterValue (NewFilterDataWithConjunctionFeatures (map (\<lambda>s. \<lparr>ff_name = ''tag'', ff_value = s\<rparr>) ss))"
  "evaluateFilter (NameCall es) = Returns v \<Longrightarrow> \<exists>s. es = [StringConst s] \<and>
     v = FilterValue (NewFilterDataWithOneFeature \<lparr>ff_name = ''name'', ff_value = s\<rparr>)"
proof -
  assume "evaluateFilter (TagsCall es) = Returns v"
  then obtain vs fs where "map evaluateFilter es = map Returns vs" "tagFeatures vs = Some fs"
    "v = FilterValue (NewFilterDataWithConjunctionFeatures fs)"
    by (auto simp: goBind_Returns goSequence_Returns dest: filter_functions(1))
  moreover from this(2) obtain ss where "vs = map StringValue ss" "fs = map (\<lambda>s. \<lparr>ff_name = ''tag'', ff_value = s\<rparr>) ss"
    using tagFeatures_Some by blast
  ultimately show "\<exists>ss. es = map StringConst ss \<and>
     v = FilterValue (NewFilterDataWithConjunctionFeatures (map (\<lambda>s. \<lparr>ff_name = ''tag'', ff_value = s\<rparr>) ss))"
    using evaluated_strings[of es ss] by auto
next
  assume "evaluateFilter (NameCall es) = Returns v"
  then obtain s where "map evaluateFilter es = [Returns (StringValue s)]"
    "v = FilterValue (NewFilterDataWithOneFeature \<lparr>ff_name = ''name'', ff_value = s\<rparr>)"
    by (auto simp: goBind_Returns goSequence_Returns dest!: filter_functions(2))
  then show "\<exists>s. es = [StringConst s] \<and> v = FilterValue (NewFilterDataWithOneFeature \<lparr>ff_name = ''name'', ff_value = s\<rparr>)"
    using evaluated_strings[of es "[s]"] by auto
qed

lemma fold_conjunction: "fold (\<lambda>tagsB. map (\<lambda>featuresA. featuresA @ tagsB)) bs as = map (\<lambda>a. a @ concat bs) as"
  by (induction bs arbitrary: as) (simp_all add: comp_def)

definition allFeatures :: "FilterData \<Rightarrow> string set \<Rightarrow> bool" where
  "allFeatures fd ixs \<longleftrightarrow> (\<forall>b\<in>set (disjunctiveNormalFormOfFeatures fd). \<forall>ft\<in>set b. featureKey ft \<in> ixs)"

lemma matches_operators:
  "filterMatches \<lparr>disjunctiveNormalFormOfFeatures = disjunctiveNormalFormOfFeatures fa @ disjunctiveNormalFormOfFeatures fb\<rparr> ixs \<longleftrightarrow>
     filterMatches fa ixs \<or> filterMatches fb ixs"
  "filterMatches \<lparr>disjunctiveNormalFormOfFeatures =
     map (\<lambda>a. a @ concat (disjunctiveNormalFormOfFeatures fb)) (disjunctiveNormalFormOfFeatures fa)\<rparr> ixs \<longleftrightarrow>
     filterMatches fa ixs \<and> allFeatures fb ixs"
  by (auto simp: filterMatches_def allFeatures_def)

lemma orFree_right: "orFree e \<Longrightarrow> andsOrFreeRight e"
  by (induction e) auto

lemma all_features:
  "disjunctiveNormalFormOfFeatures fd \<noteq> [] \<Longrightarrow> allFeatures fd ixs \<Longrightarrow> filterMatches fd ixs"
  "length (disjunctiveNormalFormOfFeatures fd) = 1 \<Longrightarrow> filterMatches fd ixs = allFeatures fd ixs"
  by (cases "disjunctiveNormalFormOfFeatures fd"; auto simp: allFeatures_def filterMatches_def)+

text \<open>
  C40: a link that a filter matches satisfies the filter's expression, and the reverse holds
  when no disjunction stands to the right of a conjunction: the normal form that is computed is the one
  of the expression then.
\<close>

theorem filter_selects_expression:
  assumes "evaluateFilter e = Returns (FilterValue fd)"
  shows "(filterMatches fd ixs \<longrightarrow> filterHolds e ixs) \<and>
    (andsOrFreeRight e \<longrightarrow> filterHolds e ixs \<longrightarrow> filterMatches fd ixs)"
proof -
  have "disjunctiveNormalFormOfFeatures fd \<noteq> [] \<and> (orFree e \<longrightarrow> length (disjunctiveNormalFormOfFeatures fd) = 1) \<and>
    (filterMatches fd ixs \<longrightarrow> filterHolds e ixs) \<and>
    (andsOrFreeRight e \<longrightarrow> filterHolds e ixs \<longrightarrow> filterMatches fd ixs)"
    using assms
  proof (induction e arbitrary: fd)
    case (TagsCall es)
    then show ?case
      using evaluated_calls(1)[OF TagsCall.prems]
      by (auto simp: NewFilterDataWithConjunctionFeatures_def filterMatches_def featureKey_def)
  next
    case (NameCall es)
    then show ?case
      using evaluated_calls(2)[OF NameCall.prems]
      by (auto simp: NewFilterDataWithOneFeature_def filterMatches_def featureKey_def)
  next
    case (OrOp a b)
    then obtain fa fb where v: "evaluateFilter a = Returns (FilterValue fa)" "evaluateFilter b = Returns (FilterValue fb)"
      "fd = \<lparr>disjunctiveNormalFormOfFeatures = disjunctiveNormalFormOfFeatures fa @ disjunctiveNormalFormOfFeatures fb\<rparr>"
      by (auto simp: goBind_Returns dest!: filter_functions(3))
    have "filterMatches fd ixs \<longleftrightarrow> filterMatches fa ixs \<or> filterMatches fb ixs"
      by (simp add: matches_operators(1) v(3))
    then show ?case
      using OrOp.IH(1)[OF v(1)] OrOp.IH(2)[OF v(2)] v(3) by simp
  next
    case (AndOp a b)
    then obtain fa fb where v: "evaluateFilter a = Returns (FilterValue fa)" "evaluateFilter b = Returns (FilterValue fb)"
      "fd = \<lparr>disjunctiveNormalFormOfFeatures = map (\<lambda>x. x @ concat (disjunctiveNormalFormOfFeatures fb)) (disjunctiveNormalFormOfFeatures fa)\<rparr>"
      by (auto simp: goBind_Returns fold_conjunction dest!: filter_functions(4))
    have "filterMatches fd ixs \<longleftrightarrow> filterMatches fa ixs \<and> allFeatures fb ixs"
      by (simp add: matches_operators(2) v(3))
    then show ?case
      using AndOp.IH(1)[OF v(1)] AndOp.IH(2)[OF v(2)] v(3) all_features[of fb ixs] orFree_right[of b] by simp blast
  qed simp_all
  then show ?thesis by blast
qed

theorem filter_selects_expression_witness:
  "let e = AndOp (TagsCall [StringConst ''r'']) (NameCall [StringConst ''n'']);
       fd = \<lparr>disjunctiveNormalFormOfFeatures = [[\<lparr>ff_name = ''tag'', ff_value = ''r''\<rparr>, \<lparr>ff_name = ''name'', ff_value = ''n''\<rparr>]]\<rparr>
   in evaluateFilter e = Returns (FilterValue fd) \<and> filterMatches fd {''tag.r'', ''name.n''} \<and>
      \<not> filterMatches fd {''tag.r''}"
proof -
  let ?e = "AndOp (TagsCall [StringConst ''r'']) (NameCall [StringConst ''n''])"
  let ?fd = "\<lparr>disjunctiveNormalFormOfFeatures = [[\<lparr>ff_name = ''tag'', ff_value = ''r''\<rparr>, \<lparr>ff_name = ''name'', ff_value = ''n''\<rparr>]]\<rparr>"
  have "evaluateFilter ?e = Returns (FilterValue ?fd)"
    by (simp add: tagsFunction_def nameFunction_def filterAnd_def NewFilterDataWithConjunctionFeatures_def
        NewFilterDataWithOneFeature_def)
  from this filter_selects_expression[OF this, of "{''tag.r'', ''name.n''}"] filter_selects_expression[OF this, of "{''tag.r''}"]
  show ?thesis unfolding Let_def by simp
qed

text \<open>
  With a disjunction to the right of a conjunction the filter asks for all its branches: a link
  that has the first tag and one of the others satisfies the expression and is not selected.
\<close>

lemma conjunction_with_disjunction_asks_for_all:
  "\<exists>fd. evaluateFilter (AndOp (TagsCall [StringConst a]) (OrOp (TagsCall [StringConst b]) (TagsCall [StringConst c]))) =
      Returns (FilterValue fd) \<and>
    (\<forall>ixs. filterMatches fd ixs = ({''tag.'' @ a, ''tag.'' @ b, ''tag.'' @ c} \<subseteq> ixs))"
  by (simp add: tagsFunction_def filterAnd_def filterOr_def NewFilterDataWithConjunctionFeatures_def
      filterMatches_def featureKey_def)

end
