(* ===== verification/JPGSelect.thy ===== *)
theory JPGSelect
  imports JPGLinks JPGParseProps LLProps
begin

text \<open>
  The objects that one step of a query leads to, over the graph in the store: what the functions of
  \<open>JPGLinks\<close> find through the keys of the cache is what the graph's links and their
  indices say.
\<close>

section \<open>The step over the abstract graph\<close>

definition linkIndices :: "(string \<Rightarrow> bytes option) \<Rightarrow> string \<Rightarrow> string \<Rightarrow> string \<Rightarrow> string set" where
  "linkIndices m A T B = {i @ CHR ''.'' # t | i t. dot_free i \<and> dot_free t \<and> m (OutLinkIndexKey A T B i t) \<noteq> None}"

definition linksOf :: "(string \<Rightarrow> bytes option) \<Rightarrow> string \<Rightarrow> string \<Rightarrow> (string \<times> string) set" where
  "linksOf m A linkType =
     {(T, B). linkType \<noteq> [] \<and> (linkType = ''*'' \<or> T = linkType) \<and> link_ok (A, T, B) \<and> m (OutLinkBodyKey A T B) \<noteq> None}"

definition linkedObjects :: "(string \<Rightarrow> bytes option) \<Rightarrow> string \<Rightarrow> string \<Rightarrow> string set" where
  "linkedObjects m A linkType = (if linkType = [] then {A} else snd ` linksOf m A linkType)"

definition filteredObjects :: "(string \<Rightarrow> bytes option) \<Rightarrow> string \<Rightarrow> string \<Rightarrow> FilterData \<Rightarrow> string set" where
  "filteredObjects m A linkType fd =
     {B. \<exists>T. (T, B) \<in> linksOf m A linkType \<and> filterMatches fd (linkIndices m A T B)}"

text \<open>A filter with no feature at all cannot be parsed; the code does not filter then.\<close>

definition stepObjects :: "filterParser \<Rightarrow> (string \<Rightarrow> bytes option) \<Rightarrow> string \<Rightarrow> string \<Rightarrow> string \<Rightarrow> string set" where
  "stepObjects parse m A linkType filterQuery =
     (if filterQuery = [] then linkedObjects m A linkType
      else (case ParseFilter parse filterQuery of
              Returns fd \<Rightarrow> (if disjunctiveNormalFormOfFeatures fd = [] then linkedObjects m A linkType
                             else filteredObjects m A linkType fd)
            | _ \<Rightarrow> {}))"

section \<open>Keys of links and of indices\<close>

lemma split_links: "simple_id A \<Longrightarrow> split_dot (A @ ''.out.body'') = [A, ''out'', ''body'']"
  using split_dot_append[of A "''out.body''"] by (simp add: split_dot_free)

lemma split_links_type:
  "simple_id A \<Longrightarrow> dot_free T \<Longrightarrow> split_dot (A @ ''.out.body.'' @ T) = [A, ''out'', ''body'', T]"
  using split_dot_append[of "A @ ''.out.body''" T] split_links[of A] by (simp add: split_dot_free)

lemma split_indices:
  "simple_id A \<Longrightarrow> dot_free T \<Longrightarrow> dot_free B \<Longrightarrow>
   split_dot (A @ ''.out.index.'' @ T @ CHR ''.'' # B) = [A, ''out'', ''index'', T, B]"
  using split_dot_append[of A "''out.index.'' @ T @ CHR ''.'' # B"] split_dot_append[of "''out.index''" "T @ CHR ''.'' # B"]
    split_dot_append[of T B]
  by (simp add: split_dot_free)

lemma key_of_split: "split_dot k = split_dot k' \<Longrightarrow> k = k'"
  by simp

lemma link_ok_free: "link_ok (A, T, B) \<Longrightarrow> simple_id A \<and> simple_id T \<and> simple_id B"
  by (simp add: link_ok_def)

lemma body_keys:
  assumes w: "w_ok E w" and g: "graph_ok (w_view w)" and A: "simple_id A" and lt: "linkType \<noteq> []" "dot_free linkType"
  shows "snd (wGetKeysByPattern E (linksQuery A linkType) w) = w"
    and "set (fst (wGetKeysByPattern E (linksQuery A linkType) w)) =
      (\<lambda>(T, B). OutLinkBodyKey A T B) ` linksOf (w_view w) A linkType"
proof -
  let ?p = "if linkType \<noteq> ''*'' then A @ ''.out.body.'' @ linkType else A @ ''.out.body''"
  have q: "linksQuery A linkType = ?p @ ''.>''" by (simp add: linksQuery_def)
  show "snd (wGetKeysByPattern E (linksQuery A linkType) w) = w"
    unfolding q by (rule world.keys_same[OF w])
  have "w_view w k \<noteq> None \<and> (\<exists>rest. rest \<noteq> [] \<and> split_dot k = split_dot ?p @ rest) \<longleftrightarrow>
      (\<exists>T B. (T, B) \<in> linksOf (w_view w) A linkType \<and> k = OutLinkBodyKey A T B)" (is "?L \<longleftrightarrow> ?R") for k
  proof
    assume L: ?L
    then obtain rest where rest: "rest \<noteq> []" "split_dot k = A # ''out'' # ''body'' # (if linkType \<noteq> ''*'' then linkType # rest else rest)"
      using split_links[OF A] split_links_type[OF A lt(2)] by (auto split: if_splits)
    with L graph_okD(1)[OF g, of k A "if linkType \<noteq> ''*'' then linkType # rest else rest"]
    obtain T B where TB: "(if linkType \<noteq> ''*'' then linkType # rest else rest) = [T, B]" "link_ok (A, T, B)"
      by (auto split: if_splits)
    with rest have "k = OutLinkBodyKey A T B"
      by (intro key_of_split) (simp add: link_ok_free)
    with TB L lt(1) show ?R by (auto simp: linksOf_def split: if_splits)
  next
    assume ?R
    then show ?L
      using split_links[OF A] split_links_type[OF A lt(2)] by (auto simp: linksOf_def link_ok_def)
  qed
  then show "set (fst (wGetKeysByPattern E (linksQuery A linkType) w)) =
      (\<lambda>(T, B). OutLinkBodyKey A T B) ` linksOf (w_view w) A linkType"
    unfolding q world.keys_below[OF w] by auto
qed

lemma index_keys:
  assumes w: "w_ok E w" and g: "graph_ok (w_view w)" and l: "link_ok (A, T, B)"
  shows "snd (GetSpecificLinkIndices E A T B w) = w"
    and "set (fst (GetSpecificLinkIndices E A T B w)) = linkIndices (w_view w) A T B"
proof -
  have s: "simple_id A" "simple_id T" "simple_id B" using l by (simp_all add: link_ok_def)
  let ?p = "A @ ''.out.index.'' @ T @ CHR ''.'' # B"
  obtain ks where ks: "wGetKeysByPattern E (?p @ ''.>'') w = (ks, w)"
    using world.keys_same[OF w, of ?p] by (metis prod.collapse)
  have T: "length T \<noteq> 0" using s by simp
  have run: "GetSpecificLinkIndices E A T B w =
    (fold (\<lambda>key. List.insert (lastButOne (split_dot key) @ CHR ''.'' # last (split_dot key))) ks [], w)"
    using ks T by (simp add: GetSpecificLinkIndices_def)
  then show "snd (GetSpecificLinkIndices E A T B w) = w" by simp
  have fold: "set (fold (\<lambda>key. List.insert (f key)) keys xs) = set xs \<union> f ` set keys" for f :: "string \<Rightarrow> string" and keys xs
    by (induction keys arbitrary: xs) auto
  have keys: "set ks = {k. w_view w k \<noteq> None \<and> (\<exists>rest. rest \<noteq> [] \<and> split_dot k = [A, ''out'', ''index'', T, B] @ rest)}"
    using world.keys_below[OF w, of ?p] ks split_indices[of A T B] s by simp
  have "w_view w k \<noteq> None \<and> (\<exists>rest. rest \<noteq> [] \<and> split_dot k = [A, ''out'', ''index'', T, B] @ rest) \<longleftrightarrow>
      (\<exists>i t. dot_free i \<and> dot_free t \<and> w_view w k \<noteq> None \<and> split_dot k = [A, ''out'', ''index'', T, B, i, t])" (is "?L \<longleftrightarrow> ?R") for k
  proof
    assume L: ?L
    then obtain rest where rest: "rest \<noteq> []" "split_dot k = A # ''out'' # ''index'' # T # B # rest" by auto
    with L graph_okD(3)[OF g, of k A "T # B # rest"] obtain i t where "rest = [i, t]" by auto
    moreover from this rest have "dot_free i" "dot_free t"
      using split_on_token_free[of _ "CHR ''.''" k] by (auto simp: dot_free_def)
    ultimately show ?R using L rest by auto
  qed auto
  then have ks2: "set ks = {k. \<exists>i t. dot_free i \<and> dot_free t \<and> w_view w k \<noteq> None \<and> split_dot k = [A, ''out'', ''index'', T, B, i, t]}"
    using keys by simp
  have split: "split_dot (OutLinkIndexKey A T B i t) = [A, ''out'', ''index'', T, B, i, t]" if "dot_free i" "dot_free t" for i t
    using split_dot_append[of ?p "i @ CHR ''.'' # t"] split_dot_append[of i t] split_indices[of A T B] s that
    by (simp add: OutLinkIndexKey_def split_dot_free)
  let ?f = "\<lambda>key. lastButOne (split_dot key) @ CHR ''.'' # last (split_dot key)"
  have "?f ` set ks = linkIndices (w_view w) A T B"
  proof (intro set_eqI iffI)
    fix x assume "x \<in> ?f ` set ks"
    then obtain k i t where k: "dot_free i" "dot_free t" "w_view w k \<noteq> None" "split_dot k = [A, ''out'', ''index'', T, B, i, t]" "x = ?f k"
      unfolding ks2 by blast
    then have "k = OutLinkIndexKey A T B i t" using split[OF k(1,2)] by (intro key_of_split) simp
    with k show "x \<in> linkIndices (w_view w) A T B" by (auto simp: linkIndices_def lastButOne_def)
  next
    fix x assume "x \<in> linkIndices (w_view w) A T B"
    then obtain i t where it: "dot_free i" "dot_free t" "w_view w (OutLinkIndexKey A T B i t) \<noteq> None" "x = i @ CHR ''.'' # t"
      unfolding linkIndices_def by blast
    then have "OutLinkIndexKey A T B i t \<in> set ks" "x = ?f (OutLinkIndexKey A T B i t)"
      unfolding ks2 using split[OF it(1,2)] by (auto simp: lastButOne_def)
    then show "x \<in> ?f ` set ks" by (rule rev_image_eqI)
  qed
  then show "set (fst (GetSpecificLinkIndices E A T B w)) = linkIndices (w_view w) A T B"
    unfolding run by (simp add: fold)
qed
section \<open>The objects found\<close>

lemma fold_update:
  "map_of (fold (\<lambda>x. AList.update (f x) v) xs m) = (\<lambda>k. if k \<in> f ` set xs then Some v else map_of m k)"
  "distinct (map fst m) \<Longrightarrow> distinct (map fst (fold (\<lambda>x. AList.update (f x) v) xs m))"
  by (induction xs arbitrary: m) (auto simp: fun_eq_iff distinct_update)

definition objectSet :: "objectMap \<Rightarrow> string set \<Rightarrow> bool" where
  "objectSet m S \<longleftrightarrow> distinct (map fst m) \<and> map_of m = (\<lambda>k. if k \<in> S then Some 0 else None)"

lemma objects_of_type:
  assumes w: "w_ok E w" and g: "graph_ok (w_view w)" and A: "simple_id A" and lt: "dot_free linkType"
  obtains m where "GetObjectIDsFromLinkType E A linkType w = (m, w)" and "objectSet m (linkedObjects (w_view w) A linkType)"
proof (cases "linkType = []")
  case True
  then have "GetObjectIDsFromLinkType E A linkType w = ([(A, 0)], w)" by (simp add: GetObjectIDsFromLinkType_def)
  then show thesis by (rule that) (simp add: objectSet_def linkedObjects_def True fun_eq_iff)
next
  case False
  obtain ks where ks: "wGetKeysByPattern E (linksQuery A linkType) w = (ks, w)"
    using body_keys(1)[OF w g A False lt] by (metis prod.collapse)
  have links: "set ks = (\<lambda>(T, B). OutLinkBodyKey A T B) ` linksOf (w_view w) A linkType"
    using body_keys(2)[OF w g A False lt] ks by simp
  have "last (split_dot (OutLinkBodyKey A T B)) = B" if "(T, B) \<in> linksOf (w_view w) A linkType" for T B
    using that by (auto simp: linksOf_def link_ok_def)
  then have "(\<lambda>k. last (split_dot k)) ` set ks = snd ` linksOf (w_view w) A linkType"
    unfolding links image_image by (intro image_cong) auto
  then have "objectSet (fold (\<lambda>key. AList.update (last (split_dot key)) 0) ks []) (linkedObjects (w_view w) A linkType)"
    using False by (simp add: objectSet_def linkedObjects_def fold_update fun_eq_iff)
  moreover have "GetObjectIDsFromLinkType E A linkType w = (fold (\<lambda>key. AList.update (last (split_dot key)) 0) ks [], w)"
    using ks False by (simp add: GetObjectIDsFromLinkType_def)
  ultimately show thesis using that by blast
qed

lemma links_of_type:
  assumes w: "w_ok E w" and g: "graph_ok (w_view w)" and A: "simple_id A" and lt: "dot_free linkType"
  obtains ps where "GetAllLinksFromSpecifiedLinkType E A linkType w = (ps, w)" and "set ps = linksOf (w_view w) A linkType"
proof (cases "linkType = []")
  case True
  then have "GetAllLinksFromSpecifiedLinkType E A linkType w = ([], w)" by (simp add: GetAllLinksFromSpecifiedLinkType_def)
  then show thesis by (rule that) (simp add: linksOf_def True)
next
  case False
  obtain ks where ks: "wGetKeysByPattern E (linksQuery A linkType) w = (ks, w)"
    using body_keys(1)[OF w g A False lt] by (metis prod.collapse)
  have links: "set ks = (\<lambda>(T, B). OutLinkBodyKey A T B) ` linksOf (w_view w) A linkType"
    using body_keys(2)[OF w g A False lt] ks by simp
  let ?f = "\<lambda>key. (lastButOne (split_dot key), last (split_dot key))"
  have "?f (OutLinkBodyKey A T B) = (T, B)" if "(T, B) \<in> linksOf (w_view w) A linkType" for T B
    using that by (auto simp: linksOf_def link_ok_def lastButOne_def)
  then have "?f ` set ks = (\<lambda>x. x) ` linksOf (w_view w) A linkType"
    unfolding links image_image by (intro image_cong) auto
  moreover have "GetAllLinksFromSpecifiedLinkType E A linkType w = (map ?f ks, w)"
    using ks False by (simp add: GetAllLinksFromSpecifiedLinkType_def)
  ultimately show thesis using that by simp
qed

lemma featuresFound_set: "featuresFound fd ixs = filterMatches fd (set ixs)"
  by (simp add: featuresFound_def filterMatches_def list_ex_iff list_all_iff)

lemma filter_pairs:
  assumes w: "w_ok E w" and g: "graph_ok (w_view w)" and ps: "\<forall>(T, B)\<in>set ps. link_ok (A, T, B)"
    and m: "distinct (map fst m)"
  shows "\<exists>m'. filterPairs E A fd ps m w = (m', w) \<and> distinct (map fst m') \<and>
    (\<forall>B. map_of m' B = (if map_of m B = None \<and> (\<exists>T. (T, B) \<in> set ps \<and> filterMatches fd (linkIndices (w_view w) A T B))
       then Some 0 else map_of m B))"
  using ps m
proof (induction ps arbitrary: m)
  case Nil
  then show ?case by simp
next
  case (Cons p ps)
  obtain T B where p: "p = (T, B)" by (cases p)
  with Cons.prems have l: "link_ok (A, T, B)" by simp
  obtain ixs where ixs: "GetSpecificLinkIndices E A T B w = (ixs, w)" "set ixs = linkIndices (w_view w) A T B"
    using index_keys[OF w g l] by (metis prod.collapse)
  let ?m = "if map_of m B = None \<and> featuresFound fd ixs then AList.update B 0 m else m"
  have "distinct (map fst ?m)" using Cons.prems(2) by (simp add: distinct_update)
  then obtain m' where m': "filterPairs E A fd ps ?m w = (m', w)" "distinct (map fst m')"
    "\<forall>B. map_of m' B = (if map_of ?m B = None \<and> (\<exists>T. (T, B) \<in> set ps \<and> filterMatches fd (linkIndices (w_view w) A T B))
       then Some 0 else map_of ?m B)"
    using Cons.IH[of ?m] Cons.prems(1) by auto
  have "map_of m' C = (if map_of m C = None \<and> (\<exists>T. (T, C) \<in> set (p # ps) \<and> filterMatches fd (linkIndices (w_view w) A T C))
       then Some 0 else map_of m C)" for C
    using m'(3)[rule_format, of C] ixs(2) by (cases "C = B") (auto simp: p featuresFound_set)
  with m'(1,2) ixs(1) show ?case by (simp add: p)
qed

lemma objects_filtered:
  assumes w: "w_ok E w" and g: "graph_ok (w_view w)" and A: "simple_id A" and lt: "dot_free linkType"
  obtains m where "GetObjectIDsFromLinkTypeAndFilterData E A linkType fd w = (m, w)"
    and "objectSet m (if disjunctiveNormalFormOfFeatures fd = [] then linkedObjects (w_view w) A linkType
      else filteredObjects (w_view w) A linkType fd)"
proof (cases "disjunctiveNormalFormOfFeatures fd = []")
  case True
  obtain m where "GetObjectIDsFromLinkType E A linkType w = (m, w)" "objectSet m (linkedObjects (w_view w) A linkType)"
    using objects_of_type[OF assms] .
  with True that show thesis by (simp add: GetObjectIDsFromLinkTypeAndFilterData_def)
next
  case False
  obtain ps where ps: "GetAllLinksFromSpecifiedLinkType E A linkType w = (ps, w)" "set ps = linksOf (w_view w) A linkType"
    using links_of_type[OF assms] .
  have "\<forall>(T, B)\<in>set ps. link_ok (A, T, B)" unfolding ps(2) by (auto simp: linksOf_def)
  from filter_pairs[OF w g this, of "[]" fd] obtain m where m: "filterPairs E A fd ps [] w = (m, w)" "distinct (map fst m)"
    "\<forall>B. map_of m B = (if \<exists>T. (T, B) \<in> set ps \<and> filterMatches fd (linkIndices (w_view w) A T B) then Some 0 else None)"
    by auto
  then have "objectSet m (filteredObjects (w_view w) A linkType fd)"
    by (auto simp: objectSet_def filteredObjects_def ps(2) fun_eq_iff)
  with False that m(1) ps(1) show thesis by (simp add: GetObjectIDsFromLinkTypeAndFilterData_def)
qed

lemma objects_of_query:
  assumes w: "w_ok E w" and g: "graph_ok (w_view w)" and A: "simple_id A" and lt: "dot_free linkType"
    and parse: "filterQuery = [] \<or> ParseFilter parse filterQuery \<noteq> Panics"
  obtains m where "GetObjectIDsFromLinkTypeAndLinkFilterQuery E parse A linkType filterQuery w = (Returns m, w)"
    and "objectSet m (stepObjects parse (w_view w) A linkType filterQuery)"
proof -
  obtain m0 where m0: "GetObjectIDsFromLinkType E A linkType w = (m0, w)" "objectSet m0 (linkedObjects (w_view w) A linkType)"
    using objects_of_type[OF w g A lt] .
  show thesis
  proof (cases "filterQuery = []")
    case True
    with m0 that show thesis by (simp add: GetObjectIDsFromLinkTypeAndLinkFilterQuery_def stepObjects_def)
  next
    case False
    show thesis
    proof (cases "ParseFilter parse filterQuery")
      case (Returns fd)
      obtain m where m: "GetObjectIDsFromLinkTypeAndFilterData E A linkType fd w = (m, w)"
        "objectSet m (if disjunctiveNormalFormOfFeatures fd = [] then linkedObjects (w_view w) A linkType
          else filteredObjects (w_view w) A linkType fd)"
        using objects_filtered[OF w g A lt] .
      with False Returns that[of m] show thesis
        by (simp add: GetObjectIDsFromLinkTypeAndLinkFilterQuery_def stepObjects_def)
    next
      case (Fails err)
      with False that[of "[]"] show thesis
        by (simp add: GetObjectIDsFromLinkTypeAndLinkFilterQuery_def stepObjects_def objectSet_def)
    qed (use False parse in simp)
  qed
qed
section \<open>One step of a query\<close>

text \<open>A task is an object and the query that is asked of it. What one step leads to: objects with
  the query that is left for them, which is empty when they are results.\<close>

type_synonym task = "string \<times> string"

definition stepTargets :: "filterParser \<Rightarrow> (string \<Rightarrow> bytes option) \<Rightarrow> task \<Rightarrow> task set" where
  "stepTargets parse m t =
     (case GetQueryHeadAndTailsParts (snd t) of
        Returns (linkType, filterQuery, queryTail, anyDepthStop) \<Rightarrow>
          (case anyDepthStop of
             None \<Rightarrow> {(B, queryTail) | B. B \<in> stepObjects parse m (fst t) linkType filterQuery}
           | Some stop \<Rightarrow>
              (let stops = stepObjects parse m (fst t) (ads_LinkType stop) (ads_FilterQuery stop)
               in {(B, ads_QueryTail stop) | B. B \<in> stops} \<union>
                  {(B, queryTail) | B. B \<in> stepObjects parse m (fst t) linkType filterQuery - stops}))
      | _ \<Rightarrow> {})"

definition nextTasks :: "filterParser \<Rightarrow> (string \<Rightarrow> bytes option) \<Rightarrow> task \<Rightarrow> task set" where
  "nextTasks parse m t = {u \<in> stepTargets parse m t. snd u \<noteq> []}"

definition foundBy :: "filterParser \<Rightarrow> (string \<Rightarrow> bytes option) \<Rightarrow> task \<Rightarrow> string set" where
  "foundBy parse m t = {B. (B, []) \<in> stepTargets parse m t}"

text \<open>A query that has a head and whose filters do not make the parser panic.\<close>

definition filter_safe :: "filterParser \<Rightarrow> string \<Rightarrow> bool" where
  "filter_safe parse f \<longleftrightarrow> f = [] \<or> ParseFilter parse f \<noteq> Panics"

definition query_safe :: "filterParser \<Rightarrow> string \<Rightarrow> bool" where
  "query_safe parse q \<longleftrightarrow> (case GetQueryHeadAndTailsParts q of
     Returns (linkType, filterQuery, queryTail, anyDepthStop) \<Rightarrow> filter_safe parse filterQuery \<and>
       (case anyDepthStop of None \<Rightarrow> True | Some stop \<Rightarrow> filter_safe parse (ads_FilterQuery stop))
   | _ \<Rightarrow> False)"

lemma split_dot_nth_free: "dot_free (split_dot s ! 0)"
  using split_on_token_free[of "split_dot s ! 0" "CHR ''.''" s] by (simp add: dot_free_def)

lemma head_parts:
  assumes "GetQueryHeadAndTailsParts q = Returns (linkType, filterQuery, queryTail, anyDepthStop)"
  shows "dot_free linkType \<and> (\<forall>stop. anyDepthStop = Some stop \<longrightarrow> dot_free (ads_LinkType stop))"
  using assms split_dot_nth_free
  by (auto simp: GetQueryHeadAndTailsParts_def Let_def dot_free_def split: if_splits)

definition nextQueryOf :: "string \<Rightarrow> AnyDepthStop option \<Rightarrow> nat \<Rightarrow> string" where
  "nextQueryOf queryTail anyDepthStop n =
     (case anyDepthStop of Some stop \<Rightarrow> (if n = 1 then ads_QueryTail stop else queryTail) | None \<Rightarrow> queryTail)"

lemma stopped_objects:
  assumes m: "objectSet m S" and m': "objectSet m' S'"
  defines "r \<equiv> fold (\<lambda>(B, _). AList.update B 1) m' m"
  shows "distinct (map fst r)" and "map_of r B = (if B \<in> S' then Some 1 else if B \<in> S then Some 0 else None)"
proof -
  have r: "r = fold (\<lambda>x. AList.update (fst x) 1) m' m" by (simp add: r_def case_prod_unfold)
  show "distinct (map fst r)" using m unfolding r by (simp add: fold_update objectSet_def)
  have "fst ` set m' = S'"
  proof -
    have "dom (map_of m') = S'" using m' by (auto simp: objectSet_def dom_def)
    then show ?thesis by (simp add: dom_map_of_conv_image_fst)
  qed
  then show "map_of r B = (if B \<in> S' then Some 1 else if B \<in> S then Some 0 else None)"
    using m unfolding r by (simp add: fold_update objectSet_def)
qed

lemma query_step:
  assumes w: "w_ok E w" and g: "graph_ok (w_view w)" and A: "simple_id A"
    and parts: "GetQueryHeadAndTailsParts q = Returns (linkType, filterQuery, queryTail, anyDepthStop)"
    and safe: "query_safe parse q"
  shows "\<exists>m. GetObjectIDsFromLinkTypeAndLinkFilterQueryWithAnyDepthStop E parse A linkType filterQuery anyDepthStop w = (Returns m, w) \<and>
    distinct (map fst m) \<and>
    stepTargets parse (w_view w) (A, q) = (\<lambda>(B, n). (B, nextQueryOf queryTail anyDepthStop n)) ` set m"
proof -
  note free = head_parts[OF parts]
  have f: "filterQuery = [] \<or> ParseFilter parse filterQuery \<noteq> Panics"
    using safe parts by (simp add: query_safe_def filter_safe_def)
  obtain m where m: "GetObjectIDsFromLinkTypeAndLinkFilterQuery E parse A linkType filterQuery w = (Returns m, w)"
    "objectSet m (stepObjects parse (w_view w) A linkType filterQuery)"
    using objects_of_query[OF w g A _ f] free by blast
  show ?thesis
  proof (cases anyDepthStop)
    case None
    have "set m = (\<lambda>B. (B, 0)) ` stepObjects parse (w_view w) A linkType filterQuery"
      using m(2) by (auto simp: objectSet_def map_of_eq_mem[symmetric] split: if_splits)
    then show ?thesis
      using m parts None
      by (auto simp: GetObjectIDsFromLinkTypeAndLinkFilterQueryWithAnyDepthStop_def stepTargets_def nextQueryOf_def objectSet_def)
  next
    case (Some stop)
    have f': "ads_FilterQuery stop = [] \<or> ParseFilter parse (ads_FilterQuery stop) \<noteq> Panics"
      using safe parts Some by (simp add: query_safe_def filter_safe_def)
    obtain m' where m': "GetObjectIDsFromLinkTypeAndLinkFilterQuery E parse A (ads_LinkType stop) (ads_FilterQuery stop) w = (Returns m', w)"
      "objectSet m' (stepObjects parse (w_view w) A (ads_LinkType stop) (ads_FilterQuery stop))"
      using objects_of_query[OF w g A _ f'] free Some by blast
    let ?r = "fold (\<lambda>(B, _). AList.update B 1) m' m"
    note r = stopped_objects[OF m(2) m'(2)]
    have "(B, n) \<in> set ?r \<longleftrightarrow> map_of ?r B = Some n" for B n using r(1) by (simp add: map_of_eq_mem)
    then have "set ?r = (\<lambda>B. (B, 1)) ` stepObjects parse (w_view w) A (ads_LinkType stop) (ads_FilterQuery stop) \<union>
        (\<lambda>B. (B, 0)) ` (stepObjects parse (w_view w) A linkType filterQuery - stepObjects parse (w_view w) A (ads_LinkType stop) (ads_FilterQuery stop))"
      by (auto simp: r(2) simp del: One_nat_def split: if_splits)
    then have "stepTargets parse (w_view w) (A, q) = (\<lambda>(B, n). (B, nextQueryOf queryTail anyDepthStop n)) ` set ?r"
      by (simp add: stepTargets_def parts Some nextQueryOf_def Let_def image_Un image_image Setcompr_eq_image) auto
    moreover have "GetObjectIDsFromLinkTypeAndLinkFilterQueryWithAnyDepthStop E parse A linkType filterQuery anyDepthStop w = (Returns ?r, w)"
      using m(1) m'(1) Some by (simp add: GetObjectIDsFromLinkTypeAndLinkFilterQueryWithAnyDepthStop_def)
    ultimately show ?thesis using r(1) by blast
  qed
qed
text \<open>
  C37: the objects that the code finds for one step of a query are the objects that the links of the
  graph in the store lead to, each with the query that is left for it; the store is only read.
\<close>

theorem query_step_follows_links:
  assumes w: "w_ok E w" and g: "graph_ok (w_view w)" and A: "simple_id A"
    and parts: "GetQueryHeadAndTailsParts q = Returns (linkType, filterQuery, queryTail, anyDepthStop)"
    and safe: "query_safe parse q"
  shows "\<exists>m. GetObjectIDsFromLinkTypeAndLinkFilterQueryWithAnyDepthStop E parse A linkType filterQuery anyDepthStop w = (Returns m, w) \<and>
    distinct (map fst m) \<and>
    stepTargets parse (w_view w) (A, q) = (\<lambda>(B, n). (B, nextQueryOf queryTail anyDepthStop n)) ` set m"
  by (rule query_step[OF assms])

section \<open>A sample: one link\<close>

definition link_world :: "(json, sample_kv) world" where
  "link_world = wSetValue sample_env (InLinkKey ''b'' ''a'' ''t'') []
     (wSetValue sample_env (OutLinkBodyKey ''a'' ''t'' ''b'') [7] sample_world)"

lemma link_world_view:
  "w_ok sample_env link_world"
  "w_view link_world = [OutLinkBodyKey ''a'' ''t'' ''b'' \<mapsto> [7], InLinkKey ''b'' ''a'' ''t'' \<mapsto> []]"
proof -
  have l: "simple_id ''a''" "simple_id ''t''" "simple_id ''b''" by (simp_all add: simple_id_def key_char_def)
  let ?w = "wSetValue sample_env (OutLinkBodyKey ''a'' ''t'' ''b'') [7] sample_world"
  have w: "w_ok sample_env ?w" by (rule world.put_ok) simp
  then show "w_ok sample_env link_world" unfolding link_world_def by (rule world.put_ok)
  show "w_view link_world = [OutLinkBodyKey ''a'' ''t'' ''b'' \<mapsto> [7], InLinkKey ''b'' ''a'' ''t'' \<mapsto> []]"
    unfolding link_world_def using l w by (simp add: world.put_view[where E = sample_env])
qed

lemma link_world_graph: "graph_ok (w_view link_world)"
proof -
  have l: "link_ok (''a'', ''t'', ''b'')" by (rule sample_link)
  show ?thesis
    unfolding link_world_view(2) graph_ok_def mirrored_def
    using l by (auto simp: body_in_apart[OF _ l] split: if_splits)
qed

lemma link_world_body:
  assumes "link_ok (F, T, B)"
  shows "w_view link_world (OutLinkBodyKey F T B) \<noteq> None \<longleftrightarrow> F = ''a'' \<and> T = ''t'' \<and> B = ''b''"
  unfolding link_world_view(2)
  using body_in_apart(1)[OF assms sample_link(1)] body_in_apart(3)[OF assms sample_link(1)] by simp

lemma sample_query: "GetQueryHeadAndTailsParts ''.t'' = Returns (''t'', [], [], None)"
  using split_query(1)[of "''t''" "[]" "[]"] by (simp add: step_ok_def name_char_def)

lemma sample_targets:
  "stepObjects (\<lambda>_. Inl []) (w_view link_world) ''a'' ''t'' [] = {''b''}"
  "stepTargets (\<lambda>_. Inl []) (w_view link_world) (''a'', ''.t'') = {(''b'', [])}"
proof -
  have "(T, B) \<in> linksOf (w_view link_world) ''a'' ''t'' \<longleftrightarrow> T = ''t'' \<and> B = ''b''" for T B
    using link_world_body[of "''a''" T B] sample_link(1) list.distinct(2)
    unfolding linksOf_def mem_Collect_eq prod.case by blast
  then have "linksOf (w_view link_world) ''a'' ''t'' = {(''t'', ''b'')}" by fast
  then show o: "stepObjects (\<lambda>_. Inl []) (w_view link_world) ''a'' ''t'' [] = {''b''}"
    by (simp add: stepObjects_def linkedObjects_def)
  show "stepTargets (\<lambda>_. Inl []) (w_view link_world) (''a'', ''.t'') = {(''b'', [])}"
    unfolding stepTargets_def snd_conv sample_query by (simp add: o)
qed

theorem query_step_follows_links_witness:
  "\<exists>m. GetObjectIDsFromLinkTypeAndLinkFilterQueryWithAnyDepthStop sample_env (\<lambda>_. Inl []) ''a'' ''t'' [] None link_world =
     (Returns m, link_world) \<and> fst ` set m = {''b''}"
proof -
  have A: "simple_id ''a''" by (simp add: simple_id_def key_char_def)
  have safe: "query_safe (\<lambda>_. Inl []) ''.t''"
    unfolding query_safe_def sample_query by (simp add: filter_safe_def)
  from query_step_follows_links[OF link_world_view(1) link_world_graph A sample_query safe]
  obtain m where m: "GetObjectIDsFromLinkTypeAndLinkFilterQueryWithAnyDepthStop sample_env (\<lambda>_. Inl []) ''a'' ''t'' [] None link_world =
     (Returns m, link_world)" "(\<lambda>(B, n). (B, nextQueryOf [] None n)) ` set m = {(''b'', [])}"
    unfolding sample_targets(2) by metis
  have "fst ` set m = fst ` (\<lambda>(B, n). (B, nextQueryOf [] None n)) ` set m"
    unfolding image_image by (intro image_cong) auto
  also have "\<dots> = {''b''}" unfolding m(2) by simp
  finally show ?thesis using m(1) by blast
qed

end
