(* ===== verification/JPGHistory.thy ===== *)
theory JPGHistory
  imports JPGQuery JPGSelect
begin

text \<open>
  What the aggregating goroutine of a query can know: the history of the pending processes of a query,
  as the sequence of their registrations and results on the query's level of the cache. A goroutine
  that has seen a prefix of it in which every registered process has a result has seen all of them.
\<close>

section \<open>Histories\<close>

definition tasksFrom :: "('t \<Rightarrow> 't set) \<Rightarrow> 't \<Rightarrow> 't set" where
  "tasksFrom nexts root = {t. (root, t) \<in> {(a, b). b \<in> nexts a}\<^sup>*}"

lemma tasks_root [simp]: "root \<in> tasksFrom nexts root"
  by (simp add: tasksFrom_def)

lemma tasks_next: "t \<in> tasksFrom nexts root \<Longrightarrow> u \<in> nexts t \<Longrightarrow> u \<in> tasksFrom nexts root"
  unfolding tasksFrom_def mem_Collect_eq by (rule rtrancl_into_rtrancl) auto

lemma tasks_closed:
  assumes "root \<in> S" and "\<And>t u. t \<in> S \<Longrightarrow> u \<in> nexts t \<Longrightarrow> u \<in> S"
  shows "tasksFrom nexts root \<subseteq> S"
proof
  fix t assume "t \<in> tasksFrom nexts root"
  then have "(root, t) \<in> {(a, b). b \<in> nexts a}\<^sup>*" by (simp add: tasksFrom_def)
  then show "t \<in> S" by (induction rule: rtrancl_induct) (use assms in auto)
qed

datatype 't event = Registered 't | Finished 't "string list"

definition registered :: "'t event list \<Rightarrow> 't set" where
  "registered es = {t. Registered t \<in> set es}"

definition finished :: "'t event list \<Rightarrow> 't set" where
  "finished es = {t. \<exists>F. Finished t F \<in> set es}"

definition resultsOf :: "'t event list \<Rightarrow> string set" where
  "resultsOf es = {x. \<exists>t F. Finished t F \<in> set es \<and> x \<in> set F}"

lemma history_sets [simp]:
  "registered [] = {}" "finished [] = {}" "resultsOf [] = {}"
  "registered [Registered t] = {t}" "finished [Registered t] = {}" "resultsOf [Registered t] = {}"
  "registered (es @ [Registered t]) = insert t (registered es)" "registered (es @ [Finished t F]) = registered es"
  "finished (es @ [Registered t]) = finished es" "finished (es @ [Finished t F]) = insert t (finished es)"
  "resultsOf (es @ [Registered t]) = resultsOf es" "resultsOf (es @ [Finished t F]) = resultsOf es \<union> set F"
  by (auto simp: registered_def finished_def resultsOf_def)

inductive history :: "('t \<Rightarrow> 't set) \<Rightarrow> ('t \<Rightarrow> string set) \<Rightarrow> 't \<Rightarrow> 't event list \<Rightarrow> bool"
  for nexts founds root where
  begin_query: "history nexts founds root [Registered root]"
| register: "history nexts founds root es \<Longrightarrow> t \<in> tasksFrom nexts root \<Longrightarrow> history nexts founds root (es @ [Registered t])"
| finish: "history nexts founds root es \<Longrightarrow> t \<in> registered es \<Longrightarrow> nexts t \<subseteq> registered es \<Longrightarrow> set F = founds t \<Longrightarrow>
    history nexts founds root (es @ [Finished t F])"

lemma history_not_Nil: "history nexts founds root es \<Longrightarrow> es \<noteq> []"
  by (induction rule: history.induct) auto

lemma history_prefix: "history nexts founds root es \<Longrightarrow> 0 < n \<Longrightarrow> history nexts founds root (take n es)"
proof (induction arbitrary: n rule: history.induct)
  case begin_query
  then show ?case by (cases n) (auto intro: history.begin_query)
next
  case (register es t)
  then show ?case by (cases "n \<le> length es") (auto intro: history.register)
next
  case (finish es t F)
  then show ?case by (cases "n \<le> length es") (auto intro: history.finish)
qed

lemma history_tasks:
  assumes "history nexts founds root es"
  shows "root \<in> registered es" "registered es \<subseteq> tasksFrom nexts root" "finished es \<subseteq> registered es"
    and "t \<in> finished es \<Longrightarrow> nexts t \<subseteq> registered es"
    and "resultsOf es = (\<Union>t\<in>finished es. founds t)"
  using assms by (induction rule: history.induct) auto

text \<open>When all that is registered is finished, everything is.\<close>

lemma history_complete:
  assumes "history nexts founds root es" and "registered es \<subseteq> finished es"
  shows "finished es = tasksFrom nexts root" and "resultsOf es = (\<Union>t\<in>tasksFrom nexts root. founds t)"
proof -
  note h = history_tasks[OF assms(1)]
  have "tasksFrom nexts root \<subseteq> registered es"
    using h(1,4) assms(2) by (intro tasks_closed) blast+
  then show "finished es = tasksFrom nexts root" using h(2,3) assms(2) by blast
  with h(5) show "resultsOf es = (\<Union>t\<in>tasksFrom nexts root. founds t)" by simp
qed

section \<open>The aggregation of a history\<close>

definition notificationOf :: "'j easyjson \<Rightarrow> ('t \<Rightarrow> string) \<Rightarrow> 't event \<Rightarrow> string \<times> bytes option" where
  "notificationOf J hash e = (case e of
     Registered t \<Rightarrow> (hash t, Some [1])
   | Finished t F \<Rightarrow> (hash t, Some (ToBytes J (JSONFromArray J F))))"

text \<open>The state of the goroutine that has seen the notifications of \<open>es\<close>.\<close>

definition aggregated :: "('t \<Rightarrow> string) \<Rightarrow> 't event list \<Rightarrow> 'j dcra \<Rightarrow> bool" where
  "aggregated hash es a \<longleftrightarrow> distinct (map fst (dc_pendingMap a)) \<and>
     map_of (dc_pendingMap a) = (\<lambda>k. if k \<in> hash ` finished es then Some False
        else if k \<in> hash ` registered es then Some True else None) \<and>
     set (dc_resultObjects a) = resultsOf es"

lemma aggregated_start: "dc_pendingMap a = [] \<Longrightarrow> dc_resultObjects a = [] \<Longrightarrow> aggregated hash [] a"
  by (simp add: aggregated_def fun_eq_iff)

lemma aggregated_done:
  assumes "aggregated hash es a"
  shows "list_all (\<lambda>(k, v). \<not> v) (dc_pendingMap a) \<longleftrightarrow> hash ` registered es \<subseteq> hash ` finished es"
proof -
  have d: "distinct (map fst (dc_pendingMap a))" using assms by (simp add: aggregated_def)
  have "list_all (\<lambda>(k, v). \<not> v) (dc_pendingMap a) \<longleftrightarrow> (\<forall>k. map_of (dc_pendingMap a) k \<noteq> Some True)"
    using map_of_eq_mem[OF d] by (auto simp: list_all_iff)
  also have "\<dots> \<longleftrightarrow> hash ` registered es \<subseteq> hash ` finished es"
    using assms by (auto simp: aggregated_def)
  finally show ?thesis .
qed
lemma aggregated_register:
  assumes "aggregated hash es a"
  shows "aggregated hash (es @ [Registered t])
    (if map_of (dc_pendingMap a) (hash t) = None then a\<lparr>dc_pendingMap := AList.update (hash t) True (dc_pendingMap a)\<rparr> else a)"
  using assms by (auto simp: aggregated_def distinct_update fun_eq_iff split: if_splits)

lemma aggregated_finish:
  assumes "aggregated hash es a" and "set F' = set F"
  shows "aggregated hash (es @ [Finished t F])
    (a\<lparr>dc_pendingMap := AList.update (hash t) False (dc_pendingMap a), dc_resultObjects := dc_resultObjects a @ F'\<rparr>)"
  using assms by (auto simp: aggregated_def distinct_update fun_eq_iff)

text \<open>
  One notification: the goroutine goes on with what it now knows, or, when all that it knows to be
  registered is finished, it answers the results it has.
\<close>

lemma dcraNotified_step:
  assumes J: "easyjson_ok (ej E)" and a: "aggregated hash es a"
  shows "\<exists>a'. aggregated hash (es @ [e]) a' \<and> dc_context a' = dc_context a \<and> dc_aggregationID a' = dc_aggregationID a \<and>
    dc_queryID a' = dc_queryID a \<and>
    ((dcraNotified E (notificationOf (ej E) hash e) a w = ((Continues a', None), w) \<and>
      ((\<exists>t. e = Registered t) \<or> \<not> hash ` registered (es @ [e]) \<subseteq> hash ` finished (es @ [e]))) \<or>
     (hash ` registered (es @ [e]) \<subseteq> hash ` finished (es @ [e]) \<and>
      (\<exists>w' w'' r. ReplyQueryID E (dc_queryID a) (dcraResult (ej E) (dc_resultObjects a')) (dc_context a) w' = (r, w'') \<and>
        dcraNotified E (notificationOf (ej E) hash e) a w = ((Replied, r), w''))))"
proof (cases e)
  case (Registered t)
  let ?a = "if map_of (dc_pendingMap a) (hash t) = None then a\<lparr>dc_pendingMap := AList.update (hash t) True (dc_pendingMap a)\<rparr> else a"
  have "dcraNotified E (notificationOf (ej E) hash e) a w = ((Continues ?a, None), w)"
    by (simp add: dcraNotified_def notificationOf_def Registered)
  with aggregated_register[OF a, of t] show ?thesis unfolding Registered by (intro exI[of _ ?a]) auto
next
  case (Finished t F)
  let ?v = "ToBytes (ej E) (JSONFromArray (ej E) F)"
  let ?F = "if F = [] then [] else F"
  have v: "\<not> length ?v \<le> 1" using ej_array_bytes[OF J, of F] by simp
  let ?a = "a\<lparr>dc_pendingMap := AList.update (hash t) False (dc_pendingMap a), dc_resultObjects := dc_resultObjects a @ F\<rparr>"
  have agg: "aggregated hash (es @ [e]) ?a" unfolding Finished by (rule aggregated_finish[OF a]) simp
  have run: "dcraNotified E (notificationOf (ej E) hash e) a w =
    (if list_all (\<lambda>(k, v). \<not> v) (dc_pendingMap ?a)
     then (case ReplyQueryID E (dc_queryID a) (dcraResult (ej E) (dc_resultObjects ?a)) (dc_context a)
             (wUnsubscribe E (levelKey (pendingLevel (dc_aggregationID a)) ''*'') (dc_aggregationID a)
               (fold (wDeleteValue E) (mapOrder E (map fst (dc_pendingMap ?a))) w)) of
             (r, w) \<Rightarrow> ((Replied, r), w))
     else ((Continues ?a, None), w))"
    using v by (cases "F = []") (simp_all add: dcraNotified_def notificationOf_def Finished Let_def ej_bytes[OF J]
        ej_array_ne[OF J] ej_array_strings[OF J])
  show ?thesis
  proof (cases "list_all (\<lambda>(k, v). \<not> v) (dc_pendingMap ?a)")
    case False
    with aggregated_done[OF agg] have "\<not> hash ` registered (es @ [e]) \<subseteq> hash ` finished (es @ [e])" by blast
    with False run agg show ?thesis by (intro exI[of _ ?a]) simp
  next
    case True
    with aggregated_done[OF agg] have "hash ` registered (es @ [e]) \<subseteq> hash ` finished (es @ [e])" by blast
    moreover obtain r w'' where "ReplyQueryID E (dc_queryID a) (dcraResult (ej E) (dc_resultObjects ?a)) (dc_context a)
             (wUnsubscribe E (levelKey (pendingLevel (dc_aggregationID a)) ''*'') (dc_aggregationID a)
               (fold (wDeleteValue E) (mapOrder E (map fst (dc_pendingMap ?a))) w)) = (r, w'')" by (rule prod.exhaust)
    ultimately show ?thesis using True run agg by (intro exI[of _ ?a]) auto
  qed
qed

end
