(* ===== verification/JPGPaths.thy ===== *)
theory JPGPaths
  imports JPGHistory
begin

text \<open>
  What a query means: the objects at the end of the paths that follow its steps. The tasks that its
  evaluation comes across, each an object with the query that is left for it, find these objects.
\<close>

section \<open>Paths\<close>

definition passes :: "filterParser \<Rightarrow> (string \<Rightarrow> bytes option) \<Rightarrow> string \<Rightarrow> string \<Rightarrow> (string \<times> string) set" where
  "passes parse m t f = {(A, B). B \<in> stepObjects parse m A ''*'' [] - stepObjects parse m A t f}"

text \<open>A step at any depth goes along any links until one fits, and no further.\<close>

fun follow :: "filterParser \<Rightarrow> (string \<Rightarrow> bytes option) \<Rightarrow> step list \<Rightarrow> string \<Rightarrow> string set" where
  "follow parse m [] A = {A}"
| "follow parse m ((deep, t, f) # sts) A =
     (\<Union>B\<in>(if deep then (passes parse m t f)\<^sup>* `` {A} else {A}). \<Union>C\<in>stepObjects parse m B t f. follow parse m sts C)"

definition queryResults :: "filterParser \<Rightarrow> (string \<Rightarrow> bytes option) \<Rightarrow> task \<Rightarrow> string set" where
  "queryResults parse m t = (\<Union>u\<in>tasksFrom (nextTasks parse m) t. foundBy parse m u)"

section \<open>Tasks\<close>

lemma tasksFrom_unfold: "tasksFrom n t = insert t (\<Union>u\<in>n t. tasksFrom n u)"
proof (intro set_eqI iffI)
  fix x assume "x \<in> tasksFrom n t"
  then have "(t, x) \<in> {(a, b). b \<in> n a}\<^sup>*" by (simp add: tasksFrom_def)
  then show "x \<in> insert t (\<Union>u\<in>n t. tasksFrom n u)"
    by (cases rule: converse_rtranclE) (auto simp: tasksFrom_def)
next
  fix x assume "x \<in> insert t (\<Union>u\<in>n t. tasksFrom n u)"
  then show "x \<in> tasksFrom n t" by (auto simp: tasksFrom_def intro: converse_rtrancl_into_rtrancl)
qed

lemma tasksFrom_trans: "u \<in> tasksFrom n t \<Longrightarrow> tasksFrom n u \<subseteq> tasksFrom n t"
  unfolding tasksFrom_def by auto

lemma queryResults_unfold:
  "queryResults parse m t = foundBy parse m t \<union> (\<Union>u\<in>nextTasks parse m t. queryResults parse m u)"
  unfolding queryResults_def by (subst tasksFrom_unfold) auto

lemma render_Nil [simp]: "renderQuery sts = [] \<longleftrightarrow> sts = []" "[] = renderQuery sts \<longleftrightarrow> sts = []"
  by (cases sts rule: renderQuery.cases; auto)+

lemma plain_targets:
  assumes "step_ok (t, f)" and "steps_ok sts"
  shows "stepTargets parse m (A, renderQuery ((False, t, f) # sts)) = {(B, renderQuery sts) | B. B \<in> stepObjects parse m A t f}"
  unfolding stepTargets_def snd_conv split_query(1)[OF assms] by simp

lemma deep_targets:
  assumes "step_ok (t, f)" and "steps_ok sts"
  shows "stepTargets parse m (A, renderQuery ((True, t, f) # sts)) =
    {(B, renderQuery sts) | B. B \<in> stepObjects parse m A t f} \<union>
    {(B, renderQuery ((True, t, f) # sts)) | B. (A, B) \<in> passes parse m t f}"
  unfolding stepTargets_def snd_conv split_query(2)[OF assms] by (simp add: passes_def Let_def)

text \<open>What is left of a query that goes on with the steps after the first one.\<close>

lemma rest_results:
  assumes "sts \<noteq> [] \<Longrightarrow> queryResults parse m (C, renderQuery sts) = follow parse m sts C"
  shows "(if sts = [] then {C} else queryResults parse m (C, renderQuery sts)) = follow parse m sts C"
  using assms by simp

lemma plain_results:
  assumes ok: "step_ok (t, f)" "steps_ok sts"
  shows "queryResults parse m (A, renderQuery ((False, t, f) # sts)) =
    (\<Union>C\<in>stepObjects parse m A t f. if sts = [] then {C} else queryResults parse m (C, renderQuery sts))"
  by (subst queryResults_unfold)
    (simp only: nextTasks_def foundBy_def plain_targets[OF ok], auto)

lemma deep_results:
  assumes ok: "step_ok (t, f)" "steps_ok sts"
  shows "queryResults parse m (A, renderQuery ((True, t, f) # sts)) =
    (\<Union>B\<in>(passes parse m t f)\<^sup>* `` {A}. \<Union>C\<in>stepObjects parse m B t f.
       if sts = [] then {C} else queryResults parse m (C, renderQuery sts))" (is "_ = ?R")
proof -
  let ?q = "renderQuery ((True, t, f) # sts)" and ?n = "nextTasks parse m"
  let ?D = "(passes parse m t f)\<^sup>* `` {A}"
  let ?S = "{(B, ?q) | B. B \<in> ?D} \<union>
    {u. sts \<noteq> [] \<and> (\<exists>B\<in>?D. \<exists>C\<in>stepObjects parse m B t f. u \<in> tasksFrom ?n (C, renderQuery sts))}"
  have q: "?q \<noteq> []" by simp
  have targets: "stepTargets parse m (B, ?q) = {(C, renderQuery sts) | C. C \<in> stepObjects parse m B t f} \<union>
    {(C, ?q) | C. (B, C) \<in> passes parse m t f}" for B by (rule deep_targets[OF ok])
  have found: "foundBy parse m (B, ?q) = (if sts = [] then stepObjects parse m B t f else {})" for B
    using q unfolding foundBy_def targets by auto
  have nexts: "?n (B, ?q) = (if sts = [] then {} else {(C, renderQuery sts) | C. C \<in> stepObjects parse m B t f}) \<union>
    {(C, ?q) | C. (B, C) \<in> passes parse m t f}" for B
    using q unfolding nextTasks_def targets by auto
  have sub: "tasksFrom ?n (A, ?q) \<subseteq> ?S"
  proof (rule tasks_closed)
    show "(A, ?q) \<in> ?S" by blast
  next
    fix u v assume u: "u \<in> ?S" and v: "v \<in> ?n u"
    show "v \<in> ?S"
    proof (cases "\<exists>B\<in>?D. u = (B, ?q)")
      case True
      then obtain B where B: "(A, B) \<in> (passes parse m t f)\<^sup>*" "u = (B, ?q)" by blast
      with v consider C where "sts \<noteq> []" "v = (C, renderQuery sts)" "C \<in> stepObjects parse m B t f"
        | C where "v = (C, ?q)" "(B, C) \<in> passes parse m t f"
        unfolding B(2) nexts by (auto split: if_splits)
      then show ?thesis
      proof cases
        case 1
        then have "v \<in> tasksFrom ?n (C, renderQuery sts)" by simp
        with B(1) 1 show ?thesis by blast
      next
        case 2
        with B(1) have "(A, C) \<in> (passes parse m t f)\<^sup>*" by (meson rtrancl_into_rtrancl)
        with 2 show ?thesis by blast
      qed
    next
      case False
      with u obtain B C where "sts \<noteq> []" "B \<in> ?D" "C \<in> stepObjects parse m B t f" "u \<in> tasksFrom ?n (C, renderQuery sts)" by blast
      moreover from this(4) v have "v \<in> tasksFrom ?n (C, renderQuery sts)" by (rule tasks_next)
      ultimately show ?thesis by blast
    qed
  qed
  have sup: "(B, ?q) \<in> tasksFrom ?n (A, ?q)" if "(A, B) \<in> (passes parse m t f)\<^sup>*" for B
    using that
  proof (induction rule: rtrancl_induct)
    case (step B C)
    then have "(C, ?q) \<in> ?n (B, ?q)" unfolding nexts by blast
    with step.IH show ?case by (rule tasks_next)
  qed simp
  show ?thesis
  proof (intro set_eqI iffI)
    fix x assume "x \<in> queryResults parse m (A, ?q)"
    then obtain u where t: "u \<in> tasksFrom ?n (A, ?q)" and u: "x \<in> foundBy parse m u"
      unfolding queryResults_def by (rule UN_E)
    from sub t have "u \<in> ?S" by (rule subsetD)
    then show "x \<in> ?R"
    proof (rule UnE)
      assume "u \<in> {(B, ?q) | B. B \<in> ?D}"
      then obtain B where B: "u = (B, ?q)" "B \<in> ?D" by blast
      from u have "sts = [] \<and> x \<in> stepObjects parse m B t f" unfolding B(1) found by (simp split: if_splits)
      with B(2) show ?thesis by (intro UN_I) auto
    next
      assume "u \<in> {u. sts \<noteq> [] \<and> (\<exists>B\<in>?D. \<exists>C\<in>stepObjects parse m B t f. u \<in> tasksFrom ?n (C, renderQuery sts))}"
      then obtain B C where BC: "sts \<noteq> []" "B \<in> ?D" "C \<in> stepObjects parse m B t f" "u \<in> tasksFrom ?n (C, renderQuery sts)"
        by blast
      then have "x \<in> (if sts = [] then {C} else queryResults parse m (C, renderQuery sts))"
        using u unfolding queryResults_def by auto
      with BC(2,3) show ?thesis by (intro UN_I)
    qed
  next
    fix x assume "x \<in> ?R"
    then obtain B C where BC: "(A, B) \<in> (passes parse m t f)\<^sup>*" "C \<in> stepObjects parse m B t f"
      "x \<in> (if sts = [] then {C} else queryResults parse m (C, renderQuery sts))" by blast
    show "x \<in> queryResults parse m (A, ?q)"
    proof (cases "sts = []")
      case True
      with BC have "x \<in> foundBy parse m (B, ?q)" unfolding found by auto
      with sup[OF BC(1)] show ?thesis unfolding queryResults_def by blast
    next
      case False
      with BC(2) have "(C, renderQuery sts) \<in> ?n (B, ?q)" unfolding nexts by auto
      then have "tasksFrom ?n (C, renderQuery sts) \<subseteq> tasksFrom ?n (A, ?q)"
        using tasks_next[OF sup[OF BC(1)]] tasksFrom_trans by metis
      with False BC(3) show ?thesis unfolding queryResults_def by auto
    qed
  qed
qed

lemma results_follow:
  "sts \<noteq> [] \<Longrightarrow> steps_ok sts \<Longrightarrow> queryResults parse m (A, renderQuery sts) = follow parse m sts A"
proof (induction sts arbitrary: A)
  case (Cons st sts)
  obtain deep t f where st: "st = (deep, t, f)" by (cases st) auto
  have ok: "step_ok (t, f)" "steps_ok sts" using Cons.prems st by auto
  have rest: "(if sts = [] then {C} else queryResults parse m (C, renderQuery sts)) = follow parse m sts C" for C
    using Cons.IH ok(2) by (intro rest_results) blast
  show ?case
    unfolding st by (cases deep) (simp_all only: plain_results[OF ok] deep_results[OF ok] rest follow.simps, auto)
qed simp

end
