(* ===== verification/JPGProtocol.thy ===== *)
theory JPGProtocol
  imports JPGPaths MessagesProps
begin

text \<open>
  The evaluation of one query with direct aggregation as a transition system: the messages of its
  processes are delivered in any order and any number of times, the goroutine that aggregates takes
  the notifications of its level one by one or times out. The invariant ties the world to the history
  of the query's processes.
\<close>

section \<open>The world as a store with levels\<close>

definition w_queue :: "('j, 'kv) world \<Rightarrow> string \<Rightarrow> string \<Rightarrow> (string \<times> bytes option) list option" where
  "w_queue w = level_queue (w_cache w)"

definition w_absent :: "('j, 'kv) world \<Rightarrow> string \<Rightarrow> bool" where
  "w_absent w = key_absent (w_cache w)"

interpretation world_level: level_store "w_ok E" w_view "wGetValue E" "wSetValue E" "wDeleteValue E" "wGetKeysByPattern E"
    "wSetValueIfDoesNotExist E" "wSubscribe E" w_queue w_absent
  for E :: "('j, 'kv) env"
proof
  fix s :: "('j, 'kv) world" and k p t t' cid :: string and v :: bytes and q :: "(string \<times> bytes option) list"
  show "w_absent s k \<Longrightarrow> w_view s k = None" by (simp add: w_absent_def w_view_def cache_level.absent_view)
  assume "w_ok E s"
  then have ok: "cache_ok E (w_cache s)" by (simp add: w_ok_def)
  show "valid_key (levelKey p t) \<Longrightarrow> dot_free t \<Longrightarrow> w_queue s p cid = Some q \<Longrightarrow>
      w_queue (wSetValue E (levelKey p t) v s) p cid = Some (q @ [(t, Some v)])"
    unfolding w_queue_def wSetValue_def by (simp add: cache_level.put_queue[OF ok])
  show "valid_key (levelKey p t) \<Longrightarrow> dot_free t \<Longrightarrow> w_queue s p cid = Some q \<Longrightarrow>
      dot_free t' \<Longrightarrow> t' \<noteq> t \<Longrightarrow> w_absent s (levelKey p t') \<Longrightarrow> w_absent (wSetValue E (levelKey p t) v s) (levelKey p t')"
    unfolding w_queue_def w_absent_def wSetValue_def by (simp add: cache_level.put_absent[OF ok])
  show "valid_key k \<Longrightarrow> k \<noteq> [] \<Longrightarrow> w_absent s k \<Longrightarrow> wSetValueIfDoesNotExist E k v s = (True, wSetValue E k v s)"
    unfolding w_absent_def wSetValueIfDoesNotExist_def wSetValue_def by (simp add: cache_level.putnew_new[OF ok])
  show "w_ok E (wSubscribe E (levelKey p ''*'') cid s)"
    "w_view (wSubscribe E (levelKey p ''*'') cid s) = w_view s"
    "w_queue (wSubscribe E (levelKey p ''*'') cid s) p cid = Some []"
    unfolding w_ok_def w_view_def w_queue_def wSubscribe_def
    using cache_level.subscribe_ok[OF ok] cache_level.subscribe_view[OF ok] cache_level.subscribe_queue[OF ok] by simp_all
  show "w_absent s p \<Longrightarrow> dot_free t \<Longrightarrow> w_absent (wSubscribe E (levelKey p ''*'') cid s) (levelKey p t)"
    unfolding w_absent_def wSubscribe_def using cache_level.subscribe_absent[OF ok] by simp
  show "valid_key (levelKey p t) \<Longrightarrow> dot_free t \<Longrightarrow> w_queue s p cid = Some q \<Longrightarrow> w_view s (levelKey p t) \<noteq> None \<Longrightarrow>
      \<exists>s'. wSetValueIfDoesNotExist E (levelKey p t) v s = (False, s') \<and> w_ok E s' \<and> w_view s' = w_view s \<and>
        w_queue s' = w_queue s \<and> w_absent s' = w_absent s"
  proof -
    assume "valid_key (levelKey p t)" "dot_free t" "w_queue s p cid = Some q" "w_view s (levelKey p t) \<noteq> None"
    then obtain c where c: "SetValueIfDoesNotExist E (levelKey p t) v True (-1) (w_cache s) = (False, c)" "cache_ok E c"
      "cache_view c = cache_view (w_cache s)" "level_queue c = level_queue (w_cache s)" "key_absent c = key_absent (w_cache s)"
      unfolding w_queue_def w_view_def using cache_level.putnew_old[OF ok, of p t cid q v] by blast
    then have "wSetValueIfDoesNotExist E (levelKey p t) v s = (False, s\<lparr>w_cache := c\<rparr>)"
      by (simp add: wSetValueIfDoesNotExist_def)
    with c show ?thesis by (auto simp: w_ok_def w_view_def w_queue_def w_absent_def)
  qed
qed

section \<open>The setting of a query\<close>

text \<open>The tasks that a query comes across have usable objects and queries.\<close>

definition filters_safe :: "filterParser \<Rightarrow> step list \<Rightarrow> bool" where
  "filters_safe parse sts \<longleftrightarrow> list_all (\<lambda>(deep, t, f). filter_safe parse f) sts"

lemma stepObjects_vertices:
  assumes "B \<in> stepObjects parse m A t f" and "t \<noteq> []"
  shows "vertex_id B"
  using assms by (auto simp: stepObjects_def linkedObjects_def filteredObjects_def linksOf_def link_ok_def
      split: if_splits goResult.splits)

definition taskShape :: "filterParser \<Rightarrow> step list \<Rightarrow> task set" where
  "taskShape parse sts = {(B, renderQuery sts') | B sts'. vertex_id B \<and> sts' \<noteq> [] \<and> steps_ok sts' \<and> filters_safe parse sts'}"

lemma nextTasks_shape:
  assumes "u \<in> taskShape parse sts" and "v \<in> nextTasks parse m u"
  shows "v \<in> taskShape parse sts"
proof -
  from assms(1) obtain B sts' where u: "u = (B, renderQuery sts')" "sts' \<noteq> []" "steps_ok sts'" "filters_safe parse sts'"
    by (auto simp: taskShape_def)
  then obtain deep t f rest where s: "sts' = (deep, t, f) # rest" by (cases sts') auto
  have ok: "step_ok (t, f)" "steps_ok rest" "filters_safe parse rest" using u s by (auto simp: filters_safe_def)
  have t: "t \<noteq> []" using ok(1) by (simp add: step_ok_def)
  from assms(2) have v: "v \<in> stepTargets parse m u" "snd v \<noteq> []" by (auto simp: nextTasks_def)
  show ?thesis
  proof (cases deep)
    case False
    then have "v \<in> {(C, renderQuery rest) | C. C \<in> stepObjects parse m B t f}"
      using v(1) by (simp only: u(1) s plain_targets[OF ok(1,2)])
    then obtain C where C: "v = (C, renderQuery rest)" "C \<in> stepObjects parse m B t f" by blast
    then have "rest \<noteq> []" using v(2) by simp
    with C ok stepObjects_vertices[OF C(2) t] show ?thesis unfolding taskShape_def by blast
  next
    case True
    then have "v \<in> {(C, renderQuery rest) | C. C \<in> stepObjects parse m B t f} \<union>
        {(C, renderQuery sts') | C. (B, C) \<in> passes parse m t f}"
      using v(1) by (simp only: u(1) s deep_targets[OF ok(1,2)])
    then consider C where "v = (C, renderQuery rest)" "C \<in> stepObjects parse m B t f" "rest \<noteq> []"
      | C where "v = (C, renderQuery sts')" "C \<in> stepObjects parse m B ''*'' []"
      using v(2) unfolding passes_def by auto
    then show ?thesis
    proof cases
      case 1
      with ok stepObjects_vertices[OF 1(2) t] show ?thesis unfolding taskShape_def by blast
    next
      case 2
      have "vertex_id C" using stepObjects_vertices[OF 2(2)] by simp
      with 2 u show ?thesis unfolding taskShape_def by blast
    qed
  qed
qed

lemma tasks_shape:
  assumes "vertex_id A" and "sts \<noteq> []" and "steps_ok sts" and "filters_safe parse sts"
  shows "tasksFrom (nextTasks parse m) (A, renderQuery sts) \<subseteq> taskShape parse sts"
proof (rule tasks_closed)
  show "(A, renderQuery sts) \<in> taskShape parse sts" using assms by (auto simp: taskShape_def)
qed (rule nextTasks_shape)

lemma shape_query:
  assumes "(B, q) \<in> taskShape parse sts"
  shows "vertex_id B" and "q \<noteq> []" and "hd q = CHR ''.''" and "query_safe parse q"
proof -
  from assms obtain sts' where q: "q = renderQuery sts'" "sts' \<noteq> []" "steps_ok sts'" "filters_safe parse sts'" and B: "vertex_id B"
    by (auto simp: taskShape_def)
  show "vertex_id B" by (rule B)
  from q show "q \<noteq> []" by simp
  from q show "hd q = CHR ''.''" using render_start[of sts'] by simp
  obtain deep t f rest where s: "sts' = (deep, t, f) # rest" using q(2) by (cases sts') auto
  have ok: "step_ok (t, f)" "steps_ok rest" "filter_safe parse f" using q s by (auto simp: filters_safe_def)
  show "query_safe parse q"
    unfolding query_safe_def q(1) s
    using ok(3) by (cases deep) (simp_all only: split_query[OF ok(1,2)], simp_all add: filter_safe_def)
qed

end
