(* ===== verification/JPGInv.thy ===== *)
theory JPGInv
  imports JPGProtocol
begin

text \<open>
  The invariant of a query with direct aggregation: the world agrees with a history of the query's
  processes, and each process that runs extends the history by the processes it registers and by its
  result.
\<close>

section \<open>The invariant\<close>

definition taskHash :: "('j, 'kv) env \<Rightarrow> task \<Rightarrow> string" where
  "taskHash E t = pendingProcessID E (fst t) (snd t)"

definition taskKey :: "('j, 'kv) env \<Rightarrow> string \<Rightarrow> task \<Rightarrow> string" where
  "taskKey E agg t = pendingKey agg (taskHash E t)"

text \<open>A query: the name of the function, the aggregation's id, the call on the targets, the graph as
  the query finds it and the tasks that it comes across.\<close>

record 'j query =
  q_typename :: string
  q_agg :: string
  q_call :: "'j option"
  q_graph :: "string \<Rightarrow> bytes option"
  q_root :: task

definition q_tasks :: "filterParser \<Rightarrow> 'j query \<Rightarrow> task set" where
  "q_tasks parse Q = tasksFrom (nextTasks parse (q_graph Q)) (q_root Q)"

definition query_ok :: "('j, 'kv) env \<Rightarrow> filterParser \<Rightarrow> step list \<Rightarrow> 'j query \<Rightarrow> bool" where
  "query_ok E parse sts Q \<longleftrightarrow> env_ok E \<and> (\<forall>n. vertex_id (uid E n)) \<and>
     (\<forall>t\<in>q_tasks parse Q. simple_id (taskHash E t)) \<and> inj_on (taskHash E) (q_tasks parse Q) \<and>
     vertex_id (q_agg Q) \<and> q_agg Q \<noteq> ''in'' \<and> graph_ok (q_graph Q) \<and> q_tasks parse Q \<subseteq> taskShape parse sts \<and>
     (case q_call Q of None \<Rightarrow> True | Some c \<Rightarrow> IsObject (ej E) c \<and>
        AsString (ej E) (GetByPath (ej E) c ''typename'') \<noteq> Some (q_typename Q))"

definition process_msg :: "('j, 'kv) env \<Rightarrow> 'j query \<Rightarrow> task \<Rightarrow> string \<times> bytes \<Rightarrow> bool" where
  "process_msg E Q t m \<longleftrightarrow> (\<exists>n caller. m = (q_typename Q @ CHR ''.'' # fst t @ ''==='' @ uid E n,
     buildNatsData (ej E) (q_typename Q) caller (Some (dcraPayload (ej E) (q_agg Q) (snd t) (q_call Q))) None))"

definition other_msg :: "string \<Rightarrow> string \<times> bytes \<Rightarrow> bool" where
  "other_msg typename m \<longleftrightarrow> (\<exists>tn i. fst m = tn @ CHR ''.'' # i \<and> dot_free i \<and> tn \<noteq> typename)"

definition query_store :: "('j, 'kv) env \<Rightarrow> filterParser \<Rightarrow> 'j query \<Rightarrow> task event list \<Rightarrow> ('j, 'kv) world \<Rightarrow> bool" where
  "query_store E parse Q es w \<longleftrightarrow> w_ok E w \<and>
     (\<forall>k. (\<forall>t. dot_free t \<longrightarrow> k \<noteq> pendingKey (q_agg Q) t) \<longrightarrow> w_view w k = q_graph Q k) \<and>
     w_queue w (pendingLevel (q_agg Q)) (q_agg Q) = Some (map (notificationOf (ej E) (taskHash E)) es) \<and>
     (\<forall>t\<in>q_tasks parse Q. if t \<in> registered es then w_view w (taskKey E (q_agg Q) t) \<noteq> None
        else w_absent w (taskKey E (q_agg Q) t)) \<and>
     (\<forall>m\<in>set (published w). (\<exists>t\<in>registered es. process_msg E Q t m) \<or> other_msg (q_typename Q) m)"

definition query_history :: "filterParser \<Rightarrow> 'j query \<Rightarrow> task event list \<Rightarrow> bool" where
  "query_history parse Q = history (nextTasks parse (q_graph Q)) (foundBy parse (q_graph Q)) (q_root Q)"

definition query_world :: "('j, 'kv) env \<Rightarrow> filterParser \<Rightarrow> 'j query \<Rightarrow> task event list \<Rightarrow> ('j, 'kv) world \<Rightarrow> bool" where
  "query_world E parse Q es w \<longleftrightarrow> query_store E parse Q es w \<and> query_history parse Q es"

lemma query_storeD:
  assumes "query_store E parse Q es w"
  shows "w_ok E w" "w_queue w (pendingLevel (q_agg Q)) (q_agg Q) = Some (map (notificationOf (ej E) (taskHash E)) es)"
    "(\<And>t. dot_free t \<Longrightarrow> k \<noteq> pendingKey (q_agg Q) t) \<Longrightarrow> w_view w k = q_graph Q k"
    "t \<in> q_tasks parse Q \<Longrightarrow> t \<in> registered es \<Longrightarrow> w_view w (taskKey E (q_agg Q) t) \<noteq> None"
    "t \<in> q_tasks parse Q \<Longrightarrow> t \<notin> registered es \<Longrightarrow> w_absent w (taskKey E (q_agg Q) t)"
    "m \<in> set (published w) \<Longrightarrow> (\<exists>t\<in>registered es. process_msg E Q t m) \<or> other_msg (q_typename Q) m"
proof -
  note w = assms[unfolded query_store_def]
  show "w_ok E w" using w by (rule conjunct1)
  note w = w[THEN conjunct2]
  show "(\<And>t. dot_free t \<Longrightarrow> k \<noteq> pendingKey (q_agg Q) t) \<Longrightarrow> w_view w k = q_graph Q k"
    using w[THEN conjunct1, THEN spec, of k] by simp
  note w = w[THEN conjunct2]
  show "w_queue w (pendingLevel (q_agg Q)) (q_agg Q) = Some (map (notificationOf (ej E) (taskHash E)) es)"
    using w by (rule conjunct1)
  note w = w[THEN conjunct2]
  show "t \<in> q_tasks parse Q \<Longrightarrow> t \<in> registered es \<Longrightarrow> w_view w (taskKey E (q_agg Q) t) \<noteq> None"
    "t \<in> q_tasks parse Q \<Longrightarrow> t \<notin> registered es \<Longrightarrow> w_absent w (taskKey E (q_agg Q) t)"
    using w[THEN conjunct1, THEN bspec, of t] by simp_all
  note w = w[THEN conjunct2]
  show "m \<in> set (published w) \<Longrightarrow> (\<exists>t\<in>registered es. process_msg E Q t m) \<or> other_msg (q_typename Q) m"
    using w[THEN bspec, of m] .
qed

lemma query_worldD:
  assumes "query_world E parse Q es w"
  shows "query_store E parse Q es w" "query_history parse Q es" "w_ok E w"
  using assms query_storeD(1) unfolding query_world_def by blast+

lemma query_okD:
  assumes "query_ok E parse sts Q"
  shows "env_ok E" "vertex_id (uid E n)" "t \<in> q_tasks parse Q \<Longrightarrow> simple_id (taskHash E t)"
    "inj_on (taskHash E) (q_tasks parse Q)" "vertex_id (q_agg Q)" "q_agg Q \<noteq> ''in''" "graph_ok (q_graph Q)"
    "t \<in> q_tasks parse Q \<Longrightarrow> t \<in> taskShape parse sts"
  using assms unfolding query_ok_def by blast+

section \<open>The keys of a query\<close>

lemma split_pendingLevel: "vertex_id a \<Longrightarrow> split_dot (pendingLevel a) = [''jpgql_dcra'', a, ''pending'']"
  using split_dot_append[of "''jpgql_dcra''" "a @ ''.pending''"] split_dot_append[of a "''pending''"]
  by (simp add: pendingLevel_def split_dot_free dot_free_def)

lemma split_pendingKey: "vertex_id a \<Longrightarrow> dot_free t \<Longrightarrow> split_dot (pendingKey a t) = [''jpgql_dcra'', a, ''pending'', t]"
  by (simp add: pendingKey_def split_pendingLevel)

lemma query_literals: "simple_id ''jpgql_dcra''" "simple_id ''pending''"
  by (simp_all add: simple_id_def key_char_def)

lemma valid_pendingKey: "vertex_id a \<Longrightarrow> simple_id t \<Longrightarrow> valid_key (pendingKey a t)"
  using valid_key_tokens[OF split_pendingKey[of a t]] query_literals[THEN simple_chars] by simp

lemma graph_pendingKey: "vertex_id a \<Longrightarrow> a \<noteq> ''in'' \<Longrightarrow> dot_free t \<Longrightarrow> graph_key (pendingKey a t)"
  by (simp add: graph_key_def split_pendingKey)

lemma pendingKey_not_link:
  assumes "vertex_id a" and "a \<noteq> ''in''" and "dot_free t"
  shows "link_ok (A, T, B) \<Longrightarrow> OutLinkBodyKey A T B \<noteq> pendingKey a t"
    and "link_ok (A, T, B) \<Longrightarrow> InLinkKey B A T \<noteq> pendingKey a t"
    and "link_ok (A, T, B) \<Longrightarrow> dot_free i \<Longrightarrow> dot_free x \<Longrightarrow> OutLinkIndexKey A T B i x \<noteq> pendingKey a t"
proof -
  note s = split_pendingKey[OF assms(1,3)]
  show "link_ok (A, T, B) \<Longrightarrow> OutLinkBodyKey A T B \<noteq> pendingKey a t"
    using s split_body[of A T B] by (auto simp: link_ok_def dest: arg_cong[where f = split_dot])
  show "link_ok (A, T, B) \<Longrightarrow> InLinkKey B A T \<noteq> pendingKey a t"
    using s assms(2) split_in[of A T B] by (auto simp: link_ok_def dest: arg_cong[where f = split_dot])
  show "OutLinkIndexKey A T B i x \<noteq> pendingKey a t" if "link_ok (A, T, B)" "dot_free i" "dot_free x"
  proof
    assume eq: "OutLinkIndexKey A T B i x = pendingKey a t"
    have p: "simple_id A" "simple_id T" "simple_id B" using that(1) by (simp_all add: link_ok_def)
    have "split_dot (OutLinkIndexKey A T B i x) = [A, ''out'', ''index'', T, B] @ [i, x]"
      using split_dot_append[of "A @ ''.out.index.'' @ T @ CHR ''.'' # B" "i @ CHR ''.'' # x"] split_dot_append[of i x]
        split_indices[of A T B] p that(2,3)
      by (simp add: OutLinkIndexKey_def split_dot_free)
    with s eq show False by simp
  qed
qed

lemma taskKey_other:
  assumes Q: "query_ok E parse sts Q" and t: "t \<in> q_tasks parse Q" "u \<in> q_tasks parse Q" "t \<noteq> u"
  shows "taskHash E t \<noteq> taskHash E u" and "taskKey E (q_agg Q) t \<noteq> taskKey E (q_agg Q) u"
proof -
  show h: "taskHash E t \<noteq> taskHash E u" using query_okD(4)[OF Q] t by (auto dest: inj_onD)
  have "dot_free (taskHash E t)" "dot_free (taskHash E u)" using query_okD(3)[OF Q] t by simp_all
  with h split_pendingKey[OF query_okD(5)[OF Q]] show "taskKey E (q_agg Q) t \<noteq> taskKey E (q_agg Q) u"
    unfolding taskKey_def by (metis list.inject)
qed

lemma taskKey_valid:
  assumes "query_ok E parse sts Q" and "t \<in> q_tasks parse Q"
  shows "valid_key (taskKey E (q_agg Q) t)" "taskKey E (q_agg Q) t \<noteq> []" "dot_free (taskHash E t)"
proof -
  have "simple_id (taskHash E t)" by (rule query_okD(3)[OF assms])
  then show "valid_key (taskKey E (q_agg Q) t)" "dot_free (taskHash E t)"
    using valid_pendingKey[OF query_okD(5)[OF assms(1)]] by (simp_all add: taskKey_def)
  show "taskKey E (q_agg Q) t \<noteq> []" by (simp add: taskKey_def pendingKey_def)
qed

section \<open>The graph of a query's world\<close>

lemma query_graph:
  assumes Q: "query_ok E parse sts Q" and w: "query_store E parse Q es w"
  shows "graph_ok (w_view w)" and "stepTargets parse (w_view w) t = stepTargets parse (q_graph Q) t"
proof -
  note a = query_okD(5,6)[OF Q]
  have body: "w_view w (OutLinkBodyKey A T B) = q_graph Q (OutLinkBodyKey A T B)" if "link_ok (A, T, B)" for A T B
    by (rule query_storeD(3)[OF w]) (rule pendingKey_not_link(1)[OF a _ that])
  have inn: "w_view w (InLinkKey B A T) = q_graph Q (InLinkKey B A T)" if "link_ok (A, T, B)" for A T B
    by (rule query_storeD(3)[OF w]) (rule pendingKey_not_link(2)[OF a _ that])
  have index: "w_view w (OutLinkIndexKey A T B i x) = q_graph Q (OutLinkIndexKey A T B i x)"
    if "link_ok (A, T, B)" "dot_free i" "dot_free x" for A T B i x
    by (rule query_storeD(3)[OF w]) (rule pendingKey_not_link(3)[OF a _ that])
  show "graph_ok (w_view w)"
  proof (rule graph_ok_frame[OF query_okD(7)[OF Q]])
    fix k assume "w_view w k \<noteq> None" "q_graph Q k = None"
    then have "w_view w k \<noteq> q_graph Q k" by simp
    then obtain x where "dot_free x" "k = pendingKey (q_agg Q) x" using query_storeD(3)[OF w, of k] by blast
    then show "graph_key k" using graph_pendingKey[OF a] by simp
  qed (simp add: body inn)
  have links: "linksOf (w_view w) A lt = linksOf (q_graph Q) A lt" for A lt
    unfolding linksOf_def using body by auto
  have "linkIndices (w_view w) A T B = linkIndices (q_graph Q) A T B" if "link_ok (A, T, B)" for A T B
    unfolding linkIndices_def using index[OF that] by (intro Collect_cong ex_cong1) (simp cong: conj_cong)
  then have "filteredObjects (w_view w) A lt fd = filteredObjects (q_graph Q) A lt fd" for A lt fd
    unfolding filteredObjects_def links by (intro Collect_cong) (auto simp: linksOf_def)
  then have "stepObjects parse (w_view w) A lt f = stepObjects parse (q_graph Q) A lt f" for A lt f
    unfolding stepObjects_def linkedObjects_def links by (simp split: goResult.split)
  then have "stepObjects parse (w_view w) = stepObjects parse (q_graph Q)" by (simp add: fun_eq_iff)
  then show "stepTargets parse (w_view w) t = stepTargets parse (q_graph Q) t" by (simp only: stepTargets_def)
qed

section \<open>Steps that keep the invariant\<close>

lemma query_store_frame:
  assumes "query_store E parse Q es w" and "w_ok E w'" "w_view w' = w_view w" "w_queue w' = w_queue w" "w_absent w' = w_absent w"
    and "\<And>m. m \<in> set (published w') \<Longrightarrow> m \<in> set (published w) \<or> (\<exists>t\<in>registered es. process_msg E Q t m) \<or> other_msg (q_typename Q) m"
  shows "query_store E parse Q es w'"
  using assms(1) query_storeD(6)[OF assms(1)] assms(6) unfolding query_store_def assms(3,4,5) using assms(2) by blast

lemma level_frame [simp]:
  "w_queue (w\<lparr>uids := n\<rparr>) = w_queue w" "w_absent (w\<lparr>uids := n\<rparr>) = w_absent w"
  "w_queue (w\<lparr>published := ps\<rparr>) = w_queue w" "w_absent (w\<lparr>published := ps\<rparr>) = w_absent w"
  "published (wSetValue E k v w) = published w" "published (snd (wSetValueIfDoesNotExist E k v w)) = published w"
  by (simp_all add: w_queue_def w_absent_def wSetValue_def wSetValueIfDoesNotExist_def case_prod_beta)

text \<open>A value on the key of a task: its registration or its result.\<close>

lemma query_store_put:
  assumes Q: "query_ok E parse sts Q" and w: "query_store E parse Q es w" and u: "u \<in> q_tasks parse Q"
    and e: "notificationOf (ej E) (taskHash E) e = (taskHash E u, Some v)" "registered (es @ [e]) = insert u (registered es)"
  shows "query_store E parse Q (es @ [e]) (wSetValue E (taskKey E (q_agg Q) u) v w)"
proof -
  note key = taskKey_valid[OF Q u]
  note ok = query_storeD(1)[OF w] and queue = query_storeD(2)[OF w]
  have k: "taskKey E (q_agg Q) t = levelKey (pendingLevel (q_agg Q)) (taskHash E t)" for t
    by (simp add: taskKey_def pendingKey_def)
  let ?w = "wSetValue E (taskKey E (q_agg Q) u) v w"
  have view: "w_view ?w = (w_view w)(taskKey E (q_agg Q) u \<mapsto> v)" by (rule world.put_view[OF ok key(1,2)])
  have "w_view ?w k = q_graph Q k" if "\<forall>t. dot_free t \<longrightarrow> k \<noteq> pendingKey (q_agg Q) t" for k
    using query_storeD(3)[OF w, of k] that key(3) unfolding view by (simp add: taskKey_def)
  moreover have "w_queue ?w (pendingLevel (q_agg Q)) (q_agg Q) =
      Some (map (notificationOf (ej E) (taskHash E)) (es @ [e]))"
    using world_level.put_queue[OF ok _ key(3) queue] key(1) unfolding k by (simp add: e(1))
  moreover have "if t \<in> registered (es @ [e]) then w_view ?w (taskKey E (q_agg Q) t) \<noteq> None
      else w_absent ?w (taskKey E (q_agg Q) t)" if t: "t \<in> q_tasks parse Q" for t
  proof (cases "t = u")
    case True
    then show ?thesis by (simp add: e(2) view)
  next
    case False
    have "w_absent ?w (taskKey E (q_agg Q) t)" if "t \<notin> registered es"
      using world_level.put_absent[OF ok _ key(3) queue taskKey_valid(3)[OF Q t] taskKey_other(1)[OF Q t u False]]
        key(1) query_storeD(5)[OF w t that] unfolding k by blast
    with False query_storeD(4)[OF w t] taskKey_other(2)[OF Q t u False] show ?thesis
      by (simp add: e(2) view del: not_None_eq)
  qed
  moreover have "(\<exists>t\<in>registered (es @ [e]). process_msg E Q t m) \<or> other_msg (q_typename Q) m" if "m \<in> set (published ?w)" for m
    using query_storeD(6)[OF w] that by (auto simp: e(2))
  moreover have "w_ok E ?w" by (rule world.put_ok[OF ok])
  ultimately show ?thesis unfolding query_store_def by blast
qed

definition extends :: "'t event list \<Rightarrow> 't event list \<Rightarrow> bool" where
  "extends es es' \<longleftrightarrow> (\<exists>ds. es' = es @ ds)"

lemma extends_refl [simp]: "extends es es"
  by (simp add: extends_def)

lemma extends_append [simp]: "extends es (es @ ds)"
  by (simp add: extends_def)

lemma extends_trans: "extends a b \<Longrightarrow> extends b c \<Longrightarrow> extends a c"
  by (auto simp: extends_def)

lemma extends_length: "extends es es' \<Longrightarrow> length es \<le> length es'"
  by (auto simp: extends_def)

lemma extends_take: "extends es es' \<Longrightarrow> n \<le> length es \<Longrightarrow> take n es' = take n es"
  by (auto simp: extends_def)

lemma extends_registered: "extends es es' \<Longrightarrow> registered es \<subseteq> registered es'"
  by (auto simp: extends_def registered_def)

lemma register_task:
  assumes Q: "query_ok E parse sts Q" and w: "query_world E parse Q es w" and u: "u \<in> q_tasks parse Q"
  obtains isNew w' es' where "initPendingProcess E (fst u) (snd u) (q_agg Q) w = (isNew, w')"
    and "query_world E parse Q es' w'" "registered es' = insert u (registered es)" "finished es' = finished es"
    and "isNew \<longleftrightarrow> u \<notin> registered es" "published w' = published w" "extends es es'"
proof -
  note key = taskKey_valid[OF Q u]
  note ws = query_worldD(1)[OF w]
  note ok = query_storeD(1)[OF ws] and queue = query_storeD(2)[OF ws]
  have k: "taskKey E (q_agg Q) u = levelKey (pendingLevel (q_agg Q)) (taskHash E u)"
    by (simp add: taskKey_def pendingKey_def)
  have i: "initPendingProcess E (fst u) (snd u) (q_agg Q) w = wSetValueIfDoesNotExist E (taskKey E (q_agg Q) u) [1] w"
    by (simp add: initPendingProcess_def taskKey_def taskHash_def)
  show thesis
  proof (cases "u \<in> registered es")
    case True
    obtain s' where s': "wSetValueIfDoesNotExist E (taskKey E (q_agg Q) u) [1] w = (False, s')" "w_ok E s'"
      "w_view s' = w_view w" "w_queue s' = w_queue w" "w_absent s' = w_absent w"
      using world_level.putnew_old[OF ok, of "pendingLevel (q_agg Q)" "taskHash E u"] queue key query_storeD(4)[OF ws u True]
      unfolding k by blast
    have "published s' = published w" using level_frame(6)[of E "taskKey E (q_agg Q) u" "[1]" w] s'(1) by simp
    then have "query_store E parse Q es s'" using s' by (intro query_store_frame[OF ws]) auto
    then have "query_world E parse Q es s'" using query_worldD(2)[OF w] by (simp add: query_world_def)
    with that[of False s' es] True s'(1) \<open>published s' = _\<close> show thesis unfolding i by (simp add: insert_absorb)
  next
    case False
    have "query_history parse Q (es @ [Registered u])"
      using query_worldD(2)[OF w] u unfolding query_history_def by (intro history.register) (simp_all add: q_tasks_def)
    moreover have "query_store E parse Q (es @ [Registered u]) (wSetValue E (taskKey E (q_agg Q) u) [1] w)"
      by (rule query_store_put[OF Q ws u]) (simp_all add: notificationOf_def)
    ultimately have "query_world E parse Q (es @ [Registered u]) (wSetValue E (taskKey E (q_agg Q) u) [1] w)"
      by (simp add: query_world_def)
    moreover have "wSetValueIfDoesNotExist E (taskKey E (q_agg Q) u) [1] w = (True, wSetValue E (taskKey E (q_agg Q) u) [1] w)"
      by (rule world_level.putnew_new[OF ok key(1,2) query_storeD(5)[OF ws u False]])
    ultimately show thesis using that[of True _ "es @ [Registered u]"] False unfolding i by simp
  qed
qed

text \<open>Every registered task has been announced to its process.\<close>

definition announced :: "('j, 'kv) env \<Rightarrow> 'j query \<Rightarrow> task event list \<Rightarrow> ('j, 'kv) world \<Rightarrow> bool" where
  "announced E Q es w \<longleftrightarrow> (\<forall>t\<in>registered es. \<exists>m\<in>set (published w). process_msg E Q t m)"

lemma announced_mono:
  "announced E Q es w \<Longrightarrow> set (published w) \<subseteq> set (published w') \<Longrightarrow> registered es' \<subseteq> registered es \<Longrightarrow> announced E Q es' w'"
  unfolding announced_def by blast

lemma query_store_send:
  assumes "query_store E parse Q es w"
    and "\<And>m. m \<in> set ms \<Longrightarrow> (\<exists>t\<in>registered es. process_msg E Q t m) \<or> other_msg (q_typename Q) m"
  shows "query_store E parse Q es (w\<lparr>published := published w @ ms\<rparr>)"
  using query_storeD(1)[OF assms(1)] assms(2) by (intro query_store_frame[OF assms(1)]) auto

lemma signal_task:
  assumes w: "query_store E parse Q es w" and u: "u \<in> registered es" and ctx: "SelfTypename ctx = q_typename Q"
  shows "query_store E parse Q es
    (signalProcess E ctx (fst u) (dcraPayload (ej E) (q_agg Q) (snd u) (q_call Q)) w)" (is ?S)
    and "\<exists>m. published (signalProcess E ctx (fst u) (dcraPayload (ej E) (q_agg Q) (snd u) (q_call Q)) w) = published w @ [m] \<and>
      process_msg E Q u m" (is ?M)
proof -
  let ?w = "w\<lparr>uids := Suc (uids w)\<rparr>"
  have w1: "query_store E parse Q es ?w"
    using query_storeD(1)[OF w] by (intro query_store_frame[OF w]) auto
  let ?m = "(q_typename Q @ CHR ''.'' # fst u @ ''==='' @ uid E (uids w),
     buildNatsData (ej E) (q_typename Q) (SelfID ctx) (Some (dcraPayload (ej E) (q_agg Q) (snd u) (q_call Q))) None)"
  have "process_msg E Q u ?m" unfolding process_msg_def by blast
  with u have "query_store E parse Q es (?w\<lparr>published := published ?w @ [?m]\<rparr>)" by (intro query_store_send[OF w1]) auto
  then show ?S by (simp add: signalProcess_def GetUniqueStrID_def signalSelf_def signal_def ctx)
  from \<open>process_msg E Q u ?m\<close> show ?M by (simp add: signalProcess_def GetUniqueStrID_def signalSelf_def signal_def ctx)
qed

lemma published_callTarget: "set (published w) \<subseteq> set (published (callTarget J ctx call B w))"
  by (auto simp: callTarget_def signalSelf_def signal_def Let_def split: option.split)

lemma call_target:
  assumes Q: "query_ok E parse sts Q" and w: "query_store E parse Q es w" and B: "dot_free B"
  shows "query_store E parse Q es (callTarget (ej E) ctx (q_call Q) B w)"
proof (cases "q_call Q")
  case (Some c)
  show ?thesis
  proof (cases "AsString (ej E) (GetByPath (ej E) c ''typename'')")
    case (Some tn)
    have "tn \<noteq> q_typename Q" using Q Some \<open>q_call Q = Some c\<close> unfolding query_ok_def by auto
    then have "other_msg (q_typename Q) (tn @ CHR ''.'' # B, x)" for x using B unfolding other_msg_def by auto
    with w Some \<open>q_call Q = Some c\<close> show ?thesis
      by (auto simp: callTarget_def Let_def signalSelf_def signal_def intro!: query_store_send)
  qed (use w Some in \<open>simp add: callTarget_def\<close>)
qed (use w in \<open>simp add: callTarget_def\<close>)

end
