(* ===== verification/JPGProcess.thy ===== *)
theory JPGProcess
  imports JPGInv
begin

text \<open>
  One process of a query with direct aggregation: the run of the handler of
  \<open>JPGQuery\<close> for one task keeps the invariant, registers the tasks that the task leads to and
  finishes the task.
\<close>

section \<open>The loop over the next objects\<close>

lemma targets_vertices:
  assumes "u \<in> taskShape parse sts" and "v \<in> stepTargets parse m u"
  shows "vertex_id (fst v)"
proof -
  from assms(1) obtain B sts' where u: "u = (B, renderQuery sts')" "sts' \<noteq> []" "steps_ok sts'"
    by (auto simp: taskShape_def)
  then obtain deep t f rest where s: "sts' = (deep, t, f) # rest" by (cases sts') auto
  have ok: "step_ok (t, f)" "steps_ok rest" using u s by auto
  have t: "t \<noteq> []" using ok(1) by (simp add: step_ok_def)
  have "v \<in> {(C, renderQuery rest) | C. C \<in> stepObjects parse m B t f} \<or> fst v \<in> stepObjects parse m B ''*'' []"
  proof (cases deep)
    case True
    with assms(2) show ?thesis unfolding u(1) s by (simp only: deep_targets[OF ok]) (auto simp: passes_def)
  next
    case False
    with assms(2) show ?thesis unfolding u(1) s by (simp only: plain_targets[OF ok], blast)
  qed
  then show ?thesis using stepObjects_vertices[OF _ t] stepObjects_vertices[of "fst v" parse m B "''*''" "[]"] by auto
qed

lemma dcraSteps_run:
  assumes Q: "query_ok E parse sts Q" and ctx: "SelfTypename ctx = q_typename Q"
    and t: "t \<in> q_tasks parse Q"
  shows "query_world E parse Q es w \<Longrightarrow>
    (\<And>B n. (B, n) \<in> set objs \<Longrightarrow> (B, nextQueryOf tail stop n) \<in> stepTargets parse (q_graph Q) t) \<Longrightarrow>
    \<exists>F' w' es'. dcraSteps E ctx (q_call Q) (q_agg Q) tail stop objs F w = (F', w') \<and> query_world E parse Q es' w' \<and>
      extends es es' \<and>
      (\<forall>B n. (B, n) \<in> set objs \<longrightarrow> nextQueryOf tail stop n \<noteq> [] \<longrightarrow> (B, nextQueryOf tail stop n) \<in> registered es') \<and>
      finished es' = finished es \<and> (announced E Q es w \<longrightarrow> announced E Q es' w') \<and>
      set F' = set F \<union> {B. \<exists>n. (B, n) \<in> set objs \<and> nextQueryOf tail stop n = []}"
proof (induction objs arbitrary: F w es)
  case Nil
  then show ?case by auto
next
  case (Cons o1 objs)
  obtain B n where o1: "o1 = (B, n)" by (cases o1)
  let ?q = "nextQueryOf tail stop n"
  have target: "(B, ?q) \<in> stepTargets parse (q_graph Q) t" using Cons.prems(2) o1 by simp
  have rest: "(C, nextQueryOf tail stop k) \<in> stepTargets parse (q_graph Q) t" if "(C, k) \<in> set objs" for C k
    using Cons.prems(2) that by simp
  have q: "(case stop of None \<Rightarrow> tail | Some s \<Rightarrow> if n = 1 then ads_QueryTail s else tail) = ?q"
    by (simp add: nextQueryOf_def)
  show ?case
  proof (cases "?q = []")
    case True
    have "dot_free B" using targets_vertices[OF query_okD(8)[OF Q t] target] by simp
    then have "query_store E parse Q es (callTarget (ej E) ctx (q_call Q) B w)"
      by (rule call_target[OF Q query_worldD(1)[OF Cons.prems(1)]])
    then have "query_world E parse Q es (callTarget (ej E) ctx (q_call Q) B w)"
      using query_worldD(2)[OF Cons.prems(1)] by (simp add: query_world_def)
    from Cons.IH[OF this rest, of "F @ [B]"] obtain F' w' es' where
      "dcraSteps E ctx (q_call Q) (q_agg Q) tail stop objs (F @ [B]) (callTarget (ej E) ctx (q_call Q) B w) = (F', w')"
      "query_world E parse Q es' w'"
      "extends es es'"
      "\<forall>B n. (B, n) \<in> set objs \<longrightarrow> nextQueryOf tail stop n \<noteq> [] \<longrightarrow> (B, nextQueryOf tail stop n) \<in> registered es'"
      "finished es' = finished es"
      "announced E Q es (callTarget (ej E) ctx (q_call Q) B w) \<longrightarrow> announced E Q es' w'"
      "set F' = set (F @ [B]) \<union> {B. \<exists>n. (B, n) \<in> set objs \<and> nextQueryOf tail stop n = []}"
      by blast
    note r = this
    have "dcraSteps E ctx (q_call Q) (q_agg Q) tail stop (o1 # objs) F w = (F', w')" using r(1) True q by (simp add: o1)
    moreover have "\<forall>C k. (C, k) \<in> set (o1 # objs) \<longrightarrow> nextQueryOf tail stop k \<noteq> [] \<longrightarrow> (C, nextQueryOf tail stop k) \<in> registered es'"
      using r(4) True by (simp add: o1)
    moreover have "set F' = set F \<union> {C. \<exists>k. (C, k) \<in> set (o1 # objs) \<and> nextQueryOf tail stop k = []}"
      using r(7) True by (simp add: o1) blast
    moreover have "announced E Q es w \<longrightarrow> announced E Q es' w'"
      using r(6) announced_mono[OF _ published_callTarget, of E Q es w es] by blast
    ultimately show ?thesis using r(2,3,5) by (intro exI[of _ F'] exI[of _ w'] exI[of _ es'] conjI)
  next
    case False
    then have "(B, ?q) \<in> nextTasks parse (q_graph Q) t" using target by (simp add: nextTasks_def)
    then have u: "(B, ?q) \<in> q_tasks parse Q" using t unfolding q_tasks_def by (rule tasks_next[rotated])
    obtain isNew w1 es1 where init: "initPendingProcess E B ?q (q_agg Q) w = (isNew, w1)" "query_world E parse Q es1 w1"
      "registered es1 = insert (B, ?q) (registered es)" "finished es1 = finished es"
      "isNew \<longleftrightarrow> (B, ?q) \<notin> registered es" "published w1 = published w" "extends es es1"
      by (rule register_task[OF Q Cons.prems(1) u, unfolded fst_conv snd_conv]) (rule that)
    define w2 where "w2 = (if isNew then signalProcess E ctx B (dcraPayload (ej E) (q_agg Q) ?q (q_call Q)) w1 else w1)"
    have "query_store E parse Q es1 (signalProcess E ctx B (dcraPayload (ej E) (q_agg Q) ?q (q_call Q)) w1)"
      using signal_task(1)[OF query_worldD(1)[OF init(2)] _ ctx, of "(B, ?q)"] init(3) by simp
    then have "query_world E parse Q es1 w2"
      using init(2) query_worldD(2)[OF init(2)] by (simp add: query_world_def w2_def)
    have announce: "announced E Q es1 w2" if a: "announced E Q es w"
    proof (cases isNew)
      case True
      obtain m where "published w2 = published w @ [m]" "process_msg E Q (B, ?q) m"
        using signal_task(2)[OF query_worldD(1)[OF init(2)] _ ctx, of "(B, ?q)"] init(3,6) True by (auto simp: w2_def)
      then show ?thesis using a init(3) unfolding announced_def by auto
    next
      case False
      then show ?thesis using a init(3,5,6) by (simp add: announced_def w2_def insert_absorb)
    qed
    from Cons.IH[OF \<open>query_world E parse Q es1 w2\<close> rest, of F] obtain F' w' es' where
      "dcraSteps E ctx (q_call Q) (q_agg Q) tail stop objs F w2 = (F', w')" "query_world E parse Q es' w'"
      "extends es1 es'"
      "\<forall>B n. (B, n) \<in> set objs \<longrightarrow> nextQueryOf tail stop n \<noteq> [] \<longrightarrow> (B, nextQueryOf tail stop n) \<in> registered es'"
      "finished es' = finished es1" "announced E Q es1 w2 \<longrightarrow> announced E Q es' w'"
      "set F' = set F \<union> {B. \<exists>n. (B, n) \<in> set objs \<and> nextQueryOf tail stop n = []}"
      by blast
    note r = this
    have "dcraSteps E ctx (q_call Q) (q_agg Q) tail stop (o1 # objs) F w = (F', w')"
      using r(1) False q init(1) by (simp add: o1 w2_def)
    moreover have "\<forall>C k. (C, k) \<in> set (o1 # objs) \<longrightarrow> nextQueryOf tail stop k \<noteq> [] \<longrightarrow> (C, nextQueryOf tail stop k) \<in> registered es'"
    proof (intro allI impI)
      fix C k assume "(C, k) \<in> set (o1 # objs)" and ne: "nextQueryOf tail stop k \<noteq> []"
      then consider "(C, k) \<in> set objs" | "C = B" "k = n" by (auto simp: o1)
      then show "(C, nextQueryOf tail stop k) \<in> registered es'"
      proof cases
        case 1
        with r(4) ne show ?thesis by blast
      next
        case 2
        with extends_registered[OF r(3)] init(3) show ?thesis by blast
      qed
    qed
    moreover have "set F' = set F \<union> {C. \<exists>k. (C, k) \<in> set (o1 # objs) \<and> nextQueryOf tail stop k = []}"
      using r(7) False by (simp add: o1) blast
    moreover have "extends es es'" using init(7) r(3) by (rule extends_trans)
    moreover have "finished es' = finished es" using r(5) init(4) by simp
    moreover have "announced E Q es w \<longrightarrow> announced E Q es' w'" using r(6) announce by blast
    ultimately show ?thesis using r(2) by (intro exI[of _ F'] exI[of _ w'] exI[of _ es'] conjI)
  qed
qed

section \<open>The handler of a process\<close>

text \<open>The result of a task is the last thing its process does.\<close>

lemma finish_task:
  assumes Q: "query_ok E parse sts Q" and w: "query_world E parse Q es w" and t: "t \<in> registered es"
    and F: "set F = foundBy parse (q_graph Q) t" and nx: "nextTasks parse (q_graph Q) t \<subseteq> registered es"
  shows "query_world E parse Q (es @ [Finished t F])
    (thisPendingDone E (q_agg Q) (pendingProcessID E (fst t) (snd t)) F w)"
proof -
  have h: "query_history parse Q (es @ [Finished t F])"
    using query_worldD(2)[OF w] t nx F unfolding query_history_def by (rule history.finish)
  have tq: "t \<in> q_tasks parse Q"
    using t history_tasks(2)[OF query_worldD(2)[OF w, unfolded query_history_def]] unfolding q_tasks_def by blast
  have "query_store E parse Q (es @ [Finished t F])
      (wSetValue E (taskKey E (q_agg Q) t) (ToBytes (ej E) (JSONFromArray (ej E) F)) w)"
    using t by (intro query_store_put[OF Q query_worldD(1)[OF w] tq]) (auto simp: notificationOf_def)
  with h show ?thesis by (simp add: query_world_def thisPendingDone_def taskKey_def taskHash_def)
qed

lemma dcraDescendant_run:
  assumes Q: "query_ok E parse sts Q" and w: "query_world E parse Q es w" and t: "t \<in> registered es"
    and ctx: "SelfTypename ctx = q_typename Q" "SelfID ctx = fst t @ ''==='' @ p"
      "AsString (ej E) (GetByPath (ej E) (Payload ctx) ''aggregation_id'') = Some (q_agg Q)"
  shows "\<exists>es' w'. dcraDescendant E parse ctx (q_call Q) (snd t) w = (Returns (), w') \<and> query_world E parse Q es' w' \<and>
    extends es es' \<and> finished es' = insert t (finished es) \<and> (announced E Q es w \<longrightarrow> announced E Q es' w')"
proof -
  have tq: "t \<in> q_tasks parse Q"
    using t history_tasks(2)[OF query_worldD(2)[OF w, unfolded query_history_def]] unfolding q_tasks_def by blast
  have "(fst t, snd t) \<in> taskShape parse sts" using query_okD(8)[OF Q tq] by simp
  note shape = shape_query[OF this]
  have self: "split_str ''==='' (SelfID ctx) ! 0 = fst t"
    unfolding ctx(2) by (subst vertex_split(2)[OF shape(1)]) simp
  obtain lt f tail stop where parts: "GetQueryHeadAndTailsParts (snd t) = Returns (lt, f, tail, stop)"
    using shape(4) by (auto simp: query_safe_def split: goResult.splits)
  note g = query_graph[OF Q query_worldD(1)[OF w]]
  obtain m where m: "GetObjectIDsFromLinkTypeAndLinkFilterQueryWithAnyDepthStop E parse (fst t) lt f stop w = (Returns m, w)"
    "distinct (map fst m)" "stepTargets parse (w_view w) (fst t, snd t) = (\<lambda>(B, n). (B, nextQueryOf tail stop n)) ` set m"
    using query_step[OF query_worldD(3)[OF w] g(1) vertex_simple[OF shape(1)] parts shape(4)] by blast
  have targets: "stepTargets parse (q_graph Q) t = (\<lambda>(B, n). (B, nextQueryOf tail stop n)) ` set m"
    using m(3) by (simp add: g(2))
  have entries: "set (mapEntries E m) = set m" by (rule mapEntries_set[OF query_okD(1)[OF Q] m(2)])
  have "(B, nextQueryOf tail stop n) \<in> stepTargets parse (q_graph Q) t" if "(B, n) \<in> set (mapEntries E m)" for B n
    using that unfolding targets entries by (rule rev_image_eqI) simp
  from dcraSteps_run[OF Q ctx(1) tq w this, of "mapEntries E m" "[]"] obtain F w' es' where
    run: "dcraSteps E ctx (q_call Q) (q_agg Q) tail stop (mapEntries E m) [] w = (F, w')" "query_world E parse Q es' w'"
      "extends es es'"
      "\<forall>B n. (B, n) \<in> set m \<longrightarrow> nextQueryOf tail stop n \<noteq> [] \<longrightarrow> (B, nextQueryOf tail stop n) \<in> registered es'"
      "finished es' = finished es" "announced E Q es w \<longrightarrow> announced E Q es' w'" "set F = {B. \<exists>n. (B, n) \<in> set m \<and> nextQueryOf tail stop n = []}"
    unfolding entries by auto
  have "set F = foundBy parse (q_graph Q) t"
    unfolding foundBy_def targets run(7) by force
  moreover have "nextTasks parse (q_graph Q) t \<subseteq> registered es'"
    using run(4) unfolding nextTasks_def targets by auto
  ultimately have "query_world E parse Q (es' @ [Finished t F])
      (thisPendingDone E (q_agg Q) (pendingProcessID E (fst t) (snd t)) F w')"
    using t extends_registered[OF run(3)] by (intro finish_task[OF Q run(2)]) auto
  moreover have "dcraDescendant E parse ctx (q_call Q) (snd t) w =
      (Returns (), thisPendingDone E (q_agg Q) (pendingProcessID E (fst t) (snd t)) F w')"
    by (simp add: dcraDescendant_def Let_def self ctx(3) parts m(1) run(1))
  moreover have "announced E Q es w \<longrightarrow>
      announced E Q (es' @ [Finished t F]) (thisPendingDone E (q_agg Q) (pendingProcessID E (fst t) (snd t)) F w')"
    using run(6) announced_mono[of E Q es' w' _ "es' @ [Finished t F]"] by (simp add: thisPendingDone_def)
  ultimately show ?thesis
    using extends_trans[OF run(3) extends_append] run(5) by (intro exI[of _ "es' @ [Finished t F]"] exI conjI) auto
qed

end
