(* ===== verification/JPGRun.thy ===== *)
theory JPGRun
  imports JPGProcess DimChannel
begin

text \<open>
  The evaluation of one query with direct aggregation as a transition system: the messages of its
  processes are delivered in any order and any number of times, their notifications pass through the
  channel of \<open>CreateDimSizeChannel\<close> (\<open>DimChannel\<close>), and the goroutine that
  aggregates takes them from it one by one or looks at its clock.
\<close>

section \<open>Delivering a message\<close>

definition handleQueryMsg ::
  "('j, 'kv) env \<Rightarrow> filterParser \<Rightarrow> 'j \<Rightarrow> string \<Rightarrow> string \<times> bytes \<Rightarrow> ('j, 'kv) world \<Rightarrow>
    'j dcra option goResult \<times> ('j, 'kv) world" where
  "handleQueryMsg E parse ftOptions typename m w =
     (case natsMessage (ej E) 0 typename \<lparr>natsSubject = fst m, natsData = snd m\<rparr> False of
        Inl err \<Rightarrow> (Returns None, w)
      | Inr (ident, msg) \<Rightarrow>
          LLAPIQueryJPGQLDirectCacheResultAggregation E parse
            (handlerContext (ej E) ftOptions typename ident (fst (Caller msg)) (snd (Caller msg))
               (msgPayload msg) (msgOptions msg) False) w)"

lemma dcra_paths: "simple_path ''aggregation_id''" "simple_path ''jpgql_query''" "simple_path ''call''"
  by (simp_all add: simple_path_def dot_free_def)

lemma dcraPayload_fields:
  assumes J: "easyjson_ok J" and c: "case call of None \<Rightarrow> True | Some c \<Rightarrow> IsObject J c"
  shows "IsObject J (dcraPayload J agg q call)"
    and "AsString J (GetByPath J (dcraPayload J agg q call) ''aggregation_id'') = Some agg"
    and "AsString J (GetByPath J (dcraPayload J agg q call) ''jpgql_query'') = Some q"
    and "(if IsObject J (GetByPath J (dcraPayload J agg q call) ''call'')
          then Some (GetByPath J (dcraPayload J agg q call) ''call'') else None) = call"
proof -
  let ?b = "SetByPath J (SetByPath J (NewJSONObject J) ''aggregation_id'' (NewJSONString J agg)) ''jpgql_query'' (NewJSONString J q)"
  have b: "IsObject J ?b" by (intro ej_obj_set[OF J] ej_obj_new[OF J] dcra_paths)
  have d: "''aggregation_id'' \<noteq> ''jpgql_query''" "''call'' \<noteq> ''jpgql_query''" "''call'' \<noteq> ''aggregation_id''" by simp_all
  have f: "GetByPath J ?b ''aggregation_id'' = NewJSONString J agg" "GetByPath J ?b ''jpgql_query'' = NewJSONString J q"
    "\<not> PathExists J ?b ''call''"
    using d by (simp_all add: ej_get_set[OF J] ej_get_other[OF J] ej_exists_set[OF J] ej_exists_new[OF J]
        ej_obj_set[OF J] ej_obj_new[OF J] dcra_paths)
  note o = setOpt_other[OF J b dcra_paths(3), of _ call]
  show "IsObject J (dcraPayload J agg q call)"
    unfolding dcraPayload_def by (rule setOpt_obj[OF J b dcra_paths(3)])
  show "AsString J (GetByPath J (dcraPayload J agg q call) ''aggregation_id'') = Some agg"
    "AsString J (GetByPath J (dcraPayload J agg q call) ''jpgql_query'') = Some q"
    unfolding dcraPayload_def using o[OF dcra_paths(1)] o[OF dcra_paths(2)] f d by (simp_all add: ej_str[OF J])
  show "(if IsObject J (GetByPath J (dcraPayload J agg q call) ''call'')
          then Some (GetByPath J (dcraPayload J agg q call) ''call'') else None) = call"
    unfolding dcraPayload_def using c ej_missing_obj[OF J f(3)]
    by (cases call) (simp_all add: setOpt_def ej_get_set[OF J b dcra_paths(3)])
qed

lemma descendant_returns:
  assumes "count_str (SelfID ctx) ''==='' = 1" and "AsString (ej E) (GetByPath (ej E) (Payload ctx) ''jpgql_query'') = Some q" and "q \<noteq> []"
    and "(if IsObject (ej E) (GetByPath (ej E) (Payload ctx) ''call'') then Some (GetByPath (ej E) (Payload ctx) ''call'') else None) = call"
    and "dcraDescendant E parse ctx call q w = (Returns (), w')"
  shows "LLAPIQueryJPGQLDirectCacheResultAggregation E parse ctx w = (Returns None, w')"
  unfolding LLAPIQueryJPGQLDirectCacheResultAggregation_def Let_def assms(4) using assms(1,2,3,5) by simp

lemma handle_process:
  assumes Q: "query_ok E parse sts Q" and w: "query_world E parse Q es w" and t: "t \<in> registered es"
    and m: "process_msg E Q t m"
  shows "\<exists>es' w'. handleQueryMsg E parse ftOptions (q_typename Q) m w = (Returns None, w') \<and> query_world E parse Q es' w' \<and>
    extends es es' \<and> finished es' = insert t (finished es) \<and> (announced E Q es w \<longrightarrow> announced E Q es' w')"
proof -
  note J = env_ok_ej[OF query_okD(1)[OF Q]]
  have tq: "t \<in> q_tasks parse Q"
    using t history_tasks(2)[OF query_worldD(2)[OF w, unfolded query_history_def]] unfolding q_tasks_def by blast
  have "(fst t, snd t) \<in> taskShape parse sts" using query_okD(8)[OF Q tq] by simp
  note shape = shape_query[OF this]
  obtain n caller where m: "m = (q_typename Q @ CHR ''.'' # fst t @ ''==='' @ uid E n,
     buildNatsData (ej E) (q_typename Q) caller (Some (dcraPayload (ej E) (q_agg Q) (snd t) (q_call Q))) None)"
    using m unfolding process_msg_def by blast
  have u: "vertex_id (uid E n)" by (rule query_okD(2)[OF Q])
  have free: "dot_free (fst t @ ''==='' @ uid E n)"
    using simple_dot_free[OF vertex_simple[OF shape(1)]] simple_dot_free[OF vertex_simple[OF u]] by (simp add: dot_free_def)
  have c: "case q_call Q of None \<Rightarrow> True | Some c \<Rightarrow> IsObject (ej E) c"
    using Q unfolding query_ok_def by (auto split: option.splits)
  note fields = dcraPayload_fields[OF J c, of "q_agg Q" "snd t"]
  have msg: "natsMessage (ej E) 0 (q_typename Q) \<lparr>natsSubject = fst m, natsData = snd m\<rparr> False =
    Inr (fst t @ ''==='' @ uid E n, \<lparr>msgNo = 0, Caller = (q_typename Q, caller),
       msgPayload = Some (dcraPayload (ej E) (q_agg Q) (snd t) (q_call Q)), msgOptions = Some (NewJSONObject (ej E)),
       hasRefusalCallback = True, hasRequestCallback = False, hasAckCallback = True\<rparr>)"
    using published_message[OF J free, of "Some (dcraPayload (ej E) (q_agg Q) (snd t) (q_call Q))" None 0 "q_typename Q" "[]"
        "q_typename Q" caller False] fields(1) unfolding m by simp
  define ctx where "ctx = handlerContext (ej E) ftOptions (q_typename Q) (fst t @ ''==='' @ uid E n) (q_typename Q) caller
    (Some (dcraPayload (ej E) (q_agg Q) (snd t) (q_call Q))) (Some (NewJSONObject (ej E))) False"
  have c: "SelfTypename ctx = q_typename Q" "SelfID ctx = fst t @ ''==='' @ uid E n"
    "Payload ctx = dcraPayload (ej E) (q_agg Q) (snd t) (q_call Q)"
    by (simp_all add: ctx_def handlerContext_def)
  have "split_str ''==='' (SelfID ctx) = [fst t, uid E n]"
    unfolding c(2) by (simp only: vertex_split(2)[OF shape(1)] vertex_split(1)[OF u])
  then have c1: "count_str (SelfID ctx) ''==='' = 1" by (simp add: count_str_def)
  obtain es' w' where run: "dcraDescendant E parse ctx (q_call Q) (snd t) w = (Returns (), w')" "query_world E parse Q es' w'"
    "extends es es'" "finished es' = insert t (finished es)" "announced E Q es w \<longrightarrow> announced E Q es' w'"
    using dcraDescendant_run[OF Q w t c(1,2)] fields(2) unfolding c(3) by blast
  have "LLAPIQueryJPGQLDirectCacheResultAggregation E parse ctx w = (Returns None, w')"
    using fields(3,4) by (intro descendant_returns[OF c1 _ shape(2) _ run(1)]) (simp_all only: c(3))
  then have "handleQueryMsg E parse ftOptions (q_typename Q) m w = (Returns None, w')"
    by (simp add: handleQueryMsg_def msg ctx_def)
  with run show ?thesis by blast
qed

text \<open>A message on the subjects of the function is one of the query's processes.\<close>

lemma own_message:
  assumes w: "query_store E parse Q es w" and m: "m \<in> set (published w)" and s: "fst m = q_typename Q @ CHR ''.'' # i" "dot_free i"
  obtains t where "t \<in> registered es" "process_msg E Q t m"
proof -
  have "\<not> other_msg (q_typename Q) m"
  proof
    assume "other_msg (q_typename Q) m"
    then obtain tn j where o: "fst m = tn @ CHR ''.'' # j" "dot_free j" "tn \<noteq> q_typename Q" unfolding other_msg_def by blast
    then have "split_dot tn @ [j] = split_dot (q_typename Q) @ [i]"
      using s split_dot_append[of tn j] split_dot_append[of "q_typename Q" i] by (simp add: split_dot_free)
    then have "tn = q_typename Q" by (simp add: key_of_split)
    with o(3) show False by contradiction
  qed
  with query_storeD(6)[OF w m] that show thesis by blast
qed

section \<open>The transition system\<close>

text \<open>
  \<open>qr_agg\<close> is the state of the goroutine while it runs, \<open>qr_chan\<close> the channel
  between the level and the goroutine, \<open>qr_replies\<close> what has been put in the reply. The
  notifications of the cache are the values sent into the channel, in their order; when the channel
  accepts one is a step of its own (a sender waits for it).
\<close>

type_synonym notification = "string \<times> bytes option"

record ('j, 'kv) query_run =
  qr_world :: "('j, 'kv) world"
  qr_agg :: "'j dcra option"
  qr_chan :: "notification dim_channel"
  qr_replies :: "'j list"

definition qr_read :: "('j, 'kv) query_run \<Rightarrow> nat" where
  "qr_read r = length (delivered (qr_chan r))"

definition aggregates ::
  "notification dim_channel \<Rightarrow> ('j dcra aggregation \<times> 'j option) \<times> ('j, 'kv) world \<Rightarrow>
    ('j, 'kv) query_run \<Rightarrow> ('j, 'kv) query_run" where
  "aggregates c out r =
     r\<lparr>qr_world := snd out, qr_agg := (case fst (fst out) of Continues a \<Rightarrow> Some a | Replied \<Rightarrow> None), qr_chan := c,
       qr_replies := qr_replies r @ (case snd (fst out) of None \<Rightarrow> [] | Some x \<Rightarrow> [x])\<rparr>"

definition notifications :: "'j dcra \<Rightarrow> ('j, 'kv) query_run \<Rightarrow> notification list option" where
  "notifications a r = w_queue (qr_world r) (pendingLevel (dc_aggregationID a)) (dc_aggregationID a)"

definition channelSize :: "('j, 'kv) query_run \<Rightarrow> nat" where
  "channelSize r = levelSubscriptionNotificationsBufferMaxSize (cacheConfig (w_cache (qr_world r)))"

inductive query_run_step ::
  "('j, 'kv) env \<Rightarrow> filterParser \<Rightarrow> 'j \<Rightarrow> string \<Rightarrow> ('j, 'kv) query_run \<Rightarrow> ('j, 'kv) query_run \<Rightarrow> bool"
  for E parse ftOptions typename where
  deliver: "m \<in> set (published (qr_world r)) \<Longrightarrow> fst m = typename @ CHR ''.'' # i \<Longrightarrow> dot_free i \<Longrightarrow>
    handleQueryMsg E parse ftOptions typename m (qr_world r) = (res, w) \<Longrightarrow>
    query_run_step E parse ftOptions typename r (r\<lparr>qr_world := w\<rparr>)"
| channel: "qr_agg r = Some a \<Longrightarrow> notifications a r = Some kvs \<Longrightarrow> dim_feed (channelSize r) kvs (qr_chan r) c \<Longrightarrow>
    query_run_step E parse ftOptions typename r (r\<lparr>qr_chan := c\<rparr>)"
| notify: "qr_agg r = Some a \<Longrightarrow> pusher (qr_chan r) = QSend kv \<Longrightarrow>
    query_run_step E parse ftOptions typename r
      (aggregates (dim_read kv (qr_chan r)) (dcraNotified E kv a (qr_world r)) r)"
| tick: "qr_agg r = Some a \<Longrightarrow>
    query_run_step E parse ftOptions typename r (aggregates (qr_chan r) (dcraTick E a (qr_world r)) r)"

section \<open>The invariant of a run\<close>

definition unfinished :: "'t event list \<Rightarrow> bool" where
  "unfinished es \<longleftrightarrow> es = [] \<or> \<not> registered es \<subseteq> finished es"

definition answer :: "('j, 'kv) env \<Rightarrow> filterParser \<Rightarrow> 'j query \<Rightarrow> 'j \<Rightarrow> bool" where
  "answer E parse Q x \<longleftrightarrow>
     x = timeoutResult (ej E) ''LLAPIQueryJPGQLDirectCacheResultAggregation evaluation timeout!'' \<or>
     (\<exists>xs. x = dcraResult (ej E) xs \<and> set xs = queryResults parse (q_graph Q) (q_root Q))"

definition running_query :: "('j, 'kv) env \<Rightarrow> filterParser \<Rightarrow> 'j query \<Rightarrow> task event list \<Rightarrow> 'j dcra \<Rightarrow> ('j, 'kv) query_run \<Rightarrow> bool" where
  "running_query E parse Q es a r \<longleftrightarrow> hasReply (dc_context a) \<and> dc_aggregationID a = q_agg Q \<and>
     query_world E parse Q es (qr_world r) \<and> announced E Q es (qr_world r) \<and>
     dim_open (map (notificationOf (ej E) (taskHash E)) es) (qr_chan r) \<and>
     aggregated (taskHash E) (take (qr_read r) es) a \<and> unfinished (take (qr_read r) es)"

definition query_inv :: "('j, 'kv) env \<Rightarrow> filterParser \<Rightarrow> 'j query \<Rightarrow> ('j, 'kv) query_run \<Rightarrow> bool" where
  "query_inv E parse Q r \<longleftrightarrow>
     (case qr_agg r of
        None \<Rightarrow> (\<exists>x. qr_replies r = [x] \<and> answer E parse Q x)
      | Some a \<Rightarrow> qr_replies r = [] \<and> (\<exists>es. running_query E parse Q es a r))"

lemma unfinished_register:
  assumes "unfinished es"
  shows "unfinished (es @ [Registered t])"
  using assms unfolding unfinished_def by auto

lemma complete_hashes:
  assumes Q: "query_ok E parse sts Q" and h: "query_history parse Q es"
    and sub: "taskHash E ` registered es \<subseteq> taskHash E ` finished es"
  shows "registered es \<subseteq> finished es"
proof
  fix t assume t: "t \<in> registered es"
  note ht = history_tasks[OF h[unfolded query_history_def]]
  from t sub obtain u where u: "u \<in> finished es" "taskHash E t = taskHash E u" by (meson image_iff subsetD image_eqI)
  have "t \<in> q_tasks parse Q" "u \<in> q_tasks parse Q" using t u(1) ht(2,3) unfolding q_tasks_def by blast+
  with u(2) query_okD(4)[OF Q] have "t = u" by (auto dest: inj_onD)
  with u(1) show "t \<in> finished es" by simp
qed

lemma in_hand_notification:
  assumes r: "running_query E parse Q es a r" and kv: "pusher (qr_chan r) = QSend kv"
  shows "qr_read r < length es" and "kv = notificationOf (ej E) (taskHash E) (es ! qr_read r)"
    and "dim_open (map (notificationOf (ej E) (taskHash E)) es) (dim_read kv (qr_chan r))"
proof -
  have "dim_open (map (notificationOf (ej E) (taskHash E)) es) (qr_chan r)" using r by (simp add: running_query_def)
  note h = dim_in_hand[OF this kv]
  from h(1) show "qr_read r < length es" by (simp add: qr_read_def)
  with h(2) show "kv = notificationOf (ej E) (taskHash E) (es ! qr_read r)" by (simp add: qr_read_def)
  from h(3) show "dim_open (map (notificationOf (ej E) (taskHash E)) es) (dim_read kv (qr_chan r))" .
qed

lemma qr_read_more [simp]:
  "qr_read (r\<lparr>qr_agg := a, qr_chan := dim_read kv (qr_chan r)\<rparr>) = Suc (qr_read r)"
  "qr_read (r\<lparr>qr_world := w\<rparr>) = qr_read r"
  by (simp_all add: qr_read_def dim_read_def)

lemma notify_running:
  assumes Q: "query_ok E parse sts Q" and r: "running_query E parse Q es a r" and kv: "pusher (qr_chan r) = QSend kv"
  shows "(\<exists>a'. dcraNotified E kv a (qr_world r) = ((Continues a', None), qr_world r) \<and>
       running_query E parse Q es a' (r\<lparr>qr_agg := Some a', qr_chan := dim_read kv (qr_chan r)\<rparr>)) \<or>
    (\<exists>xs w'. dcraNotified E kv a (qr_world r) =
         ((Replied, Some (dcraResult (ej E) xs)), w') \<and> set xs = queryResults parse (q_graph Q) (q_root Q))"
proof -
  let ?pre = "take (qr_read r) es" and ?e = "es ! qr_read r" and ?w = "qr_world r"
  note n = in_hand_notification(1)[OF r kv] and kve = in_hand_notification(2)[OF r kv]
  have pre: "take (Suc (qr_read r)) es = ?pre @ [?e]" using n by (rule take_Suc_conv_app_nth)
  note run = r[unfolded running_query_def]
  have hist: "query_history parse Q (?pre @ [?e])"
    using history_prefix[of _ _ _ es "Suc (qr_read r)"] run query_worldD(2)[of E parse Q es ?w]
    unfolding query_history_def pre by simp
  obtain a' where a': "aggregated (taskHash E) (?pre @ [?e]) a'" "dc_context a' = dc_context a"
    "dc_aggregationID a' = dc_aggregationID a"
    and cases: "(dcraNotified E (notificationOf (ej E) (taskHash E) ?e) a ?w = ((Continues a', None), ?w) \<and>
        ((\<exists>t. ?e = Registered t) \<or> \<not> taskHash E ` registered (?pre @ [?e]) \<subseteq> taskHash E ` finished (?pre @ [?e]))) \<or>
      (taskHash E ` registered (?pre @ [?e]) \<subseteq> taskHash E ` finished (?pre @ [?e]) \<and>
        (\<exists>w' w'' x. ReplyQueryID E (dc_queryID a) (dcraResult (ej E) (dc_resultObjects a')) (dc_context a) w' = (x, w'') \<and>
          dcraNotified E (notificationOf (ej E) (taskHash E) ?e) a ?w = ((Replied, x), w'')))"
    using dcraNotified_step[OF env_ok_ej[OF query_okD(1)[OF Q]], of "taskHash E" ?pre a ?e ?w] run by blast
  from cases show ?thesis
  proof
    assume c: "dcraNotified E (notificationOf (ej E) (taskHash E) ?e) a ?w = ((Continues a', None), ?w) \<and>
        ((\<exists>t. ?e = Registered t) \<or> \<not> taskHash E ` registered (?pre @ [?e]) \<subseteq> taskHash E ` finished (?pre @ [?e]))"
    have "unfinished (?pre @ [?e])"
    proof (cases "\<exists>t. ?e = Registered t")
      case True
      with run show ?thesis by (auto intro: unfinished_register)
    next
      case False
      with c show ?thesis unfolding unfinished_def by (meson image_mono)
    qed
    with run a' in_hand_notification(3)[OF r kv]
    have "running_query E parse Q es a' (r\<lparr>qr_agg := Some a', qr_chan := dim_read kv (qr_chan r)\<rparr>)"
      unfolding running_query_def by (simp add: pre)
    with c show ?thesis unfolding kve by blast
  next
    assume c: "taskHash E ` registered (?pre @ [?e]) \<subseteq> taskHash E ` finished (?pre @ [?e]) \<and>
        (\<exists>w' w'' x. ReplyQueryID E (dc_queryID a) (dcraResult (ej E) (dc_resultObjects a')) (dc_context a) w' = (x, w'') \<and>
          dcraNotified E (notificationOf (ej E) (taskHash E) ?e) a ?w = ((Replied, x), w''))"
    then have "registered (?pre @ [?e]) \<subseteq> finished (?pre @ [?e])" using complete_hashes[OF Q hist] by blast
    from history_complete(2)[OF hist[unfolded query_history_def] this]
    have "set (dc_resultObjects a') = queryResults parse (q_graph Q) (q_root Q)"
      using a'(1) by (simp add: aggregated_def queryResults_def)
    moreover obtain w'' where "dcraNotified E (notificationOf (ej E) (taskHash E) ?e) a ?w =
        ((Replied, Some (dcraResult (ej E) (dc_resultObjects a'))), w'')"
      using c run by (auto simp: ReplyQueryID_def)
    ultimately show ?thesis unfolding kve by blast
  qed
qed

lemma tick_running:
  assumes r: "running_query E parse Q es a r"
  shows "query_inv E parse Q (aggregates (qr_chan r) (dcraTick E a (qr_world r)) (r\<lparr>qr_replies := []\<rparr>))"
proof -
  note run = r[unfolded running_query_def]
  let ?w = "qr_world r"
  obtain n w' where now: "wNow E ?w = (n, w')" by fastforce
  have w': "w' = ?w\<lparr>w_cache := (w_cache ?w)\<lparr>ticks := Suc (ticks (w_cache ?w))\<rparr>\<rparr>"
    using now by (auto simp: wNow_def GetCurrentTimeNs_def)
  show ?thesis
  proof (cases "timedOut (dc_startedEvaluating a) (dc_timeoutSec a) n")
    case True
    then show ?thesis
      using run unfolding query_inv_def aggregates_def answer_def by (simp add: dcraTick_def now ReplyQueryID_def)
  next
    case False
    have ok: "w_ok E ?w" and ws: "query_store E parse Q es ?w" and h: "query_history parse Q es"
      using run query_worldD[of E parse Q es ?w] by blast+
    have "w_ok E w'"
      using ok cache_ok_frame[of E "w_cache ?w" "w_cache w'"] unfolding w_ok_def w' by (simp add: cache_ok_def)
    moreover have "w_view w' = w_view ?w" "w_queue w' = w_queue ?w" "w_absent w' = w_absent ?w" "published w' = published ?w"
      by (simp_all add: w' w_view_def w_queue_def w_absent_def cache_view_def level_queue_def key_absent_def fun_eq_iff)
    ultimately have "query_store E parse Q es w'" "published w' = published ?w"
      by (auto intro!: query_store_frame[OF ws])
    with h run have "running_query E parse Q es a (r\<lparr>qr_world := w'\<rparr>)"
      unfolding running_query_def query_world_def announced_def by simp
    with False show ?thesis
      unfolding query_inv_def aggregates_def running_query_def by (simp add: dcraTick_def now qr_read_def) blast
  qed
qed

lemma extends_prefix: "extends es es' \<Longrightarrow> prefix (map f es) (map f es')"
  by (auto simp: extends_def)

lemma qr_read_length:
  assumes "running_query E parse Q es a r"
  shows "qr_read r \<le> length es"
proof -
  have "dim_open (map (notificationOf (ej E) (taskHash E)) es) (qr_chan r)" using assms by (simp add: running_query_def)
  then have "length (delivered (qr_chan r)) \<le> length (sent (qr_chan r))" "length (sent (qr_chan r)) \<le> length es"
    by (auto simp: dim_open_def dim_inv_def dest: prefix_length_le)
  then show ?thesis by (simp add: qr_read_def)
qed

lemma deliver_task:
  assumes Q: "query_ok E parse sts Q" and r: "running_query E parse Q es a r"
    and t: "t \<in> registered es" "process_msg E Q t m"
  obtains es' w where "handleQueryMsg E parse ftOptions (q_typename Q) m (qr_world r) = (Returns None, w)"
    and "running_query E parse Q es' a (r\<lparr>qr_world := w\<rparr>)" "finished es' = insert t (finished es)" "extends es es'"
proof -
  note run = r[unfolded running_query_def]
  have w: "query_world E parse Q es (qr_world r)" using run by blast
  obtain es' w where h: "handleQueryMsg E parse ftOptions (q_typename Q) m (qr_world r) = (Returns None, w)"
    "query_world E parse Q es' w" "announced E Q es (qr_world r) \<longrightarrow> announced E Q es' w" "extends es es'"
    "finished es' = insert t (finished es)"
    using handle_process[OF Q w t] by blast
  have "running_query E parse Q es' a (r\<lparr>qr_world := w\<rparr>)"
    using run h(2,3) dim_open_mono[OF _ extends_prefix[OF h(4)]] extends_take[OF h(4), of "qr_read r"] qr_read_length[OF r]
    unfolding running_query_def by auto
  with h(1,4,5) that show thesis by blast
qed

lemma deliver_running:
  assumes Q: "query_ok E parse sts Q" and r: "running_query E parse Q es a r"
    and m: "m \<in> set (published (qr_world r))" "fst m = q_typename Q @ CHR ''.'' # i" "dot_free i"
  shows "\<exists>es' w. handleQueryMsg E parse ftOptions (q_typename Q) m (qr_world r) = (Returns None, w) \<and>
    running_query E parse Q es' a (r\<lparr>qr_world := w\<rparr>) \<and> extends es es'"
proof -
  have "query_world E parse Q es (qr_world r)" using r unfolding running_query_def by blast
  then obtain t where t: "t \<in> registered es" "process_msg E Q t m"
    using own_message[OF query_worldD(1) m] by blast
  show ?thesis by (rule deliver_task[OF Q r t, of ftOptions]) blast
qed

end
