(* ===== verification/JPGProgress.thy ===== *)
theory JPGProgress
  imports JPGRun
begin

text \<open>
  A query never gets stuck: the tasks that it comes across are finitely many, each of them that is
  registered has a message that finishes it, and the goroutine replies when it has read all that has
  been left on its level.
\<close>

section \<open>Finitely many tasks\<close>

lemma stepObjects_last:
  assumes "B \<in> stepObjects parse m A t f" and "t \<noteq> []"
  shows "B \<in> (\<lambda>k. last (split_dot k)) ` dom m"
proof -
  have "\<exists>T. (T, B) \<in> linksOf m A t"
    using assms by (auto simp: stepObjects_def linkedObjects_def filteredObjects_def split: if_splits goResult.splits)
  then obtain T where T: "link_ok (A, T, B)" "m (OutLinkBodyKey A T B) \<noteq> None" by (auto simp: linksOf_def)
  then have "last (split_dot (OutLinkBodyKey A T B)) = B" by (simp add: link_ok_def)
  with T(2) show ?thesis by (intro rev_image_eqI[of "OutLinkBodyKey A T B"]) auto
qed

lemma finite_tasks:
  assumes "finite (dom m)" and "steps_ok sts"
  shows "finite (tasksFrom (nextTasks parse m) (A, renderQuery sts))"
proof -
  let ?V = "insert A ((\<lambda>k. last (split_dot k)) ` dom m)"
  let ?S = "?V \<times> (\<lambda>n. renderQuery (drop n sts)) ` {..length sts}"
  have "tasksFrom (nextTasks parse m) (A, renderQuery sts) \<subseteq> ?S"
  proof (rule tasks_closed)
    show "(A, renderQuery sts) \<in> ?S" by force
  next
    fix u v assume "u \<in> ?S" and v: "v \<in> nextTasks parse m u"
    then obtain B n where u: "u = (B, renderQuery (drop n sts))" "n \<le> length sts" by auto
    have ne: "drop n sts \<noteq> []"
    proof
      assume "drop n sts = []"
      with v show False unfolding u by (simp add: nextTasks_def stepTargets_def GetQueryHeadAndTailsParts_def)
    qed
    then obtain deep t f where d: "drop n sts = (deep, t, f) # drop (Suc n) sts"
      by (metis drop_Suc drop_eq_Nil2 drop_tl list.exhaust_sel prod_cases3)
    have "steps_ok (drop n sts)" using assms(2) by (auto simp: list_all_iff dest: in_set_dropD)
    then have ok: "step_ok (t, f)" "steps_ok (drop (Suc n) sts)" unfolding d by simp_all
    have t: "t \<noteq> []" using ok(1) by (simp add: step_ok_def)
    have n: "Suc n \<le> length sts" using ne by simp
    have "v \<in> {(C, renderQuery (drop (Suc n) sts)) | C. C \<in> stepObjects parse m B t f} \<or>
        v \<in> {(C, renderQuery (drop n sts)) | C. C \<in> stepObjects parse m B ''*'' []}"
    proof (cases deep)
      case True
      with v show ?thesis unfolding u d nextTasks_def
        by (simp only: deep_targets[OF ok]) (auto simp: passes_def)
    next
      case False
      with v show ?thesis unfolding u d nextTasks_def by (simp only: plain_targets[OF ok]) blast
    qed
    then show "v \<in> ?S"
      using stepObjects_last[OF _ t] stepObjects_last[of _ parse m B "''*''" "[]"] n u(2) by fastforce
  qed
  moreover have "finite ?S" using assms(1) by simp
  ultimately show ?thesis by (rule finite_subset)
qed

section \<open>Reaching the reply\<close>

abbreviation query_steps ::
  "('j, 'kv) env \<Rightarrow> filterParser \<Rightarrow> 'j \<Rightarrow> string \<Rightarrow> ('j, 'kv) query_run \<Rightarrow> ('j, 'kv) query_run \<Rightarrow> bool" where
  "query_steps E parse ftOptions typename \<equiv> (query_run_step E parse ftOptions typename)\<^sup>*\<^sup>*"

lemma process_msg_subject:
  assumes Q: "query_ok E parse sts Q" and t: "t \<in> q_tasks parse Q" and m: "process_msg E Q t m"
  obtains i where "fst m = q_typename Q @ CHR ''.'' # i" "dot_free i"
proof -
  obtain n where "fst m = q_typename Q @ CHR ''.'' # fst t @ ''==='' @ uid E n"
    using m unfolding process_msg_def by auto
  moreover have "vertex_id (fst t)" using query_okD(8)[OF Q t] shape_query(1)[of "fst t" "snd t"] by simp
  then have "dot_free (fst t @ ''==='' @ uid E n)"
    using simple_dot_free[OF vertex_simple] simple_dot_free[OF vertex_simple[OF query_okD(2)[OF Q, of n]]] by (simp add: dot_free_def)
  ultimately show thesis using that by simp
qed

lemma finish_all_tasks:
  assumes Q: "query_ok E parse sts Q" and fin: "finite (q_tasks parse Q)"
  shows "running_query E parse Q es a r \<Longrightarrow>
    \<exists>es' w. query_steps E parse ftOptions (q_typename Q) r (r\<lparr>qr_world := w\<rparr>) \<and>
      running_query E parse Q es' a (r\<lparr>qr_world := w\<rparr>) \<and> registered es' \<subseteq> finished es' \<and>
      extends es es' \<and> (registered es \<subseteq> finished es \<longrightarrow> es' = es)"
proof (induction "card (q_tasks parse Q - finished es)" arbitrary: es r rule: less_induct)
  case less
  note run = less.prems[unfolded running_query_def]
  show ?case
  proof (cases "registered es \<subseteq> finished es")
    case True
    have "r\<lparr>qr_world := qr_world r\<rparr> = r" by simp
    with True less.prems show ?thesis
      by (intro exI[of _ es] exI[of _ "qr_world r"]) simp
  next
    case False
    then obtain t where t: "t \<in> registered es" "t \<notin> finished es" by blast
    have "announced E Q es (qr_world r)" "query_world E parse Q es (qr_world r)" using run by blast+
    then obtain m where m: "m \<in> set (published (qr_world r))" "process_msg E Q t m" using t(1) unfolding announced_def by blast
    have tq: "t \<in> q_tasks parse Q"
      using t(1) history_tasks(2)[OF query_worldD(2)[OF \<open>query_world E parse Q es (qr_world r)\<close>, unfolded query_history_def]]
      unfolding q_tasks_def by blast
    obtain es1 w1 where h: "handleQueryMsg E parse ftOptions (q_typename Q) m (qr_world r) = (Returns None, w1)"
      "running_query E parse Q es1 a (r\<lparr>qr_world := w1\<rparr>)" "finished es1 = insert t (finished es)" "extends es es1"
      by (rule deliver_task[OF Q less.prems t(1) m(2)])
    obtain i where i: "fst m = q_typename Q @ CHR ''.'' # i" "dot_free i" by (rule process_msg_subject[OF Q tq m(2)])
    have step: "query_run_step E parse ftOptions (q_typename Q) r (r\<lparr>qr_world := w1\<rparr>)"
      by (rule query_run_step.deliver[OF m(1) i h(1)])
    have "q_tasks parse Q - finished es1 \<subset> q_tasks parse Q - finished es" using h(3) t(2) tq by blast
    then have "card (q_tasks parse Q - finished es1) < card (q_tasks parse Q - finished es)"
      using fin by (intro psubset_card_mono) simp_all
    from less.hyps[OF this h(2)] obtain es' w where
      "query_steps E parse ftOptions (q_typename Q) (r\<lparr>qr_world := w1\<rparr>) (r\<lparr>qr_world := w\<rparr>)"
      "running_query E parse Q es' a (r\<lparr>qr_world := w\<rparr>)" "registered es' \<subseteq> finished es'" "extends es1 es'" by auto
    with step False extends_trans[OF h(4)] show ?thesis by (meson converse_rtranclp_into_rtranclp)
  qed
qed

text \<open>The channel passes on the notifications that have been left on the level.\<close>

lemma feed_steps:
  assumes "dim_feeds (channelSize r) kvs (qr_chan r) c" and "qr_agg r = Some a" and "notifications a r = Some kvs"
  shows "query_steps E parse ftOptions typename r (r\<lparr>qr_chan := c\<rparr>)"
  using assms(1)
proof (induction rule: rtranclp_induct)
  case base
  have "r\<lparr>qr_chan := qr_chan r\<rparr> = r" by simp
  then show ?case by (metis rtranclp.rtrancl_refl)
next
  case (step c d)
  have "channelSize (r\<lparr>qr_chan := c\<rparr>) = channelSize r" by (simp add: channelSize_def)
  then have "query_run_step E parse ftOptions typename (r\<lparr>qr_chan := c\<rparr>) (r\<lparr>qr_chan := c\<rparr>\<lparr>qr_chan := d\<rparr>)"
    using assms(2,3) step.hyps(2) by (intro query_run_step.channel[of _ a kvs]) (simp_all add: notifications_def)
  with step.IH show ?case by simp
qed

lemma running_feeds:
  assumes r: "running_query E parse Q es a r"
    and c: "dim_feeds mx (map (notificationOf (ej E) (taskHash E)) es) (qr_chan r) c"
  shows "running_query E parse Q es a (r\<lparr>qr_chan := c\<rparr>)"
proof -
  have "dim_open (map (notificationOf (ej E) (taskHash E)) es) (qr_chan r)" using r by (simp add: running_query_def)
  from dim_feeds_open[OF c this] r show ?thesis by (simp add: running_query_def qr_read_def)
qed

lemma running_notifications:
  assumes "running_query E parse Q es a r"
  shows "notifications a r = Some (map (notificationOf (ej E) (taskHash E)) es)"
proof -
  have "query_world E parse Q es (qr_world r)" "dc_aggregationID a = q_agg Q" using assms by (simp_all add: running_query_def)
  with query_storeD(2)[OF query_worldD(1)] show ?thesis by (simp add: notifications_def)
qed

lemma read_all_notifications:
  assumes Q: "query_ok E parse sts Q"
  shows "running_query E parse Q es a r \<Longrightarrow> qr_agg r = Some a \<Longrightarrow> qr_replies r = [] \<Longrightarrow> registered es \<subseteq> finished es \<Longrightarrow>
    (notifications a r = Some (sent (qr_chan r)) \<Longrightarrow> \<not> dim_stranded (qr_chan r)) \<Longrightarrow>
    \<exists>r' xs. query_steps E parse ftOptions (q_typename Q) r r' \<and> qr_replies r' = [dcraResult (ej E) xs] \<and>
      set xs = queryResults parse (q_graph Q) (q_root Q)"
proof (induction "length es - qr_read r" arbitrary: a r rule: less_induct)
  case less
  let ?kvs = "map (notificationOf (ej E) (taskHash E)) es"
  note run = less.prems(1)[unfolded running_query_def]
  have w: "query_world E parse Q es (qr_world r)" and o: "dim_open ?kvs (qr_chan r)" using run by blast+
  have "es \<noteq> []" using query_worldD(2)[OF w] unfolding query_history_def by (rule history_not_Nil)
  then have "qr_read r \<noteq> length es" using run less.prems(4) by (auto simp: unfinished_def)
  with qr_read_length[OF less.prems(1)] have n: "qr_read r < length es" by simp
  note kvs = running_notifications[OF less.prems(1)]
  have "dim_can_hand (channelSize r) ?kvs (qr_chan r)"
    by (rule dim_hand_over[OF o]) (use n less.prems(5) kvs in \<open>simp_all add: qr_read_def\<close>)
  then obtain c kv where c: "dim_feeds (channelSize r) ?kvs (qr_chan r) c" "pusher c = QSend kv"
    by (auto simp: dim_can_hand_def)
  let ?r = "r\<lparr>qr_chan := c\<rparr>"
  have s0: "query_steps E parse ftOptions (q_typename Q) r ?r" by (rule feed_steps[OF c(1) less.prems(2) kvs])
  have r1: "running_query E parse Q es a ?r" by (rule running_feeds[OF less.prems(1) c(1)])
  have kv: "pusher (qr_chan ?r) = QSend kv" using c(2) by simp
  have read: "qr_read ?r = qr_read r" using dim_feeds_open[OF c(1) o] by (simp add: qr_read_def)
  have step: "query_run_step E parse ftOptions (q_typename Q) ?r (aggregates (dim_read kv c)
      (dcraNotified E kv a (qr_world r)) ?r)"
    using query_run_step.notify[OF _ kv, of a] less.prems(2) by simp
  from notify_running[OF Q r1 kv] show ?case
  proof (elim disjE exE conjE)
    fix a' assume a': "dcraNotified E kv a (qr_world ?r) = ((Continues a', None), qr_world ?r)"
      "running_query E parse Q es a' (?r\<lparr>qr_agg := Some a', qr_chan := dim_read kv (qr_chan ?r)\<rparr>)"
    let ?r2 = "?r\<lparr>qr_agg := Some a', qr_chan := dim_read kv (qr_chan ?r)\<rparr>"
    have s1: "query_run_step E parse ftOptions (q_typename Q) ?r ?r2"
      using step a'(1) by (simp add: aggregates_def)
    have "qr_read ?r2 = Suc (qr_read r)" using read by (simp add: qr_read_def dim_read_def)
    then have "length es - qr_read ?r2 < length es - qr_read r" using n by simp
    from less.hyps[OF this a'(2)] less.prems(3,4) obtain r' xs where
      "query_steps E parse ftOptions (q_typename Q) ?r2 r'"
      "qr_replies r' = [dcraResult (ej E) xs]" "set xs = queryResults parse (q_graph Q) (q_root Q)"
      by (auto simp: dim_stranded_def dim_read_def)
    with s0 s1 show ?thesis by (meson rtranclp.rtrancl_into_rtrancl rtranclp_trans)
  next
    fix xs w' assume x: "dcraNotified E kv a (qr_world ?r) = ((Replied, Some (dcraResult (ej E) xs)), w')"
      "set xs = queryResults parse (q_graph Q) (q_root Q)"
    let ?r2 = "aggregates (dim_read kv c) ((Replied, Some (dcraResult (ej E) xs)), w') ?r"
    have "query_run_step E parse ftOptions (q_typename Q) ?r ?r2" using step x(1) by simp
    with s0 have "query_steps E parse ftOptions (q_typename Q) r ?r2" by (rule rtranclp.rtrancl_into_rtrancl)
    moreover have "qr_replies ?r2 = [dcraResult (ej E) xs]" using less.prems(3) by (simp add: aggregates_def)
    ultimately show ?thesis using x(2) by blast
  qed
qed

text \<open>A process whose start is among the notifications and whose result is not.\<close>

definition openProcess :: "notification list \<Rightarrow> bool" where
  "openProcess kvs \<longleftrightarrow> (\<exists>k. (k, Some [1]) \<in> set kvs \<and> (\<forall>v. (k, Some v) \<in> set kvs \<longrightarrow> length v \<le> 1))"

lemma openProcess_unfinished:
  assumes J: "easyjson_ok (ej E)" and o: "openProcess (map (notificationOf (ej E) (taskHash E)) es)"
  shows "\<not> registered es \<subseteq> finished es"
proof -
  obtain k where k: "(k, Some [1]) \<in> set (map (notificationOf (ej E) (taskHash E)) es)"
    "\<And>v. (k, Some v) \<in> set (map (notificationOf (ej E) (taskHash E)) es) \<Longrightarrow> length v \<le> 1"
    using o by (auto simp: openProcess_def)
  have long: "Suc (Suc 0) \<le> length (ToBytes (ej E) (JSONFromArray (ej E) F))" for F using ej_array_bytes[OF J, of F] by simp
  from k(1) obtain e where e: "e \<in> set es" "notificationOf (ej E) (taskHash E) e = (k, Some [1])" by auto
  obtain t where t: "e = Registered t" "taskHash E t = k"
  proof (cases e)
    case (Finished t F)
    with e(2) long[of F] show thesis by (simp add: notificationOf_def)
  qed (use e(2) in \<open>simp add: notificationOf_def\<close>)
  have "t \<notin> finished es"
  proof
    assume "t \<in> finished es"
    then obtain F where "Finished t F \<in> set es" by (auto simp: finished_def)
    then have "(k, Some (ToBytes (ej E) (JSONFromArray (ej E) F))) \<in> set (map (notificationOf (ej E) (taskHash E)) es)"
      using t(2) by (force simp: notificationOf_def)
    from k(2)[OF this] long[of F] show False by simp
  qed
  with e(1) t(1) show ?thesis by (auto simp: registered_def)
qed

end
