(* ===== verification/JPGAnswer.thy ===== *)
theory JPGAnswer
  imports JPGProgress
begin

text \<open>
  What a query with direct aggregation answers, whatever the order in which its processes run and its
  goroutine is scheduled: the objects at the end of the paths that follow its steps, or that it
  timed out.
\<close>

section \<open>The start of a query\<close>

definition queryCall :: "'j easyjson \<Rightarrow> 'j StatefunContextProcessor \<Rightarrow> 'j option" where
  "queryCall J ctx =
     (if IsObject J (GetByPath J (Payload ctx) ''call'') then Some (GetByPath J (Payload ctx) ''call'') else None)"

definition query_run_init ::
  "('j, 'kv) env \<Rightarrow> filterParser \<Rightarrow> 'j StatefunContextProcessor \<Rightarrow> ('j, 'kv) world \<Rightarrow> ('j, 'kv) query_run \<Rightarrow> bool" where
  "query_run_init E parse ctx w r \<longleftrightarrow> (\<exists>a w'.
     LLAPIQueryJPGQLDirectCacheResultAggregation E parse ctx w = (Returns (Some a), w') \<and>
     r = \<lparr>qr_world = w', qr_agg = Some a, qr_chan = CreateDimSizeChannel, qr_replies = []\<rparr>)"

text \<open>
  A request that asks an object of a consistent graph the query with the steps \<open>sts\<close>. The
  identifiers that the runtime generates are usable in keys and new to the cache, and the hashes of
  the tasks that the query comes across do not collide. A call on the targets is not the query
  function itself, which would start other queries, and no message of the function is under way.
\<close>

definition query_setting ::
  "('j, 'kv) env \<Rightarrow> filterParser \<Rightarrow> step list \<Rightarrow> 'j StatefunContextProcessor \<Rightarrow> ('j, 'kv) world \<Rightarrow> bool" where
  "query_setting E parse sts ctx w \<longleftrightarrow>
     (let tasks = tasksFrom (nextTasks parse (w_view w)) (SelfID ctx, renderQuery sts) in
      w_ok E w \<and> graph_ok (w_view w) \<and> hasReply ctx \<and> vertex_id (SelfID ctx) \<and>
      sts \<noteq> [] \<and> steps_ok sts \<and> filters_safe parse sts \<and>
      AsString (ej E) (GetByPath (ej E) (Payload ctx) ''jpgql_query'') = Some (renderQuery sts) \<and>
      (\<forall>n. vertex_id (uid E n) \<and> uid E n \<noteq> ''in'' \<and> w_absent w (pendingLevel (uid E n))) \<and>
      (\<forall>t\<in>tasks. simple_id (taskHash E t)) \<and> inj_on (taskHash E) tasks \<and>
      (case queryCall (ej E) ctx of None \<Rightarrow> True
         | Some c \<Rightarrow> AsString (ej E) (GetByPath (ej E) c ''typename'') \<noteq> Some (SelfTypename ctx)) \<and>
      (\<forall>m\<in>set (published w). other_msg (SelfTypename ctx) m))"

definition queryOf ::
  "('j, 'kv) env \<Rightarrow> step list \<Rightarrow> 'j StatefunContextProcessor \<Rightarrow> ('j, 'kv) world \<Rightarrow> string \<Rightarrow> 'j query" where
  "queryOf E sts ctx w agg = \<lparr>q_typename = SelfTypename ctx, q_agg = agg, q_call = queryCall (ej E) ctx,
     q_graph = w_view w, q_root = (SelfID ctx, renderQuery sts)\<rparr>"

lemma queryOf_ok:
  assumes "query_setting E parse sts ctx w"
  shows "query_ok E parse sts (queryOf E sts ctx w (uid E n))"
proof -
  have "w_ok E w" using assms by (simp add: query_setting_def Let_def)
  then have E: "env_ok E" by (simp add: w_ok_def cache_ok_def)
  have "tasksFrom (nextTasks parse (w_view w)) (SelfID ctx, renderQuery sts) \<subseteq> taskShape parse sts"
    using assms by (intro tasks_shape) (simp_all add: query_setting_def Let_def)
  moreover have "case queryCall (ej E) ctx of None \<Rightarrow> True | Some c \<Rightarrow> IsObject (ej E) c"
    by (simp add: queryCall_def)
  ultimately show ?thesis
    using assms E unfolding query_ok_def queryOf_def q_tasks_def query_setting_def Let_def
    by (simp split: option.splits)
qed

lemma world_start_frame:
  "wNow E w = (n, w') \<Longrightarrow> w_ok E w' = w_ok E w \<and> w_view w' = w_view w \<and> w_queue w' = w_queue w \<and> w_absent w' = w_absent w \<and> published w' = published w"
  "GetQueryID E ctx w = (s, w') \<Longrightarrow> w_queue w' = w_queue w \<and> w_absent w' = w_absent w \<and> published w' = published w"
  "published (wSubscribe E k c w) = published w"
  subgoal premises p
  proof -
    have w': "w' = w\<lparr>w_cache := (w_cache w)\<lparr>ticks := Suc (ticks (w_cache w))\<rparr>\<rparr>"
      using p by (auto simp: wNow_def GetCurrentTimeNs_def)
    have "cache_ok E (w_cache w') = cache_ok E (w_cache w)"
      unfolding w' by (simp add: cache_ok_def cached_def toStoreKey_def)
    then show ?thesis
      by (simp add: w' w_ok_def w_view_def w_queue_def w_absent_def cache_view_def level_queue_def key_absent_def fun_eq_iff)
  qed
  by (auto simp: GetQueryID_def GetUniqueStrID_def wSubscribe_def split: option.splits)

lemma query_starts:
  assumes S: "query_setting E parse sts ctx w"
  shows "\<exists>a n w'. LLAPIQueryJPGQLDirectCacheResultAggregation E parse ctx w = (Returns (Some a), w') \<and>
    running_query E parse (queryOf E sts ctx w (uid E n)) [Registered (SelfID ctx, renderQuery sts)] a
      \<lparr>qr_world = w', qr_agg = Some a, qr_chan = CreateDimSizeChannel, qr_replies = []\<rparr>"
proof -
  let ?root = "(SelfID ctx, renderQuery sts)"
  note s = S[unfolded query_setting_def Let_def]
  have ok: "w_ok E w" and A: "vertex_id (SelfID ctx)" using s by blast+
  obtain qid w1 where w1: "GetQueryID E ctx w = (qid, w1)" by fastforce
  have f1: "w_ok E w1" "w_view w1 = w_view w" "w_queue w1 = w_queue w" "w_absent w1 = w_absent w" "published w1 = published w"
    using GetQueryID_store[of E ctx w] world_start_frame(2)[OF w1] ok w1 by simp_all
  define agg where "agg = uid E (uids w1)"
  define w2 where "w2 = wSubscribe E (levelKey (pendingLevel agg) ''*'') agg (w1\<lparr>uids := Suc (uids w1)\<rparr>)"
  have absent: "w_absent w1 (pendingLevel agg)" using s f1(4) by (simp add: agg_def)
  have ok1: "w_ok E (w1\<lparr>uids := Suc (uids w1)\<rparr>)" using f1(1) by simp
  have f2: "w_ok E w2" "w_view w2 = w_view w" "w_queue w2 (pendingLevel agg) agg = Some []" "published w2 = published w"
    "dot_free t \<Longrightarrow> w_absent w2 (levelKey (pendingLevel agg) t)" for t
    unfolding w2_def using world_level.subscribe_ok[OF ok1] world_level.subscribe_view[OF ok1]
      world_level.subscribe_queue[OF ok1] world_level.subscribe_absent[OF ok1] absent f1
    by (simp_all add: world_start_frame(3))
  obtain n w3 where w3: "wNow E w2 = (n, w3)" by fastforce
  note f3 = world_start_frame(1)[OF w3]
  let ?Q = "queryOf E sts ctx w agg"
  have Q: "query_ok E parse sts ?Q" unfolding agg_def by (rule queryOf_ok[OF S])
  have sel: "q_agg ?Q = agg" "q_typename ?Q = SelfTypename ctx" "q_graph ?Q = w_view w" "q_root ?Q = ?root"
    "q_call ?Q = queryCall (ej E) ctx" by (simp_all add: queryOf_def)
  have root: "?root \<in> q_tasks parse ?Q" by (simp add: q_tasks_def sel)
  have abs: "w_absent w3 (taskKey E agg t)" if "t \<in> q_tasks parse ?Q" for t
    using f2(5)[OF taskKey_valid(3)[OF Q that]] f3 by (simp add: taskKey_def pendingKey_def)
  have "query_store E parse ?Q [] w3"
    unfolding query_store_def using f2 f3 abs s by (simp add: sel)
  then have "query_store E parse ?Q ([] @ [Registered ?root]) (wSetValue E (taskKey E (q_agg ?Q) ?root) [1] w3)"
    by (rule query_store_put[OF Q _ root]) (simp_all add: notificationOf_def)
  moreover have "query_history parse ?Q [Registered ?root]"
    unfolding query_history_def sel by (rule history.begin_query)
  ultimately have w4: "query_store E parse ?Q [Registered ?root] (wSetValue E (taskKey E agg ?root) [1] w3)"
    "query_history parse ?Q [Registered ?root]" by (simp_all add: sel)
  have init: "initPendingProcess E (SelfID ctx) (renderQuery sts) agg w3 = (True, wSetValue E (taskKey E agg ?root) [1] w3)"
    using world_level.putnew_new[of E w3 "taskKey E agg ?root"] taskKey_valid(1,2)[OF Q root] abs[OF root] f2 f3
    by (simp add: sel initPendingProcess_def taskKey_def taskHash_def)
  define w5 where "w5 = signalProcess E ctx (SelfID ctx) (dcraPayload (ej E) agg (renderQuery sts) (queryCall (ej E) ctx))
      (wSetValue E (taskKey E agg ?root) [1] w3)"
  have sig: "query_store E parse ?Q [Registered ?root] w5"
    "\<exists>m. published w5 = published (wSetValue E (taskKey E agg ?root) [1] w3) @ [m] \<and> process_msg E ?Q ?root m"
    unfolding w5_def using signal_task[OF w4(1), of ?root ctx] by (simp_all add: sel)
  then have ann: "announced E ?Q [Registered ?root] w5" unfolding announced_def by auto
  define a where "a = \<lparr>dc_context = ctx, dc_queryID = qid, dc_aggregationID = agg,
          dc_timeoutSec = evalTimeoutSec (ej E) ctx, dc_startedEvaluating = n, dc_pendingMap = [], dc_resultObjects = []\<rparr>"
  have "count_str (SelfID ctx) ''==='' = 0"
    by (simp add: count_str_def vertex_split(1)[OF A])
  moreover have "AsString (ej E) (GetByPath (ej E) (Payload ctx) ''jpgql_query'') = Some (renderQuery sts)" "renderQuery sts \<noteq> []"
    using s by simp_all
  moreover have "dcraRoot E ctx (queryCall (ej E) ctx) (renderQuery sts) w = (a, w5)"
    using w3 init by (simp add: dcraRoot_def w1 GetUniqueStrID_def agg_def[symmetric] w2_def[symmetric] a_def w5_def)
  ultimately have "LLAPIQueryJPGQLDirectCacheResultAggregation E parse ctx w = (Returns (Some a), w5)"
    unfolding LLAPIQueryJPGQLDirectCacheResultAggregation_def Let_def queryCall_def by simp
  moreover have "running_query E parse ?Q [Registered ?root] a \<lparr>qr_world = w5, qr_agg = Some a, qr_chan = CreateDimSizeChannel, qr_replies = []\<rparr>"
    unfolding running_query_def query_world_def
    using sig(1) w4(2) ann s
    by (simp add: a_def sel unfinished_def aggregated_start qr_read_def CreateDimSizeChannel_def[THEN arg_cong, of delivered])
  ultimately show ?thesis unfolding agg_def
    by (intro exI[of _ a] exI[of _ "uids w1"] exI[of _ w5] conjI)
qed

section \<open>Every reachable state\<close>

definition query_safe_run ::
  "('j, 'kv) env \<Rightarrow> filterParser \<Rightarrow> step list \<Rightarrow> 'j StatefunContextProcessor \<Rightarrow> ('j, 'kv) world \<Rightarrow> ('j, 'kv) query_run \<Rightarrow> bool" where
  "query_safe_run E parse sts ctx w r \<longleftrightarrow>
     (query_setting E parse sts ctx w \<longrightarrow> (\<exists>n. query_inv E parse (queryOf E sts ctx w (uid E n)) r))"

lemma query_inv_step:
  assumes Q: "query_ok E parse sts Q" and inv: "query_inv E parse Q r"
    and step: "query_run_step E parse ftOptions (q_typename Q) r r'"
  shows "query_inv E parse Q r'"
  using step
proof cases
  case (deliver m i res w)
  show ?thesis
  proof (cases "qr_agg r")
    case None
    with inv show ?thesis by (simp add: deliver(1) query_inv_def)
  next
    case (Some a)
    with inv obtain es where "running_query E parse Q es a r" "qr_replies r = []" by (auto simp: query_inv_def)
    moreover from deliver_running[OF Q this(1) deliver(2-4), of ftOptions] obtain es'
      where "running_query E parse Q es' a (r\<lparr>qr_world := w\<rparr>)" using deliver(5) by auto
    ultimately show ?thesis using Some by (auto simp: deliver(1) query_inv_def)
  qed
next
  case (channel a kvs c)
  with inv obtain es where es: "running_query E parse Q es a r" "qr_replies r = []" by (auto simp: query_inv_def)
  from channel(3) running_notifications[OF es(1)] have kvs: "kvs = map (notificationOf (ej E) (taskHash E)) es" by simp
  have "running_query E parse Q es a (r\<lparr>qr_chan := c\<rparr>)"
    using channel(4) unfolding kvs by (intro running_feeds[OF es(1)] r_into_rtranclp)
  with channel(1,2) es(2) show ?thesis by (auto simp: query_inv_def)
next
  case (notify a kv)
  with inv obtain es where es: "running_query E parse Q es a r" "qr_replies r = []" by (auto simp: query_inv_def)
  from notify_running[OF Q es(1) notify(3)] show ?thesis
  proof (elim disjE exE conjE)
    fix a' assume a': "dcraNotified E kv a (qr_world r) = ((Continues a', None), qr_world r)"
      "running_query E parse Q es a' (r\<lparr>qr_agg := Some a', qr_chan := dim_read kv (qr_chan r)\<rparr>)"
    then have "r' = r\<lparr>qr_agg := Some a', qr_chan := dim_read kv (qr_chan r)\<rparr>"
      by (simp add: notify(1) aggregates_def)
    with a'(2) es(2) show ?thesis by (auto simp: query_inv_def)
  next
    fix xs w' assume "dcraNotified E kv a (qr_world r) = ((Replied, Some (dcraResult (ej E) xs)), w')"
      "set xs = queryResults parse (q_graph Q) (q_root Q)"
    with es(2) show ?thesis unfolding notify(1) query_inv_def aggregates_def answer_def by auto
  qed
next
  case (tick a)
  with inv obtain es where es: "running_query E parse Q es a r" "qr_replies r = []" by (auto simp: query_inv_def)
  have "r\<lparr>qr_replies := []\<rparr> = r" using es(2) by simp
  with tick_running[OF es(1)] show ?thesis unfolding tick(1) by simp
qed

interpretation query_system: invariant_system "\<lambda>_. True" "query_run_init E parse ctx w"
    "query_run_step E parse ftOptions (SelfTypename ctx)" "query_safe_run E parse sts ctx w"
  for E :: "('j, 'kv) env" and parse ctx w ftOptions sts
proof
  fix s t :: "('j, 'kv) query_run"
  show "query_safe_run E parse sts ctx w s" if s: "query_run_init E parse ctx w s"
    unfolding query_safe_run_def
  proof
    assume "query_setting E parse sts ctx w"
    then obtain a n w' where run: "LLAPIQueryJPGQLDirectCacheResultAggregation E parse ctx w = (Returns (Some a), w')"
      "running_query E parse (queryOf E sts ctx w (uid E n)) [Registered (SelfID ctx, renderQuery sts)] a
        \<lparr>qr_world = w', qr_agg = Some a, qr_chan = CreateDimSizeChannel, qr_replies = []\<rparr>"
      using query_starts by blast
    have "s = \<lparr>qr_world = w', qr_agg = Some a, qr_chan = CreateDimSizeChannel, qr_replies = []\<rparr>"
      using s run(1) by (auto simp: query_run_init_def)
    then have "query_inv E parse (queryOf E sts ctx w (uid E n)) s"
      using run(2) unfolding query_inv_def by auto
    then show "\<exists>n. query_inv E parse (queryOf E sts ctx w (uid E n)) s" by (rule exI)
  qed
  show "query_safe_run E parse sts ctx w t"
    if "query_safe_run E parse sts ctx w s" "True" "query_run_step E parse ftOptions (SelfTypename ctx) s t"
    unfolding query_safe_run_def
  proof
    assume S: "query_setting E parse sts ctx w"
    with that obtain n where inv: "query_inv E parse (queryOf E sts ctx w (uid E n)) s" by (auto simp: query_safe_run_def)
    have "query_run_step E parse ftOptions (q_typename (queryOf E sts ctx w (uid E n))) s t"
      using that(3) by (simp add: queryOf_def)
    then have "query_inv E parse (queryOf E sts ctx w (uid E n)) t" by (rule query_inv_step[OF queryOf_ok[OF S] inv])
    then show "\<exists>n. query_inv E parse (queryOf E sts ctx w (uid E n)) t" by (rule exI)
  qed
qed

section \<open>The answer as its reader sees it\<close>

lemma result_paths: "simple_path ''status''" "simple_path ''result''" "''status'' \<noteq> ''result''"
  by (simp_all add: simple_path_def dot_free_def)

lemma result_objects:
  assumes J: "easyjson_ok J" and "IsObject J j" and "\<forall>x\<in>set xs. simple_path x"
  shows "IsObject J (fold (\<lambda>x r. SetByPath J r x (NewJSONBool J True)) xs j)"
    and "simple_path p \<Longrightarrow> PathExists J (fold (\<lambda>x r. SetByPath J r x (NewJSONBool J True)) xs j) p \<longleftrightarrow> p \<in> set xs \<or> PathExists J j p"
  using assms(2,3) by (induction xs arbitrary: j) (auto simp: ej_obj_set[OF J] ej_exists_set[OF J])

text \<open>An answer with the objects of \<open>B\<close>.\<close>

definition answersObjects :: "'j easyjson \<Rightarrow> string set \<Rightarrow> 'j \<Rightarrow> bool" where
  "answersObjects J B x \<longleftrightarrow> AsString J (GetByPath J x ''status'') = Some ''ok'' \<and>
     {p. simple_path p \<and> PathExists J (GetByPath J x ''result'') p} = B"

lemma dcraResult_objects:
  assumes J: "easyjson_ok J" and xs: "\<forall>x\<in>set xs. simple_path x"
  shows "answersObjects J (set xs) (dcraResult J xs)"
proof -
  let ?s = "SetByPath J (NewJSONObject J) ''status'' (NewJSONString J ''ok'')"
  let ?m = "fold (\<lambda>x r. SetByPath J r x (NewJSONBool J True)) xs (NewJSONObject J)"
  have s: "IsObject J ?s" by (intro ej_obj_set[OF J] ej_obj_new[OF J] result_paths)
  have "GetByPath J (dcraResult J xs) ''result'' = ?m" "GetByPath J (dcraResult J xs) ''status'' = NewJSONString J ''ok''"
    unfolding dcraResult_def using result_paths s
    by (simp_all add: ej_get_set[OF J] ej_get_other[OF J] ej_obj_new[OF J])
  moreover have "{p. simple_path p \<and> PathExists J ?m p} = set xs"
    using result_objects(2)[OF J ej_obj_new[OF J] xs] xs by (auto simp: ej_exists_new[OF J])
  ultimately show ?thesis by (simp add: answersObjects_def ej_str[OF J])
qed

lemma results_paths:
  assumes "tasksFrom (nextTasks parse m) t \<subseteq> taskShape parse sts" and "x \<in> queryResults parse m t"
  shows "simple_path x"
proof -
  from assms(2) obtain u where u: "u \<in> tasksFrom (nextTasks parse m) t" "(x, []) \<in> stepTargets parse m u"
    unfolding queryResults_def foundBy_def by blast
  from u(1) assms(1) have "u \<in> taskShape parse sts" by blast
  from targets_vertices[OF this u(2)] show ?thesis by (simp add: simple_path_def)
qed

lemma found_objects:
  assumes S: "query_setting E parse sts ctx w" and xs: "set xs = queryResults parse (w_view w) (SelfID ctx, renderQuery sts)"
  shows "answersObjects (ej E) (follow parse (w_view w) sts (SelfID ctx)) (dcraResult (ej E) xs)"
proof -
  note s = S[unfolded query_setting_def Let_def]
  have J: "easyjson_ok (ej E)" using s env_ok_ej by (auto simp: w_ok_def cache_ok_def)
  have "tasksFrom (nextTasks parse (w_view w)) (SelfID ctx, renderQuery sts) \<subseteq> taskShape parse sts"
    using s by (intro tasks_shape) simp_all
  from results_paths[OF this] have "\<forall>x\<in>set xs. simple_path x" unfolding xs by blast
  from dcraResult_objects[OF J this] have "answersObjects (ej E) (set xs) (dcraResult (ej E) xs)" .
  moreover have "set xs = follow parse (w_view w) sts (SelfID ctx)"
    unfolding xs using s by (intro results_follow) simp_all
  ultimately show ?thesis by simp
qed

lemma answer_objects:
  assumes S: "query_setting E parse sts ctx w" and x: "answer E parse (queryOf E sts ctx w agg) x"
  shows "x = timeoutResult (ej E) ''LLAPIQueryJPGQLDirectCacheResultAggregation evaluation timeout!'' \<or>
    answersObjects (ej E) (follow parse (w_view w) sts (SelfID ctx)) x"
  using x found_objects[OF S] unfolding answer_def queryOf_def by auto

text \<open>A run that has not replied.\<close>

lemma running_state:
  assumes "query_setting E parse sts ctx w"
    and "reachable_from (query_run_init E parse ctx w) (query_run_step E parse ftOptions (SelfTypename ctx)) r"
    and "qr_agg r = Some a"
  obtains n es where "query_ok E parse sts (queryOf E sts ctx w (uid E n))" "qr_replies r = []"
    "running_query E parse (queryOf E sts ctx w (uid E n)) es a r"
proof -
  have "query_safe_run E parse sts ctx w r" using assms(2) by (rule query_system.reach_inv)
  then obtain n where inv: "query_inv E parse (queryOf E sts ctx w (uid E n)) r" using assms(1) by (auto simp: query_safe_run_def)
  from inv assms(3) obtain es where "qr_replies r = []" "running_query E parse (queryOf E sts ctx w (uid E n)) es a r"
    by (auto simp: query_inv_def)
  with that queryOf_ok[OF assms(1), of n] show thesis by blast
qed

lemma can_finish:
  assumes "query_setting E parse sts ctx w"
    and "reachable_from (query_run_init E parse ctx w) (query_run_step E parse ftOptions (SelfTypename ctx)) r"
    and "qr_agg r = Some a"
    and live: "\<not> (dim_stranded (qr_chan r) \<and> notifications a r = Some (sent (qr_chan r)) \<and> \<not> openProcess (sent (qr_chan r)))"
  shows "\<exists>r' x. query_steps E parse ftOptions (SelfTypename ctx) r r' \<and> qr_replies r' = [x] \<and>
    answersObjects (ej E) (follow parse (w_view w) sts (SelfID ctx)) x"
proof -
  note s = assms(1)[unfolded query_setting_def Let_def]
  obtain n es where Q: "query_ok E parse sts (queryOf E sts ctx w (uid E n))" and rep: "qr_replies r = []"
    and run: "running_query E parse (queryOf E sts ctx w (uid E n)) es a r" by (rule running_state[OF assms(1-3)])
  let ?Q = "queryOf E sts ctx w (uid E n)" let ?kvs = "map (notificationOf (ej E) (taskHash E))"
  have "finite (q_tasks parse ?Q)"
    unfolding q_tasks_def queryOf_def using finite_tasks[OF finite_view[of w]] s by simp
  from finish_all_tasks[OF Q this run, of ftOptions] obtain es' w1 where
    p1: "query_steps E parse ftOptions (SelfTypename ctx) r (r\<lparr>qr_world := w1\<rparr>)"
    and r1: "running_query E parse ?Q es' a (r\<lparr>qr_world := w1\<rparr>)" "registered es' \<subseteq> finished es'"
    and ext: "extends es es'" "registered es \<subseteq> finished es \<longrightarrow> es' = es"
    by (auto simp: queryOf_def)
  have awake: "\<not> dim_stranded (qr_chan r)" if all: "notifications a (r\<lparr>qr_world := w1\<rparr>) = Some (sent (qr_chan r))"
  proof
    assume st: "dim_stranded (qr_chan r)"
    have kvs: "sent (qr_chan r) = ?kvs es'" using running_notifications[OF r1(1)] all by simp
    have "prefix (sent (qr_chan r)) (?kvs es)" using run by (simp add: running_query_def dim_open_def)
    then have "length es' \<le> length es" unfolding kvs by (auto dest: prefix_length_le)
    with ext(1) have "es' = es" by (auto simp: extends_def)
    with kvs running_notifications[OF run] live st have "openProcess (?kvs es)" by auto
    with openProcess_unfinished[OF env_ok_ej[OF query_okD(1)[OF Q]]] r1(2) \<open>es' = es\<close> show False by blast
  qed
  have "qr_agg (r\<lparr>qr_world := w1\<rparr>) = Some a" "qr_replies (r\<lparr>qr_world := w1\<rparr>) = []" using assms(3) rep by simp_all
  from read_all_notifications[OF Q r1(1) this r1(2), of ftOptions] awake obtain r' xs where
    p2: "query_steps E parse ftOptions (SelfTypename ctx) (r\<lparr>qr_world := w1\<rparr>) r'"
    and x: "qr_replies r' = [dcraResult (ej E) xs]" "set xs = queryResults parse (w_view w) (SelfID ctx, renderQuery sts)"
    by (auto simp: queryOf_def)
  have "answersObjects (ej E) (follow parse (w_view w) sts (SelfID ctx)) (dcraResult (ej E) xs)"
    by (rule found_objects[OF assms(1) x(2)])
  with rtranclp_trans[OF p1 p2] x(1) show ?thesis by blast
qed

text \<open>
  C10: whatever the order in which the messages of a query's processes are handled, and however often,
  and however its aggregating goroutine is scheduled, the query replies at most once, and either with
  the timeout or with exactly the objects at the end of the paths that follow its steps.
\<close>

theorem query_answers_what_it_finds:
  assumes "query_setting E parse sts ctx w"
    and "reachable_from (query_run_init E parse ctx w) (query_run_step E parse ftOptions (SelfTypename ctx)) r"
  shows "length (qr_replies r) \<le> 1 \<and>
    (\<forall>x\<in>set (qr_replies r).
       x = timeoutResult (ej E) ''LLAPIQueryJPGQLDirectCacheResultAggregation evaluation timeout!'' \<or>
       answersObjects (ej E) (follow parse (w_view w) sts (SelfID ctx)) x)"
proof -
  have "query_safe_run E parse sts ctx w r" using assms(2) by (rule query_system.reach_inv)
  then obtain n where inv: "query_inv E parse (queryOf E sts ctx w (uid E n)) r" using assms(1) by (auto simp: query_safe_run_def)
  have "qr_replies r = [] \<or> (\<exists>x. qr_replies r = [x] \<and> answer E parse (queryOf E sts ctx w (uid E n)) x)"
    using inv by (cases "qr_agg r") (auto simp: query_inv_def)
  then show ?thesis
  proof
    assume "\<exists>x. qr_replies r = [x] \<and> answer E parse (queryOf E sts ctx w (uid E n)) x"
    then obtain x where x: "qr_replies r = [x]" "answer E parse (queryOf E sts ctx w (uid E n)) x" by blast
    show ?thesis using answer_objects[OF assms(1) x(2)] by (simp add: x(1))
  qed simp
qed

text \<open>
  C11: as long as a query has not replied and its last notification is not stranded in the channel, it
  can still reply with all that it finds: some order of handling the messages of its processes, of
  the steps of the channel and of its goroutine ends with the objects at the end of the paths that
  follow its steps. The exception is the state in which every process has left its result, all
  notifications are in the channel, and the channel has dropped the wake-up of the last one.
\<close>

theorem query_can_finish:
  assumes "query_setting E parse sts ctx w"
    and "reachable_from (query_run_init E parse ctx w) (query_run_step E parse ftOptions (SelfTypename ctx)) r"
    and "qr_agg r = Some a"
    and "\<not> (dim_stranded (qr_chan r) \<and> notifications a r = Some (sent (qr_chan r)) \<and> \<not> openProcess (sent (qr_chan r)))"
  shows "\<exists>r' x. query_steps E parse ftOptions (SelfTypename ctx) r r' \<and> qr_replies r' = [x] \<and>
    answersObjects (ej E) (follow parse (w_view w) sts (SelfID ctx)) x"
  by (rule can_finish[OF assms])

text \<open>
  C12: in that excepted state nothing but a further notification or the timeout moves the query: while all
  that was left on the level is in the channel and the channel is stranded, every step leaves it so,
  without an answer, or answers the timeout, or leaves another notification on the level (a message
  delivered again).
\<close>

theorem stranded_query_times_out:
  assumes "query_setting E parse sts ctx w"
    and "reachable_from (query_run_init E parse ctx w) (query_run_step E parse ftOptions (SelfTypename ctx)) r"
    and "qr_agg r = Some a"
    and st: "dim_stranded (qr_chan r)" and all: "notifications a r = Some (sent (qr_chan r))"
    and step: "query_run_step E parse ftOptions (SelfTypename ctx) r r'"
  shows "qr_agg r' = Some a \<and> qr_replies r' = [] \<and> dim_stranded (qr_chan r') \<and> notifications a r' = Some (sent (qr_chan r')) \<or>
    qr_replies r' = [timeoutResult (ej E) ''LLAPIQueryJPGQLDirectCacheResultAggregation evaluation timeout!''] \<or>
    (\<exists>more. more \<noteq> [] \<and> notifications a r' = Some (sent (qr_chan r) @ more))"
proof -
  obtain n es where Q: "query_ok E parse sts (queryOf E sts ctx w (uid E n))" and rep: "qr_replies r = []"
    and run: "running_query E parse (queryOf E sts ctx w (uid E n)) es a r" by (rule running_state[OF assms(1-3)])
  let ?Q = "queryOf E sts ctx w (uid E n)" let ?kvs = "map (notificationOf (ej E) (taskHash E))"
  have kvs: "sent (qr_chan r) = ?kvs es" using all running_notifications[OF run] by simp
  from step show ?thesis
  proof cases
    case (deliver m i res w2)
    have "fst m = q_typename ?Q @ CHR ''.'' # i" using deliver(3) by (simp add: queryOf_def)
    from deliver_running[OF Q run deliver(2) this deliver(4), of ftOptions] deliver(5) obtain es'
      where es': "running_query E parse ?Q es' a r'" "extends es es'" by (auto simp: deliver(1) queryOf_def)
    then obtain ds where "es' = es @ ds" by (auto simp: extends_def)
    then have "notifications a r' = Some (sent (qr_chan r) @ ?kvs ds)" using running_notifications[OF es'(1)] kvs by simp
    then show ?thesis using assms(3) rep st by (cases "ds = []") (simp_all add: deliver(1))
  next
    case (channel a' kvs' c)
    with assms(3) all have f: "dim_step (channelSize r) (qr_chan r) c" "\<not> in_closed c" "prefix (sent c) (sent (qr_chan r))"
      by (simp_all add: dim_feed_def)
    then have "sent c = sent (qr_chan r)" by cases (auto dest: prefix_length_le)
    with dim_stranded_stays[OF st f(1) this f(2)] assms(3) rep all show ?thesis
      by (simp add: channel(1) notifications_def)
  next
    case (notify a' kv)
    with st show ?thesis by (auto simp: dim_stranded_def)
  next
    case (tick a')
    with assms(3) have a': "a' = a" by simp
    obtain now w' where now: "wNow E (qr_world r) = (now, w')" by fastforce
    have reply: "hasReply (dc_context a)" using run by (simp add: running_query_def)
    show ?thesis
    proof (cases "timedOut (dc_startedEvaluating a) (dc_timeoutSec a) now")
      case True
      then show ?thesis using reply rep by (simp add: tick(1) a' aggregates_def dcraTick_def now ReplyQueryID_def)
    next
      case False
      have "w_queue w' = w_queue (qr_world r)" using world_start_frame(1)[OF now] by simp
      with False assms(3) rep st all show ?thesis
        by (simp add: tick(1) a' aggregates_def dcraTick_def now notifications_def)
    qed
  qed
qed

section \<open>A sample query\<close>

definition query_context :: "json StatefunContextProcessor" where
  "query_context = \<lparr>SelfTypename = ''functions.graph.api.query.jpgql.dcra'', SelfID = ''a'', CallerTypename = [], CallerID = [],
     Payload = SetByPath sample_json (NewJSONObject sample_json) ''jpgql_query'' (NewJSONString sample_json ''.t''),
     Options = NewJSONObject sample_json, hasReply = True\<rparr>"

abbreviation "no_filters \<equiv> \<lambda>_. Inl []"

lemma sample_tasks: "tasksFrom (nextTasks no_filters (w_view link_world)) (''a'', ''.t'') = {(''a'', ''.t'')}"
proof -
  have "nextTasks no_filters (w_view link_world) (''a'', ''.t'') = {}"
    unfolding nextTasks_def sample_targets(2) by simp
  then show ?thesis by (subst tasksFrom_unfold) simp
qed

lemma sample_uids:
  "vertex_id (uid sample_env n)" "uid sample_env n \<noteq> ''in''" "w_absent link_world (pendingLevel (uid sample_env n))"
proof -
  have u: "uid sample_env n = ''id'' @ dec_nat n" by (simp add: sample_env_def)
  have "CHR ''='' \<notin> set (dec_nat n)"
  proof
    assume "CHR ''='' \<in> set (dec_nat n)"
    then obtain d where d: "d < 10" "CHR ''='' = dec_digit d" using dec_nat_digits by blast
    have "(of_char (dec_digit d) :: nat) = 61" unfolding d(2)[symmetric] by simp
    with d(1) show False by (simp add: of_char_dec_digit)
  qed
  moreover have "simple_id ''id''" by (simp add: simple_id_def key_char_def)
  ultimately show v: "vertex_id (uid sample_env n)"
    unfolding u using simple_append[OF _ dec_nat_key_chars, of "''id''" n] by (intro vertex_id_plain) simp_all
  show "uid sample_env n \<noteq> ''in''" by (simp add: u)
  have l: "simple_id ''a''" "simple_id ''t''" "simple_id ''b''" by (simp_all add: simple_id_def key_char_def)
  have r: "node_at (rootValue (w_cache link_world)) [''jpgql_dcra''] = None"
  proof (rule ccontr)
    assume "node_at (rootValue (w_cache link_world)) [''jpgql_dcra''] \<noteq> None"
    then have "node_at (rootValue sample_cache) [''jpgql_dcra''] \<noteq> None \<or>
        (\<exists>n. [''jpgql_dcra''] = take n (split_dot (OutLinkBodyKey ''a'' ''t'' ''b''))) \<or>
        (\<exists>n. [''jpgql_dcra''] = take n (split_dot (InLinkKey ''b'' ''a'' ''t'')))"
      unfolding link_world_def wSetValue_def sample_world_def world.select_convs world.update_convs
      by (elim disjE[OF put_new_nodes] put_new_nodes[THEN disjE]) (rule disjI1, assumption, rule disjI2, rule disjI1, assumption,
        rule disjI2, rule disjI2, assumption)
    then show False
      using l by (auto simp: sample_cache_def NewCacheStore_def take_Cons' split: if_splits)
  qed
  have "split_dot (pendingLevel (uid sample_env n)) = [''jpgql_dcra''] @ [uid sample_env n, ''pending'']"
    using split_pendingLevel[OF v] by simp
  then show "w_absent link_world (pendingLevel (uid sample_env n))"
    unfolding w_absent_def key_absent_def by (simp only: node_at_prefix_None[OF r])
qed

lemma sample_steps: "steps_ok [(False, ''t'', [])]" "renderQuery [(False, ''t'', [])] = ''.t''" "filters_safe no_filters [(False, ''t'', [])]"
  by (simp_all add: step_ok_def name_char_def filters_safe_def filter_safe_def)

lemma sample_query_setting: "query_setting sample_env no_filters [(False, ''t'', [])] query_context link_world"
proof -
  have A: "vertex_id ''a''" using sample_link(1) by (simp add: link_ok_def)
  have h: "simple_id (taskHash sample_env (''a'', ''.t''))"
    by (simp add: taskHash_def pendingProcessID_def sample_env_def sample_hash_def hex_char_def simple_id_def key_char_def)
  note J = sample_json_ok
  have pl: "Payload query_context = SetByPath sample_json (NewJSONObject sample_json) ''jpgql_query'' (NewJSONString sample_json ''.t'')"
    by (simp only: query_context_def StatefunContextProcessor.select_convs)
  have "''jpgql_query'' \<noteq> ''call''" by simp
  then have "\<not> PathExists sample_json (Payload query_context) ''call''"
    unfolding pl by (simp only: ej_exists_set[OF J ej_obj_new[OF J] dcra_paths(2,3)] ej_exists_new[OF J dcra_paths(3)]) simp
  then have c: "queryCall sample_json query_context = None"
    unfolding queryCall_def using ej_missing_obj[OF J] by simp
  have q: "AsString sample_json (GetByPath sample_json (Payload query_context) ''jpgql_query'') = Some ''.t''"
    unfolding pl by (simp only: ej_get_set[OF J ej_obj_new[OF J] dcra_paths(2)] ej_str[OF J])
  have p: "published link_world = []" by (simp add: link_world_def sample_world_def)
  show ?thesis
    unfolding query_setting_def Let_def sample_steps(2)
    using link_world_view(1) link_world_graph A h c q p sample_uids sample_steps(1,3) sample_tasks
    by (simp add: query_context_def)
qed

lemma sample_start:
  obtains r a v where "query_run_init sample_env no_filters query_context link_world r" "qr_agg r = Some a"
    "qr_chan r = CreateDimSizeChannel" "notifications a r = Some [v]"
proof -
  have self: "SelfID query_context = ''a''" by (simp add: query_context_def)
  obtain a n w' where h: "LLAPIQueryJPGQLDirectCacheResultAggregation sample_env no_filters query_context link_world = (Returns (Some a), w')"
    and run: "running_query sample_env no_filters (queryOf sample_env [(False, ''t'', [])] query_context link_world (uid sample_env n))
      [Registered (''a'', ''.t'')] a \<lparr>qr_world = w', qr_agg = Some a, qr_chan = CreateDimSizeChannel, qr_replies = []\<rparr>"
    using query_starts[OF sample_query_setting] unfolding self sample_steps(2) by blast
  from running_notifications[OF run] h that[of "\<lparr>qr_world = w', qr_agg = Some a, qr_chan = CreateDimSizeChannel, qr_replies = []\<rparr>" a]
  show thesis by (auto simp: query_run_init_def)
qed

lemma sample_follow: "follow no_filters (w_view link_world) [(False, ''t'', [])] (SelfID query_context) = {''b''}"
proof -
  have "SelfID query_context = ''a''" by (simp add: query_context_def)
  then show ?thesis using sample_targets(1) by simp
qed

lemma query_started:
  "query_run_init E parse ctx w r \<Longrightarrow> reachable_from (query_run_init E parse ctx w) (query_run_step E parse ftOptions typename) r"
  by (rule reach_start)

lemma reachable_steps: "reachable_from init step r \<Longrightarrow> step\<^sup>*\<^sup>* r r' \<Longrightarrow> reachable_from init step r'"
  by (rotate_tac, induction rule: rtranclp_induct) (auto intro: reach_next)

lemma start_not_stranded: "qr_chan r = CreateDimSizeChannel \<Longrightarrow> \<not> (dim_stranded (qr_chan r) \<and> P)"
  by (simp add: dim_stranded_def CreateDimSizeChannel_def)

theorem query_answers_what_it_finds_witness:
  "\<exists>r x. reachable_from (query_run_init sample_env no_filters query_context link_world)
      (query_run_step sample_env no_filters (NewJSONObject sample_json) (SelfTypename query_context)) r \<and>
    qr_replies r = [x] \<and>
    (x = timeoutResult sample_json ''LLAPIQueryJPGQLDirectCacheResultAggregation evaluation timeout!'' \<or>
     answersObjects sample_json {''b''} x)"
proof -
  obtain r a v where "query_run_init sample_env no_filters query_context link_world r" and agg: "qr_agg r = Some a"
    and c: "qr_chan r = CreateDimSizeChannel" by (rule sample_start)
  note r = query_started[OF this(1), where ftOptions = "NewJSONObject sample_json" and typename = "SelfTypename query_context"]
  obtain r' x where
    r': "query_steps sample_env no_filters (NewJSONObject sample_json) (SelfTypename query_context) r r'" "qr_replies r' = [x]"
    using can_finish[OF sample_query_setting r agg start_not_stranded[OF c]] by (elim exE conjE)
  note reach = reachable_steps[OF r r'(1)]
  from query_answers_what_it_finds[OF sample_query_setting reach] r'(2)
  have "x = timeoutResult sample_json ''LLAPIQueryJPGQLDirectCacheResultAggregation evaluation timeout!'' \<or>
     answersObjects sample_json {''b''} x" unfolding sample_follow by simp
  with reach r'(2) show ?thesis by blast
qed

theorem query_can_finish_witness:
  "\<exists>r r' x. query_run_init sample_env no_filters query_context link_world r \<and>
    query_steps sample_env no_filters (NewJSONObject sample_json) (SelfTypename query_context) r r' \<and>
    qr_replies r' = [x] \<and> answersObjects sample_json {''b''} x"
proof -
  obtain r a v where r: "query_run_init sample_env no_filters query_context link_world r" "qr_agg r = Some a"
    and c: "qr_chan r = CreateDimSizeChannel" by (rule sample_start)
  note q = query_started[OF r(1), where ftOptions = "NewJSONObject sample_json" and typename = "SelfTypename query_context"]
  from query_can_finish[OF sample_query_setting q r(2) start_not_stranded[OF c]] r(1) show ?thesis
    unfolding sample_follow sample_env_sel(1) by (elim exE conjE) (intro exI conjI)
qed

text \<open>The channel can strand the first notification of a query.\<close>

theorem stranded_query_times_out_witness:
  "\<exists>r a. reachable_from (query_run_init sample_env no_filters query_context link_world)
      (query_run_step sample_env no_filters (NewJSONObject sample_json) (SelfTypename query_context)) r \<and>
    qr_agg r = Some a \<and> dim_stranded (qr_chan r) \<and>
    (\<forall>r'. query_run_step sample_env no_filters (NewJSONObject sample_json) (SelfTypename query_context) r r' \<longrightarrow>
       dim_stranded (qr_chan r') \<or> length (qr_replies r') = 1 \<or> notifications a r' \<noteq> notifications a r)"
proof -
  obtain r a v where r: "query_run_init sample_env no_filters query_context link_world r" "qr_agg r = Some a"
    and c: "qr_chan r = CreateDimSizeChannel" "notifications a r = Some [v]" by (rule sample_start)
  obtain d where d: "dim_feeds (channelSize r) [v] CreateDimSizeChannel d" "dim_stranded d" "sent d = [v]"
    using dim_start_strands[of "channelSize r" v] by (elim exE conjE)
  let ?r = "r\<lparr>qr_chan := d\<rparr>"
  have "dim_feeds (channelSize r) [v] (qr_chan r) d" using d(1) unfolding c(1) .
  from feed_steps[OF this r(2) c(2)]
  have "query_steps sample_env no_filters (NewJSONObject sample_json) (SelfTypename query_context) r ?r" .
  note reach = reachable_steps[OF query_started[OF r(1), where ftOptions = "NewJSONObject sample_json" and typename = "SelfTypename query_context"] this]
  have st: "qr_agg ?r = Some a" "dim_stranded (qr_chan ?r)" "notifications a ?r = Some (sent (qr_chan ?r))"
    using r(2) c(2) d(2,3) by (simp_all add: notifications_def)
  note out = stranded_query_times_out[OF sample_query_setting reach st]
  have "dim_stranded (qr_chan r') \<or> length (qr_replies r') = 1 \<or> notifications a r' \<noteq> notifications a ?r"
    if "query_run_step sample_env no_filters (NewJSONObject sample_json) (SelfTypename query_context) ?r r'" for r'
    using out[OF that] st(3) by auto
  with reach st(1,2) show ?thesis by blast
qed

end
