(* ===== verification/JPGTree.thy ===== *)
theory JPGTree
  imports JPGQuery
begin

text \<open>
  The queries with aggregation along the tree of calls,
  \<open>LLAPIQueryJPGQLCallTreeResultAggregation\<close> of \<open>embedded/graph/jpgql/jpgql.go\<close>.
  A process of a query keeps, in its function context, what it has found and how many answers of the
  processes it called are still to come; with the last one it answers its own caller. The root waits
  for the value that the process at its object leaves in the cache.
\<close>

section \<open>The state of one aggregation in the function context\<close>

definition resultField :: "string \<Rightarrow> string" where
  "resultField aggregationID = aggregationID @ ''_result''"

definition callbacksField :: "string \<Rightarrow> string" where
  "callbacksField aggregationID = aggregationID @ ''_callbacks''"

definition replyObjectField :: "string \<Rightarrow> string" where
  "replyObjectField aggregationID = aggregationID @ ''_reply_object_id''"

definition callerAggregationField :: "string \<Rightarrow> string" where
  "callerAggregationField aggregationID = aggregationID @ ''_caller_aggregation_id''"

definition callField :: "string \<Rightarrow> string" where
  "callField aggregationID = aggregationID @ ''_call''"

definition invalidPayload :: string where
  "invalidPayload = ''Error LLAPIQueryJPGQLCallTreeResultAggregation: invalid request: '' @ quoted ''jpgql_query'' @ '' and '' @ quoted ''result'' @ '' cannot be presented simultaneously''"

definition getState :: "'j easyjson \<Rightarrow> 'j \<Rightarrow> string + int" where
  "getState J payload =
     (if PathExists J payload ''jpgql_query'' then
        (if PathExists J payload ''result'' then Inl invalidPayload else Inr 0)
      else if PathExists J payload ''aggregation_id'' \<and> PathExists J payload ''result'' then
        (if PathExists J payload ''jpgql_query'' then Inl invalidPayload else Inr 1)
      else Inl (''Error LLAPIQueryJPGQLCallTreeResultAggregation: invalid request: either '' @ quoted ''jpgql_query'' @ '' or '' @ quoted ''result'' @ ''+'' @ quoted ''aggregation_id'' @ '' must exist in payload''))"

definition getQuery :: "'j easyjson \<Rightarrow> 'j \<Rightarrow> string + string" where
  "getQuery J payload =
     (case AsString J (GetByPath J payload ''jpgql_query'') of
        None \<Rightarrow> Inl (''Error LLAPIQueryJPGQLCallTreeResultAggregation: '' @ quoted ''jpgql_query'' @ '' must be a string with len>0'')
      | Some jpQuery \<Rightarrow>
          (if length jpQuery = 0
           then Inl (''Error LLAPIQueryJPGQLCallTreeResultAggregation: '' @ quoted ''jpgql_query'' @ '' must be a string with len>0'')
           else Inr jpQuery))"

definition registerAggregationID ::
  "('j, 'kv) env \<Rightarrow> 'j StatefunContextProcessor \<Rightarrow> string \<Rightarrow> string \<Rightarrow> 'j \<Rightarrow> (string \<times> bool) \<times> 'j" where
  "registerAggregationID E ctx queryID query context =
     (let J = ej E; aggregationID = md5hex E (queryID @ CHR ''_'' # query) in
      if PathExists J context (resultField aggregationID) then ((aggregationID, False), context)
      else
        (let callerAggregationID =
               (case AsString J (GetByPath J (Payload ctx) ''caller_aggregation_id'') of Some s \<Rightarrow> s | None \<Rightarrow> []);
             context = SetByPath J context (resultField aggregationID) (NewJSONObject J);
             context = SetByPath J context (callbacksField aggregationID) (NewJSONNumber J 0);
             context = SetByPath J context (replyObjectField aggregationID) (NewJSONString J (CallerID ctx));
             context = SetByPath J context (callerAggregationField aggregationID) (NewJSONString J callerAggregationID);
             call = GetByPath J (Payload ctx) ''call''
         in ((aggregationID, True),
             if IsObject J call then SetByPath J context (callField aggregationID) call else context)))"

definition unregisterAggregationQueryID :: "'j easyjson \<Rightarrow> string \<Rightarrow> 'j \<Rightarrow> 'j" where
  "unregisterAggregationQueryID J aggregationID context =
     (let context = RemoveByPath J context (resultField aggregationID);
          context = RemoveByPath J context (callbacksField aggregationID);
          context = RemoveByPath J context (replyObjectField aggregationID);
          context = RemoveByPath J context (callerAggregationField aggregationID)
      in RemoveByPath J context (callField aggregationID))"

section \<open>Answers to the caller\<close>

definition ctraReply :: "'j easyjson \<Rightarrow> string \<Rightarrow> string \<Rightarrow> 'j \<Rightarrow> 'j" where
  "ctraReply J queryID aggregationID result =
     SetByPath J (SetByPath J (SetByPath J (NewJSONObject J) ''query_id'' (NewJSONString J queryID))
       ''aggregation_id'' (NewJSONString J aggregationID)) ''result'' result"

text \<open>The calls on the objects that the whole query has found.\<close>

definition callOnTargets ::
  "('j, 'kv) env \<Rightarrow> 'j StatefunContextProcessor \<Rightarrow> 'j \<Rightarrow> 'j \<Rightarrow> ('j, 'kv) world \<Rightarrow> ('j, 'kv) world" where
  "callOnTargets E ctx call replyPayload w =
     (let J = ej E in
      if IsObject J call then
        (case AsString J (GetByPath J call ''typename'') of
           Some typename \<Rightarrow>
             (let callPayload = GetByPath J call ''payload'' in
              if IsObject J callPayload then
                (case AsObject J (GetByPath J replyPayload ''result'') of
                   Some resultObjectsMap \<Rightarrow>
                     fold (\<lambda>(objectID, _). signalSelf J ctx typename objectID callPayload) (mapEntries E resultObjectsMap) w
                 | None \<Rightarrow> w)
              else w)
         | None \<Rightarrow> w)
      else w)"

text \<open>The result of the query is left in the cache only, not in the key/value store.\<close>

definition wSetInCache :: "('j, 'kv) env \<Rightarrow> string \<Rightarrow> bytes \<Rightarrow> ('j, 'kv) world \<Rightarrow> ('j, 'kv) world" where
  "wSetInCache E key v w = w\<lparr>w_cache := snd (SetValue E key v False (-1) [] (w_cache w))\<rparr>"

definition ctraKeyBase :: "string \<Rightarrow> string \<Rightarrow> string" where
  "ctraKeyBase objectID processID = ''jpgql_ctra.'' @ objectID @ CHR ''.'' # processID"

definition replyCaller ::
  "('j, 'kv) env \<Rightarrow> 'j StatefunContextProcessor \<Rightarrow> string \<Rightarrow> string \<Rightarrow> 'j \<Rightarrow> 'j \<Rightarrow> ('j, 'kv) world \<Rightarrow>
    (string + 'j) \<times> ('j, 'kv) world" where
  "replyCaller E ctx thisObjectID thisFunctionAggregationID replyPayload context w =
     (let J = ej E in
      case AsString J (GetByPath J context (replyObjectField thisFunctionAggregationID)) of
        None \<Rightarrow> (Inl ''Error LLAPIQueryJPGQLCallTreeResultAggregation: no valid reply_object_id'', w)
      | Some replyObjectID \<Rightarrow>
         (Inr (unregisterAggregationQueryID J thisFunctionAggregationID context),
          if 0 < length replyObjectID \<and> count_str replyObjectID ''==='' = 1 then
            signalSelf J ctx (SelfTypename ctx) replyObjectID replyPayload w
          else
            (let w = (if PathExists J context (callField thisFunctionAggregationID)
                      then callOnTargets E ctx (GetByPath J context (callField thisFunctionAggregationID)) replyPayload w
                      else w);
                 result = SetByPath J (SetByPath J (NewJSONObject J) ''status'' (NewJSONString J ''ok''))
                            ''result'' (GetByPath J replyPayload ''result'');
                 callerAggregationID =
                   (case AsString J (GetByPath J replyPayload ''aggregation_id'') of Some s \<Rightarrow> s | None \<Rightarrow> [])
             in wSetInCache E (levelKey (ctraKeyBase thisObjectID callerAggregationID) ''result'') (ToBytes J result) w)))"

definition replyCallerPreventSameQueryCall ::
  "'j easyjson \<Rightarrow> 'j StatefunContextProcessor \<Rightarrow> string \<Rightarrow> string \<Rightarrow> ('j, 'kv) world \<Rightarrow> string option \<times> ('j, 'kv) world" where
  "replyCallerPreventSameQueryCall J ctx queryID thisObjectID w =
     (case AsString J (GetByPath J (Payload ctx) ''caller_aggregation_id'') of
        Some callerAggregationID \<Rightarrow>
          (None,
           if count_str (CallerID ctx) ''==='' = 1
           then signalSelf J ctx (SelfTypename ctx) (CallerID ctx) (ctraReply J queryID callerAggregationID (NewJSONObject J)) w
           else w)
      | None \<Rightarrow> (Some (''ERROR replyCallerLoopPrevent: callerAggregationID does not exist for object_id='' @ thisObjectID), w))"

section \<open>A query from the caller\<close>

definition ctraPayload :: "'j easyjson \<Rightarrow> string \<Rightarrow> string \<Rightarrow> string \<Rightarrow> 'j" where
  "ctraPayload J queryID callerAggregationID query =
     SetByPath J (SetByPath J (SetByPath J (NewJSONObject J) ''query_id'' (NewJSONString J queryID))
       ''caller_aggregation_id'' (NewJSONString J callerAggregationID)) ''jpgql_query'' (NewJSONString J query)"

text \<open>The objects where the query ends are results; the others get the rest of the query.\<close>

fun ctraSteps ::
  "'j easyjson \<Rightarrow> 'j StatefunContextProcessor \<Rightarrow> string \<Rightarrow> string \<Rightarrow> string \<Rightarrow> string \<Rightarrow> AnyDepthStop option \<Rightarrow>
    (string \<times> nat) list \<Rightarrow> (string \<times> bool) list \<Rightarrow> nat \<Rightarrow> ('j, 'kv) world \<Rightarrow>
    ((string \<times> bool) list \<times> nat) \<times> ('j, 'kv) world" where
  "ctraSteps J ctx queryID processID aggregationID queryTail anyDepthStop [] found nextCalls w = ((found, nextCalls), w)"
| "ctraSteps J ctx queryID processID aggregationID queryTail anyDepthStop ((objectID, anyDepthStopped) # objects) found nextCalls w =
     (let nextQuery = (case anyDepthStop of
            Some stop \<Rightarrow> (if anyDepthStopped = 1 then ads_QueryTail stop else queryTail)
          | None \<Rightarrow> queryTail)
      in if length nextQuery = 0 then
           ctraSteps J ctx queryID processID aggregationID queryTail anyDepthStop objects
             (AList.update objectID True found) nextCalls w
         else
           ctraSteps J ctx queryID processID aggregationID queryTail anyDepthStop objects found (Suc nextCalls)
             (signalSelf J ctx (SelfTypename ctx) (objectID @ ''==='' @ processID)
                (ctraPayload J queryID aggregationID nextQuery) w))"

definition NewJSONBools :: "'j easyjson \<Rightarrow> (string \<times> bool) list \<Rightarrow> 'j" where
  "NewJSONBools J m = NewJSONMap J (map (\<lambda>(k, b). (k, NewJSONBool J b)) m)"

text \<open>An early return of the handler is \<open>Fails\<close>: the context that was read is then not
  written back. \<open>Returns\<close> gives the context to write.\<close>

definition ctraQuery ::
  "('j, 'kv) env \<Rightarrow> filterParser \<Rightarrow> 'j StatefunContextProcessor \<Rightarrow> string \<Rightarrow> string \<Rightarrow> string \<Rightarrow> 'j \<Rightarrow> ('j, 'kv) world \<Rightarrow>
    'j goResult \<times> ('j, 'kv) world" where
  "ctraQuery E parse ctx thisObjectID processID queryID context w =
     (let J = ej E in
      case getQuery J (Payload ctx) of
        Inl err \<Rightarrow> (Fails err, w)
      | Inr currentObjectLinksQuery \<Rightarrow>
         (case registerAggregationID E ctx queryID currentObjectLinksQuery context of
            ((aggregationID, uniqueParentAndQuery), context) \<Rightarrow>
         (case AsString J (GetByPath J context (callerAggregationField aggregationID)) of
            None \<Rightarrow> (Fails (''LLAPIQueryJPGQLCallTreeResultAggregation: no valid caller_aggregation_id on state=0 for object_id='' @ thisObjectID), w)
          | Some callerAggregationID \<Rightarrow>
             (if \<not> uniqueParentAndQuery then
                (case replyCallerPreventSameQueryCall J ctx queryID thisObjectID w of
                   (Some err, w) \<Rightarrow> (Fails err, w)
                 | (None, w) \<Rightarrow> (Returns context, w))
              else
                (case GetQueryHeadAndTailsParts currentObjectLinksQuery of
                   Panics \<Rightarrow> (Panics, w)
                 | Fails err \<Rightarrow> (Fails (''LLAPIQueryJPGQLCallTreeResultAggregation: currentObjectLinksQuery is invalid: '' @ err), w)
                 | Returns (queryHeadLinkType, queryHeadFilter, queryTail, anyDepthStop) \<Rightarrow>
                    (case GetObjectIDsFromLinkTypeAndLinkFilterQueryWithAnyDepthStop E parse thisObjectID
                            queryHeadLinkType queryHeadFilter anyDepthStop w of
                       (Returns resultObjects, w) \<Rightarrow>
                         (let reply = (\<lambda>result context w.
                                case replyCaller E ctx thisObjectID aggregationID
                                       (ctraReply J queryID callerAggregationID result) context w of
                                  (Inl err, w) \<Rightarrow> (Fails err, w)
                                | (Inr context, w) \<Rightarrow> (Returns context, w)) in
                          if length resultObjects = 0 then reply (NewJSONObject J) context w
                          else
                            (case ctraSteps J ctx queryID processID aggregationID queryTail anyDepthStop
                                    (mapEntries E resultObjects) [] 0 w of
                               ((found, nextCalls), w) \<Rightarrow>
                                 (let immediate = NewJSONBools J found;
                                      context = SetByPath J context (resultField aggregationID) immediate
                                  in if nextCalls = 0 then reply immediate context w
                                     else (Returns (SetByPath J context (callbacksField aggregationID)
                                             (NewJSONNumber J (int nextCalls))), w))))
                     | (_, w) \<Rightarrow> (Panics, w)))))))"

section \<open>The result of a process that was called\<close>

definition ctraAggregate ::
  "('j, 'kv) env \<Rightarrow> 'j StatefunContextProcessor \<Rightarrow> string \<Rightarrow> string \<Rightarrow> 'j \<Rightarrow> ('j, 'kv) world \<Rightarrow>
    'j goResult \<times> ('j, 'kv) world" where
  "ctraAggregate E ctx thisObjectID queryID context w =
     (let J = ej E in
      case AsString J (GetByPath J (Payload ctx) ''aggregation_id'') of
        None \<Rightarrow> (Fails (''LLAPIQueryJPGQLCallTreeResultAggregation: '' @ quoted ''aggregationID'' @ '' must be a string''), w)
      | Some aggregationID \<Rightarrow>
     (case AsObject J (GetByPath J (Payload ctx) ''result'') of
        None \<Rightarrow> (Fails (''LLAPIQueryJPGQLCallTreeResultAggregation: '' @ quoted ''result'' @ '' must be a string array''), w)
      | Some result \<Rightarrow>
     (case AsNumeric J (GetByPath J context (callbacksField aggregationID)) of
        None \<Rightarrow> (Fails (''LLAPIQueryJPGQLCallTreeResultAggregation: no valid callbacks counter for result aggregation for object_id='' @ thisObjectID), w)
      | Some stored \<Rightarrow>
         (if stored < 0
          then (Fails (''LLAPIQueryJPGQLCallTreeResultAggregation: no valid callbacks counter for result aggregation for object_id='' @ thisObjectID), w)
          else
            (let callbacks = stored - 1;
                 totalResult = (case AsObject J (GetByPath J context (resultField aggregationID)) of Some m \<Rightarrow> m | None \<Rightarrow> []);
                 totalResult = MapsUnion totalResult result;
                 context = SetByPath J context (resultField aggregationID) (NewJSONMap J totalResult);
                 context = SetByPath J context (callbacksField aggregationID) (NewJSONNumber J callbacks)
             in if callbacks = 0 then
                  (case AsString J (GetByPath J context (callerAggregationField aggregationID)) of
                     None \<Rightarrow> (Fails (''LLAPIQueryJPGQLCallTreeResultAggregation: no valid caller_aggregation_id on state=1 for object_id='' @ thisObjectID), w)
                   | Some callerAggregationID \<Rightarrow>
                      (case replyCaller E ctx thisObjectID aggregationID
                              (ctraReply J queryID callerAggregationID (NewJSONMap J totalResult)) context w of
                         (Inl err, w) \<Rightarrow> (Fails err, w)
                       | (Inr context, w) \<Rightarrow> (Returns context, w)))
                else (Returns context, w))))))"

section \<open>The handler\<close>

definition ctraDescendant ::
  "('j, 'kv) env \<Rightarrow> filterParser \<Rightarrow> 'j StatefunContextProcessor \<Rightarrow> 'j \<Rightarrow> ('j, 'kv) world \<Rightarrow>
    'j goResult \<times> ('j, 'kv) world" where
  "ctraDescendant E parse ctx context w =
     (let J = ej E; idTokens = split_str ''==='' (SelfID ctx) in
      if length idTokens \<noteq> 2
      then (Fails ''LLAPIQueryJPGQLCallTreeResultAggregation: contextProcessor.Self.ID for descendant must be composite according to the following format: <object_id>===<process_id>'', w)
      else
        (case AsString J (GetByPath J (Payload ctx) ''query_id'') of
           None \<Rightarrow> (Fails (''LLAPIQueryJPGQLCallTreeResultAggregation: this function was called by another LLAPIQueryJPGQLCallTreeResultAggregation - '' @ quoted ''query_id'' @ '' must exist''), w)
         | Some queryID \<Rightarrow>
            (case getState J (Payload ctx) of
               Inl err \<Rightarrow> (Fails err, w)
             | Inr state \<Rightarrow>
                (if state = 0 then ctraQuery E parse ctx (idTokens ! 0) (idTokens ! 1) queryID context w
                 else ctraAggregate E ctx (idTokens ! 0) queryID context w))))"

record 'j ctra =
  ct_context :: "'j StatefunContextProcessor"
  ct_queryID :: string
  ct_processID :: string
  ct_timeoutSec :: int
  ct_startedEvaluating :: int

definition ctraLevel :: "'j ctra \<Rightarrow> string" where
  "ctraLevel a = levelKey (ctraKeyBase (SelfID (ct_context a)) (ct_processID a)) ''*''"

definition ctraRoot ::
  "('j, 'kv) env \<Rightarrow> 'j StatefunContextProcessor \<Rightarrow> ('j, 'kv) world \<Rightarrow> 'j ctra \<times> ('j, 'kv) world" where
  "ctraRoot E ctx w =
     (case GetQueryID E ctx w of (queryID, w) \<Rightarrow>
      case GetUniqueStrID E w of (processID, w) \<Rightarrow>
        (let J = ej E;
             payload = SetByPath J (SetByPath J (Payload ctx) ''caller_aggregation_id'' (NewJSONString J processID))
                         ''query_id'' (NewJSONString J queryID);
             ctx = ctx\<lparr>Payload := payload\<rparr>;
             w = signalSelf J ctx (SelfTypename ctx) (SelfID ctx @ ''==='' @ processID) payload w;
             w = wSubscribe E (levelKey (ctraKeyBase (SelfID ctx) processID) ''*'') processID w
         in case wNow E w of (started, w) \<Rightarrow>
              (\<lparr>ct_context = ctx, ct_queryID = queryID, ct_processID = processID,
                ct_timeoutSec = evalTimeoutSec J ctx, ct_startedEvaluating = started\<rparr>, w)))"

definition LLAPIQueryJPGQLCallTreeResultAggregation ::
  "('j, 'kv) env \<Rightarrow> filterParser \<Rightarrow> 'j StatefunContextProcessor \<Rightarrow> ('j, 'kv) world \<Rightarrow>
    'j ctra option goResult \<times> ('j, 'kv) world" where
  "LLAPIQueryJPGQLCallTreeResultAggregation E parse ctx w =
     (let c = count_str (SelfID ctx) ''==='' in
      if c > 1 then (Returns None, w)
      else
        (case GetFunctionContext E ctx w of (context, w) \<Rightarrow>
           if c = 0 then map_prod (\<lambda>a. Returns (Some a)) id (ctraRoot E ctx w)
           else
             (case ctraDescendant E parse ctx context w of
                (Panics, w) \<Rightarrow> (Panics, w)
              | (Fails err, w) \<Rightarrow> (Returns None, w)
              | (Returns context, w) \<Rightarrow> (Returns None, SetFunctionContext E ctx context w))))"

section \<open>The goroutine that waits for the result\<close>

definition ctraNotified ::
  "('j, 'kv) env \<Rightarrow> string \<times> bytes option \<Rightarrow> 'j ctra \<Rightarrow> ('j, 'kv) world \<Rightarrow>
    ('j ctra aggregation \<times> 'j option) \<times> ('j, 'kv) world" where
  "ctraNotified E kv a w =
     (case kv of
        (key, None) \<Rightarrow> ((Continues a, None), w)
      | (key, Some v) \<Rightarrow>
         (if key = ''result'' then
            (case JSONFromBytes (ej E) v of
               Some result \<Rightarrow>
                 (case ReplyQueryID E (ct_queryID a) result (ct_context a)
                         (wUnsubscribe E (ctraLevel a) (ct_processID a) w) of
                    (reply, w) \<Rightarrow> ((Replied, reply), w))
             | None \<Rightarrow> ((Continues a, None), w))
          else ((Continues a, None), w)))"

definition ctraTick ::
  "('j, 'kv) env \<Rightarrow> 'j ctra \<Rightarrow> ('j, 'kv) world \<Rightarrow> ('j ctra aggregation \<times> 'j option) \<times> ('j, 'kv) world" where
  "ctraTick E a w =
     (case wNow E w of (now, w) \<Rightarrow>
        (if timedOut (ct_startedEvaluating a) (ct_timeoutSec a) now then
           (case ReplyQueryID E (ct_queryID a)
                   (timeoutResult (ej E) ''LLAPIQueryJPGQLCallTreeResultAggregation evaluation timeout!'') (ct_context a)
                   (wUnsubscribe E (ctraLevel a) (ct_processID a) w) of
              (reply, w) \<Rightarrow> ((Replied, reply), w))
         else ((Continues a, None), w)))"

end
