(* ===== verification/JPGTreeProps.thy ===== *)
theory JPGTreeProps
  imports JPGTree JPGProcess JPGPaths
begin

text \<open>
  The protocol of a process of a query with aggregation along the tree of calls: it asks each of the
  next objects once, counts their answers and answers its caller once, when the last one is in, with
  all that it and they have found.
\<close>

section \<open>Answers\<close>

text \<open>A JSON object whose keys are the objects found.\<close>

definition carries :: "'j easyjson \<Rightarrow> string set \<Rightarrow> 'j \<Rightarrow> bool" where
  "carries J S j \<longleftrightarrow> (\<exists>m. AsObject J j = Some m \<and> fst ` set m = S)"

definition ctraAnswers :: "'j easyjson \<Rightarrow> string \<Rightarrow> string \<Rightarrow> string set \<Rightarrow> 'j \<Rightarrow> bool" where
  "ctraAnswers J queryID aggregationID S p \<longleftrightarrow> (\<exists>res. p = ctraReply J queryID aggregationID res \<and> carries J S res)"

definition selfMsg :: "'j easyjson \<Rightarrow> string \<Rightarrow> string \<Rightarrow> string \<Rightarrow> 'j \<Rightarrow> string \<times> bytes" where
  "selfMsg J typename self target payload =
     (typename @ CHR ''.'' # target, buildNatsData J typename self (Some payload) None)"

lemma published_signalSelf [simp]:
  "published (signalSelf J ctx (SelfTypename ctx) target p w) =
     published w @ [selfMsg J (SelfTypename ctx) (SelfID ctx) target p]"
  by (simp add: signalSelf_def signal_def selfMsg_def)

lemma view_signalSelf [simp]:
  "w_view (signalSelf J ctx tn target p w) = w_view w" "w_ok E (signalSelf J ctx tn target p w) = w_ok E w"
  by (simp_all add: signalSelf_def signal_def)

lemma carries_new: "easyjson_ok J \<Longrightarrow> carries J {} (NewJSONObject J)"
  by (simp add: carries_def ej_new_members)

lemma carries_map:
  assumes "easyjson_ok J" and "distinct (map fst m)"
  shows "carries J (fst ` set m) (NewJSONMap J m)"
proof -
  from ej_map_members[OF assms] obtain m' where m': "AsObject J (NewJSONMap J m) = Some m'" "map_of m' = map_of m" by blast
  then have "fst ` set m' = fst ` set m" using dom_map_of_conv_image_fst[of m'] dom_map_of_conv_image_fst[of m] by simp
  with m'(1) show ?thesis unfolding carries_def by blast
qed

lemma carries_bools:
  assumes "easyjson_ok J" and "distinct (map fst m)"
  shows "carries J (fst ` set m) (NewJSONBools J m)"
proof -
  let ?m = "map (\<lambda>(k, b). (k, NewJSONBool J b)) m"
  have keys: "map fst ?m = map fst m" by (induction m) auto
  then have "fst ` set ?m = fst ` set m" using list.set_map[of fst ?m] list.set_map[of fst m] by simp
  with carries_map[OF assms(1), of ?m] assms(2) show ?thesis unfolding NewJSONBools_def keys by (simp only:)
qed

lemma MapsUnion_keys: "fst ` set (MapsUnion m1 m2) = fst ` set m1 \<union> fst ` set m2"
proof -
  have "fst ` set (foldl (\<lambda>m (k, v). AList.update k v m) acc l) = fst ` set acc \<union> fst ` set l" for acc l :: "(string \<times> 'a) list"
    by (induction l arbitrary: acc) (auto simp: dom_update[unfolded dom_map_of_conv_image_fst] simp flip: dom_map_of_conv_image_fst)
  then show ?thesis by (simp add: MapsUnion_def)
qed

section \<open>The fields of an aggregation\<close>

lemma field_paths:
  assumes "dot_free agg"
  shows "simple_path (resultField agg)" "simple_path (callbacksField agg)" "simple_path (replyObjectField agg)"
    "simple_path (callerAggregationField agg)" "simple_path (callField agg)"
  using assms by (simp_all add: simple_path_def dot_free_def resultField_def callbacksField_def replyObjectField_def
      callerAggregationField_def callField_def)

lemma fields_apart [simp]:
  "resultField agg \<noteq> callbacksField agg" "resultField agg \<noteq> replyObjectField agg" "resultField agg \<noteq> callerAggregationField agg" "resultField agg \<noteq> callField agg"
  "callbacksField agg \<noteq> resultField agg" "callbacksField agg \<noteq> replyObjectField agg" "callbacksField agg \<noteq> callerAggregationField agg" "callbacksField agg \<noteq> callField agg"
  "replyObjectField agg \<noteq> resultField agg" "replyObjectField agg \<noteq> callbacksField agg" "replyObjectField agg \<noteq> callerAggregationField agg" "replyObjectField agg \<noteq> callField agg"
  "callerAggregationField agg \<noteq> resultField agg" "callerAggregationField agg \<noteq> callbacksField agg" "callerAggregationField agg \<noteq> replyObjectField agg" "callerAggregationField agg \<noteq> callField agg"
  "callField agg \<noteq> resultField agg" "callField agg \<noteq> callbacksField agg" "callField agg \<noteq> replyObjectField agg" "callField agg \<noteq> callerAggregationField agg"
  by (simp_all add: resultField_def callbacksField_def replyObjectField_def callerAggregationField_def callField_def)

lemma ctra_paths: "simple_path ''query_id''" "simple_path ''aggregation_id''" "simple_path ''result''" "simple_path ''jpgql_query''"
  "simple_path ''caller_aggregation_id''"
  by (simp_all add: simple_path_def dot_free_def)

lemma ctraReply_fields:
  assumes J: "easyjson_ok J"
  shows "AsString J (GetByPath J (ctraReply J q agg res) ''query_id'') = Some q"
    and "AsString J (GetByPath J (ctraReply J q agg res) ''aggregation_id'') = Some agg"
    and "GetByPath J (ctraReply J q agg res) ''result'' = res"
    and "getState J (ctraReply J q agg res) = Inr 1"
  unfolding ctraReply_def getState_def
  by (simp_all add: ej_get_set[OF J] ej_get_other[OF J] ej_exists_set[OF J] ej_exists_new[OF J] ej_obj_set[OF J] ej_obj_new[OF J]
      ej_str[OF J] ctra_paths)

text \<open>The context of a process with an aggregation that waits for \<open>n\<close> answers.\<close>

definition awaiting :: "'j easyjson \<Rightarrow> string \<Rightarrow> string \<Rightarrow> string \<Rightarrow> nat \<Rightarrow> string set \<Rightarrow> 'j \<Rightarrow> bool" where
  "awaiting J agg replyTo callerAgg n S c \<longleftrightarrow> IsObject J c \<and>
     AsNumeric J (GetByPath J c (callbacksField agg)) = Some (int n) \<and> carries J S (GetByPath J c (resultField agg)) \<and>
     AsString J (GetByPath J c (replyObjectField agg)) = Some replyTo \<and>
     AsString J (GetByPath J c (callerAggregationField agg)) = Some callerAgg"

lemma composite_not_Nil: "count_str s ''==='' = 1 \<Longrightarrow> s \<noteq> []"
  unfolding count_str_def by (rule notI, simp only:, subst (asm) split_str.simps, simp)

section \<open>One answer\<close>

text \<open>The answer of a process to the process that called it.\<close>

lemma reply_to_process:
  assumes "awaiting (ej E) agg replyTo ca n S c" and "count_str replyTo ''==='' = 1"
  shows "replyCaller E ctx A agg p c w =
    (Inr (unregisterAggregationQueryID (ej E) agg c), signalSelf (ej E) ctx (SelfTypename ctx) replyTo p w)"
proof -
  from composite_not_Nil[OF assms(2)] assms show ?thesis by (simp add: replyCaller_def awaiting_def Let_def)
qed

lemma aggregate_answer:
  fixes ctx :: "'j StatefunContextProcessor"
  assumes J: "easyjson_ok (ej E)" and agg: "dot_free agg" and r: "count_str replyTo ''==='' = 1"
    and c: "awaiting (ej E) agg replyTo callerAgg (Suc n) S c" and p: "ctraAnswers (ej E) q agg R (Payload ctx)"
  shows "n \<noteq> 0 \<Longrightarrow> \<exists>c'. ctraAggregate E ctx A q c w = (Returns c', w) \<and> awaiting (ej E) agg replyTo callerAgg n (S \<union> R) c'"
    and "n = 0 \<Longrightarrow> \<exists>c' p. ctraAggregate E ctx A q c w = (Returns c', signalSelf (ej E) ctx (SelfTypename ctx) replyTo p w) \<and>
      ctraAnswers (ej E) q callerAgg (S \<union> R) p"
proof -
  obtain res m where res: "Payload ctx = ctraReply (ej E) q agg res" "AsObject (ej E) res = Some m" "fst ` set m = R"
    using p by (auto simp: ctraAnswers_def carries_def)
  obtain acc where acc: "AsObject (ej E) (GetByPath (ej E) c (resultField agg)) = Some acc" "fst ` set acc = S"
    using c by (auto simp: awaiting_def carries_def)
  define total where "total = NewJSONMap (ej E) (MapsUnion acc m)"
  define c' where "c' = SetByPath (ej E) (SetByPath (ej E) c (resultField agg) total) (callbacksField agg) (NewJSONNumber (ej E) (int n))"
  have total: "carries (ej E) (S \<union> R) total"
    unfolding total_def using carries_map[OF J MapsUnion_distinct, of acc m] by (simp add: MapsUnion_keys acc(2) res(3))
  have c': "awaiting (ej E) agg replyTo callerAgg n (S \<union> R) c'"
    using c total unfolding awaiting_def c'_def
    by (simp add: ej_get_set[OF J] ej_get_other[OF J] ej_obj_set[OF J] ej_num[OF J] field_paths[OF agg])
  note payload = ctraReply_fields(2,3)[OF J, of q agg res, folded res(1)]
  have num: "AsNumeric (ej E) (GetByPath (ej E) c (callbacksField agg)) = Some (1 + int n)" using c by (simp add: awaiting_def)
  show "\<exists>c'. ctraAggregate E ctx A q c w = (Returns c', w) \<and> awaiting (ej E) agg replyTo callerAgg n (S \<union> R) c'" if "n \<noteq> 0"
  proof -
    have "ctraAggregate E ctx A q c w = (Returns c', w)"
      using that unfolding ctraAggregate_def Let_def c'_def total_def by (simp add: payload res(2) num acc(1))
    with c' show ?thesis by blast
  qed
  assume n: "n = 0"
  have f: "AsString (ej E) (GetByPath (ej E) c' (callerAggregationField agg)) = Some callerAgg" using c' by (simp add: awaiting_def)
  note reply_to_process[OF c' r, of ctx A _ w]
  with f have "ctraAggregate E ctx A q c w = (Returns (unregisterAggregationQueryID (ej E) agg c'),
      signalSelf (ej E) ctx (SelfTypename ctx) replyTo (ctraReply (ej E) q callerAgg total) w)"
    using n unfolding ctraAggregate_def Let_def c'_def total_def by (simp add: payload res(2) num acc(1))
  moreover have "ctraAnswers (ej E) q callerAgg (S \<union> R) (ctraReply (ej E) q callerAgg total)"
    unfolding ctraAnswers_def using total by blast
  ultimately show "\<exists>c' p. ctraAggregate E ctx A q c w = (Returns c', signalSelf (ej E) ctx (SelfTypename ctx) replyTo p w) \<and>
      ctraAnswers (ej E) q callerAgg (S \<union> R) p" by blast
qed

section \<open>The handler\<close>

definition contextKey :: "'j StatefunContextProcessor \<Rightarrow> string" where
  "contextKey ctx = SelfTypename ctx @ CHR ''.'' # SelfID ctx"

definition hasContext :: "('j, 'kv) env \<Rightarrow> 'j StatefunContextProcessor \<Rightarrow> ('j, 'kv) world \<Rightarrow> 'j \<Rightarrow> bool" where
  "hasContext E ctx w c \<longleftrightarrow> w_ok E w \<and> w_view w (contextKey ctx) = Some (ToBytes (ej E) c)"

lemma get_context:
  assumes "easyjson_ok (ej E)" and "hasContext E ctx w c"
  shows "GetFunctionContext E ctx w = (c, w)"
  using assms wGetValueAsJSON_cases[of E w "contextKey ctx"]
  by (auto simp: GetFunctionContext_def getContext_def hasContext_def contextKey_def ej_bytes[OF assms(1)])

lemma set_context:
  assumes "w_ok E w" and "valid_key (contextKey ctx)"
  shows "hasContext E ctx (SetFunctionContext E ctx c w) c"
    and "published (SetFunctionContext E ctx c w) = published w"
proof -
  have "contextKey ctx \<noteq> []" by (simp add: contextKey_def)
  then show "hasContext E ctx (SetFunctionContext E ctx c w) c"
    using world.put_ok[OF assms(1)] world.put_view[OF assms]
    by (simp add: hasContext_def SetFunctionContext_def setContext_def contextKey_def)
  show "published (SetFunctionContext E ctx c w) = published w"
    by (simp add: SetFunctionContext_def setContext_def wSetValue_def)
qed

lemma handler_descendant:
  assumes J: "easyjson_ok (ej E)" and self: "split_str ''==='' (SelfID ctx) = [A, P]"
    and q: "AsString (ej E) (GetByPath (ej E) (Payload ctx) ''query_id'') = Some q"
    and ctx: "GetFunctionContext E ctx w = (c, w)"
  shows "getState (ej E) (Payload ctx) = Inr 1 \<Longrightarrow> ctraAggregate E ctx A q c w = (Returns c', w') \<Longrightarrow>
      LLAPIQueryJPGQLCallTreeResultAggregation E parse ctx w = (Returns None, SetFunctionContext E ctx c' w')"
    and "getState (ej E) (Payload ctx) = Inr 0 \<Longrightarrow> ctraQuery E parse ctx A P q c w = (Returns c', w') \<Longrightarrow>
      LLAPIQueryJPGQLCallTreeResultAggregation E parse ctx w = (Returns None, SetFunctionContext E ctx c' w')"
  using assms by (simp_all add: LLAPIQueryJPGQLCallTreeResultAggregation_def count_str_def ctraDescendant_def)

lemma handler_answer:
  assumes J: "easyjson_ok (ej E)" and agg: "dot_free agg" and r: "count_str replyTo ''==='' = 1"
    and self: "split_str ''==='' (SelfID ctx) = [A, P]" and key: "valid_key (contextKey ctx)"
    and w: "hasContext E ctx w c" "awaiting (ej E) agg replyTo callerAgg (Suc n) S c" and p: "ctraAnswers (ej E) q agg R (Payload ctx)"
  shows "n \<noteq> 0 \<Longrightarrow> \<exists>w' c'. LLAPIQueryJPGQLCallTreeResultAggregation E parse ctx w = (Returns None, w') \<and>
      hasContext E ctx w' c' \<and> awaiting (ej E) agg replyTo callerAgg n (S \<union> R) c' \<and> published w' = published w"
    and "n = 0 \<Longrightarrow> \<exists>w' p. LLAPIQueryJPGQLCallTreeResultAggregation E parse ctx w = (Returns None, w') \<and>
      published w' = published w @ [selfMsg (ej E) (SelfTypename ctx) (SelfID ctx) replyTo p] \<and> ctraAnswers (ej E) q callerAgg (S \<union> R) p"
proof -
  have "AsString (ej E) (GetByPath (ej E) (Payload ctx) ''query_id'') = Some q" "getState (ej E) (Payload ctx) = Inr 1"
    using p ctraReply_fields(1,4)[OF J] by (auto simp: ctraAnswers_def)
  note h = handler_descendant(1)[OF J self this(1) get_context[OF J w(1)] this(2)]
  have ok: "w_ok E w" using w(1) by (simp add: hasContext_def)
  note a = aggregate_answer[OF J agg r w(2) p, of A w]
  show "\<exists>w' c'. LLAPIQueryJPGQLCallTreeResultAggregation E parse ctx w = (Returns None, w') \<and>
      hasContext E ctx w' c' \<and> awaiting (ej E) agg replyTo callerAgg n (S \<union> R) c' \<and> published w' = published w" if "n \<noteq> 0"
    using a(1)[OF that] h set_context[OF ok key] by blast
  show "\<exists>w' p. LLAPIQueryJPGQLCallTreeResultAggregation E parse ctx w = (Returns None, w') \<and>
      published w' = published w @ [selfMsg (ej E) (SelfTypename ctx) (SelfID ctx) replyTo p] \<and> ctraAnswers (ej E) q callerAgg (S \<union> R) p"
    if n: "n = 0"
  proof -
    obtain c' p where cp: "ctraAggregate E ctx A q c w = (Returns c', signalSelf (ej E) ctx (SelfTypename ctx) replyTo p w)"
      "ctraAnswers (ej E) q callerAgg (S \<union> R) p" using a(2)[OF n] by blast
    let ?w = "signalSelf (ej E) ctx (SelfTypename ctx) replyTo p w"
    have "w_ok E ?w" using ok by simp
    from set_context(2)[OF this key, of c'] show ?thesis using h[OF cp(1)] cp(2) by auto
  qed
qed

section \<open>A sequence of answers\<close>

text \<open>The handler runs for one message after the other.\<close>

fun ctraRuns ::
  "('j, 'kv) env \<Rightarrow> filterParser \<Rightarrow> 'j StatefunContextProcessor list \<Rightarrow> ('j, 'kv) world \<Rightarrow> ('j, 'kv) world option" where
  "ctraRuns E parse [] w = Some w"
| "ctraRuns E parse (ctx # ctxs) w =
     (case LLAPIQueryJPGQLCallTreeResultAggregation E parse ctx w of
        (Returns _, w) \<Rightarrow> ctraRuns E parse ctxs w
      | _ \<Rightarrow> None)"

text \<open>Answers to one process: the messages of the query for it with the results \<open>Rs\<close>.\<close>

definition answering :: "'j easyjson \<Rightarrow> string \<Rightarrow> string \<Rightarrow> string \<Rightarrow> string \<Rightarrow> 'j StatefunContextProcessor \<Rightarrow> string set \<Rightarrow> bool" where
  "answering J typename self queryID agg ctx R \<longleftrightarrow>
     SelfTypename ctx = typename \<and> SelfID ctx = self \<and> ctraAnswers J queryID agg R (Payload ctx)"

lemma ctraRuns_answers:
  assumes J: "easyjson_ok (ej E)" and agg: "dot_free agg" and r: "count_str replyTo ''==='' = 1"
    and self: "split_str ''==='' self = [A, P]" and key: "valid_key (typename @ CHR ''.'' # self)"
  shows "list_all2 (answering (ej E) typename self q agg) ctxs Rs \<Longrightarrow> ctxs \<noteq> [] \<Longrightarrow>
    w_ok E w \<Longrightarrow> w_view w (typename @ CHR ''.'' # self) = Some (ToBytes (ej E) c) \<Longrightarrow>
    awaiting (ej E) agg replyTo callerAgg (length ctxs) S c \<Longrightarrow>
    (\<forall>n<length ctxs. \<exists>w'. ctraRuns E parse (take n ctxs) w = Some w' \<and> published w' = published w) \<and>
    (\<exists>w' p. ctraRuns E parse ctxs w = Some w' \<and> published w' = published w @ [selfMsg (ej E) typename self replyTo p] \<and>
       ctraAnswers (ej E) q callerAgg (S \<union> \<Union>(set Rs)) p)"
proof (induction ctxs arbitrary: Rs S c w)
  case (Cons ctx ctxs)
  then obtain R Rs' where Rs: "Rs = R # Rs'" "answering (ej E) typename self q agg ctx R"
    "list_all2 (answering (ej E) typename self q agg) ctxs Rs'" by (auto simp: list_all2_Cons1)
  then have ctx: "SelfTypename ctx = typename" "SelfID ctx = self" "ctraAnswers (ej E) q agg R (Payload ctx)"
    by (simp_all add: answering_def)
  have k: "contextKey ctx = typename @ CHR ''.'' # self" by (simp add: contextKey_def ctx)
  have w: "hasContext E ctx w c" "awaiting (ej E) agg replyTo callerAgg (Suc (length ctxs)) S c"
    using Cons.prems by (simp_all add: hasContext_def k)
  note h = handler_answer[OF J agg r _ _ w ctx(3), unfolded k ctx(1,2), OF self key, of parse]
  show ?case
  proof (cases "ctxs = []")
    case True
    then have "Rs' = []" using Rs(3) by simp
    from h(2) True obtain w' p where w': "LLAPIQueryJPGQLCallTreeResultAggregation E parse ctx w = (Returns None, w')"
      "published w' = published w @ [selfMsg (ej E) typename self replyTo p]" "ctraAnswers (ej E) q callerAgg (S \<union> R) p" by auto
    then have "ctraRuns E parse (ctx # ctxs) w = Some w'" using True by simp
    with w'(2,3) True Rs(1) \<open>Rs' = []\<close> show ?thesis by auto
  next
    case False
    with h(1) obtain w1 c1 where w1: "LLAPIQueryJPGQLCallTreeResultAggregation E parse ctx w = (Returns None, w1)"
      "hasContext E ctx w1 c1" "awaiting (ej E) agg replyTo callerAgg (length ctxs) (S \<union> R) c1" "published w1 = published w" by auto
    have ok1: "w_ok E w1" "w_view w1 (typename @ CHR ''.'' # self) = Some (ToBytes (ej E) c1)"
      using w1(2) by (simp_all add: hasContext_def k)
    note ih = Cons.IH[OF Rs(3) False ok1 w1(3), unfolded w1(4)]
    have runs: "ctraRuns E parse (ctx # cs) w = ctraRuns E parse cs w1" for cs using w1(1) by simp
    have "\<exists>w'. ctraRuns E parse (take n (ctx # ctxs)) w = Some w' \<and> published w' = published w" if "n < length (ctx # ctxs)" for n
      using ih that by (cases n) (simp_all only: take_Suc_Cons runs, simp_all)
    moreover have "S \<union> R \<union> \<Union>(set Rs') = S \<union> \<Union>(set Rs)" by (auto simp: Rs(1))
    ultimately show ?thesis using conjunct2[OF ih] by (intro conjI) (blast, simp only: runs)
  qed
qed simp

section \<open>The query of a process\<close>

lemma mapEntries_distinct:
  assumes "env_ok E" and "distinct (map fst m)"
  shows "distinct (map fst (mapEntries E m))"
proof -
  have "set (mapOrder E (map fst m)) = set (map fst m) \<and> length (mapOrder E (map fst m)) = length (map fst m)"
    using assms(1) unfolding env_ok_def by blast
  with assms(2) have "distinct (mapOrder E (map fst m))" by (metis card_distinct distinct_card)
  then show ?thesis by (simp add: mapEntries_def comp_def)
qed

lemma ctraSteps_run:
  fixes J :: "'j easyjson" and tail :: string and stop :: "AnyDepthStop option"
  assumes "distinct (map fst F)"
  defines "goesOn \<equiv> \<lambda>(B, k). nextQueryOf tail stop k \<noteq> []"
  shows "\<exists>F' w'. ctraSteps J ctx q P agg tail stop objs F n w = ((F', n + length (filter goesOn objs)), w') \<and>
    distinct (map fst F') \<and> fst ` set F' = fst ` set F \<union> fst ` set (filter (\<lambda>x. \<not> goesOn x) objs) \<and>
    w_view w' = w_view w \<and> w_ok E w' = w_ok E w \<and>
    published w' = published w @ map (\<lambda>(B, k). selfMsg J (SelfTypename ctx) (SelfID ctx) (B @ ''==='' @ P)
       (ctraPayload J q agg (nextQueryOf tail stop k))) (filter goesOn objs)"
  using assms(1)
proof (induction objs arbitrary: F n w)
  case (Cons o1 objs)
  obtain B k where o1: "o1 = (B, k)" by (cases o1)
  have next_query: "(case stop of None \<Rightarrow> tail | Some s \<Rightarrow> if k = 1 then ads_QueryTail s else tail) = nextQueryOf tail stop k"
    by (simp add: nextQueryOf_def)
  show ?case
  proof (cases "nextQueryOf tail stop k = []")
    case True
    have "distinct (map fst (AList.update B True F))" using Cons.prems by (simp add: distinct_update)
    moreover have "fst ` set (AList.update B True F) = insert B (fst ` set F)"
      using dom_update[of B True F] by (simp add: dom_map_of_conv_image_fst)
    ultimately show ?thesis
      using Cons.IH[of "AList.update B True F" n w] True unfolding o1 by (simp add: goesOn_def next_query)
  next
    case False
    let ?w = "signalSelf J ctx (SelfTypename ctx) (B @ ''==='' @ P) (ctraPayload J q agg (nextQueryOf tail stop k)) w"
    show ?thesis using Cons.IH[OF Cons.prems, of "Suc n" ?w] False unfolding o1 by (simp add: goesOn_def next_query)
  qed
qed simp

lemma ctraPayload_fields:
  assumes J: "easyjson_ok J"
  shows "AsString J (GetByPath J (ctraPayload J q ca query) ''query_id'') = Some q"
    and "AsString J (GetByPath J (ctraPayload J q ca query) ''caller_aggregation_id'') = Some ca"
    and "query \<noteq> [] \<Longrightarrow> getQuery J (ctraPayload J q ca query) = Inr query"
    and "getState J (ctraPayload J q ca query) = Inr 0"
    and "\<not> IsObject J (GetByPath J (ctraPayload J q ca query) ''call'')"
proof -
  let ?p = "ctraPayload J q ca query"
  have call: "simple_path ''call''" by (simp add: simple_path_def dot_free_def)
  show "AsString J (GetByPath J ?p ''query_id'') = Some q" "AsString J (GetByPath J ?p ''caller_aggregation_id'') = Some ca"
    "query \<noteq> [] \<Longrightarrow> getQuery J ?p = Inr query" "getState J ?p = Inr 0"
    unfolding ctraPayload_def getState_def getQuery_def
    by (simp_all add: ej_get_set[OF J] ej_get_other[OF J] ej_exists_set[OF J] ej_exists_new[OF J] ej_obj_set[OF J] ej_obj_new[OF J]
        ej_str[OF J] ctra_paths)
  have "\<not> PathExists J ?p ''call''"
    unfolding ctraPayload_def by (simp add: ej_exists_set[OF J] ej_exists_new[OF J] ej_obj_set[OF J] ej_obj_new[OF J] ctra_paths call)
  then show "\<not> IsObject J (GetByPath J ?p ''call'')" by (rule ej_missing_obj[OF J])
qed

lemma register_new:
  assumes J: "easyjson_ok (ej E)" and c: "IsObject (ej E) c" "\<not> PathExists (ej E) c (resultField agg)"
    and agg: "agg = md5hex E (q @ CHR ''_'' # query)" "dot_free agg" and p: "Payload ctx = ctraPayload (ej E) q ca query"
  obtains c' where "registerAggregationID E ctx q query c = ((agg, True), c')" "awaiting (ej E) agg (CallerID ctx) ca 0 {} c'"
proof
  let ?c = "snd (registerAggregationID E ctx q query c)"
  show "registerAggregationID E ctx q query c = ((agg, True), ?c)"
    using c(2) by (simp add: registerAggregationID_def Let_def flip: agg(1))
  show "awaiting (ej E) agg (CallerID ctx) ca 0 {} ?c"
    using c ctraPayload_fields(2,5)[OF J] carries_new[OF J]
    by (simp add: registerAggregationID_def Let_def p awaiting_def ej_get_set[OF J] ej_get_other[OF J] ej_obj_set[OF J]
        ej_str[OF J] ej_num[OF J] field_paths[OF agg(2)] flip: agg(1))
qed

lemma process_query:
  assumes E: "env_ok E" and w: "w_ok E w" "graph_ok (w_view w)" and A: "simple_id A" and query: "query \<noteq> []" "query_safe parse query"
    and c: "IsObject (ej E) c" "\<not> PathExists (ej E) c (resultField agg)"
    and agg: "agg = md5hex E (q @ CHR ''_'' # query)" "dot_free agg"
    and ctx: "Payload ctx = ctraPayload (ej E) q ca query" "count_str (CallerID ctx) ''==='' = 1"
  obtains c' w' where "ctraQuery E parse ctx A P q c w = (Returns c', w')" "w_ok E w'"
    and "nextTasks parse (w_view w) (A, query) = {} \<Longrightarrow>
      \<exists>p. published w' = published w @ [selfMsg (ej E) (SelfTypename ctx) (SelfID ctx) (CallerID ctx) p] \<and>
        ctraAnswers (ej E) q ca (foundBy parse (w_view w) (A, query)) p"
    and "nextTasks parse (w_view w) (A, query) \<noteq> {} \<Longrightarrow> \<exists>ts. distinct ts \<and> set ts = nextTasks parse (w_view w) (A, query) \<and>
      published w' = published w @ map (\<lambda>(B, rest). selfMsg (ej E) (SelfTypename ctx) (SelfID ctx) (B @ ''==='' @ P)
        (ctraPayload (ej E) q agg rest)) ts \<and>
      awaiting (ej E) agg (CallerID ctx) ca (length ts) (foundBy parse (w_view w) (A, query)) c'"
proof -
  note J = env_ok_ej[OF E]
  obtain lt f tail stop where parts: "GetQueryHeadAndTailsParts query = Returns (lt, f, tail, stop)"
    using query(2) by (auto simp: query_safe_def split: goResult.splits)
  obtain m where m: "GetObjectIDsFromLinkTypeAndLinkFilterQueryWithAnyDepthStop E parse A lt f stop w = (Returns m, w)"
    "distinct (map fst m)" "stepTargets parse (w_view w) (A, query) = (\<lambda>(B, n). (B, nextQueryOf tail stop n)) ` set m"
    using query_step[OF w A parts query(2)] by blast
  obtain c1 where c1: "registerAggregationID E ctx q query c = ((agg, True), c1)" "awaiting (ej E) agg (CallerID ctx) ca 0 {} c1"
    using register_new[OF J c agg ctx(1)] by blast
  let ?next = "\<lambda>(B, k). (B, nextQueryOf tail stop k)" and ?goesOn = "\<lambda>(B, k). nextQueryOf tail stop k \<noteq> []"
  let ?ts = "map ?next (filter ?goesOn (mapEntries E m))"
  have entries: "set (mapEntries E m) = set m" "distinct (map fst (mapEntries E m))"
    using mapEntries_set[OF E m(2)] mapEntries_distinct[OF E m(2)] by simp_all
  have ts: "set ?ts = nextTasks parse (w_view w) (A, query)"
    unfolding nextTasks_def m(3) by (force simp: entries(1))
  have "distinct (map fst (filter ?goesOn (mapEntries E m)))" by (rule distinct_map_filter[OF entries(2)])
  moreover have "map fst ?ts = map fst (filter ?goesOn (mapEntries E m))" by (simp add: comp_def split_beta)
  ultimately have dist: "distinct ?ts" by (metis distinct_map)
  have found: "foundBy parse (w_view w) (A, query) = fst ` set (filter (\<lambda>x. \<not> ?goesOn x) (mapEntries E m))"
    unfolding foundBy_def m(3) by (force simp: image_iff entries(1))
  have msgs: "map (\<lambda>(B, rest). selfMsg (ej E) (SelfTypename ctx) (SelfID ctx) (B @ ''==='' @ P) (ctraPayload (ej E) q agg rest)) ?ts =
      map (\<lambda>(B, k). selfMsg (ej E) (SelfTypename ctx) (SelfID ctx) (B @ ''==='' @ P)
        (ctraPayload (ej E) q agg (nextQueryOf tail stop k))) (filter ?goesOn (mapEntries E m))"
    by (simp add: comp_def split_beta)
  obtain F w1 where steps: "ctraSteps (ej E) ctx q P agg tail stop (mapEntries E m) [] 0 w = ((F, length ?ts), w1)"
    "distinct (map fst F)" "fst ` set F = foundBy parse (w_view w) (A, query)" "w_view w1 = w_view w" "w_ok E w1"
    "published w1 = published w @ map (\<lambda>(B, rest). selfMsg (ej E) (SelfTypename ctx) (SelfID ctx) (B @ ''==='' @ P)
       (ctraPayload (ej E) q agg rest)) ?ts"
    using ctraSteps_run[where E = E and F = "[]" and J = "ej E" and objs = "mapEntries E m" and n = 0 and w = w and tail = tail
        and stop = stop and ctx = ctx and q = q and P = P and agg = agg] w(1) found msgs by (auto simp del: set_filter)
  let ?imm = "NewJSONBools (ej E) F"
  have imm: "carries (ej E) (foundBy parse (w_view w) (A, query)) ?imm" using carries_bools[OF J steps(2)] steps(3) by simp
  let ?c2 = "SetByPath (ej E) c1 (resultField agg) ?imm"
  have c2: "awaiting (ej E) agg (CallerID ctx) ca 0 (foundBy parse (w_view w) (A, query)) ?c2"
    using c1(2) imm unfolding awaiting_def
    by (simp add: ej_get_set[OF J] ej_get_other[OF J] ej_obj_set[OF J] field_paths[OF agg(2)])
  have ca: "AsString (ej E) (GetByPath (ej E) c1 (callerAggregationField agg)) = Some ca" using c1(2) by (simp add: awaiting_def)
  note code = ctraQuery_def Let_def ctx(1) ctraPayload_fields(3)[OF J query(1)] c1(1) ca parts m(1) steps(1)
    reply_to_process[OF c1(2) ctx(2)] reply_to_process[OF c2 ctx(2)]
  let ?reply = "\<lambda>res w. signalSelf (ej E) ctx (SelfTypename ctx) (CallerID ctx) (ctraReply (ej E) q ca res) w"
  show thesis
  proof (cases "?ts = []")
    case True
    then have none: "nextTasks parse (w_view w) (A, query) = {}" using ts by simp
    have w1: "published w1 = published w" using steps(6) unfolding True by simp
    show thesis
    proof (cases "m = []")
      case True
      then have "foundBy parse (w_view w) (A, query) = {}" using found entries(1) by simp
      then have "ctraAnswers (ej E) q ca (foundBy parse (w_view w) (A, query)) (ctraReply (ej E) q ca (NewJSONObject (ej E)))"
        unfolding ctraAnswers_def using carries_new[OF J] by auto
      moreover have "ctraQuery E parse ctx A P q c w = (Returns (unregisterAggregationQueryID (ej E) agg c1), ?reply (NewJSONObject (ej E)) w)"
        using True by (simp add: code)
      ultimately show thesis using none w(1)
        by (intro that[of "unregisterAggregationQueryID (ej E) agg c1" "?reply (NewJSONObject (ej E)) w"]) auto
    next
      case False
      have "ctraAnswers (ej E) q ca (foundBy parse (w_view w) (A, query)) (ctraReply (ej E) q ca ?imm)"
        unfolding ctraAnswers_def using imm by blast
      moreover have "ctraQuery E parse ctx A P q c w = (Returns (unregisterAggregationQueryID (ej E) agg ?c2), ?reply ?imm w1)"
        using False True by (simp add: code)
      ultimately show thesis using none w1 steps(5)
        by (intro that[of "unregisterAggregationQueryID (ej E) agg ?c2" "?reply ?imm w1"]) auto
    qed
  next
    case False
    let ?c3 = "SetByPath (ej E) ?c2 (callbacksField agg) (NewJSONNumber (ej E) (int (length ?ts)))"
    have "m \<noteq> []" using False entries(1) by auto
    then have "ctraQuery E parse ctx A P q c w = (Returns ?c3, w1)" using False by (simp add: code)
    moreover have "awaiting (ej E) agg (CallerID ctx) ca (length ?ts) (foundBy parse (w_view w) (A, query)) ?c3"
      using c2 unfolding awaiting_def
      by (simp add: ej_get_set[OF J] ej_get_other[OF J] ej_obj_set[OF J] ej_num[OF J] field_paths[OF agg(2)])
    moreover have "nextTasks parse (w_view w) (A, query) \<noteq> {}" unfolding ts[symmetric] set_empty by (rule False)
    ultimately show thesis using ts dist steps(5,6) by (intro that) blast+
  qed
qed

section \<open>The protocol of a process\<close>

text \<open>
  C13: a process of a query with aggregation along the tree of calls asks each of the next objects the
  rest of the query, once. With nothing left to ask it answers its caller at once; otherwise it
  publishes nothing before the last of as many answers is handled, in whatever order they come, and
  then answers its caller once, with the objects that it and they have found. When these are the
  results of the next objects, the answer is the result of the query.
\<close>

theorem call_tree_process_answers_caller:
  fixes E :: "('j, 'kv) env" and ctx :: "'j StatefunContextProcessor"
  defines "typename \<equiv> SelfTypename ctx" and "self \<equiv> SelfID ctx" and "J \<equiv> ej E"
  assumes w: "w_ok E w" "graph_ok (w_view w)" and query: "query \<noteq> []" "query_safe parse query"
    and self: "vertex_id A" "vertex_id P" "self = A @ ''==='' @ P" and key: "valid_key (typename @ CHR ''.'' # self)"
    and agg: "agg = md5hex E (q @ CHR ''_'' # query)" "dot_free agg"
    and ctx: "Payload ctx = ctraPayload J q ca query" "count_str (CallerID ctx) ''==='' = 1"
    and c: "IsObject J (fst (GetFunctionContext E ctx w))" "\<not> PathExists J (fst (GetFunctionContext E ctx w)) (resultField agg)"
  defines "found \<equiv> foundBy parse (w_view w) (A, query)" and "nexts \<equiv> nextTasks parse (w_view w) (A, query)"
  shows "queryResults parse (w_view w) (A, query) = found \<union> (\<Union>u\<in>nexts. queryResults parse (w_view w) u) \<and>
    (\<exists>w'. LLAPIQueryJPGQLCallTreeResultAggregation E parse ctx w = (Returns None, w') \<and>
      (if nexts = {} then
         (\<exists>p. published w' = published w @ [selfMsg J typename self (CallerID ctx) p] \<and> ctraAnswers J q ca found p)
       else
         (\<exists>ts. distinct ts \<and> set ts = nexts \<and>
            published w' = published w @ map (\<lambda>(B, rest). selfMsg J typename self (B @ ''==='' @ P) (ctraPayload J q agg rest)) ts \<and>
            (\<forall>ctxs Rs. length ctxs = length ts \<longrightarrow> list_all2 (answering J typename self q agg) ctxs Rs \<longrightarrow>
               (\<forall>n<length ctxs. \<exists>w2. ctraRuns E parse (take n ctxs) w' = Some w2 \<and> published w2 = published w') \<and>
               (\<exists>w2 p. ctraRuns E parse ctxs w' = Some w2 \<and>
                  published w2 = published w' @ [selfMsg J typename self (CallerID ctx) p] \<and>
                  ctraAnswers J q ca (found \<union> \<Union>(set Rs)) p)))))"
proof -
  have E: "env_ok E" using w(1) by (simp add: w_ok_def cache_ok_def)
  note J = env_ok_ej[OF E]
  have split: "split_str ''==='' (SelfID ctx) = [A, P]"
    unfolding self(3)[unfolded self_def] by (simp only: vertex_split(2)[OF self(1)] vertex_split(1)[OF self(2)])
  have get: "GetFunctionContext E ctx w = (fst (GetFunctionContext E ctx w), w)"
    using getContext_same[OF w(1)] by (simp add: GetFunctionContext_def prod_eq_iff)
  note vertex_simple[OF self(1)]
  note query_run = process_query[OF E w this query c[unfolded J_def] agg ctx[unfolded J_def], of P,
    folded J_def found_def nexts_def typename_def self_def]
  obtain c' w1 where run: "ctraQuery E parse ctx A P q (fst (GetFunctionContext E ctx w)) w = (Returns c', w1)" "w_ok E w1"
    "nexts = {} \<Longrightarrow> \<exists>p. published w1 = published w @ [selfMsg J typename self (CallerID ctx) p] \<and> ctraAnswers J q ca found p"
    "nexts \<noteq> {} \<Longrightarrow> \<exists>ts. distinct ts \<and> set ts = nexts \<and>
      published w1 = published w @ map (\<lambda>(B, rest). selfMsg J typename self (B @ ''==='' @ P) (ctraPayload J q agg rest)) ts \<and>
      awaiting J agg (CallerID ctx) ca (length ts) found c'"
    by (rule query_run, rule that)
  let ?w = "SetFunctionContext E ctx c' w1"
  have key': "valid_key (contextKey ctx)" using key by (simp add: contextKey_def typename_def self_def)
  note set = set_context[OF run(2) key', of c']
  have stored: "w_ok E ?w" "w_view ?w (typename @ CHR ''.'' # self) = Some (ToBytes (ej E) c')"
    using set(1) by (simp_all add: hasContext_def contextKey_def typename_def self_def)
  have h: "LLAPIQueryJPGQLCallTreeResultAggregation E parse ctx w = (Returns None, ?w)"
    using ctraPayload_fields(1,4)[OF J] run(1) ctx(1) by (intro handler_descendant(2)[OF J split _ get]) (simp_all add: J_def)
  have answer: "(\<forall>n<length ctxs. \<exists>w2. ctraRuns E parse (take n ctxs) ?w = Some w2 \<and> published w2 = published ?w) \<and>
      (\<exists>w2 p. ctraRuns E parse ctxs ?w = Some w2 \<and>
         published w2 = published ?w @ [selfMsg J typename self (CallerID ctx) p] \<and> ctraAnswers J q ca (found \<union> \<Union>(set Rs)) p)"
    if "list_all2 (answering J typename self q agg) ctxs Rs" "ctxs \<noteq> []" "awaiting J agg (CallerID ctx) ca (length ctxs) found c'" for ctxs Rs
    unfolding J_def
    by (rule ctraRuns_answers[OF J agg(2) ctx(2) split[folded self_def] key that(1)[unfolded J_def] that(2) stored that(3)[unfolded J_def]])
  show ?thesis
  proof (intro conjI exI[of _ ?w])
    show "queryResults parse (w_view w) (A, query) = found \<union> (\<Union>u\<in>nexts. queryResults parse (w_view w) u)"
      unfolding found_def nexts_def by (rule queryResults_unfold)
    show "if nexts = {} then \<exists>p. published ?w = published w @ [selfMsg J typename self (CallerID ctx) p] \<and> ctraAnswers J q ca found p
      else (\<exists>ts. distinct ts \<and> set ts = nexts \<and>
        published ?w = published w @ map (\<lambda>(B, rest). selfMsg J typename self (B @ ''==='' @ P) (ctraPayload J q agg rest)) ts \<and>
        (\<forall>ctxs Rs. length ctxs = length ts \<longrightarrow> list_all2 (answering J typename self q agg) ctxs Rs \<longrightarrow>
           (\<forall>n<length ctxs. \<exists>w2. ctraRuns E parse (take n ctxs) ?w = Some w2 \<and> published w2 = published ?w) \<and>
           (\<exists>w2 p. ctraRuns E parse ctxs ?w = Some w2 \<and>
              published w2 = published ?w @ [selfMsg J typename self (CallerID ctx) p] \<and> ctraAnswers J q ca (found \<union> \<Union>(set Rs)) p)))"
    proof (cases "nexts = {}")
      case True
      with run(3) show ?thesis by (simp add: set(2))
    next
      case False
      then obtain ts where ts: "distinct ts" "set ts = nexts"
        "published ?w = published w @ map (\<lambda>(B, rest). selfMsg J typename self (B @ ''==='' @ P) (ctraPayload J q agg rest)) ts"
        "awaiting J agg (CallerID ctx) ca (length ts) found c'" using run(4) by (auto simp: set(2))
      have "ctxs \<noteq> []" if "length ctxs = length ts" for ctxs :: "'j StatefunContextProcessor list" using that False ts(2) by auto
      with False ts answer show ?thesis by (metis (no_types, lifting))
    qed
  qed (rule h)
qed

section \<open>The evaluation timeout\<close>

lemma timedOut_wraps:
  "timedOut started timeoutSec now \<longleftrightarrow>
     (started + timeoutSec * 1000000000 + 2 ^ 63) mod 2 ^ 64 - 2 ^ 63 < now"
  unfolding timedOut_def int64_of_wraps[unfolded uint64_of_def] ..

lemma timedOut_exact:
  assumes "0 < now"
  shows "in_int64 (started + timeoutSec * 1000000000) \<Longrightarrow>
      timedOut started timeoutSec now \<longleftrightarrow> started + timeoutSec * 1000000000 < now"
    and "2 ^ 63 \<le> started + timeoutSec * 1000000000 \<Longrightarrow> started + timeoutSec * 1000000000 < 2 ^ 64 \<Longrightarrow>
      timedOut started timeoutSec now"
  using assms int64_of_uint64_of[of "started + timeoutSec * 1000000000"]
    int64_of_past_end[of "started + timeoutSec * 1000000000"]
  by (simp_all add: timedOut_def uint64_of_def)

lemma ticks_reply:
  "fst (fst (ctraTick E a w)) = Replied \<longleftrightarrow> timedOut (ct_startedEvaluating a) (ct_timeoutSec a) (fst (wNow E w))"
  "fst (fst (dcraTick E b w)) = Replied \<longleftrightarrow> timedOut (dc_startedEvaluating b) (dc_timeoutSec b) (fst (wNow E w))"
  by (auto simp: ctraTick_def dcraTick_def Let_def split: prod.splits)

lemma wNow_pos: "env_ok E \<Longrightarrow> 0 < fst (wNow E w)"
  by (simp add: wNow_def GetCurrentTimeNs_def env_clock_pos)

text \<open>
  C38: the goroutines of both kinds of query give up at a look at their clock exactly when the
  deadline, start plus \<open>eval\_timeout\_sec\<close> taken modulo 2 to the 64 as a signed
  number, lies before the clock. So a deadline in the range of an \<open>int64\<close> is respected; one
  in the 2 to the 63 nanoseconds after that range is already past at the first look, and a still
  larger one is replaced by whatever moment it wraps to.
\<close>

theorem query_timeout_wraps:
  assumes "env_ok E"
    and a: "ct_startedEvaluating a = started" "ct_timeoutSec a = timeoutSec"
    and b: "dc_startedEvaluating b = started" "dc_timeoutSec b = timeoutSec"
  defines "deadline \<equiv> started + timeoutSec * 1000000000"
  shows "(fst (fst (ctraTick E a w)) = Replied \<longleftrightarrow> (deadline + 2 ^ 63) mod 2 ^ 64 - 2 ^ 63 < fst (wNow E w)) \<and>
    (fst (fst (dcraTick E b w)) = Replied \<longleftrightarrow> (deadline + 2 ^ 63) mod 2 ^ 64 - 2 ^ 63 < fst (wNow E w)) \<and>
    (in_int64 deadline \<longrightarrow>
      (fst (fst (ctraTick E a w)) = Replied \<longleftrightarrow> deadline < fst (wNow E w)) \<and>
      (fst (fst (dcraTick E b w)) = Replied \<longleftrightarrow> deadline < fst (wNow E w))) \<and>
    (2 ^ 63 \<le> deadline \<and> deadline < 2 ^ 64 \<longrightarrow>
      fst (fst (ctraTick E a w)) = Replied \<and> fst (fst (dcraTick E b w)) = Replied)"
  unfolding ticks_reply a b deadline_def timedOut_wraps[symmetric]
  using timedOut_exact[OF wNow_pos[OF assms(1)], of started timeoutSec w] by blast

section \<open>A sample: two steps along one link\<close>

definition tree_agg :: string where
  "tree_agg = sample_hash ''q_.t.t''"

definition tree_context :: "json StatefunContextProcessor" where
  "tree_context = \<lparr>SelfTypename = ''functions.graph.api.query.jpgql.ctra'', SelfID = ''a===p'',
     CallerTypename = ''functions.graph.api.query.jpgql.ctra'', CallerID = ''x===p'',
     Payload = ctraPayload sample_json ''q'' ''ca'' ''.t.t'', Options = JObj [], hasReply = False\<rparr>"

definition tree_answer :: "json StatefunContextProcessor" where
  "tree_answer = tree_context\<lparr>CallerID := ''b===p'', Payload := ctraReply sample_json ''q'' tree_agg (JObj [])\<rparr>"

lemma tree_tasks:
  "foundBy (\<lambda>_. Inl []) (w_view link_world) (''a'', ''.t.t'') = {}"
  "nextTasks (\<lambda>_. Inl []) (w_view link_world) (''a'', ''.t.t'') = {(''b'', ''.t'')}"
proof -
  have ok: "step_ok (''t'', [])" "steps_ok [(False, ''t'', [])]" by (simp_all add: step_ok_def name_char_def)
  have "stepTargets (\<lambda>_. Inl []) (w_view link_world) (''a'', ''.t.t'') = {(''b'', ''.t'')}"
    using plain_targets[OF ok, of "\<lambda>_. Inl []" "w_view link_world" "''a''"] by (simp add: sample_targets(1))
  then show "foundBy (\<lambda>_. Inl []) (w_view link_world) (''a'', ''.t.t'') = {}"
    "nextTasks (\<lambda>_. Inl []) (w_view link_world) (''a'', ''.t.t'') = {(''b'', ''.t'')}"
    unfolding foundBy_def nextTasks_def by (simp, force)
qed

lemma tree_context_new: "fst (GetFunctionContext sample_env tree_context link_world) = JObj []"
proof -
  have "w_view link_world ''functions.graph.api.query.jpgql.ctra.a===p'' = None"
    by (simp add: link_world_view(2) OutLinkBodyKey_def InLinkKey_def)
  then show ?thesis
    using wGetValueAsJSON_cases[OF link_world_view(1), of "''functions.graph.api.query.jpgql.ctra.a===p''"]
    by (auto simp: GetFunctionContext_def getContext_def tree_context_def) (simp_all add: sample_json_def)
qed

theorem call_tree_process_answers_caller_witness:
  "\<exists>w1 w2 p. LLAPIQueryJPGQLCallTreeResultAggregation sample_env (\<lambda>_. Inl []) tree_context link_world = (Returns None, w1) \<and>
     ctraRuns sample_env (\<lambda>_. Inl []) [tree_answer] w1 = Some w2 \<and>
     published w2 = published w1 @ [selfMsg sample_json (SelfTypename tree_context) ''a===p'' ''x===p'' p] \<and>
     ctraAnswers sample_json ''q'' ''ca'' {} p"
proof -
  have q: "query_safe (\<lambda>_. Inl []) ''.t.t''"
    using split_query(1)[of "''t''" "[]" "[(False, ''t'', [])]"]
    by (simp add: query_safe_def filter_safe_def step_ok_def name_char_def)
  have key: "valid_key (SelfTypename tree_context @ CHR ''.'' # SelfID tree_context)"
    by (simp add: valid_key_def tree_context_def key_char_def)
  have "simple_id tree_agg"
    by (simp add: tree_agg_def sample_hash_def hex_char_def simple_id_def key_char_def)
  then have agg: "tree_agg = md5hex sample_env (''q'' @ CHR ''_'' # ''.t.t'')" "dot_free tree_agg"
    by (simp_all add: simple_dot_free) (simp add: tree_agg_def sample_env_def)
  have new: "IsObject sample_json (JObj [])" "\<not> PathExists sample_json (JObj []) (resultField tree_agg)"
    using ej_obj_new[OF sample_json_ok] ej_exists_new[OF sample_json_ok field_paths(1)[OF agg(2)]]
    by (simp_all add: sample_json_def)
  have v: "vertex_id ''a''" "vertex_id ''p''" "vertex_id ''x''"
    by (rule vertex_id_plain; simp add: simple_id_def key_char_def)+
  have self: "SelfID tree_context = ''a'' @ ''==='' @ ''p''" "CallerID tree_context = ''x'' @ ''==='' @ ''p''"
    "Payload tree_context = ctraPayload (ej sample_env) ''q'' ''ca'' ''.t.t''" by (simp_all add: tree_context_def)
  have c: "count_str (CallerID tree_context) ''==='' = 1"
    unfolding self(2) count_str_def by (simp only: vertex_split(2)[OF v(3)] vertex_split(1)[OF v(2)]) simp
  have ans: "list_all2 (answering sample_json (SelfTypename tree_context) (SelfID tree_context) ''q'' tree_agg) [tree_answer] [{}]"
    using carries_new[OF sample_json_ok] by (auto simp: answering_def tree_answer_def ctraAnswers_def sample_json_def)
  note run = call_tree_process_answers_caller[OF link_world_view(1) link_world_graph _ q v(1,2) self(1) key agg self(3) c,
      unfolded tree_context_new tree_tasks sample_env_sel(1), OF _ new]
  from run[THEN conjunct2] obtain w1 ts where w1:
    "LLAPIQueryJPGQLCallTreeResultAggregation sample_env (\<lambda>_. Inl []) tree_context link_world = (Returns None, w1)"
    "distinct ts" "set ts = {(''b'', ''.t'')}"
    "\<And>ctxs Rs. length ctxs = length ts \<Longrightarrow>
       list_all2 (answering sample_json (SelfTypename tree_context) (SelfID tree_context) ''q'' tree_agg) ctxs Rs \<Longrightarrow>
       \<exists>w2 p. ctraRuns sample_env (\<lambda>_. Inl []) ctxs w1 = Some w2 \<and>
          published w2 = published w1 @ [selfMsg sample_json (SelfTypename tree_context) (SelfID tree_context) (CallerID tree_context) p] \<and>
          ctraAnswers sample_json ''q'' ''ca'' ({} \<union> \<Union>(set Rs)) p"
    by auto
  have "length [tree_answer] = length ts" using distinct_card[OF w1(2)] w1(3) by simp
  from w1(4)[OF this ans] w1(1) show ?thesis by (auto simp: self)
qed

text \<open>Thirty seconds are a deadline, three hundred years are none, and a thousand years wrap to a
  moment in the future again.\<close>

theorem query_timeout_wraps_witness:
  "fst (fst (ctraTick sample_env \<lparr>ct_context = tree_context, ct_queryID = ''q'', ct_processID = ''p'', ct_timeoutSec = 30,
      ct_startedEvaluating = 1\<rparr> link_world)) \<noteq> Replied \<and>
   fst (fst (ctraTick sample_env \<lparr>ct_context = tree_context, ct_queryID = ''q'', ct_processID = ''p'', ct_timeoutSec = 9460800000,
      ct_startedEvaluating = 1\<rparr> link_world)) = Replied \<and>
   fst (fst (ctraTick sample_env \<lparr>ct_context = tree_context, ct_queryID = ''q'', ct_processID = ''p'', ct_timeoutSec = 20000000000,
      ct_startedEvaluating = 1\<rparr> link_world)) \<noteq> Replied"
proof -
  let ?a = "\<lambda>sec. \<lparr>ct_context = tree_context, ct_queryID = ''q'', ct_processID = ''p'', ct_timeoutSec = sec, ct_startedEvaluating = 1\<rparr>"
  let ?b = "\<lambda>sec. \<lparr>dc_context = tree_context, dc_queryID = ''q'', dc_aggregationID = ''p'', dc_timeoutSec = sec, dc_startedEvaluating = 1,
    dc_pendingMap = [], dc_resultObjects = []\<rparr>"
  have now: "fst (wNow sample_env link_world) \<le> 1001" by (simp add: wNow_def GetCurrentTimeNs_def sample_env_def)
  note t = query_timeout_wraps[OF sample_env_ok, of "?a _" 1 _ "?b _" link_world]
  show ?thesis
    using t[of 30 30 30] t[of 9460800000 9460800000 9460800000] t[of 20000000000 20000000000 20000000000] now
    by (simp add: in_int64_def)
qed

end
