(* ===== verification/TxState.thy ===== *)
theory TxState
  imports HLCrud Messages
begin

text \<open>
  What a graph transaction reads and requests: the state of a graph found from its root
  (\<open>embedded/graph/tx/traverse.go\<close>) and the requests and replies of the transaction's functions
  (\<open>embedded/graph/tx/helper.go\<close>). A Go map is a list of entries whose keys differ; its
  iteration follows \<open>mapOrder\<close>.
\<close>

section \<open>Names\<close>

definition TX_MASTER :: string where "TX_MASTER = ''txmaster''"
definition TX_SEPARATOR :: string where "TX_SEPARATOR = ''=''"
definition OBJECTS_TYPELINK :: string where "OBJECTS_TYPELINK = ''__objects''"
definition TYPES_TYPELINK :: string where "TYPES_TYPELINK = ''__types''"
definition TYPE_TYPELINK :: string where "TYPE_TYPELINK = ''__type''"
definition OBJECT_TYPELINK :: string where "OBJECT_TYPELINK = ''__object''"
definition BUILT_IN_TYPES :: string where "BUILT_IN_TYPES = ''types''"
definition BUILT_IN_OBJECTS :: string where "BUILT_IN_OBJECTS = ''objects''"
definition BUILT_IN_ROOT :: string where "BUILT_IN_ROOT = ''root''"
definition BUILT_IN_GROUP :: string where "BUILT_IN_GROUP = ''group''"
definition BUILT_IN_NAV :: string where "BUILT_IN_NAV = ''nav''"
definition GROUP_TYPELINK :: string where "GROUP_TYPELINK = ''group''"

definition generatePrefix :: "string \<Rightarrow> string" where
  "generatePrefix txID = txID @ TX_SEPARATOR"

section \<open>The state of a graph\<close>

record txNode =
  tn_id :: string
  tn_lt :: string
  tn_linkID :: string

record txLink =
  tl_from :: string
  tl_to :: string
  tl_lt :: string
  tl_objectLt :: string
  tl_cacheID :: string

record txState =
  ts_objects :: "string list"
  ts_links :: "(string \<times> txLink) list"

definition builtInLink :: "string \<Rightarrow> string \<Rightarrow> string \<Rightarrow> string \<Rightarrow> string \<times> txLink" where
  "builtInLink from to lt objectLt =
     (from @ to @ lt, \<lparr>tl_from = from, tl_to = to, tl_lt = lt, tl_objectLt = objectLt, tl_cacheID = []\<rparr>)"

definition builtInLinks :: "(string \<times> txLink) list" where
  "builtInLinks =
     [builtInLink BUILT_IN_ROOT BUILT_IN_OBJECTS OBJECTS_TYPELINK [],
      builtInLink BUILT_IN_ROOT BUILT_IN_TYPES TYPES_TYPELINK [],
      builtInLink BUILT_IN_TYPES BUILT_IN_GROUP TYPE_TYPELINK [],
      builtInLink BUILT_IN_GROUP BUILT_IN_GROUP TYPE_TYPELINK GROUP_TYPELINK,
      builtInLink BUILT_IN_OBJECTS BUILT_IN_NAV OBJECT_TYPELINK [],
      builtInLink BUILT_IN_NAV BUILT_IN_GROUP TYPE_TYPELINK [],
      builtInLink BUILT_IN_GROUP BUILT_IN_NAV OBJECT_TYPELINK []]"

definition addObject :: "string \<Rightarrow> string list \<Rightarrow> string list" where
  "addObject x xs = (if x \<in> set xs then xs else xs @ [x])"

definition initBuiltIn :: "txState \<Rightarrow> txState" where
  "initBuiltIn s =
     s\<lparr>ts_objects := fold addObject [BUILT_IN_ROOT, BUILT_IN_OBJECTS, BUILT_IN_TYPES, BUILT_IN_GROUP, BUILT_IN_NAV] (ts_objects s),
       ts_links := fold (\<lambda>(k, l). AList.update k l) builtInLinks (ts_links s)\<rparr>"

definition childOfKey :: "string \<Rightarrow> txNode" where
  "childOfKey v = (let split = split_dot v in
     \<lparr>tn_id = split ! (length split - 1), tn_lt = split ! (length split - 2), tn_linkID = v\<rparr>)"

definition getChildren :: "('j, 'kv) env \<Rightarrow> string \<Rightarrow> ('j, 'kv) world \<Rightarrow> txNode list \<times> ('j, 'kv) world" where
  "getChildren E ident w =
     (case wGetKeysByPattern E (OutLinkBodyPattern ident) w of (children, w) \<Rightarrow> (map childOfKey children, w))"

definition visitLink :: "string \<Rightarrow> string list \<Rightarrow> txNode \<Rightarrow> (string \<times> txLink) list \<times> string list \<Rightarrow> (string \<times> txLink) list \<times> string list" where
  "visitLink node objects ch st =
     (case st of (links, queue) \<Rightarrow>
        (let linkID = node @ tn_id ch @ tn_lt ch in
         (if map_of links linkID = None
          then links @ [(linkID, \<lparr>tl_from = node, tl_to = tn_id ch, tl_lt = tn_lt ch, tl_objectLt = [], tl_cacheID = tn_linkID ch\<rparr>)]
          else links,
          if tn_id ch \<notin> set objects then queue @ [tn_id ch] else queue)))"

definition visitNode ::
  "string \<Rightarrow> txNode list \<Rightarrow> txState \<Rightarrow> string list \<Rightarrow> txState \<times> string list" where
  "visitNode node children s queue =
     (let objects = addObject node (ts_objects s) in
      case fold (visitLink node objects) children (ts_links s, queue) of
        (links, queue) \<Rightarrow> (\<lparr>ts_objects = objects, ts_links = links\<rparr>, queue))"

text \<open>The loop over the queue: \<open>None\<close> if it does not end.\<close>

partial_function (option) graphLoop ::
  "('j, 'kv) env \<Rightarrow> string list \<Rightarrow> txState \<Rightarrow> ('j, 'kv) world \<Rightarrow> (txState \<times> ('j, 'kv) world) option" where
  "graphLoop E queue s w =
     (case queue of
        [] \<Rightarrow> Some (s, w)
      | node # rest \<Rightarrow>
          (case visitNode node (fst (getChildren E node w)) s rest of
             (s, queue) \<Rightarrow> graphLoop E queue s (snd (getChildren E node w))))"

definition graphState ::
  "('j, 'kv) env \<Rightarrow> string \<Rightarrow> ('j, 'kv) world \<Rightarrow> (txState \<times> ('j, 'kv) world) option" where
  "graphState E startPoint w =
     (let state = \<lparr>ts_objects = [], ts_links = []\<rparr> in
      case wGetValue E startPoint w of
        (Inl err, w) \<Rightarrow> Some (state, w)
      | (Inr _, w) \<Rightarrow> graphLoop E [startPoint] state w)"

section \<open>Requests to the low-level API\<close>

definition lowLevel ::
  "('j, 'kv) requester \<Rightarrow> string \<Rightarrow> string \<Rightarrow> 'j \<Rightarrow> ('j, 'kv) world \<Rightarrow> string option \<times> ('j, 'kv) world" where
  "lowLevel req op ident payload w =
     (case req op ident (Some payload) None w of (Inl err, w) \<Rightarrow> (Some err, w) | (Inr _, w) \<Rightarrow> (None, w))"

definition lowLevelLink :: "'j easyjson \<Rightarrow> string \<Rightarrow> string \<Rightarrow> 'j option \<Rightarrow> 'j" where
  "lowLevelLink J to lt body = setOpt J ''link_body'' body (linkTo J to lt)"

definition createLowLevelLink ::
  "'j easyjson \<Rightarrow> ('j, 'kv) requester \<Rightarrow> string \<Rightarrow> string \<Rightarrow> string \<Rightarrow> string \<Rightarrow> 'j \<Rightarrow> ('j, 'kv) world \<Rightarrow>
    string option \<times> ('j, 'kv) world" where
  "createLowLevelLink J req from to lt objectLt body w =
     (let link = lowLevelLink J to lt (Some body);
          link = (if objectLt \<noteq> [] then SetByPath J link ''link_body.link_type'' (NewJSONString J objectLt) else link)
      in lowLevel req ''functions.graph.api.link.create'' from link w)"

definition updateLowLevelLink ::
  "'j easyjson \<Rightarrow> ('j, 'kv) requester \<Rightarrow> string \<Rightarrow> string \<Rightarrow> string \<Rightarrow> 'j \<Rightarrow> ('j, 'kv) world \<Rightarrow> string option \<times> ('j, 'kv) world" where
  "updateLowLevelLink J req from to lt body w =
     lowLevel req ''functions.graph.api.link.update'' from (lowLevelLink J to lt (Some body)) w"

definition deleteLowLevelLink ::
  "'j easyjson \<Rightarrow> ('j, 'kv) requester \<Rightarrow> string \<Rightarrow> string \<Rightarrow> string \<Rightarrow> ('j, 'kv) world \<Rightarrow> string option \<times> ('j, 'kv) world" where
  "deleteLowLevelLink J req from to linkType w =
     lowLevel req ''functions.graph.api.link.delete'' from (lowLevelLink J to linkType None) w"

definition createLowLevelObject ::
  "'j easyjson \<Rightarrow> ('j, 'kv) requester \<Rightarrow> string \<Rightarrow> 'j \<Rightarrow> ('j, 'kv) world \<Rightarrow> string option \<times> ('j, 'kv) world" where
  "createLowLevelObject J req ident body w =
     lowLevel req ''functions.graph.api.vertex.create'' ident (SetByPath J (NewJSONObject J) ''body'' body) w"

definition updateLowLevelObject ::
  "'j easyjson \<Rightarrow> ('j, 'kv) requester \<Rightarrow> string \<Rightarrow> string \<Rightarrow> 'j \<Rightarrow> ('j, 'kv) world \<Rightarrow> string option \<times> ('j, 'kv) world" where
  "updateLowLevelObject J req mode ident body w =
     lowLevel req ''functions.graph.api.vertex.update'' ident
       (SetByPath J (SetByPath J (NewJSONObject J) ''body'' body) ''mode'' (NewJSONString J mode)) w"

definition deleteLowLevelObject ::
  "'j easyjson \<Rightarrow> ('j, 'kv) requester \<Rightarrow> string \<Rightarrow> ('j, 'kv) world \<Rightarrow> string option \<times> ('j, 'kv) world" where
  "deleteLowLevelObject J req ident w =
     lowLevel req ''functions.graph.api.vertex.delete'' ident (NewJSONObject J) w"

section \<open>Replies and lookups\<close>

definition txReply ::
  "('j, 'kv) env \<Rightarrow> 'j StatefunContextProcessor \<Rightarrow> string \<Rightarrow> 'j option \<Rightarrow> ('j, 'kv) world \<Rightarrow> 'j option \<times> ('j, 'kv) world" where
  "txReply E ctx status data w =
     (let J = ej E in
      case GetQueryID E ctx w of (qid, w) \<Rightarrow>
        (let r = setOpt J ''result'' data (SetByPath J (NewJSONObject J) ''status'' (NewJSONString J status))
         in ReplyQueryID E qid (NewJSONObjectWithKeyValue J ''payload'' r) ctx w))"

definition txReplyOk :: "('j, 'kv) env \<Rightarrow> 'j StatefunContextProcessor \<Rightarrow> ('j, 'kv) world \<Rightarrow> 'j option \<times> ('j, 'kv) world" where
  "txReplyOk E ctx w = txReply E ctx ''ok'' (Some (JSONFromArray (ej E) [])) w"

definition txReplyError ::
  "('j, 'kv) env \<Rightarrow> 'j StatefunContextProcessor \<Rightarrow> string \<Rightarrow> ('j, 'kv) world \<Rightarrow> 'j option \<times> ('j, 'kv) world" where
  "txReplyError E ctx err w = txReply E ctx ''failed'' (Some (NewJSONString (ej E) err)) w"

definition txFindObjectType :: "('j, 'kv) env \<Rightarrow> string \<Rightarrow> ('j, 'kv) world \<Rightarrow> string \<times> ('j, 'kv) world" where
  "txFindObjectType E objectID w =
     (case wGetKeysByPattern E (OutLinkBodyKey objectID TypeLink ''>'') w of
        (keys, w) \<Rightarrow> (if length keys = 0 then ([], w) else (lastToken (keys ! 0), w)))"

definition txFindTypeObjects :: "('j, 'kv) env \<Rightarrow> string \<Rightarrow> ('j, 'kv) world \<Rightarrow> string list \<times> ('j, 'kv) world" where
  "txFindTypeObjects E typeID w =
     (case wGetKeysByPattern E (OutLinkBodyKey typeID ObjectLink ''>'') w of
        (keys, w) \<Rightarrow> (map lastToken keys, w))"

definition txCheckRequestError :: "'j easyjson \<Rightarrow> string + 'j \<Rightarrow> string option" where
  "txCheckRequestError J res =
     (case res of
        Inl err \<Rightarrow> Some err
      | Inr result \<Rightarrow>
         (if AsStringDefault J (GetByPath J result ''payload.status'') ''failed'' = ''failed''
          then Some (AsStringDefault J (GetByPath J result ''payload.result'') ''unknown error'')
          else None))"

definition generateDeletedMeta :: "('j, 'kv) env \<Rightarrow> ('j, 'kv) world \<Rightarrow> 'j \<times> ('j, 'kv) world" where
  "generateDeletedMeta E w =
     (let J = ej E in
      case wNow E w of (now, w) \<Rightarrow>
        (NewJSONObjectWithKeyValue J ''__meta''
           (SetByPath J (SetByPath J (NewJSONObject J) ''status'' (NewJSONString J ''deleted'')) ''time'' (NewJSONNumber J now)), w))"

section \<open>Cloning one element of the main graph\<close>

definition cloneTypeFromMainGraphToTx ::
  "('j, 'kv) env \<Rightarrow> ('j, 'kv) requester \<Rightarrow> string \<Rightarrow> string \<Rightarrow> string \<Rightarrow> ('j, 'kv) world \<Rightarrow> string option \<times> ('j, 'kv) world" where
  "cloneTypeFromMainGraphToTx E req txID src dst w =
     (let J = ej E in
      case wGetValueAsJSON E src w of
        (Inl err, w) \<Rightarrow> (Some err, w)
      | (Inr originBody, w) \<Rightarrow>
          lowLevel req ''functions.cmdb.tx.type.create'' txID
            (SetByPath J (SetByPath J (NewJSONObject J) ''id'' (NewJSONString J dst)) ''body'' originBody) w)"

definition cloneObjectFromMainGraphToTx ::
  "('j, 'kv) env \<Rightarrow> ('j, 'kv) requester \<Rightarrow> string \<Rightarrow> string \<Rightarrow> string \<Rightarrow> string \<Rightarrow> ('j, 'kv) world \<Rightarrow>
    string option \<times> ('j, 'kv) world" where
  "cloneObjectFromMainGraphToTx E req txID src dst originType w =
     (let J = ej E in
      case wGetValueAsJSON E src w of
        (Inl err, w) \<Rightarrow> (Some err, w)
      | (Inr originBody, w) \<Rightarrow>
          lowLevel req ''functions.cmdb.tx.object.create'' txID
            (SetByPath J (SetByPath J (SetByPath J (NewJSONObject J) ''id'' (NewJSONString J dst)) ''body'' originBody)
               ''origin_type'' (NewJSONString J originType)) w)"

definition cloneLinkFromMainGraphToTx ::
  "('j, 'kv) env \<Rightarrow> ('j, 'kv) requester \<Rightarrow> string \<Rightarrow> string \<Rightarrow> string \<Rightarrow> string \<Rightarrow> string \<Rightarrow> string \<Rightarrow>
    ('j, 'kv) world \<Rightarrow> string option \<times> ('j, 'kv) world" where
  "cloneLinkFromMainGraphToTx E req originFrom originLt originTo txFrom txLt txTo w =
     (case wGetValueAsJSON E (OutLinkBodyKey originFrom originLt originTo) w of
        (Inl err, w) \<Rightarrow> (Some err, w)
      | (Inr originBody, w) \<Rightarrow> createLowLevelLink (ej E) req txFrom txTo txLt [] originBody w)"

end
