(* ===== verification/TxMerge.thy ===== *)
theory TxMerge
  imports TxState
begin

text \<open>
  Merging the graph of a transaction into the main graph, \<open>embedded/graph/tx/merge.go\<close>. A
  function of the code that does not end gives \<open>None\<close>.
\<close>

section \<open>The merger\<close>

datatype objectsPolicy = strict | allowCreation

record merger =
  mg_debug :: bool
  uninitedObjectsPolicy :: objectsPolicy
  mg_txID :: string
  mg_mode :: string

definition withDebug :: "merger \<Rightarrow> merger" where
  "withDebug m = m\<lparr>mg_debug := True\<rparr>"

definition withMode :: "string \<Rightarrow> merger \<Rightarrow> merger" where
  "withMode mode m = m\<lparr>mg_mode := mode\<rparr>"

definition newMerger :: "string \<Rightarrow> (merger \<Rightarrow> merger) list \<Rightarrow> merger" where
  "newMerger txID opts =
     fold (\<lambda>opt m. opt m) opts
       \<lparr>mg_debug = False, uninitedObjectsPolicy = allowCreation, mg_txID = txID, mg_mode = ''merge''\<rparr>"

definition markedDeleted :: "'j easyjson \<Rightarrow> 'j \<Rightarrow> bool" where
  "markedDeleted J body \<longleftrightarrow> AsStringDefault J (GetByPath J body ''__meta.status'') [] = ''deleted''"

definition removeTxPrefix :: "'j easyjson \<Rightarrow> string \<Rightarrow> 'j \<Rightarrow> 'j" where
  "removeTxPrefix J prefix linkBody =
     (let body = (case AsArrayString J (GetByPath J linkBody ''tags'') of
            Some tags \<Rightarrow> SetByPath J linkBody ''tags'' (JSONFromArray J (map (\<lambda>v. replace_all v prefix []) tags))
          | None \<Rightarrow> linkBody)
      in case AsString J (GetByPath J body ''link_type'') of
           Some lt \<Rightarrow> (if has_prefix lt prefix then SetByPath J body ''link_type'' (NewJSONString J (trim_prefix prefix lt)) else body)
         | None \<Rightarrow> body)"

section \<open>Objects\<close>

text \<open>One object of the transaction's graph: an error, or the normal ids that are deleted so far.\<close>

definition mergeObject ::
  "('j, 'kv) env \<Rightarrow> ('j, 'kv) requester \<Rightarrow> merger \<Rightarrow> string \<Rightarrow> txState \<Rightarrow> string \<Rightarrow> string list \<Rightarrow> ('j, 'kv) world \<Rightarrow>
    (string + string list) \<times> ('j, 'kv) world" where
  "mergeObject E req m prefix main k deleted w =
     (let J = ej E; normalID = trim_prefix k prefix
      in case wGetValueAsJSON E k w of
           (Inl err, w) \<Rightarrow> (Inl (''tx graph object '' @ k @ '' not found: '' @ err), w)
         | (Inr body, w) \<Rightarrow>
            (if normalID \<in> set (ts_objects main) then
               (if markedDeleted J body then
                  (case deleteLowLevelObject J req normalID w of
                     (Some err, w) \<Rightarrow> (Inl (''delete main graph object '' @ normalID @ '': '' @ err), w)
                   | (None, w) \<Rightarrow> (Inr (addObject normalID deleted), w))
                else
                  (case updateLowLevelObject J req (mg_mode m) normalID body w of
                     (Some err, w) \<Rightarrow> (Inl (''update main graph object '' @ normalID @ '': '' @ err), w)
                   | (None, w) \<Rightarrow> (Inr deleted, w)))
             else
               (case wGetValue E normalID w of
                  (stored, w) \<Rightarrow>
                    (if \<not> isl stored \<and> uninitedObjectsPolicy m = strict
                     then (Inl (''uninited object: '' @ normalID), w)
                     else (case createLowLevelObject J req normalID body w of
                             (Some err, w) \<Rightarrow> (Inl (''create main graph object '' @ normalID @ '': '' @ err), w)
                           | (None, w) \<Rightarrow> (Inr deleted, w))))))"

fun mergeObjects ::
  "('j, 'kv) env \<Rightarrow> ('j, 'kv) requester \<Rightarrow> merger \<Rightarrow> string \<Rightarrow> txState \<Rightarrow> string list \<Rightarrow> string list \<Rightarrow> ('j, 'kv) world \<Rightarrow>
    (string + string list) \<times> ('j, 'kv) world" where
  "mergeObjects E req m prefix main [] deleted w = (Inr deleted, w)"
| "mergeObjects E req m prefix main (k # ks) deleted w =
     (case mergeObject E req m prefix main k deleted w of
        (Inl err, w) \<Rightarrow> (Inl err, w)
      | (Inr deleted, w) \<Rightarrow> mergeObjects E req m prefix main ks deleted w)"

section \<open>Links\<close>

definition mergeLink ::
  "('j, 'kv) env \<Rightarrow> ('j, 'kv) requester \<Rightarrow> string \<Rightarrow> txState \<Rightarrow> string list \<Rightarrow> txLink \<Rightarrow> ('j, 'kv) world \<Rightarrow>
    string option \<times> ('j, 'kv) world" where
  "mergeLink E req prefix main deleted l w =
     (let J = ej E; normalParent = trim_prefix (tl_from l) prefix; normalChild = trim_prefix (tl_to l) prefix in
      if normalParent \<in> set deleted \<or> normalChild \<in> set deleted then (None, w)
      else
        (let normalLt = trim_prefix (tl_lt l) prefix; normalID = normalParent @ normalChild @ normalLt in
         case wGetValueAsJSON E (tl_cacheID l) w of
           (Inl err, w) \<Rightarrow> (Some (''tx graph link '' @ tl_cacheID l @ '': '' @ err), w)
         | (Inr body, w) \<Rightarrow>
            (let body = removeTxPrefix J prefix body in
             if map_of (ts_links main) normalID \<noteq> None then
               (if markedDeleted J body then
                  (case deleteLowLevelLink J req normalParent normalChild normalLt w of
                     (Some err, w) \<Rightarrow> (Some (''delete main graph link '' @ normalID @ '': '' @ err), w) | (None, w) \<Rightarrow> (None, w))
                else
                  (case updateLowLevelLink J req normalParent normalChild normalLt body w of
                     (Some err, w) \<Rightarrow> (Some (''update main link '' @ normalID @ '': '' @ err), w) | (None, w) \<Rightarrow> (None, w)))
             else
               (case createLowLevelLink J req normalParent normalChild normalLt [] body w of
                  (Some err, w) \<Rightarrow> (Some (''create main graph link '' @ normalID @ '': '' @ err), w) | (None, w) \<Rightarrow> (None, w)))))"

fun mergeLinks ::
  "('j, 'kv) env \<Rightarrow> ('j, 'kv) requester \<Rightarrow> string \<Rightarrow> txState \<Rightarrow> string list \<Rightarrow> txLink list \<Rightarrow> ('j, 'kv) world \<Rightarrow>
    string option \<times> ('j, 'kv) world" where
  "mergeLinks E req prefix main deleted [] w = (None, w)"
| "mergeLinks E req prefix main deleted (l # ls) w =
     (case mergeLink E req prefix main deleted l w of
        (Some err, w) \<Rightarrow> (Some err, w)
      | (None, w) \<Rightarrow> mergeLinks E req prefix main deleted ls w)"

section \<open>Merging\<close>

definition Merge ::
  "('j, 'kv) env \<Rightarrow> ('j, 'kv) requester \<Rightarrow> merger \<Rightarrow> ('j, 'kv) world \<Rightarrow> (string option \<times> ('j, 'kv) world) option" where
  "Merge E req m w =
     (let prefix = generatePrefix (mg_txID m); txGraphRoot = prefix @ BUILT_IN_ROOT in
      case graphState E BUILT_IN_ROOT w of
        None \<Rightarrow> None
      | Some (main, w) \<Rightarrow>
         (case graphState E txGraphRoot w of
            None \<Rightarrow> None
          | Some (txGraph, w) \<Rightarrow>
             (case mergeObjects E req m prefix main (mapOrder E (ts_objects txGraph)) [] w of
                (Inl err, w) \<Rightarrow> Some (Some err, w)
              | (Inr deleted, w) \<Rightarrow>
                  Some (mergeLinks E req prefix main deleted (map snd (mapEntries E (ts_links txGraph))) w))))"

end
