(* ===== verification/TxStatefun.thy ===== *)
theory TxStatefun
  imports TxMerge
begin

text \<open>
  The functions of a graph transaction, \<open>embedded/graph/tx/statefun.go\<close>: it begins with a
  clone of the main graph under the prefix of its id, changes the clone and is merged back by
  \<open>Commit\<close> and \<open>Push\<close>. A handler that does not return gives \<open>None\<close>.
\<close>

definition errInvalidArgument :: string where
  "errInvalidArgument = ''invalid argument''"

definition replyTxError ::
  "('j, 'kv) env \<Rightarrow> 'j StatefunContextProcessor \<Rightarrow> string \<Rightarrow> ('j, 'kv) world \<Rightarrow> 'j option \<times> ('j, 'kv) world" where
  "replyTxError E ctx err w =
     (case ObjectMutexUnlock E (SelfID ctx) w of (_, w) \<Rightarrow> txReply E ctx ''failed'' (Some (NewJSONString (ej E) err)) w)"

text \<open>The end of a handler that has made a request.\<close>

definition replyResult ::
  "('j, 'kv) env \<Rightarrow> 'j StatefunContextProcessor \<Rightarrow> (string + 'j) \<times> ('j, 'kv) world \<Rightarrow> 'j option \<times> ('j, 'kv) world" where
  "replyResult E ctx out =
     (case out of (result, w) \<Rightarrow>
        (case txCheckRequestError (ej E) result of Some err \<Rightarrow> replyTxError E ctx err w | None \<Rightarrow> txReplyOk E ctx w))"

definition replyStatusOk ::
  "('j, 'kv) env \<Rightarrow> 'j StatefunContextProcessor \<Rightarrow> ('j, 'kv) world \<Rightarrow> 'j option \<times> ('j, 'kv) world" where
  "replyStatusOk E ctx w =
     (case GetQueryID E ctx w of (qid, w) \<Rightarrow>
        ReplyQueryID E qid (NewJSONObjectWithKeyValue (ej E) ''payload''
          (SetByPath (ej E) (NewJSONObject (ej E)) ''status'' (NewJSONString (ej E) ''ok''))) ctx w)"

section \<open>Cloning the main graph\<close>

definition bodyOrEmpty :: "'j easyjson \<Rightarrow> string + 'j \<Rightarrow> 'j" where
  "bodyOrEmpty J r = (case r of Inl _ \<Rightarrow> NewJSONObject J | Inr body \<Rightarrow> body)"

definition cloneObject ::
  "('j, 'kv) env \<Rightarrow> ('j, 'kv) requester \<Rightarrow> string \<Rightarrow> string \<Rightarrow> ('j, 'kv) world \<Rightarrow> ('j, 'kv) world" where
  "cloneObject E req prefix ident w =
     (case wGetValueAsJSON E ident w of (body, w) \<Rightarrow>
        snd (createLowLevelObject (ej E) req (prefix @ ident) (bodyOrEmpty (ej E) body) w))"

definition cloneLink ::
  "('j, 'kv) env \<Rightarrow> ('j, 'kv) requester \<Rightarrow> string \<Rightarrow> (txLink \<Rightarrow> string) \<Rightarrow> txLink \<Rightarrow> ('j, 'kv) world \<Rightarrow> ('j, 'kv) world" where
  "cloneLink E req prefix bodyKey l w =
     (case wGetValueAsJSON E (bodyKey l) w of (body, w) \<Rightarrow>
        snd (createLowLevelLink (ej E) req (prefix @ tl_from l) (prefix @ tl_to l) (tl_lt l) (tl_objectLt l)
              (bodyOrEmpty (ej E) body) w))"

definition fullClone ::
  "('j, 'kv) env \<Rightarrow> ('j, 'kv) requester \<Rightarrow> string \<Rightarrow> ('j, 'kv) world \<Rightarrow> (string option \<times> ('j, 'kv) world) option" where
  "fullClone E req txID w =
     (let prefix = generatePrefix txID in
      case graphState E BUILT_IN_ROOT w of
        None \<Rightarrow> None
      | Some (state, w) \<Rightarrow>
         (let state = initBuiltIn state;
              w = fold (cloneObject E req prefix) (mapOrder E (ts_objects state)) w;
              w = fold (cloneLink E req prefix tl_cacheID) (map snd (mapEntries E (ts_links state))) w
          in Some (createLowLevelLink (ej E) req txID (prefix @ BUILT_IN_ROOT) ''graph'' [] (NewJSONObject (ej E)) w)))"

text \<open>The built-in vertices and links, created one after the other until a request fails.\<close>

fun createBuiltIns ::
  "'j easyjson \<Rightarrow> ('j, 'kv) requester \<Rightarrow> (string + string \<times> string \<times> string \<times> string) list \<Rightarrow> ('j, 'kv) world \<Rightarrow>
    string option \<times> ('j, 'kv) world" where
  "createBuiltIns J req [] w = (None, w)"
| "createBuiltIns J req (Inl v # steps) w =
     (case lowLevel req ''functions.graph.api.vertex.create'' v (NewJSONObject J) w of
        (Some err, w) \<Rightarrow> (Some err, w)
      | (None, w) \<Rightarrow> createBuiltIns J req steps w)"
| "createBuiltIns J req (Inr (from, to, lt, objectLt) # steps) w =
     (case createLowLevelLink J req from to lt objectLt (NewJSONObject J) w of
        (Some err, w) \<Rightarrow> (Some err, w)
      | (None, w) \<Rightarrow> createBuiltIns J req steps w)"

definition initBuilInObjects ::
  "'j easyjson \<Rightarrow> ('j, 'kv) requester \<Rightarrow> string \<Rightarrow> ('j, 'kv) world \<Rightarrow> string option \<times> ('j, 'kv) world" where
  "initBuilInObjects J req txID w =
     (let prefix = generatePrefix txID; root = prefix @ BUILT_IN_ROOT; objects = prefix @ BUILT_IN_OBJECTS;
          types = prefix @ BUILT_IN_TYPES; group = prefix @ ''group''; nav = prefix @ ''nav''
      in createBuiltIns J req
           [Inl root, Inr (txID, root, ''graph'', []), Inl objects, Inl types,
            Inr (root, objects, OBJECTS_TYPELINK, []), Inr (root, types, TYPES_TYPELINK, []),
            Inl group, Inr (types, group, TYPE_TYPELINK, []), Inr (group, group, TYPE_TYPELINK, GROUP_TYPELINK),
            Inl nav, Inr (objects, nav, OBJECT_TYPELINK, []), Inr (nav, group, TYPE_TYPELINK, []),
            Inr (group, nav, OBJECT_TYPELINK, [])] w)"

record beginTxType =
  bt_Mode :: string
  bt_Objects :: "string list"

text \<open>What a clone with types has collected: the objects of each type, the links, the objects.\<close>

record txSelection =
  sl_uniqTypeObjects :: "(string \<times> string list) list"
  sl_links :: "(string \<times> txLink) list"
  sl_objects :: "string list"

definition putLink :: "string \<Rightarrow> string \<Rightarrow> string \<Rightarrow> (string \<times> txLink) list \<Rightarrow> (string \<times> txLink) list" where
  "putLink from to lt links = (case builtInLink from to lt [] of (k, l) \<Rightarrow> AList.update k l links)"

definition objectsOf :: "string \<Rightarrow> (string \<times> string list) list \<Rightarrow> string list" where
  "objectsOf v m = (case map_of m v of None \<Rightarrow> [] | Some xs \<Rightarrow> xs)"

definition selectOutLink ::
  "(string \<times> beginTxType) list \<Rightarrow> string \<Rightarrow> beginTxType \<Rightarrow> string \<Rightarrow> txSelection \<Rightarrow> txSelection" where
  "selectOutLink types v policy outLink sel =
     (let split = split_dot outLink; outLinkID = split ! (length split - 1); outLinkLt = split ! (length split - 2) in
      if outLinkLt = OBJECT_TYPELINK then
        (if bt_Mode policy = ''none'' \<or> bt_Mode policy = ''only'' \<and> outLinkID \<notin> set (bt_Objects policy) then sel
         else sel\<lparr>sl_uniqTypeObjects := AList.update v (addObject outLinkID (objectsOf v (sl_uniqTypeObjects sel))) (sl_uniqTypeObjects sel),
                  sl_objects := addObject outLinkID (sl_objects sel),
                  sl_links := putLink BUILT_IN_OBJECTS outLinkID OBJECT_TYPELINK
                    (putLink outLinkID v TYPE_TYPELINK (putLink v outLinkID OBJECT_TYPELINK (sl_links sel)))\<rparr>)
      else if outLinkLt = TYPE_TYPELINK then
        (if map_of types outLinkID = None then sel
         else sel\<lparr>sl_objects := addObject outLinkID (sl_objects sel),
                  sl_links := putLink v outLinkID TYPE_TYPELINK (sl_links sel)\<rparr>)
      else sel)"

definition selectType ::
  "('j, 'kv) env \<Rightarrow> (string \<times> beginTxType) list \<Rightarrow> string \<times> beginTxType \<Rightarrow> txSelection \<times> ('j, 'kv) world \<Rightarrow>
    txSelection \<times> ('j, 'kv) world" where
  "selectType E types entry st =
     (case (entry, st) of ((v, policy), (sel, w)) \<Rightarrow>
        (case wGetValue E v w of
           (Inl _, w) \<Rightarrow> (sel, w)
         | (Inr _, w) \<Rightarrow>
            (let sel = sel\<lparr>sl_uniqTypeObjects := AList.update v [] (sl_uniqTypeObjects sel),
                           sl_objects := addObject v (sl_objects sel),
                           sl_links := putLink BUILT_IN_TYPES v TYPE_TYPELINK (sl_links sel)\<rparr>
             in case wGetKeysByPattern E (OutLinkBodyPattern v) w of
                  (outLinks, w) \<Rightarrow> (fold (selectOutLink types v policy) outLinks sel, w))))"

definition selectObjectsLinks ::
  "('j, 'kv) env \<Rightarrow> string \<Rightarrow> string list \<Rightarrow> string \<Rightarrow> txSelection \<times> ('j, 'kv) world \<Rightarrow> txSelection \<times> ('j, 'kv) world" where
  "selectObjectsLinks E linkType objectsTo objectFrom st =
     (case st of (sel, w) \<Rightarrow>
        (case wGetKeysByPattern E (OutLinkBodyKey objectFrom linkType ''>'') w of
           (out, w) \<Rightarrow>
             (sel\<lparr>sl_links := fold (\<lambda>v links. if lastToken v \<in> set objectsTo then putLink objectFrom (lastToken v) linkType links else links)
                out (sl_links sel)\<rparr>, w)))"

text \<open>Go leaves open whether a loop over a map visits the entries it adds; here it does not.\<close>

definition selectLinkObjects ::
  "('j, 'kv) env \<Rightarrow> string \<Rightarrow> txSelection \<times> ('j, 'kv) world \<Rightarrow> txSelection \<times> ('j, 'kv) world" where
  "selectLinkObjects E key st =
     (case st of (sel, w) \<Rightarrow>
        (let l = the (map_of (sl_links sel) key); objectsFrom = objectsOf (tl_from l) (sl_uniqTypeObjects sel);
             objectsTo = objectsOf (tl_to l) (sl_uniqTypeObjects sel) in
         if tl_lt l \<noteq> TYPE_TYPELINK \<or> length objectsFrom = 0 \<or> length objectsTo = 0 then (sel, w)
         else (case wGetValueAsJSON E (OutLinkBodyKey (tl_from l) ''__type'' (tl_to l)) w of
                 (Inl _, w) \<Rightarrow> (sel, w)
               | (Inr typesLink, w) \<Rightarrow>
                  (case AsString (ej E) (GetByPath (ej E) typesLink ''link_type'') of
                     None \<Rightarrow> (sel, w)
                   | Some linkType \<Rightarrow>
                      fold (selectObjectsLinks E linkType objectsTo) (mapOrder E objectsFrom) (sel, w)))))"

definition cloneGraphWithTypes ::
  "('j, 'kv) env \<Rightarrow> ('j, 'kv) requester \<Rightarrow> string \<Rightarrow> (string \<times> beginTxType) list \<Rightarrow> ('j, 'kv) world \<Rightarrow>
    string option \<times> ('j, 'kv) world" where
  "cloneGraphWithTypes E req txID types w =
     (case initBuilInObjects (ej E) req txID w of
        (Some err, w) \<Rightarrow> (Some err, w)
      | (None, w) \<Rightarrow>
         (let prefix = generatePrefix txID in
          case fold (selectType E types) (mapEntries E types)
                 (\<lparr>sl_uniqTypeObjects = [], sl_links = [], sl_objects = []\<rparr>, w) of (sel, w) \<Rightarrow>
          case fold (selectLinkObjects E) (mapOrder E (map fst (sl_links sel))) (sel, w) of (sel, w) \<Rightarrow>
            (let w = fold (cloneObject E req prefix) (mapOrder E (sl_objects sel)) w;
                 w = fold (cloneLink E req prefix (\<lambda>l. OutLinkBodyKey (tl_from l) (tl_lt l) (tl_to l)))
                       (map snd (mapEntries E (sl_links sel))) w
             in createLowLevelLink (ej E) req txID (prefix @ BUILT_IN_ROOT) ''graph'' [] (NewJSONObject (ej E)) w)))"

definition cloneGraph ::
  "('j, 'kv) env \<Rightarrow> ('j, 'kv) requester \<Rightarrow> string \<Rightarrow> string \<Rightarrow> (string \<times> beginTxType) list \<Rightarrow> ('j, 'kv) world \<Rightarrow>
    (string option \<times> ('j, 'kv) world) option" where
  "cloneGraph E req txID cloneMod types w =
     (if cloneMod = ''min'' then Some (cloneGraphWithTypes E req txID types w)
      else if cloneMod = ''full'' then fullClone E req txID w
      else if cloneMod = ''with_types'' then Some (cloneGraphWithTypes E req txID types w)
      else Some (None, w))"

section \<open>Begin, commit, push\<close>

text \<open>
  \<open>unmarshal\<close> is \<open>json.Unmarshal\<close> on the bytes that the JSON package makes;
  \<open>life\<close>, \<open>fuel\<close> and \<open>k\<close> are those of the key mutex.
\<close>

definition Begin ::
  "nat \<Rightarrow> nat \<Rightarrow> nat \<Rightarrow> (bytes \<Rightarrow> string + (string \<times> beginTxType) list) \<Rightarrow> ('j, 'kv) env \<Rightarrow> ('j, 'kv) handler" where
  "Begin life fuel k unmarshal E req ctx w =
     (let J = ej E; txID = SelfID ctx; payload = Payload ctx;
          cloneMod = AsStringDefault J (GetByPath J payload ''clone'') ''full'' in
      case ObjectMutexLock E life fuel txID False k w of
        None \<Rightarrow> (None, w)
      | Some (Some err, w) \<Rightarrow> txReplyError E ctx err w
      | Some (None, w) \<Rightarrow>
         (case GetObjectContext E ctx w of (body, w) \<Rightarrow>
            (let nonce = (case AsNumeric J (GetByPath J body ''nonce'') of Some n \<Rightarrow> n | None \<Rightarrow> 0) + 1 in
             case wNow E (SetObjectContext E ctx (SetByPath J body ''nonce'' (NewJSONNumber J nonce)) w) of (now, w) \<Rightarrow>
             case createLowLevelLink J req TX_MASTER txID ''tx'' [] (NewJSONObject J) w of
               (Some err, w) \<Rightarrow> replyTxError E ctx err w
             | (None, w) \<Rightarrow>
                (let bytes = ToBytes J (GetByPath J payload ''types'') in
                 case (if length bytes > 0 then unmarshal bytes else Inr []) of
                   Inl err \<Rightarrow> replyTxError E ctx err w
                 | Inr types \<Rightarrow>
                    (case cloneGraph E req txID cloneMod types w of
                       None \<Rightarrow> (None, w)
                     | Some (Some err, w) \<Rightarrow> replyTxError E ctx err w
                     | Some (None, w) \<Rightarrow> replyStatusOk E ctx w)))))"

definition pushPayload :: "'j easyjson \<Rightarrow> 'j \<Rightarrow> 'j" where
  "pushPayload J payload =
     setOpt J ''debug'' (map_option (NewJSONBool J) (AsBool J (GetByPath J payload ''debug'')))
       (setOpt J ''mode'' (map_option (NewJSONString J) (AsString J (GetByPath J payload ''mode''))) (NewJSONObject J))"

definition Commit :: "('j, 'kv) env \<Rightarrow> ('j, 'kv) handler" where
  "Commit E req ctx w =
     (case req ''functions.cmdb.tx.push'' TX_MASTER (Some (pushPayload (ej E) (Payload ctx))) None w of (_, w) \<Rightarrow>
      case replyStatusOk E ctx w of (r, w) \<Rightarrow> (r, snd (ObjectMutexUnlock E (SelfID ctx) w)))"

definition pushOpts :: "'j easyjson \<Rightarrow> 'j \<Rightarrow> (merger \<Rightarrow> merger) list" where
  "pushOpts J payload =
     (case AsString J (GetByPath J payload ''mode'') of Some mode \<Rightarrow> [withMode mode] | None \<Rightarrow> []) @
     (case AsBool J (GetByPath J payload ''debug'') of Some True \<Rightarrow> [withDebug] | _ \<Rightarrow> [])"

definition Push :: "('j, 'kv) env \<Rightarrow> ('j, 'kv) handler" where
  "Push E req ctx w =
     (let J = ej E; txID = CallerID ctx in
      if SelfID ctx \<noteq> TX_MASTER then (None, w)
      else (case Merge E req (newMerger txID (pushOpts J (Payload ctx))) w of
              None \<Rightarrow> (None, w)
            | Some (Some err, w) \<Rightarrow> replyTxError E ctx err w
            | Some (None, w) \<Rightarrow>
               (case lowLevel req ''functions.cmdb.api.object.delete'' txID
                       (SetByPath J (NewJSONObject J) ''mode'' (NewJSONString J ''cascade'')) w of
                  (Some err, w) \<Rightarrow> replyTxError E ctx err w
                | (None, w) \<Rightarrow> txReplyOk E ctx w)))"

section \<open>Types and objects\<close>

definition txCreateType :: "('j, 'kv) env \<Rightarrow> ('j, 'kv) handler" where
  "txCreateType E req ctx w =
     (let J = ej E; payload = Payload ctx; prefix = generatePrefix (SelfID ctx);
          txTypeID = prefix @ AsStringDefault J (GetByPath J payload ''id'') [];
          createTypePayload = SetByPath J (SetByPath J (NewJSONObject J) ''prefix'' (NewJSONString J prefix))
            ''body'' (GetByPath J payload ''body'')
      in replyResult E ctx (req ''functions.cmdb.api.type.create'' txTypeID (Some createTypePayload) None w))"

definition bodyPayload :: "'j easyjson \<Rightarrow> 'j \<Rightarrow> 'j" where
  "bodyPayload J body = SetByPath J (NewJSONObject J) ''body'' body"

definition txUpdateType :: "('j, 'kv) env \<Rightarrow> ('j, 'kv) handler" where
  "txUpdateType E req ctx w =
     (let J = ej E; txID = SelfID ctx; payload = Payload ctx; prefix = generatePrefix txID in
      case AsString J (GetByPath J payload ''id'') of
        None \<Rightarrow> replyTxError E ctx errInvalidArgument w
      | Some typeID \<Rightarrow>
         (let txType = prefix @ typeID;
              update = (\<lambda>w. replyResult E ctx (req ''functions.cmdb.api.type.update'' txType
                              (Some (bodyPayload J (GetByPath J payload ''body''))) None w)) in
          case wGetKeysByPattern E (OutLinkBodyKey (prefix @ BUILT_IN_TYPES) TYPE_TYPELINK txType) w of (keys, w) \<Rightarrow>
            (if length keys = 0 then
               (case wGetValueAsJSON E typeID w of
                  (Inl err, w) \<Rightarrow> replyTxError E ctx err w
                | (Inr originBody, w) \<Rightarrow>
                   (let createPayload = SetByPath J (SetByPath J (NewJSONObject J) ''id'' (NewJSONString J typeID)) ''body'' originBody in
                    case req ''functions.cmdb.tx.type.create'' txID (Some createPayload) None w of (result, w) \<Rightarrow>
                      (case txCheckRequestError J result of Some err \<Rightarrow> replyTxError E ctx err w | None \<Rightarrow> update w)))
             else update w)))"

text \<open>Requests that update the objects of a list with a body, until one fails.\<close>

fun updateAll ::
  "'j easyjson \<Rightarrow> ('j, 'kv) requester \<Rightarrow> 'j \<Rightarrow> string list \<Rightarrow> ('j, 'kv) world \<Rightarrow> string option \<times> ('j, 'kv) world" where
  "updateAll J req meta [] w = (None, w)"
| "updateAll J req meta (v # vs) w =
     (case req ''functions.cmdb.api.object.update'' v (Some (bodyPayload J meta)) None w of (result, w) \<Rightarrow>
        (case txCheckRequestError J result of Some err \<Rightarrow> (Some err, w) | None \<Rightarrow> updateAll J req meta vs w))"

definition txDeleteType :: "('j, 'kv) env \<Rightarrow> ('j, 'kv) handler" where
  "txDeleteType E req ctx w =
     (let J = ej E in
      case AsString J (GetByPath J (Payload ctx) ''id'') of
        None \<Rightarrow> replyTxError E ctx errInvalidArgument w
      | Some typeID \<Rightarrow>
         (let txType = generatePrefix (SelfID ctx) @ typeID in
          case generateDeletedMeta E w of (meta, w) \<Rightarrow>
          case txFindTypeObjects E txType w of (objects, w) \<Rightarrow>
          case updateAll J req meta objects w of
            (Some err, w) \<Rightarrow> replyTxError E ctx err w
          | (None, w) \<Rightarrow>
              replyResult E ctx (req ''functions.cmdb.api.type.update'' txType (Some (bodyPayload J meta)) None w)))"

definition txCreateObject :: "('j, 'kv) env \<Rightarrow> ('j, 'kv) handler" where
  "txCreateObject E req ctx w =
     (let J = ej E; payload = Payload ctx; prefix = generatePrefix (SelfID ctx);
          txObjID = prefix @ AsStringDefault J (GetByPath J payload ''id'') [];
          createObjPayload = SetByPath J (SetByPath J (SetByPath J (NewJSONObject J) ''prefix'' (NewJSONString J prefix))
            ''origin_type'' (GetByPath J payload ''origin_type'')) ''body'' (GetByPath J payload ''body'')
      in replyResult E ctx (req ''functions.cmdb.api.object.create'' txObjID (Some createObjPayload) None w))"

definition txUpdateObject :: "('j, 'kv) env \<Rightarrow> ('j, 'kv) handler" where
  "txUpdateObject E req ctx w =
     (let J = ej E; txID = SelfID ctx; payload = Payload ctx; prefix = generatePrefix txID in
      case AsString J (GetByPath J payload ''id'') of
        None \<Rightarrow> replyTxError E ctx errInvalidArgument w
      | Some objectID \<Rightarrow>
         (let txObject = prefix @ objectID;
              updatePayload = setOpt J ''mode'' (map_option (NewJSONString J) (AsString J (GetByPath J payload ''mode'')))
                (bodyPayload J (GetByPath J payload ''body''));
              update = (\<lambda>w. replyResult E ctx (req ''functions.cmdb.api.object.update'' txObject (Some updatePayload) None w)) in
          case wGetKeysByPattern E (OutLinkBodyKey (prefix @ BUILT_IN_OBJECTS) OBJECT_TYPELINK txObject) w of (keys, w) \<Rightarrow>
            (if length keys = 0 then
               (case wGetValueAsJSON E objectID w of
                  (Inl err, w) \<Rightarrow> replyTxError E ctx err w
                | (Inr originBody, w) \<Rightarrow>
                   (let linkPattern = OutLinkBodyKey objectID TYPE_TYPELINK ''>'' in
                    case wGetKeysByPattern E linkPattern w of (typeKeys, w) \<Rightarrow>
                      (if length typeKeys = 0 then replyTxError E ctx (''missing links: '' @ linkPattern) w
                       else
                         (let createPayload = SetByPath J (SetByPath J (SetByPath J (NewJSONObject J)
                                ''id'' (NewJSONString J objectID)) ''origin_type'' (NewJSONString J (typeKeys ! 0)))
                                ''body'' originBody in
                          case req ''functions.cmdb.tx.object.create'' txID (Some createPayload) None w of (result, w) \<Rightarrow>
                            (case txCheckRequestError J result of Some err \<Rightarrow> replyTxError E ctx err w | None \<Rightarrow> update w)))))
             else update w)))"

definition txDeleteObject :: "('j, 'kv) env \<Rightarrow> ('j, 'kv) handler" where
  "txDeleteObject E req ctx w =
     (let J = ej E in
      case AsString J (GetByPath J (Payload ctx) ''id'') of
        None \<Rightarrow> replyTxError E ctx errInvalidArgument w
      | Some objectID \<Rightarrow>
         (case generateDeletedMeta E w of (meta, w) \<Rightarrow>
            replyResult E ctx (req ''functions.cmdb.api.object.update'' (generatePrefix (SelfID ctx) @ objectID)
              (Some (bodyPayload J meta)) None w)))"

section \<open>Links\<close>

definition fromTo :: "'j easyjson \<Rightarrow> 'j \<Rightarrow> (string \<times> string) option" where
  "fromTo J payload =
     (case AsString J (GetByPath J payload ''from'') of
        None \<Rightarrow> None
      | Some from \<Rightarrow> map_option (\<lambda>to. (from, to)) (AsString J (GetByPath J payload ''to'')))"

definition toPayload :: "'j easyjson \<Rightarrow> string \<Rightarrow> 'j" where
  "toPayload J to = SetByPath J (NewJSONObject J) ''to'' (NewJSONString J to)"

definition txCreateTypesLink :: "('j, 'kv) env \<Rightarrow> ('j, 'kv) handler" where
  "txCreateTypesLink E req ctx w =
     (let J = ej E; payload = Payload ctx; prefix = generatePrefix (SelfID ctx) in
      case fromTo J payload of
        None \<Rightarrow> replyTxError E ctx errInvalidArgument w
      | Some (from, to) \<Rightarrow>
         (let createLinkPayload = SetByPath J (SetByPath J (toPayload J (prefix @ to))
                ''object_link_type'' (GetByPath J payload ''object_link_type'')) ''body'' (GetByPath J payload ''body'')
          in replyResult E ctx (req ''functions.cmdb.api.types.link.create'' (prefix @ from) (Some createLinkPayload) None w)))"

definition cloneIfMissing ::
  "('j, 'kv) env \<Rightarrow> string \<Rightarrow> (('j, 'kv) world \<Rightarrow> string option \<times> ('j, 'kv) world) \<Rightarrow> ('j, 'kv) world \<Rightarrow>
    string option \<times> ('j, 'kv) world" where
  "cloneIfMissing E key clone w =
     (case wGetValue E key w of (Inr _, w) \<Rightarrow> (None, w) | (Inl _, w) \<Rightarrow> clone w)"

definition andThen ::
  "string option \<times> ('j, 'kv) world \<Rightarrow> (('j, 'kv) world \<Rightarrow> string option \<times> ('j, 'kv) world) \<Rightarrow>
    string option \<times> ('j, 'kv) world" where
  "andThen out next_step = (case out of (Some err, w) \<Rightarrow> (Some err, w) | (None, w) \<Rightarrow> next_step w)"

definition txUpdateTypesLink :: "('j, 'kv) env \<Rightarrow> ('j, 'kv) handler" where
  "txUpdateTypesLink E req ctx w =
     (let J = ej E; txID = SelfID ctx; payload = Payload ctx; prefix = generatePrefix txID in
      case fromTo J payload of
        None \<Rightarrow> replyTxError E ctx errInvalidArgument w
      | Some (from, to) \<Rightarrow>
         (let txFrom = prefix @ from; txTo = prefix @ to;
              updatePayload = setOpt J ''body'' (optPath J payload ''body'')
                (setOpt J ''object_link_type'' (optPath J payload ''object_link_type'') (toPayload J txTo)) in
          case cloneIfMissing E (OutLinkBodyKey txFrom ''__type'' txTo)
                 (\<lambda>w. andThen (andThen
                    (cloneIfMissing E txFrom (cloneTypeFromMainGraphToTx E req txID from txFrom) w)
                    (cloneIfMissing E txTo (cloneTypeFromMainGraphToTx E req txID to txTo)))
                    (cloneLinkFromMainGraphToTx E req from to to txFrom txTo txTo)) w of
            (Some err, w) \<Rightarrow> replyTxError E ctx err w
          | (None, w) \<Rightarrow>
              replyResult E ctx (req ''functions.cmdb.api.types.link.update'' txFrom (Some updatePayload) None w)))"

text \<open>The links of one object of a type that are marked as deleted with the link between the types.\<close>

fun deleteLinksOf ::
  "'j easyjson \<Rightarrow> ('j, 'kv) requester \<Rightarrow> 'j \<Rightarrow> string \<Rightarrow> string list \<Rightarrow> ('j, 'kv) world \<Rightarrow> string option \<times> ('j, 'kv) world" where
  "deleteLinksOf J req meta objectID [] w = (None, w)"
| "deleteLinksOf J req meta objectID (v # vs) w =
     (case req ''functions.cmdb.api.objects.link.update'' objectID
             (Some (SetByPath J (toPayload J (lastToken v)) ''body'' meta)) None w of (result, w) \<Rightarrow>
        (case txCheckRequestError J result of Some err \<Rightarrow> (Some err, w) | None \<Rightarrow> deleteLinksOf J req meta objectID vs w))"

fun deleteObjectsLinks ::
  "('j, 'kv) env \<Rightarrow> ('j, 'kv) requester \<Rightarrow> 'j \<Rightarrow> string \<Rightarrow> string list \<Rightarrow> ('j, 'kv) world \<Rightarrow> string option \<times> ('j, 'kv) world" where
  "deleteObjectsLinks E req meta linkType [] w = (None, w)"
| "deleteObjectsLinks E req meta linkType (objectID # ids) w =
     (case wGetKeysByPattern E (OutLinkBodyKey objectID linkType ''>'') w of (links, w) \<Rightarrow>
        andThen (deleteLinksOf (ej E) req meta objectID links w) (deleteObjectsLinks E req meta linkType ids))"

definition txDeleteTypesLink :: "('j, 'kv) env \<Rightarrow> ('j, 'kv) handler" where
  "txDeleteTypesLink E req ctx w =
     (let J = ej E; prefix = generatePrefix (SelfID ctx) in
      case fromTo J (Payload ctx) of
        None \<Rightarrow> replyTxError E ctx errInvalidArgument w
      | Some (from, to) \<Rightarrow>
         (let txFrom = prefix @ from; txTo = prefix @ to in
          case generateDeletedMeta E w of (meta, w) \<Rightarrow>
          case wGetValueAsJSON E (OutLinkBodyKey txFrom ''__type'' txTo) w of
            (Inl err, w) \<Rightarrow> replyTxError E ctx err w
          | (Inr linkBody, w) \<Rightarrow>
             (case AsString J (GetByPath J linkBody ''link_type'') of
                None \<Rightarrow> replyTxError E ctx errInvalidArgument w
              | Some linkType \<Rightarrow>
                 (case txFindTypeObjects E txFrom w of (objects, w) \<Rightarrow>
                  case deleteObjectsLinks E req meta linkType objects w of
                    (Some err, w) \<Rightarrow> replyTxError E ctx err w
                  | (None, w) \<Rightarrow>
                      replyResult E ctx (req ''functions.cmdb.api.types.link.update'' txFrom
                        (Some (SetByPath J (toPayload J txTo) ''body'' meta)) None w)))))"

definition txCreateObjectsLink :: "('j, 'kv) env \<Rightarrow> ('j, 'kv) handler" where
  "txCreateObjectsLink E req ctx w =
     (let J = ej E; payload = Payload ctx; prefix = generatePrefix (SelfID ctx) in
      case fromTo J payload of
        None \<Rightarrow> replyTxError E ctx errInvalidArgument w
      | Some (from, to) \<Rightarrow>
          replyResult E ctx (req ''functions.cmdb.api.objects.link.create'' (prefix @ from)
            (Some (SetByPath J (toPayload J (prefix @ to)) ''body'' (GetByPath J payload ''body''))) None w))"

definition txUpdateObjectsLink :: "('j, 'kv) env \<Rightarrow> ('j, 'kv) handler" where
  "txUpdateObjectsLink E req ctx w =
     (let J = ej E; txID = SelfID ctx; payload = Payload ctx; prefix = generatePrefix txID in
      case fromTo J payload of
        None \<Rightarrow> replyTxError E ctx errInvalidArgument w
      | Some (from, to) \<Rightarrow>
         (case txFindObjectType E from w of (fromType, w) \<Rightarrow>
          case txFindObjectType E to w of (toType, w) \<Rightarrow>
          case wGetValueAsJSON E (OutLinkBodyKey fromType ''__type'' toType) w of
            (Inl err, w) \<Rightarrow> replyTxError E ctx err w
          | (Inr typesLinkBody, w) \<Rightarrow>
             (let txFrom = prefix @ from; txTo = prefix @ to;
                  objectLinkType = AsStringDefault J (GetByPath J typesLinkBody ''link_type'') [];
                  updatePayload = setOpt J ''body'' (optPath J payload ''body'') (toPayload J txTo) in
              case cloneIfMissing E (OutLinkBodyKey txFrom objectLinkType txTo)
                     (\<lambda>w. andThen (andThen
                        (cloneIfMissing E txFrom (cloneObjectFromMainGraphToTx E req txID from txFrom fromType) w)
                        (cloneIfMissing E txTo (cloneObjectFromMainGraphToTx E req txID to txTo toType)))
                        (cloneLinkFromMainGraphToTx E req from objectLinkType to txFrom objectLinkType txTo)) w of
                (Some err, w) \<Rightarrow> replyTxError E ctx err w
              | (None, w) \<Rightarrow>
                  replyResult E ctx (req ''functions.cmdb.api.objects.link.update'' txFrom (Some updatePayload) None w))))"

definition txDeleteObjectsLink :: "('j, 'kv) env \<Rightarrow> ('j, 'kv) handler" where
  "txDeleteObjectsLink E req ctx w =
     (let J = ej E; prefix = generatePrefix (SelfID ctx) in
      case fromTo J (Payload ctx) of
        None \<Rightarrow> replyTxError E ctx errInvalidArgument w
      | Some (from, to) \<Rightarrow>
         (case generateDeletedMeta E w of (meta, w) \<Rightarrow>
            replyResult E ctx (req ''functions.cmdb.api.objects.link.update'' (prefix @ from)
              (Some (SetByPath J (toPayload J (prefix @ to)) ''body'' meta)) None w)))"

text \<open>The registration of the functions that work inside a transaction.\<close>

definition txFunction :: "('j, 'kv) env \<Rightarrow> string \<Rightarrow> ('j, 'kv) handler option" where
  "txFunction E typename =
     map_of [(''functions.cmdb.tx.type.create'', txCreateType E), (''functions.cmdb.tx.type.update'', txUpdateType E),
             (''functions.cmdb.tx.type.delete'', txDeleteType E),
             (''functions.cmdb.tx.object.create'', txCreateObject E), (''functions.cmdb.tx.object.update'', txUpdateObject E),
             (''functions.cmdb.tx.object.delete'', txDeleteObject E),
             (''functions.cmdb.tx.types.link.create'', txCreateTypesLink E),
             (''functions.cmdb.tx.types.link.update'', txUpdateTypesLink E),
             (''functions.cmdb.tx.types.link.delete'', txDeleteTypesLink E),
             (''functions.cmdb.tx.objects.link.create'', txCreateObjectsLink E),
             (''functions.cmdb.tx.objects.link.update'', txUpdateObjectsLink E),
             (''functions.cmdb.tx.objects.link.delete'', txDeleteObjectsLink E)] typename"

end
