(* ===== verification/TxGraph.thy ===== *)
theory TxGraph
  imports TxStatefun JPGSelect
begin

text \<open>
  What \<open>graphState\<close> finds: its queue may hold a vertex several times, but it ends, with the
  vertices that can be reached from the root and the links between them.
\<close>

section \<open>The graph below a vertex\<close>

definition linkedTo :: "(string \<Rightarrow> bytes option) \<Rightarrow> (string \<times> string) set" where
  "linkedTo m = {(A, B). \<exists>T. (T, B) \<in> linksOf m A ''*''}"

definition reachableFrom :: "(string \<Rightarrow> bytes option) \<Rightarrow> string \<Rightarrow> string set" where
  "reachableFrom m root = (linkedTo m)\<^sup>* `` {root}"

definition childNode :: "string \<Rightarrow> string \<times> string \<Rightarrow> txNode" where
  "childNode A l = \<lparr>tn_id = snd l, tn_lt = fst l, tn_linkID = OutLinkBodyKey A (fst l) (snd l)\<rparr>"

definition stateLink :: "string \<Rightarrow> string \<times> string \<Rightarrow> txLink" where
  "stateLink A l = \<lparr>tl_from = A, tl_to = snd l, tl_lt = fst l, tl_objectLt = [], tl_cacheID = OutLinkBodyKey A (fst l) (snd l)\<rparr>"

lemma linked_vertices: "(A, B) \<in> linkedTo m \<Longrightarrow> vertex_id A \<and> vertex_id B"
  by (auto simp: linkedTo_def linksOf_def link_ok_def)

lemma reachable_vertices: "B \<in> reachableFrom m root \<Longrightarrow> vertex_id root \<Longrightarrow> vertex_id B"
  unfolding reachableFrom_def by (auto elim: rtranclE dest: linked_vertices)

lemma reachable_step: "A \<in> reachableFrom m root \<Longrightarrow> (T, B) \<in> linksOf m A ''*'' \<Longrightarrow> B \<in> reachableFrom m root"
  unfolding reachableFrom_def linkedTo_def by (auto intro: rtrancl_into_rtrancl)

lemma children_are_links:
  assumes w: "w_ok E w" and g: "graph_ok (w_view w)" and A: "simple_id A"
  obtains cs where "getChildren E A w = (cs, w)" and "set cs = childNode A ` linksOf (w_view w) A ''*''"
proof -
  have q: "OutLinkBodyPattern A = linksQuery A ''*''" by (simp add: OutLinkBodyPattern_def linksQuery_def)
  have free: "dot_free ''*''" by (simp add: dot_free_def)
  obtain ks where ks: "wGetKeysByPattern E (linksQuery A ''*'') w = (ks, w)"
    "set ks = (\<lambda>(T, B). OutLinkBodyKey A T B) ` linksOf (w_view w) A ''*''"
    using body_keys[OF w g A _ free] by (metis list.distinct(1) prod.collapse)
  have "childOfKey (OutLinkBodyKey A T B) = childNode A (T, B)" if "(T, B) \<in> linksOf (w_view w) A ''*''" for T B
  proof -
    have "split_dot (OutLinkBodyKey A T B) = [A, ''out'', ''body'', T, B]"
      using that by (auto simp: linksOf_def link_ok_def)
    then show ?thesis by (simp add: childOfKey_def childNode_def)
  qed
  then have "set (map childOfKey ks) = childNode A ` linksOf (w_view w) A ''*''"
    unfolding set_map ks(2) image_image by (intro image_cong) auto
  with that[of "map childOfKey ks"] ks(1) show thesis by (simp add: getChildren_def q)
qed

section \<open>Visiting a vertex\<close>

lemma visitLink_run:
  "fold (visitLink A objects) cs (links, queue) = (links', queue') \<Longrightarrow>
   queue' = queue @ filter (\<lambda>x. x \<notin> set objects) (map tn_id cs) \<and>
   (distinct (map fst links) \<longrightarrow> distinct (map fst links')) \<and>
   fst ` set links' = fst ` set links \<union> (\<lambda>c. A @ tn_id c @ tn_lt c) ` set cs \<and>
   set links' \<subseteq> set links \<union> (\<lambda>c. (A @ tn_id c @ tn_lt c,
     \<lparr>tl_from = A, tl_to = tn_id c, tl_lt = tn_lt c, tl_objectLt = [], tl_cacheID = tn_linkID c\<rparr>)) ` set cs"
proof (induction cs arbitrary: links queue)
  case (Cons c cs)
  let ?k = "A @ tn_id c @ tn_lt c"
  let ?l = "\<lparr>tl_from = A, tl_to = tn_id c, tl_lt = tn_lt c, tl_objectLt = [], tl_cacheID = tn_linkID c\<rparr>"
  define links1 where "links1 = (if map_of links ?k = None then links @ [(?k, ?l)] else links)"
  define queue1 where "queue1 = (if tn_id c \<notin> set objects then queue @ [tn_id c] else queue)"
  have "visitLink A objects c (links, queue) = (links1, queue1)"
    unfolding visitLink_def Let_def links1_def queue1_def by simp
  then have "fold (visitLink A objects) cs (links1, queue1) = (links', queue')" using Cons.prems by simp
  note IH = Cons.IH[OF this]
  have "distinct (map fst links) \<longrightarrow> distinct (map fst links1)" by (auto simp: links1_def map_of_eq_None_iff)
  moreover have "fst ` set links1 = insert ?k (fst ` set links)" by (auto simp: links1_def map_of_eq_None_iff)
  moreover have "set links1 \<subseteq> insert (?k, ?l) (set links)" by (auto simp: links1_def)
  moreover have "queue1 @ filter (\<lambda>x. x \<notin> set objects) (map tn_id cs) = queue @ filter (\<lambda>x. x \<notin> set objects) (map tn_id (c # cs))"
    by (simp add: queue1_def)
  ultimately show ?case using IH by auto
qed simp

lemmas visitLink_fold = visitLink_run[THEN conjunct1] visitLink_run[THEN conjunct2, THEN conjunct1, THEN mp]
  visitLink_run[THEN conjunct2, THEN conjunct2, THEN conjunct1] visitLink_run[THEN conjunct2, THEN conjunct2, THEN conjunct2]

text \<open>What holds of the state and the queue at each round.\<close>

definition loop_ok :: "(string \<Rightarrow> bytes option) \<Rightarrow> string \<Rightarrow> txState \<Rightarrow> string list \<Rightarrow> bool" where
  "loop_ok m root s queue \<longleftrightarrow>
     root \<in> set (ts_objects s) \<union> set queue \<and> set (ts_objects s) \<union> set queue \<subseteq> reachableFrom m root \<and>
     distinct (ts_objects s) \<and> distinct (map fst (ts_links s)) \<and>
     (\<forall>A\<in>set (ts_objects s). \<forall>(T, B)\<in>linksOf m A ''*''. B \<in> set (ts_objects s) \<union> set queue \<and>
        A @ B @ T \<in> fst ` set (ts_links s)) \<and>
     (\<forall>(k, l)\<in>set (ts_links s). \<exists>A T B. A \<in> set (ts_objects s) \<and> (T, B) \<in> linksOf m A ''*'' \<and>
        k = A @ B @ T \<and> l = stateLink A (T, B))"

lemma visit_ok:
  assumes ok: "loop_ok m root s (A # rest)" and cs: "set cs = childNode A ` linksOf m A ''*''"
    and v: "visitNode A cs s rest = (s', queue)"
  shows "loop_ok m root s' queue" and "set (ts_objects s') = insert A (set (ts_objects s))"
    and "queue = rest @ filter (\<lambda>x. x \<notin> set (ts_objects s')) (map tn_id cs)"
proof -
  let ?objs = "addObject A (ts_objects s)"
  obtain links' where f: "fold (visitLink A ?objs) cs (ts_links s, rest) = (links', queue)"
    and s': "s' = \<lparr>ts_objects = ?objs, ts_links = links'\<rparr>"
    using v by (auto simp: visitNode_def Let_def split: prod.splits)
  note f = visitLink_fold[OF f]
  have objs: "set ?objs = insert A (set (ts_objects s))" by (auto simp: addObject_def)
  then show "set (ts_objects s') = insert A (set (ts_objects s))"
    and "queue = rest @ filter (\<lambda>x. x \<notin> set (ts_objects s')) (map tn_id cs)" using f(1) by (simp_all add: s')
  have A: "A \<in> reachableFrom m root" using ok by (auto simp: loop_ok_def)
  have ids: "tn_id ` set cs = snd ` linksOf m A ''*''" "(\<lambda>c. A @ tn_id c @ tn_lt c) ` set cs = (\<lambda>(T, B). A @ B @ T) ` linksOf m A ''*''"
    by (auto simp: cs childNode_def image_image case_prod_beta)
  have queue: "set queue = set rest \<union> (snd ` linksOf m A ''*'' - set ?objs)"
    using f(1) ids(1) by auto
  have sub: "set queue \<subseteq> reachableFrom m root"
    unfolding queue using ok reachable_step[OF A] by (auto simp: loop_ok_def)
  have new: "(A @ tn_id c @ tn_lt c, \<lparr>tl_from = A, tl_to = tn_id c, tl_lt = tn_lt c, tl_objectLt = [], tl_cacheID = tn_linkID c\<rparr>) =
      (A @ B @ T, stateLink A (T, B))" if "c = childNode A (T, B)" for c T B
    by (simp add: that childNode_def stateLink_def)
  show "loop_ok m root s' queue"
    unfolding loop_ok_def s' txState.select_convs
  proof (intro conjI ballI)
    show "root \<in> set ?objs \<union> set queue" using ok by (auto simp: loop_ok_def objs queue)
    show "set ?objs \<union> set queue \<subseteq> reachableFrom m root" using sub A ok by (auto simp: loop_ok_def objs)
    show "distinct ?objs" using ok by (auto simp: loop_ok_def addObject_def)
    show "distinct (map fst links')" using f(2) ok by (simp add: loop_ok_def)
  next
    fix C l assume C: "C \<in> set ?objs" and l: "l \<in> linksOf m C ''*''"
    obtain T B where TB: "l = (T, B)" by (cases l)
    show "case l of (T, B) \<Rightarrow> B \<in> set ?objs \<union> set queue \<and> C @ B @ T \<in> fst ` set links'"
    proof (cases "C = A")
      case True
      have "(T, B) \<in> linksOf m A ''*''" using l TB True by simp
      then have "B \<in> set ?objs \<union> set queue" "A @ B @ T \<in> fst ` set links'"
        unfolding queue f(3) ids(2) by force+
      then show ?thesis by (simp add: TB True)
    next
      case False
      with C have "C \<in> set (ts_objects s)" by (simp add: objs)
      with ok l have "B \<in> set (ts_objects s) \<union> set (A # rest)" "C @ B @ T \<in> fst ` set (ts_links s)"
        unfolding loop_ok_def TB by blast+
      then show ?thesis by (auto simp: TB objs queue f(3))
    qed
  next
    fix x assume x: "x \<in> set links'"
    show "case x of (k, l) \<Rightarrow> \<exists>C T B. C \<in> set ?objs \<and> (T, B) \<in> linksOf m C ''*'' \<and> k = C @ B @ T \<and> l = stateLink C (T, B)"
    proof (cases "x \<in> set (ts_links s)")
      case True
      with ok have "case x of (k, l) \<Rightarrow> \<exists>C T B. C \<in> set (ts_objects s) \<and> (T, B) \<in> linksOf m C ''*'' \<and> k = C @ B @ T \<and> l = stateLink C (T, B)"
        unfolding loop_ok_def by blast
      then show ?thesis unfolding objs by (auto split: prod.splits)
    next
      case False
      with x f(4) obtain c where "c \<in> set cs" "x = (A @ tn_id c @ tn_lt c,
          \<lparr>tl_from = A, tl_to = tn_id c, tl_lt = tn_lt c, tl_objectLt = [], tl_cacheID = tn_linkID c\<rparr>)" by blast
      moreover from this(1) obtain T B where "c = childNode A (T, B)" "(T, B) \<in> linksOf m A ''*''" unfolding cs by auto
      ultimately show ?thesis using new by (auto simp: objs)
    qed
  qed
qed

section \<open>The loop ends\<close>

text \<open>
  An entry of the queue is given the number of vertices that were not visited when it was put there:
  it is put there for a vertex that is not visited, so that this number is smaller when it is taken.
\<close>

definition unvisited :: "string set \<Rightarrow> txState \<Rightarrow> nat" where
  "unvisited V s = card (V - set (ts_objects s))"

definition ranked :: "string set \<Rightarrow> txState \<Rightarrow> (string \<times> nat) list \<Rightarrow> bool" where
  "ranked V s qr \<longleftrightarrow> (\<forall>(x, r)\<in>set qr. unvisited V s \<le> r \<and> (x \<in> set (ts_objects s) \<longrightarrow> unvisited V s < r))"

definition queue_weight :: "nat \<Rightarrow> (string \<times> nat) list \<Rightarrow> nat" where
  "queue_weight D qr = sum_list (map (\<lambda>(x, r). (D + 1) ^ r) qr)"

lemma queue_weight_children: "queue_weight D (map (\<lambda>x. (x, r)) xs) = length xs * (D + 1) ^ r"
  by (induction xs) (simp_all add: queue_weight_def)

lemma children_weigh_less:
  assumes "length xs \<le> D" and "u < r"
  shows "queue_weight D (map (\<lambda>x. (x, u)) xs) < (D + 1) ^ r"
proof -
  have "length xs * (D + 1) ^ u < (D + 1) * (D + 1) ^ u" using assms(1) by (intro mult_strict_right_mono) auto
  also have "\<dots> = (D + 1) ^ Suc u" by simp
  also have "\<dots> \<le> (D + 1) ^ r" using assms(2) by (intro power_increasing) auto
  finally show ?thesis unfolding queue_weight_children .
qed

lemma loop_ends:
  assumes w: "w_ok E w" and g: "graph_ok (w_view w)" and root: "vertex_id root" and V: "finite V" "reachableFrom (w_view w) root \<subseteq> V"
    and D: "\<And>A. A \<in> reachableFrom (w_view w) root \<Longrightarrow> length (fst (getChildren E A w)) \<le> D"
  shows "loop_ok (w_view w) root s (map fst qr) \<Longrightarrow> ranked V s qr \<Longrightarrow>
    \<exists>s'. graphLoop E (map fst qr) s w = Some (s', w) \<and> loop_ok (w_view w) root s' []"
proof (induction "queue_weight D qr" arbitrary: qr s rule: less_induct)
  case less
  show ?case
  proof (cases qr)
    case Nil
    with less.prems(1) show ?thesis by (subst graphLoop.simps) simp
  next
    case (Cons q rest)
    obtain A r where q: "q = (A, r)" by (cases q)
    have A: "A \<in> reachableFrom (w_view w) root" using less.prems(1) by (simp add: loop_ok_def Cons q)
    have "simple_id A" using reachable_vertices[OF A root] by simp
    then obtain cs where cs: "getChildren E A w = (cs, w)" "set cs = childNode A ` linksOf (w_view w) A ''*''"
      using children_are_links[OF w g] by blast
    obtain s1 queue1 where v: "visitNode A cs s (map fst rest) = (s1, queue1)" by fastforce
    have ok: "loop_ok (w_view w) root s (A # map fst rest)" using less.prems(1) by (simp add: Cons q)
    note v1 = visit_ok[OF ok cs(2) v]
    let ?new = "filter (\<lambda>x. x \<notin> set (ts_objects s1)) (map tn_id cs)"
    let ?u = "unvisited V s1"
    let ?qr = "rest @ map (\<lambda>x. (x, ?u)) ?new"
    have queue1: "queue1 = map fst ?qr" using v1(3) by (simp add: o_def)
    have visited: "?u = (if A \<in> set (ts_objects s) then unvisited V s else unvisited V s - 1)"
      "A \<notin> set (ts_objects s) \<Longrightarrow> 0 < unvisited V s"
    proof -
      have "V - set (ts_objects s1) = V - set (ts_objects s) - {A}" using v1(2) by auto
      then show "?u = (if A \<in> set (ts_objects s) then unvisited V s else unvisited V s - 1)"
        using A V by (auto simp: unvisited_def)
      show "A \<notin> set (ts_objects s) \<Longrightarrow> 0 < unvisited V s"
        using A V unfolding unvisited_def by (auto simp: card_gt_0_iff)
    qed
    have r: "unvisited V s \<le> r" "A \<in> set (ts_objects s) \<Longrightarrow> unvisited V s < r"
      using less.prems(2) by (auto simp: ranked_def Cons q)
    then have u: "?u < r" using visited by (cases "A \<in> set (ts_objects s)") auto
    have "ranked V s1 ?qr"
      unfolding ranked_def
    proof (intro ballI)
      fix x assume x: "x \<in> set ?qr"
      show "case x of (x, r) \<Rightarrow> ?u \<le> r \<and> (x \<in> set (ts_objects s1) \<longrightarrow> ?u < r)"
      proof (cases "x \<in> set rest")
        case True
        obtain y k where y: "x = (y, k)" by (cases x)
        from True less.prems(2) have "unvisited V s \<le> k" "y \<in> set (ts_objects s) \<longrightarrow> unvisited V s < k"
          by (auto simp: ranked_def Cons y)
        then show ?thesis using visited v1(2) by (cases "A \<in> set (ts_objects s)") (auto simp: y)
      next
        case False
        with x show ?thesis by auto
      qed
    qed
    moreover have "queue_weight D ?qr < queue_weight D qr"
    proof -
      have "length ?new \<le> D" using D[OF A] cs(1) length_filter_le[of _ "map tn_id cs"] by (metis fst_conv le_trans length_map)
      from children_weigh_less[OF this u] show ?thesis by (simp add: queue_weight_def Cons q)
    qed
    moreover have "loop_ok (w_view w) root s1 (map fst ?qr)" using v1(1) by (simp only: queue1)
    ultimately obtain s' where "graphLoop E (map fst ?qr) s1 w = Some (s', w)" "loop_ok (w_view w) root s' []"
      using less.hyps by blast
    then show ?thesis using v cs(1) by (subst graphLoop.simps) (simp add: Cons q queue1)
  qed
qed

lemma finite_reachable: "finite (dom m) \<Longrightarrow> finite (reachableFrom m root)"
proof -
  assume f: "finite (dom m)"
  have "reachableFrom m root \<subseteq> insert root ((\<lambda>k. last (split_dot k)) ` dom m)"
  proof
    fix B assume "B \<in> reachableFrom m root"
    then have "(root, B) \<in> (linkedTo m)\<^sup>*" by (simp add: reachableFrom_def)
    then show "B \<in> insert root ((\<lambda>k. last (split_dot k)) ` dom m)"
    proof (cases rule: rtranclE)
      case (step C)
      then obtain T where T: "link_ok (C, T, B)" "m (OutLinkBodyKey C T B) \<noteq> None" by (auto simp: linkedTo_def linksOf_def)
      then have "last (split_dot (OutLinkBodyKey C T B)) = B" by (simp add: link_ok_def)
      with T(2) show ?thesis by force
    qed simp
  qed
  with f show ?thesis by (elim finite_subset) simp
qed

definition stateOf :: "(string \<Rightarrow> bytes option) \<Rightarrow> string \<Rightarrow> txState \<Rightarrow> bool" where
  "stateOf m root s \<longleftrightarrow> distinct (ts_objects s) \<and> set (ts_objects s) = reachableFrom m root \<and> distinct (map fst (ts_links s)) \<and>
     (\<forall>A\<in>reachableFrom m root. \<forall>(T, B)\<in>linksOf m A ''*''. A @ B @ T \<in> fst ` set (ts_links s)) \<and>
     (\<forall>(k, l)\<in>set (ts_links s). \<exists>A T B. A \<in> reachableFrom m root \<and> (T, B) \<in> linksOf m A ''*'' \<and>
        k = A @ B @ T \<and> l = stateLink A (T, B))"

lemma loop_result:
  assumes "loop_ok m root s []"
  shows "stateOf m root s"
proof -
  note l = assms[unfolded loop_ok_def]
  have "reachableFrom m root \<subseteq> set (ts_objects s)"
  proof
    fix B assume "B \<in> reachableFrom m root"
    then have "(root, B) \<in> (linkedTo m)\<^sup>*" by (simp add: reachableFrom_def)
    then show "B \<in> set (ts_objects s)"
    proof (induction rule: rtrancl_induct)
      case base
      then show ?case using l by simp
    next
      case (step A B)
      then obtain T where "(T, B) \<in> linksOf m A ''*''" by (auto simp: linkedTo_def)
      with step.IH l show ?case by fastforce
    qed
  qed
  with l have objs: "set (ts_objects s) = reachableFrom m root" by auto
  have "\<forall>A\<in>set (ts_objects s). \<forall>(T, B)\<in>linksOf m A ''*''. A @ B @ T \<in> fst ` set (ts_links s)" using l by fastforce
  then show ?thesis
    unfolding stateOf_def objs[symmetric] using l by simp
qed

lemma graphState_reachable:
  assumes w: "w_ok E w" and g: "graph_ok (w_view w)" and root: "vertex_id root"
    and v: "w_view w root \<noteq> None"
  shows "\<exists>s. graphState E root w = Some (s, w) \<and> stateOf (w_view w) root s"
proof -
  let ?R = "reachableFrom (w_view w) root"
  have R: "finite ?R" using finite_view by (rule finite_reachable)
  define D where "D = Max (insert 0 ((\<lambda>A. length (fst (getChildren E A w))) ` ?R))"
  have D: "length (fst (getChildren E A w)) \<le> D" if "A \<in> ?R" for A
    unfolding D_def using R that by (intro Max_ge) auto
  let ?s = "\<lparr>ts_objects = [], ts_links = []\<rparr>"
  have "loop_ok (w_view w) root ?s (map fst [(root, card ?R)])" by (simp add: loop_ok_def reachableFrom_def)
  moreover have "ranked ?R ?s [(root, card ?R)]" by (simp add: ranked_def unvisited_def)
  ultimately obtain s where "graphLoop E (map fst [(root, card ?R)]) ?s w = Some (s, w)" "loop_ok (w_view w) root s []"
    using loop_ends[OF w g root R subset_refl D] by blast
  moreover obtain x where "wGetValue E root w = (Inr x, w)" using world.get_Some[OF w] v by blast
  ultimately show ?thesis using loop_result by (auto simp: graphState_def)
qed

end
