(* ===== verification/TxViews.thy ===== *)
theory TxViews
  imports TxGraph HLObjects
begin

text \<open>
  What the operations of the low-level API do to single vertices and links, whatever else the store
  holds: the facts that the merge of many of them adds up.
\<close>

section \<open>Vertices\<close>

lemma vertex_update_view:
  shows "simple_id B \<Longrightarrow> spec_vertex_update J A mode body m B =
      (if B = A then Some (ToBytes J (updatedBody J mode (storedBody J m A) body)) else m B)"
    and "vertex_id A \<Longrightarrow> link_ok (F, T, V) \<Longrightarrow> spec_vertex_update J A mode body m (OutLinkBodyKey F T V) = m (OutLinkBodyKey F T V)"
  by (simp_all add: spec_vertex_update_def Let_def storedBody_def)

lemma vertex_create_view:
  assumes m: "graph_ok m" and A: "vertex_id A"
  shows "simple_id B \<Longrightarrow> spec_vertex_create J A body m B = (if B = A then Some (ToBytes J body) else m B)"
    and "link_ok (F, T, V) \<Longrightarrow> spec_vertex_create J A body m (OutLinkBodyKey F T V) =
       (if m A \<noteq> None \<and> (F = A \<or> V = A) then None else m (OutLinkBodyKey F T V))"
  using spec_vertex_delete_view[OF m A, where J = J] A by (simp_all add: spec_vertex_create_def)

section \<open>Links\<close>

lemma link_delete_view:
  assumes l: "link_ok (A, T, B)"
  shows "simple_id V \<Longrightarrow> spec_link_delete J A T B m V = m V"
    and "link_ok (F, S, V) \<Longrightarrow> spec_link_delete J A T B m (OutLinkBodyKey F S V) =
       (if (F, S, V) = (A, T, B) then None else m (OutLinkBodyKey F S V))"
proof -
  show "simple_id V \<Longrightarrow> spec_link_delete J A T B m V = m V"
    using removes_not_vertex[OF l, of V J m] by (simp add: spec_link_delete_removes)
  assume "link_ok (F, S, V)"
  then show "spec_link_delete J A T B m (OutLinkBodyKey F S V) =
       (if (F, S, V) = (A, T, B) then None else m (OutLinkBodyKey F S V))"
    using removes_body[OF l, of F S V J m] by (auto simp: spec_link_delete_removes)
qed

lemma dotted_not_simple: "CHR ''.'' \<in> set k \<Longrightarrow> \<not> simple_id k"
  using simple_dot_free[of k] by (auto simp: dot_free_def)

lemma dotted_keys [simp]:
  "\<not> simple_id (OutLinkNameGenKey A)" "\<not> simple_id (OutLinkNameKey A N)" "\<not> simple_id (OutLinkIndexKey A T B i t)"
  "\<not> simple_id (OutLinkBodyKey A T B)" "\<not> simple_id (InLinkKey A T B)"
  by (rule dotted_not_simple, simp add: OutLinkNameGenKey_def OutLinkNameKey_def OutLinkIndexKey_def OutLinkBodyKey_def InLinkKey_def)+

lemma link_name_view:
  shows "simple_id V \<Longrightarrow> snd (spec_link_name J A body m) V = m V"
    and "simple_id A \<Longrightarrow> link_ok (F, S, V) \<Longrightarrow> snd (spec_link_name J A body m) (OutLinkBodyKey F S V) = m (OutLinkBodyKey F S V)"
  by (auto simp: spec_link_name_def Let_def)

lemma link_write_vertex: "simple_id V \<Longrightarrow> spec_link_write J A T B N body m V = m V"
  by (auto simp: spec_link_write_def)

text \<open>
  The value stored for a link with a given body: the body itself, when it brings a name that is free,
  or the body with a generated name.
\<close>

definition stores_body :: "'j easyjson \<Rightarrow> 'j \<Rightarrow> bytes option \<Rightarrow> bool" where
  "stores_body J body v \<longleftrightarrow> v = Some (ToBytes J body) \<or>
     (\<exists>i. v = Some (ToBytes J (SetByPath J body ''name'' (NewJSONString J (''name'' @ sprintf_d i)))))"

lemma name_stores_body: "fst (spec_link_name J A body m) = (N, body') \<Longrightarrow> stores_body J body (Some (ToBytes J body'))"
  by (auto simp: spec_link_name_def stores_body_def Let_def split: if_splits)

text \<open>The body that an update of a link leaves, given the value stored before.\<close>

definition putBody :: "'j easyjson \<Rightarrow> string \<Rightarrow> bytes option \<Rightarrow> 'j \<Rightarrow> 'j" where
  "putBody J mode v new =
     (case v of None \<Rightarrow> new | Some b \<Rightarrow> (case JSONFromBytes J b of None \<Rightarrow> new | Some old \<Rightarrow> updatedBody J mode old new))"

lemma link_create_view:
  assumes J: "easyjson_ok J" and l: "link_ok (A, T, B)" and b: "link_body_ok J body"
  shows "simple_id V \<Longrightarrow> spec_link_create J A T B body m V = m V"
    and "link_ok (F, S, V) \<Longrightarrow> if (F, S, V) = (A, T, B) then stores_body J body (spec_link_create J A T B body m (OutLinkBodyKey F S V))
      else spec_link_create J A T B body m (OutLinkBodyKey F S V) = m (OutLinkBodyKey F S V)"
proof -
  have A: "simple_id A" using l by (simp add: link_ok_def)
  let ?m1 = "spec_link_delete J A T B m"
  obtain N body' m2 where n: "spec_link_name J A body ?m1 = ((N, body'), m2)" by (rule nested_pair)
  then have N: "simple_id N" "\<forall>t\<in>set (linkTags J body'). simple_id t"
    using spec_link_name_ok[OF J b, of A ?m1 N body'] b by (simp_all add: link_body_ok_def)
  have m2: "m2 = snd (spec_link_name J A body ?m1)" by (simp add: n)
  show "simple_id V \<Longrightarrow> spec_link_create J A T B body m V = m V"
    using link_name_view(1)[of V J A body ?m1] link_delete_view(1)[OF l, of V J m] link_write_vertex[of V J A T B N body' m2]
    by (auto simp: spec_link_create_def n)
  assume F: "link_ok (F, S, V)"
  then have "m2 (OutLinkBodyKey F S V) = (if (F, S, V) = (A, T, B) then None else m (OutLinkBodyKey F S V))"
    using link_name_view(2)[OF A F, where J = J and body = body and m = ?m1] link_delete_view(2)[OF l F, of J m] by (simp add: n)
  then show "if (F, S, V) = (A, T, B) then stores_body J body (spec_link_create J A T B body m (OutLinkBodyKey F S V))
      else spec_link_create J A T B body m (OutLinkBodyKey F S V) = m (OutLinkBodyKey F S V)"
    using link_write_view(1)[OF l N F, where m = m2] F l name_stores_body[of J A body ?m1 N body'] n
    by (cases "(F, S, V) = (A, T, B)") (auto simp: spec_link_create_def n)
qed

lemma link_update_view:
  assumes J: "easyjson_ok J" and l: "link_ok (A, T, B)" and b: "link_body_ok J (updatedBody J mode old new)"
  shows "simple_id V \<Longrightarrow> spec_link_update J A T B mode old new m V = m V"
    and "link_ok (F, S, V) \<Longrightarrow> if (F, S, V) = (A, T, B)
      then stores_body J (updatedBody J mode old new) (spec_link_update J A T B mode old new m (OutLinkBodyKey F S V))
      else spec_link_update J A T B mode old new m (OutLinkBodyKey F S V) = m (OutLinkBodyKey F S V)"
proof -
  have A: "simple_id A" "dot_free A" using l by (auto simp: link_ok_def)
  let ?m1 = "\<lambda>k. if k \<in> linkIndexKeys J A T B old then None else m k"
  obtain N body' m2 where n: "spec_link_name J A (updatedBody J mode old new) ?m1 = ((N, body'), m2)" by (rule nested_pair)
  then have N: "simple_id N" "\<forall>t\<in>set (linkTags J body'). simple_id t"
    using spec_link_name_ok[OF J b, of A ?m1 N body'] b by (simp_all add: link_body_ok_def)
  have "V \<notin> linkIndexKeys J A T B old" if "simple_id V"
    using that by (auto simp: linkIndexKeys_def split: option.splits)
  then show "simple_id V \<Longrightarrow> spec_link_update J A T B mode old new m V = m V"
    using link_name_view(1)[of V J A "updatedBody J mode old new" ?m1] link_write_vertex[of V J A T B N body' m2]
    by (simp add: spec_link_update_def n)
  assume F: "link_ok (F, S, V)"
  then have "m2 (OutLinkBodyKey F S V) = m (OutLinkBodyKey F S V)"
    using link_name_view(2)[OF A(1) F, where J = J and body = "updatedBody J mode old new" and m = ?m1] A(2) F by (simp add: n)
  then show "if (F, S, V) = (A, T, B)
      then stores_body J (updatedBody J mode old new) (spec_link_update J A T B mode old new m (OutLinkBodyKey F S V))
      else spec_link_update J A T B mode old new m (OutLinkBodyKey F S V) = m (OutLinkBodyKey F S V)"
    using link_write_view(1)[OF l N F, where m = m2] name_stores_body[of J A "updatedBody J mode old new" ?m1 N body'] n
    by (cases "(F, S, V) = (A, T, B)") (auto simp: spec_link_update_def n)
qed

lemma link_put_view:
  assumes J: "easyjson_ok J" and l: "link_ok (A, T, B)" and b: "update_body_ok J A T B mode new m"
  shows "simple_id V \<Longrightarrow> spec_link_put J A T B mode new m V = m V"
    and "link_ok (F, S, V) \<Longrightarrow> if (F, S, V) = (A, T, B)
      then stores_body J (putBody J mode (m (OutLinkBodyKey A T B)) new) (spec_link_put J A T B mode new m (OutLinkBodyKey F S V))
      else spec_link_put J A T B mode new m (OutLinkBodyKey F S V) = m (OutLinkBodyKey F S V)"
proof -
  have n: "link_body_ok J new" using b by (simp add: update_body_ok_def)
  show "simple_id V \<Longrightarrow> spec_link_put J A T B mode new m V = m V"
    using link_create_view(1)[OF J l n] link_update_view(1)[OF J l] b
    by (auto simp: spec_link_put_def update_body_ok_def split: option.split)
  assume F: "link_ok (F, S, V)"
  then show "if (F, S, V) = (A, T, B)
      then stores_body J (putBody J mode (m (OutLinkBodyKey A T B)) new) (spec_link_put J A T B mode new m (OutLinkBodyKey F S V))
      else spec_link_put J A T B mode new m (OutLinkBodyKey F S V) = m (OutLinkBodyKey F S V)"
    using link_create_view(2)[OF J l n F] link_update_view(2)[OF J l _ F] b
    by (auto simp: spec_link_put_def putBody_def update_body_ok_def split: option.split)
qed

section \<open>Requests\<close>

lemma lowLevel_served:
  assumes "served E f w (goLangLocalRequest E registered k ct ci op ident (Some p) None w)"
  obtains w' where "lowLevel (goLangLocalRequest E registered k ct ci) op ident p w = (None, w')" and "does E f w w'"
  using assms by (cases "goLangLocalRequest E registered k ct ci op ident (Some p) None w") (auto simp: served_def lowLevel_def)

end
