(* ===== verification/TxSpec.thy ===== *)
theory TxSpec
  imports TxViews
begin

text \<open>
  What the merge of a transaction does to the main graph, as functions on the map from keys to
  values, and the proof that \<open>mergeObjects\<close> and \<open>mergeLinks\<close> do it through
  requests to the low-level API. The order in which the objects and the links are taken does not
  matter: the result is given for each vertex and for each link.
\<close>

definition storedJSON :: "'j easyjson \<Rightarrow> (string \<Rightarrow> bytes option) \<Rightarrow> string \<Rightarrow> 'j option" where
  "storedJSON J m k = (case m k of None \<Rightarrow> None | Some v \<Rightarrow> JSONFromBytes J v)"

lemma get_json: "w_ok E w \<Longrightarrow> storedJSON (ej E) (w_view w) k = Some j \<Longrightarrow> wGetValueAsJSON E k w = (Inr j, w)"
  using wGetValueAsJSON_cases[of E w k] by (auto simp: storedJSON_def split: option.splits)

section \<open>One object\<close>

definition spec_merge_object ::
  "'j easyjson \<Rightarrow> string \<Rightarrow> string set \<Rightarrow> string \<Rightarrow> 'j \<Rightarrow> (string \<Rightarrow> bytes option) \<Rightarrow> string \<Rightarrow> bytes option" where
  "spec_merge_object J mode M A body m =
     (if A \<in> M then (if markedDeleted J body then spec_vertex_delete J A m else spec_vertex_update J A mode body m)
      else spec_vertex_create J A body m)"

text \<open>The value of the vertex after the merge, and whether the links of the vertex are removed.\<close>

definition newVertex ::
  "'j easyjson \<Rightarrow> string \<Rightarrow> string set \<Rightarrow> string \<Rightarrow> 'j \<Rightarrow> (string \<Rightarrow> bytes option) \<Rightarrow> bytes option" where
  "newVertex J mode M A body m =
     (if A \<notin> M then Some (ToBytes J body)
      else if markedDeleted J body then None
      else Some (ToBytes J (updatedBody J mode (storedBody J m A) body)))"

definition cutVertex :: "'j easyjson \<Rightarrow> string set \<Rightarrow> string \<Rightarrow> 'j \<Rightarrow> (string \<Rightarrow> bytes option) \<Rightarrow> bool" where
  "cutVertex J M A body m \<longleftrightarrow> (if A \<in> M then markedDeleted J body else m A \<noteq> None)"

lemma merge_object_view:
  assumes m: "graph_ok m" and A: "vertex_id A"
  shows "graph_ok (spec_merge_object J mode M A body m)"
    and "indexed J m \<Longrightarrow> indexed J (spec_merge_object J mode M A body m)"
    and "simple_id B \<Longrightarrow> spec_merge_object J mode M A body m B = (if B = A then newVertex J mode M A body m else m B)"
    and "link_ok (F, T, V) \<Longrightarrow> spec_merge_object J mode M A body m (OutLinkBodyKey F T V) =
       (if (F = A \<or> V = A) \<and> cutVertex J M A body m then None else m (OutLinkBodyKey F T V))"
proof -
  note del = spec_vertex_delete_view[OF m A, where J = J] and create = vertex_create_view[OF m A, where J = J]
  show "graph_ok (spec_merge_object J mode M A body m)"
    using vertex_graph[OF m A, where J = J] vertex_delete_graph[OF m A, where J = J] by (simp add: spec_merge_object_def)
  show "indexed J m \<Longrightarrow> indexed J (spec_merge_object J mode M A body m)"
    using vertex_indexed[OF _ A, where J = J] vertex_delete_indexed[OF _ A, where J = J] by (simp add: spec_merge_object_def)
  show "simple_id B \<Longrightarrow> spec_merge_object J mode M A body m B = (if B = A then newVertex J mode M A body m else m B)"
    using del(1,2) create(1) vertex_update_view(1)[where J = J and A = A]
    by (cases "B = A") (auto simp: spec_merge_object_def newVertex_def)
  show "link_ok (F, T, V) \<Longrightarrow> spec_merge_object J mode M A body m (OutLinkBodyKey F T V) =
       (if (F = A \<or> V = A) \<and> cutVertex J M A body m then None else m (OutLinkBodyKey F T V))"
    using del(3) create(2) vertex_update_view(2)[OF A, where J = J] by (simp add: spec_merge_object_def cutVertex_def)
qed

lemma body_payload:
  assumes "easyjson_ok J" and "IsObject J body"
  shows "GetByPath J (SetByPath J (SetByPath J (NewJSONObject J) ''body'' body) ''mode'' v) ''body'' = body"
    and "GetByPath J (SetByPath J (SetByPath J (NewJSONObject J) ''body'' body) ''mode'' v) ''mode'' = v"
    and "GetByPath J (SetByPath J (NewJSONObject J) ''body'' body) ''body'' = body"
  using ej_obj_new[OF assms(1)] ej_obj_set[OF assms(1)] ej_get_set[OF assms(1)] ej_get_other[OF assms(1)]
  by (simp_all add: simple_path_def dot_free_def)

lemma merge_object_does:
  assumes E: "env_ok E" and reg: "ll_registered E registered" and w: "w_ok E w" "ll_idle (running w)" "graph_ok (w_view w)"
    and p: "uninitedObjectsPolicy mg = allowCreation" and A: "vertex_id A"
    and b: "storedJSON (ej E) (w_view w) (prefix @ A) = Some body" "IsObject (ej E) body"
  shows "\<exists>w'. mergeObject E (goLangLocalRequest E registered (n + 5) ct ci) mg prefix main (prefix @ A) deleted w =
      (Inr (if A \<in> set (ts_objects main) \<and> markedDeleted (ej E) body then addObject A deleted else deleted), w') \<and>
    does E (spec_merge_object (ej E) (mg_mode mg) (set (ts_objects main)) A body) w w'"
proof -
  let ?J = "ej E" and ?req = "goLangLocalRequest E registered (n + 5) ct ci"
  note J = env_ok_ej[OF E]
  note get = get_json[OF w(1) b(1)]
  note pl = body_payload[OF J b(2)]
  consider "A \<in> set (ts_objects main)" "markedDeleted ?J body" | "A \<in> set (ts_objects main)" "\<not> markedDeleted ?J body"
    | "A \<notin> set (ts_objects main)" by blast
  then show ?thesis
  proof cases
    case 1
    have "served E (spec_vertex_delete ?J A) w (?req ''functions.graph.api.vertex.delete'' A (Some (NewJSONObject ?J)) None w)"
      by (rule serve_vertex_delete[OF E reg w(1,2) A w(3)])
    from lowLevel_served[OF this] obtain w' where "deleteLowLevelObject ?J ?req A w = (None, w')"
      "does E (spec_vertex_delete ?J A) w w'" unfolding deleteLowLevelObject_def by blast
    then show ?thesis using 1 get by (simp add: mergeObject_def spec_merge_object_def does_def)
  next
    case 2
    have "served E (spec_vertex_update ?J A (mg_mode mg) body) w (?req ''functions.graph.api.vertex.update'' A
        (Some (SetByPath ?J (SetByPath ?J (NewJSONObject ?J) ''body'' body) ''mode'' (NewJSONString ?J (mg_mode mg)))) None w)"
      by (rule serve_vertex_update[OF E reg w(1,2) A pl(1) b(2)]) (simp add: pl(2) ej_str_default[OF J] ej_str[OF J])
    from lowLevel_served[OF this] obtain w' where "updateLowLevelObject ?J ?req (mg_mode mg) A body w = (None, w')"
      "does E (spec_vertex_update ?J A (mg_mode mg) body) w w'" unfolding updateLowLevelObject_def by blast
    then show ?thesis using 2 get by (simp add: mergeObject_def spec_merge_object_def does_def)
  next
    case 3
    obtain v where v: "wGetValue E A w = (v, w)" using wGetValue_cases[OF w(1)] by blast
    have "served E (spec_vertex_create ?J A body) w (?req ''functions.graph.api.vertex.create'' A
        (Some (SetByPath ?J (NewJSONObject ?J) ''body'' body)) None w)"
      by (rule serve_vertex_create[OF E reg w(1,2) A w(3) pl(3) b(2)])
    from lowLevel_served[OF this] obtain w' where "createLowLevelObject ?J ?req A body w = (None, w')"
      "does E (spec_vertex_create ?J A body) w w'" unfolding createLowLevelObject_def by blast
    then show ?thesis using 3 get v p by (simp add: mergeObject_def spec_merge_object_def does_def)
  qed
qed

section \<open>All objects\<close>

text \<open>The objects \<open>K\<close> of a transaction, whose bodies are \<open>b\<close>, merged into the objects \<open>M\<close>.\<close>

definition mergedVertex ::
  "'j easyjson \<Rightarrow> string \<Rightarrow> string \<Rightarrow> string set \<Rightarrow> string set \<Rightarrow> (string \<Rightarrow> 'j) \<Rightarrow> (string \<Rightarrow> bytes option) \<Rightarrow> string \<Rightarrow> bytes option" where
  "mergedVertex J mode prefix K M b m A =
     (if prefix @ A \<in> K then newVertex J mode M A (b (prefix @ A)) m else m A)"

definition cutBy ::
  "'j easyjson \<Rightarrow> string \<Rightarrow> string set \<Rightarrow> string set \<Rightarrow> (string \<Rightarrow> 'j) \<Rightarrow> (string \<Rightarrow> bytes option) \<Rightarrow> string \<Rightarrow> bool" where
  "cutBy J prefix K M b m A \<longleftrightarrow> prefix @ A \<in> K \<and> cutVertex J M A (b (prefix @ A)) m"

definition deletedBy :: "'j easyjson \<Rightarrow> string \<Rightarrow> string set \<Rightarrow> string set \<Rightarrow> (string \<Rightarrow> 'j) \<Rightarrow> string \<Rightarrow> bool" where
  "deletedBy J prefix K M b A \<longleftrightarrow> prefix @ A \<in> K \<and> A \<in> M \<and> markedDeleted J (b (prefix @ A))"

definition prefixed :: "string \<Rightarrow> string set \<Rightarrow> bool" where
  "prefixed prefix R \<longleftrightarrow> (\<forall>k\<in>R. \<exists>A. k = prefix @ A \<and> vertex_id A \<and> vertex_id k \<and> A \<notin> R)"

definition objects_stored :: "'j easyjson \<Rightarrow> (string \<Rightarrow> bytes option) \<Rightarrow> string set \<Rightarrow> (string \<Rightarrow> 'j) \<Rightarrow> bool" where
  "objects_stored J m K b \<longleftrightarrow> (\<forall>k\<in>K. storedJSON J m k = Some (b k) \<and> IsObject J (b k))"

lemma merge_objects_does:
  assumes E: "env_ok E" and reg: "ll_registered E registered" and p: "uninitedObjectsPolicy mg = allowCreation"
    and R: "prefixed prefix R"
  shows "w_ok E w \<Longrightarrow> ll_idle (running w) \<Longrightarrow> graph_ok (w_view w) \<Longrightarrow> distinct ks \<Longrightarrow> set ks \<subseteq> R \<Longrightarrow>
    objects_stored (ej E) (w_view w) (set ks) b \<Longrightarrow>
    \<exists>w' D. mergeObjects E (goLangLocalRequest E registered (n + 5) ct ci) mg prefix main ks deleted w = (Inr D, w') \<and>
      w_ok E w' \<and> ll_idle (running w') \<and> graph_ok (w_view w') \<and>
      (indexed (ej E) (w_view w) \<longrightarrow> indexed (ej E) (w_view w')) \<and>
      (\<forall>A. A \<in> set D \<longleftrightarrow> A \<in> set deleted \<or> deletedBy (ej E) prefix (set ks) (set (ts_objects main)) b A) \<and>
      (\<forall>A. simple_id A \<longrightarrow> w_view w' A = mergedVertex (ej E) (mg_mode mg) prefix (set ks) (set (ts_objects main)) b (w_view w) A) \<and>
      (\<forall>F T V. link_ok (F, T, V) \<longrightarrow> w_view w' (OutLinkBodyKey F T V) =
         (if cutBy (ej E) prefix (set ks) (set (ts_objects main)) b (w_view w) F \<or>
             cutBy (ej E) prefix (set ks) (set (ts_objects main)) b (w_view w) V then None else w_view w (OutLinkBodyKey F T V)))"
proof (induction ks arbitrary: w deleted)
  case Nil
  then show ?case by (simp add: deletedBy_def mergedVertex_def cutBy_def)
next
  case (Cons k ks)
  let ?J = "ej E" and ?M = "set (ts_objects main)" and ?req = "goLangLocalRequest E registered (n + 5) ct ci"
  obtain A where A: "k = prefix @ A" "vertex_id A" "A \<notin> R" using R Cons.prems(5) by (auto simp: prefixed_def)
  have b: "storedJSON ?J (w_view w) (prefix @ A) = Some (b k)" "IsObject ?J (b k)"
    using Cons.prems(6) by (simp_all add: objects_stored_def A(1))
  obtain w1 where 1: "mergeObject E ?req mg prefix main k deleted w =
      (Inr (if A \<in> ?M \<and> markedDeleted ?J (b k) then addObject A deleted else deleted), w1)"
    "does E (spec_merge_object ?J (mg_mode mg) ?M A (b k)) w w1"
    using merge_object_does[OF E reg Cons.prems(1-3) p A(2) b] unfolding A(1) by blast
  note v1 = merge_object_view[OF Cons.prems(3) A(2), where J = ?J and mode = "mg_mode mg" and M = ?M and body = "b k"]
  let ?deleted = "if A \<in> ?M \<and> markedDeleted ?J (b k) then addObject A deleted else deleted"
  have w1: "w_ok E w1" "ll_idle (running w1)" "graph_ok (w_view w1)"
    using does_ok[OF 1(2)] does_running[OF 1(2)] does_view[OF 1(2)] v1(1) Cons.prems(2) by simp_all
  have same: "w_view w1 B = w_view w B" if "simple_id B" "B \<noteq> A" for B
    using that v1(3) by (simp add: does_view[OF 1(2)])
  have "storedJSON ?J (w_view w1) x = storedJSON ?J (w_view w) x" if "x \<in> R" for x
    using that R same[of x] A(3) unfolding prefixed_def storedJSON_def by (metis vertex_simple)
  then have st: "objects_stored ?J (w_view w1) (set ks) b"
    using Cons.prems(5,6) by (auto simp: objects_stored_def subset_iff)
  obtain w' D where IH: "mergeObjects E ?req mg prefix main ks ?deleted w1 = (Inr D, w')"
    "w_ok E w'" "ll_idle (running w')" "graph_ok (w_view w')" "indexed ?J (w_view w1) \<longrightarrow> indexed ?J (w_view w')"
    "\<And>C. C \<in> set D \<longleftrightarrow> C \<in> set ?deleted \<or> deletedBy ?J prefix (set ks) ?M b C"
    "\<And>C. simple_id C \<Longrightarrow> w_view w' C = mergedVertex ?J (mg_mode mg) prefix (set ks) ?M b (w_view w1) C"
    "\<And>F T V. link_ok (F, T, V) \<Longrightarrow> w_view w' (OutLinkBodyKey F T V) =
         (if cutBy ?J prefix (set ks) ?M b (w_view w1) F \<or> cutBy ?J prefix (set ks) ?M b (w_view w1) V then None
          else w_view w1 (OutLinkBodyKey F T V))"
    using Cons.IH[OF w1 _ _ st, of ?deleted] Cons.prems(4,5) by auto
  have nk: "prefix @ A \<notin> set ks" using Cons.prems(4) A(1) by simp
  have D: "C \<in> set D \<longleftrightarrow> C \<in> set deleted \<or> deletedBy ?J prefix (set (k # ks)) ?M b C" for C
    unfolding IH(6) by (auto simp: deletedBy_def addObject_def A(1))
  have V: "w_view w' C = mergedVertex ?J (mg_mode mg) prefix (set (k # ks)) ?M b (w_view w) C" if C: "simple_id C" for C
  proof (cases "C = A")
    case True
    then show ?thesis using IH(7)[OF C] nk v1(3)[OF C] by (simp add: mergedVertex_def does_view[OF 1(2)] A(1))
  next
    case False
    then show ?thesis using IH(7)[OF C] same[OF C] by (simp add: mergedVertex_def newVertex_def storedBody_def A(1))
  qed
  have cut: "cutBy ?J prefix (set (k # ks)) ?M b (w_view w) C \<longleftrightarrow>
      cutBy ?J prefix (set ks) ?M b (w_view w1) C \<or> C = A \<and> cutVertex ?J ?M A (b k) (w_view w)" if "simple_id C" for C
    using nk same[OF that] by (cases "C = A") (auto simp: cutBy_def cutVertex_def A(1))
  have L: "w_view w' (OutLinkBodyKey F T V) =
      (if cutBy ?J prefix (set (k # ks)) ?M b (w_view w) F \<or> cutBy ?J prefix (set (k # ks)) ?M b (w_view w) V then None
       else w_view w (OutLinkBodyKey F T V))" if l: "link_ok (F, T, V)" for F T V
  proof -
    have "simple_id F" "simple_id V" using l by (auto simp: link_ok_def)
    then show ?thesis
      using IH(8)[OF l] v1(4)[OF l] cut[of F] cut[of V] by (auto simp: does_view[OF 1(2)])
  qed
  have "mergeObjects E ?req mg prefix main (k # ks) deleted w = (Inr D, w')" using 1(1) IH(1) by simp
  moreover have "indexed ?J (w_view w) \<longrightarrow> indexed ?J (w_view w')"
    using IH(5) v1(2) by (simp add: does_view[OF 1(2)])
  ultimately show ?case using IH(2-4) D V L by blast
qed

section \<open>One link\<close>

definition spec_merge_link ::
  "'j easyjson \<Rightarrow> string set \<Rightarrow> string \<Rightarrow> string \<Rightarrow> string \<Rightarrow> 'j \<Rightarrow> (string \<Rightarrow> bytes option) \<Rightarrow> string \<Rightarrow> bytes option" where
  "spec_merge_link J K A T B body m =
     (if A @ B @ T \<in> K
      then (if markedDeleted J body then spec_link_delete J A T B m else spec_link_put J A T B ''merge'' body m)
      else spec_link_create J A T B body m)"

text \<open>How the value of a link that the transaction has changes, given the body that is merged.\<close>

definition mergedBody ::
  "'j easyjson \<Rightarrow> string set \<Rightarrow> string \<Rightarrow> string \<Rightarrow> string \<Rightarrow> 'j \<Rightarrow> bytes option \<Rightarrow> bytes option \<Rightarrow> bool" where
  "mergedBody J K A T B body v v' \<longleftrightarrow>
     (if A @ B @ T \<in> K
      then (if markedDeleted J body then v' = None else stores_body J (putBody J ''merge'' v body) v')
      else stores_body J body v')"

lemma merge_link_view:
  assumes J: "easyjson_ok J" and m: "graph_ok m" and l: "link_ok (A, T, B)" and b: "update_body_ok J A T B ''merge'' body m"
  shows "graph_ok (spec_merge_link J K A T B body m)"
    and "indexed J m \<Longrightarrow> indexed J (spec_merge_link J K A T B body m)"
    and "simple_id V \<Longrightarrow> spec_merge_link J K A T B body m V = m V"
    and "link_ok (F, S, V) \<Longrightarrow>
      if (F, S, V) = (A, T, B)
      then mergedBody J K A T B body (m (OutLinkBodyKey A T B)) (spec_merge_link J K A T B body m (OutLinkBodyKey F S V))
      else spec_merge_link J K A T B body m (OutLinkBodyKey F S V) = m (OutLinkBodyKey F S V)"
proof -
  have n: "link_body_ok J body" using b by (simp add: update_body_ok_def)
  show "graph_ok (spec_merge_link J K A T B body m)"
    using link_delete_graph[OF m l, of J] link_put_graph[OF J m l b] link_create_graph[OF J m l n] by (simp add: spec_merge_link_def)
  show "indexed J m \<Longrightarrow> indexed J (spec_merge_link J K A T B body m)"
    using link_delete_indexed(1)[OF _ l, of J m] link_put_indexed[OF J _ l b] link_create_indexed[OF J _ l n, of m]
    by (simp add: spec_merge_link_def)
  show "simple_id V \<Longrightarrow> spec_merge_link J K A T B body m V = m V"
    using link_delete_view(1)[OF l, of V J m] link_put_view(1)[OF J l b] link_create_view(1)[OF J l n, of V m]
    by (simp add: spec_merge_link_def)
  assume F: "link_ok (F, S, V)"
  show "if (F, S, V) = (A, T, B)
      then mergedBody J K A T B body (m (OutLinkBodyKey A T B)) (spec_merge_link J K A T B body m (OutLinkBodyKey F S V))
      else spec_merge_link J K A T B body m (OutLinkBodyKey F S V) = m (OutLinkBodyKey F S V)"
    using link_delete_view(2)[OF l F, of J m] link_put_view(2)[OF J l b F] link_create_view(2)[OF J l n F, of m]
    by (cases "(F, S, V) = (A, T, B)") (auto simp: spec_merge_link_def mergedBody_def)
qed

lemma lowLevelLink_payload:
  assumes J: "easyjson_ok J"
  shows "link_payload J (lowLevelLink J B T (Some body)) T B" and "GetByPath J (lowLevelLink J B T (Some body)) ''link_body'' = body"
    and "AsStringDefault J (GetByPath J (lowLevelLink J B T (Some body)) ''mode'') ''merge'' = ''merge''"
    and "link_payload J (lowLevelLink J B T None) T B"
proof -
  show "link_payload J (lowLevelLink J B T (Some body)) T B" "GetByPath J (lowLevelLink J B T (Some body)) ''link_body'' = body"
    "link_payload J (lowLevelLink J B T None) T B"
    using linkTo_payload[OF J] by (simp_all add: lowLevelLink_def setOpt_def)
  have "\<not> PathExists J (lowLevelLink J B T (Some body)) ''mode''"
    using ej_obj_new[OF J] ej_obj_set[OF J] ej_exists_set[OF J] ej_exists_new[OF J]
    by (simp add: lowLevelLink_def setOpt_def linkTo_def simple_path_def dot_free_def)
  then show "AsStringDefault J (GetByPath J (lowLevelLink J B T (Some body)) ''mode'') ''merge'' = ''merge''"
    by (simp add: ej_str_default[OF J] ej_missing_str[OF J])
qed

lemma stateLink_fields [simp]:
  "tl_from (stateLink A l) = A" "tl_to (stateLink A l) = snd l" "tl_lt (stateLink A l) = fst l"
  "tl_cacheID (stateLink A l) = OutLinkBodyKey A (fst l) (snd l)"
  by (simp_all add: stateLink_def)

lemma stateLink_eq [simp]: "stateLink A l = stateLink A' l' \<longleftrightarrow> A = A' \<and> l = l'"
  by (cases l; cases l') (auto simp: stateLink_def)

lemma merge_link_does:
  assumes E: "env_ok E" and reg: "ll_registered E registered" and w: "w_ok E w" "ll_idle (running w)"
    and l: "link_ok (A, T, B)" "\<not> has_prefix T prefix"
    and j: "storedJSON (ej E) (w_view w) (OutLinkBodyKey (prefix @ A) T (prefix @ B)) = Some j"
    and b: "update_body_ok (ej E) A T B ''merge'' (removeTxPrefix (ej E) prefix j) (w_view w)"
    and live: "A \<notin> set deleted" "B \<notin> set deleted"
  shows "\<exists>w'. mergeLink E (goLangLocalRequest E registered (n + 5) ct ci) prefix main deleted (stateLink (prefix @ A) (T, prefix @ B)) w =
      (None, w') \<and>
    does E (spec_merge_link (ej E) (fst ` set (ts_links main)) A T B (removeTxPrefix (ej E) prefix j)) w w'"
proof -
  let ?J = "ej E" and ?req = "goLangLocalRequest E registered (n + 5) ct ci" and ?K = "fst ` set (ts_links main)"
  let ?body = "removeTxPrefix ?J prefix j"
  note J = env_ok_ej[OF E]
  note pl = lowLevelLink_payload(1-3)[OF J, where B = B and T = T and body = ?body]
  have n: "link_body_ok ?J ?body" using b by (simp add: update_body_ok_def)
  note get = get_json[OF w(1) j]
  have T: "trim_prefix T prefix = T" using l(2) by (simp add: trim_prefix_def)
  have K: "map_of (ts_links main) (A @ B @ T) \<noteq> None \<longleftrightarrow> A @ B @ T \<in> ?K" by (simp add: map_of_eq_None_iff)
  consider "A @ B @ T \<in> ?K" "markedDeleted ?J ?body" | "A @ B @ T \<in> ?K" "\<not> markedDeleted ?J ?body" | "A @ B @ T \<notin> ?K" by blast
  then show ?thesis
  proof cases
    case 1
    have "served E (spec_link_delete ?J A T B) w (?req link_delete_name A (Some (lowLevelLink ?J B T None)) None w)"
      by (rule serve_link_delete[OF E reg w l(1) lowLevelLink_payload(4)[OF J]])
    from lowLevel_served[OF this] obtain w' where "deleteLowLevelLink ?J ?req A B T w = (None, w')"
      "does E (spec_link_delete ?J A T B) w w'" unfolding deleteLowLevelLink_def by blast
    then show ?thesis using 1 get T K live by (auto simp: mergeLink_def Let_def spec_merge_link_def does_def)
  next
    case 2
    have "served E (spec_link_put ?J A T B ''merge'' ?body) w
        (?req ''functions.graph.api.link.update'' A (Some (lowLevelLink ?J B T (Some ?body))) None w)"
      by (rule serve_link_update[OF E reg w l(1) pl b])
    from lowLevel_served[OF this] obtain w' where "updateLowLevelLink ?J ?req A B T ?body w = (None, w')"
      "does E (spec_link_put ?J A T B ''merge'' ?body) w w'" unfolding updateLowLevelLink_def by blast
    then show ?thesis using 2 get T K live by (auto simp: mergeLink_def Let_def spec_merge_link_def does_def)
  next
    case 3
    have "served E (spec_link_create ?J A T B ?body) w (?req link_create_name A (Some (lowLevelLink ?J B T (Some ?body))) None w)"
      by (rule serve_link_create[OF E reg w l(1) pl(1,2) n])
    from lowLevel_served[OF this] obtain w' where "createLowLevelLink ?J ?req A B T [] ?body w = (None, w')"
      "does E (spec_link_create ?J A T B ?body) w w'" unfolding createLowLevelLink_def by auto
    then show ?thesis using 3 get T K live by (auto simp: mergeLink_def Let_def spec_merge_link_def does_def)
  qed
qed

section \<open>All links\<close>

definition link_mergeable ::
  "'j easyjson \<Rightarrow> string \<Rightarrow> string set \<Rightarrow> (string \<Rightarrow> bytes option) \<Rightarrow> txLink \<Rightarrow> 'j \<Rightarrow> bool" where
  "link_mergeable J prefix R m l j \<longleftrightarrow> (\<exists>A T B. l = stateLink (prefix @ A) (T, prefix @ B) \<and> link_ok (A, T, B) \<and>
     \<not> has_prefix T prefix \<and> prefix @ A \<in> R \<and> prefix @ B \<in> R \<and> storedJSON J m (tl_cacheID l) = Some j \<and>
     update_body_ok J A T B ''merge'' (removeTxPrefix J prefix j) m)"

definition mergedLink ::
  "'j easyjson \<Rightarrow> string \<Rightarrow> string set \<Rightarrow> string set \<Rightarrow> txLink set \<Rightarrow> (txLink \<Rightarrow> 'j) \<Rightarrow> (string \<Rightarrow> bytes option) \<Rightarrow>
    string \<Rightarrow> string \<Rightarrow> string \<Rightarrow> bytes option \<Rightarrow> bool" where
  "mergedLink J prefix K D ls lb m F T V v' \<longleftrightarrow>
     (let l = stateLink (prefix @ F) (T, prefix @ V) in
      if l \<in> ls \<and> F \<notin> D \<and> V \<notin> D
      then mergedBody J K F T V (removeTxPrefix J prefix (lb l)) (m (OutLinkBodyKey F T V)) v'
      else v' = m (OutLinkBodyKey F T V))"

lemma merge_links_does:
  assumes E: "env_ok E" and reg: "ll_registered E registered" and R: "prefixed prefix R"
  shows "w_ok E w \<Longrightarrow> ll_idle (running w) \<Longrightarrow> graph_ok (w_view w) \<Longrightarrow> distinct ls \<Longrightarrow>
    \<forall>l\<in>set ls. link_mergeable (ej E) prefix R (w_view w) l (lb l) \<Longrightarrow>
    \<exists>w'. mergeLinks E (goLangLocalRequest E registered (n + 5) ct ci) prefix main deleted ls w = (None, w') \<and>
      w_ok E w' \<and> graph_ok (w_view w') \<and>
      (indexed (ej E) (w_view w) \<longrightarrow> indexed (ej E) (w_view w')) \<and>
      (\<forall>A. simple_id A \<longrightarrow> w_view w' A = w_view w A) \<and>
      (\<forall>F T V. link_ok (F, T, V) \<longrightarrow>
         mergedLink (ej E) prefix (fst ` set (ts_links main)) (set deleted) (set ls) lb (w_view w) F T V
           (w_view w' (OutLinkBodyKey F T V)))"
proof (induction ls arbitrary: w)
  case Nil
  then show ?case by (simp add: mergedLink_def)
next
  case (Cons l ls)
  let ?J = "ej E" and ?req = "goLangLocalRequest E registered (n + 5) ct ci" and ?K = "fst ` set (ts_links main)"
  note J = env_ok_ej[OF E]
  have lm: "link_mergeable ?J prefix R (w_view w) l (lb l)" using Cons.prems(5) by simp
  then obtain A T B where l: "l = stateLink (prefix @ A) (T, prefix @ B)" "link_ok (A, T, B)" "\<not> has_prefix T prefix"
    "prefix @ A \<in> R" "prefix @ B \<in> R" "storedJSON ?J (w_view w) (tl_cacheID l) = Some (lb l)"
    "update_body_ok ?J A T B ''merge'' (removeTxPrefix ?J prefix (lb l)) (w_view w)"
    unfolding link_mergeable_def by blast
  have AR: "A \<notin> R" using R l(4) by (auto simp: prefixed_def)
  show ?case
  proof (cases "A \<in> set deleted \<or> B \<in> set deleted")
    case True
    then have step: "mergeLink E ?req prefix main deleted l w = (None, w)" by (auto simp: mergeLink_def l(1))
    obtain w' where IH: "mergeLinks E ?req prefix main deleted ls w = (None, w')" "w_ok E w'" "graph_ok (w_view w')"
      "indexed ?J (w_view w) \<longrightarrow> indexed ?J (w_view w')"
      "\<And>A. simple_id A \<Longrightarrow> w_view w' A = w_view w A"
      "\<And>F T V. link_ok (F, T, V) \<Longrightarrow>
         mergedLink ?J prefix ?K (set deleted) (set ls) lb (w_view w) F T V (w_view w' (OutLinkBodyKey F T V))"
      using Cons.IH[OF Cons.prems(1-3)] Cons.prems(4,5) by auto
    have "mergedLink ?J prefix ?K (set deleted) (set ls) lb (w_view w) F T' V v =
        mergedLink ?J prefix ?K (set deleted) (set (l # ls)) lb (w_view w) F T' V v" for F T' V v
      using True by (auto simp: mergedLink_def l(1) Let_def)
    with IH step show ?thesis by (intro exI[of _ w']) simp
  next
    case False
    have j: "storedJSON ?J (w_view w) (OutLinkBodyKey (prefix @ A) T (prefix @ B)) = Some (lb l)" using l(1,6) by simp
    obtain w1 where 1: "mergeLink E ?req prefix main deleted l w = (None, w1)"
      "does E (spec_merge_link ?J ?K A T B (removeTxPrefix ?J prefix (lb l))) w w1"
      using merge_link_does[OF E reg Cons.prems(1,2) l(2,3) j l(7)] False unfolding l(1) by blast
    note v1 = merge_link_view[OF J Cons.prems(3) l(2,7), where K = ?K]
    have w1: "w_ok E w1" "ll_idle (running w1)" "graph_ok (w_view w1)"
      using does_ok[OF 1(2)] does_running[OF 1(2)] does_view[OF 1(2)] v1(1) Cons.prems(2) by simp_all
    have same: "w_view w1 V = w_view w V" if "simple_id V" for V
      using v1(3)[OF that] by (simp add: does_view[OF 1(2)])
    have other: "w_view w1 (OutLinkBodyKey F S V) = w_view w (OutLinkBodyKey F S V)" if "link_ok (F, S, V)" "(F, S, V) \<noteq> (A, T, B)" for F S V
      using v1(4)[OF that(1)] that(2) by (simp add: does_view[OF 1(2)] split: if_splits)
    have "link_mergeable ?J prefix R (w_view w1) x (lb x)" if x: "x \<in> set ls" for x
    proof -
      have "x \<noteq> l" using Cons.prems(4) x by auto
      obtain A' T' B' where x': "x = stateLink (prefix @ A') (T', prefix @ B')" "link_ok (A', T', B')" "\<not> has_prefix T' prefix"
        "prefix @ A' \<in> R" "prefix @ B' \<in> R" "storedJSON ?J (w_view w) (tl_cacheID x) = Some (lb x)"
        "update_body_ok ?J A' T' B' ''merge'' (removeTxPrefix ?J prefix (lb x)) (w_view w)"
        using Cons.prems(5) x unfolding link_mergeable_def by auto
      have ne: "(A', T', B') \<noteq> (A, T, B)" using \<open>x \<noteq> l\<close> by (auto simp: l(1) x'(1))
      have "vertex_id (prefix @ A')" "vertex_id (prefix @ B')" using R x'(4,5) by (auto simp: prefixed_def)
      then have "link_ok (prefix @ A', T', prefix @ B')" using x'(2) by (simp add: link_ok_def)
      moreover have "prefix @ A' \<noteq> A" using x'(4) AR by auto
      ultimately have "w_view w1 (tl_cacheID x) = w_view w (tl_cacheID x)" using other[of "prefix @ A'"] by (simp add: x'(1))
      then have "storedJSON ?J (w_view w1) (tl_cacheID x) = Some (lb x)" using x'(6) by (simp add: storedJSON_def)
      moreover have "update_body_ok ?J A' T' B' ''merge'' (removeTxPrefix ?J prefix (lb x)) (w_view w1)"
        using x'(7) other[OF x'(2) ne] by (simp add: update_body_ok_def)
      ultimately show ?thesis using x'(1-5) unfolding link_mergeable_def by blast
    qed
    then obtain w' where IH: "mergeLinks E ?req prefix main deleted ls w1 = (None, w')" "w_ok E w'" "graph_ok (w_view w')"
      "indexed ?J (w_view w1) \<longrightarrow> indexed ?J (w_view w')"
      "\<And>A. simple_id A \<Longrightarrow> w_view w' A = w_view w1 A"
      "\<And>F T V. link_ok (F, T, V) \<Longrightarrow>
         mergedLink ?J prefix ?K (set deleted) (set ls) lb (w_view w1) F T V (w_view w' (OutLinkBodyKey F T V))"
      using Cons.IH[OF w1] Cons.prems(4) by auto
    have "mergedLink ?J prefix ?K (set deleted) (set (l # ls)) lb (w_view w) F S V (w_view w' (OutLinkBodyKey F S V))"
      if F: "link_ok (F, S, V)" for F S V
    proof (cases "(F, S, V) = (A, T, B)")
      case True
      have "l \<notin> set ls" using Cons.prems(4) by simp
      then have "w_view w' (OutLinkBodyKey F S V) = w_view w1 (OutLinkBodyKey F S V)"
        using IH(6)[OF F] True by (simp add: mergedLink_def l(1)[symmetric] Let_def)
      then show ?thesis using v1(4)[OF F] True False
        by (simp add: mergedLink_def does_view[OF 1(2)] l(1)[symmetric] Let_def)
    next
      case ne: False
      then have "stateLink (prefix @ F) (S, prefix @ V) \<noteq> l" by (auto simp: l(1))
      then show ?thesis using IH(6)[OF F] other[OF F ne] by (auto simp: mergedLink_def Let_def split: if_splits)
    qed
    moreover have "indexed ?J (w_view w) \<longrightarrow> indexed ?J (w_view w')"
      using IH(4) v1(2) by (simp add: does_view[OF 1(2)])
    ultimately show ?thesis using IH 1(1) same by (intro exI[of _ w']) simp
  qed
qed

end
