(* ===== verification/TxMergeProps.thy ===== *)
theory TxMergeProps
  imports TxSpec LLProps
begin

text \<open>
  The merge of a transaction as a whole: the two traversals and the requests for every object and
  every link of the transaction's graph, against the graph that they leave.
\<close>

section \<open>Collections\<close>



section \<open>The graph after the merge\<close>

definition linkNames :: "(string \<Rightarrow> bytes option) \<Rightarrow> string set \<Rightarrow> string set" where
  "linkNames m R = {A @ B @ T | A B T. A \<in> R \<and> (T, B) \<in> linksOf m A ''*''}"







text \<open>
  The exchanged arguments of \<open>TrimPrefix\<close>: a link type in a body that begins with the prefix
  is not freed of it but replaced by it.
\<close>

lemma link_type_becomes_prefix:
  assumes J: "easyjson_ok J" and b: "IsObject J body" and t: "AsArrayString J (GetByPath J body ''tags'') = None"
    and lt: "AsString J (GetByPath J body ''link_type'') = Some (prefix @ T)" "T \<noteq> []"
  shows "AsString J (GetByPath J (removeTxPrefix J prefix body) ''link_type'') = Some prefix"
proof -
  have "\<not> has_prefix prefix (prefix @ T)" using lt(2) by (auto simp: has_prefix_def)
  then have "trim_prefix prefix (prefix @ T) = prefix" by (simp add: trim_prefix_def)
  moreover have "has_prefix (prefix @ T) prefix" by (simp add: has_prefix_def)
  ultimately show ?thesis
    using t lt b ej_get_set[OF J b] ej_str[OF J]
    by (simp add: removeTxPrefix_def Let_def simple_path_def dot_free_def)
qed

section \<open>The links of the transaction after its objects\<close>


text \<open>The links of a state found by the traversal.\<close>

lemma state_links:
  assumes "stateOf m root s"
  shows "fst ` set (ts_links s) = linkNames m (reachableFrom m root)"
    and "(k, l) \<in> set (ts_links s) \<Longrightarrow> k = tl_from l @ tl_to l @ tl_lt l"
proof -
  note s = assms[unfolded stateOf_def]
  show "fst ` set (ts_links s) = linkNames m (reachableFrom m root)"
  proof (intro equalityI subsetI)
    fix k assume "k \<in> fst ` set (ts_links s)"
    then obtain l where "(k, l) \<in> set (ts_links s)" by auto
    with s obtain A T B where "A \<in> reachableFrom m root" "(T, B) \<in> linksOf m A ''*''" "k = A @ B @ T" by blast
    then show "k \<in> linkNames m (reachableFrom m root)" unfolding linkNames_def by blast
  next
    fix k assume "k \<in> linkNames m (reachableFrom m root)"
    then obtain A T B where "A \<in> reachableFrom m root" "(T, B) \<in> linksOf m A ''*''" "k = A @ B @ T"
      unfolding linkNames_def by blast
    with s show "k \<in> fst ` set (ts_links s)" by fast
  qed
  show "(k, l) \<in> set (ts_links s) \<Longrightarrow> k = tl_from l @ tl_to l @ tl_lt l"
    using s by fastforce
qed

lemma state_has_link:
  assumes s: "stateOf m root s"
    and inj: "\<And>A A' T T' B B'. A \<in> reachableFrom m root \<Longrightarrow> (T, B) \<in> linksOf m A ''*'' \<Longrightarrow> A' \<in> reachableFrom m root \<Longrightarrow>
        (T', B') \<in> linksOf m A' ''*'' \<Longrightarrow> A @ B @ T = A' @ B' @ T' \<Longrightarrow> A = A' \<and> T = T' \<and> B = B'"
  shows "stateLink F (T, V) \<in> snd ` set (ts_links s) \<longleftrightarrow> F \<in> reachableFrom m root \<and> (T, V) \<in> linksOf m F ''*''"
proof
  assume "stateLink F (T, V) \<in> snd ` set (ts_links s)"
  then obtain k where "(k, stateLink F (T, V)) \<in> set (ts_links s)" by auto
  with s[unfolded stateOf_def] obtain A T' B where "A \<in> reachableFrom m root" "(T', B) \<in> linksOf m A ''*''"
    "stateLink F (T, V) = stateLink A (T', B)" by blast
  then show "F \<in> reachableFrom m root \<and> (T, V) \<in> linksOf m F ''*''" by simp
next
  assume F: "F \<in> reachableFrom m root \<and> (T, V) \<in> linksOf m F ''*''"
  then have "F @ V @ T \<in> fst ` set (ts_links s)" unfolding state_links(1)[OF s] linkNames_def by blast
  then obtain l where l: "(F @ V @ T, l) \<in> set (ts_links s)" by auto
  with s[unfolded stateOf_def] obtain A T' B where A: "A \<in> reachableFrom m root" "(T', B) \<in> linksOf m A ''*''"
    "F @ V @ T = A @ B @ T'" "l = stateLink A (T', B)" by blast
  with inj[of F T V A T' B] F have "l = stateLink F (T, V)" by simp
  with l show "stateLink F (T, V) \<in> snd ` set (ts_links s)" by force
qed

section \<open>The merge\<close>

lemma deleted_cut: "deletedBy J prefix R M b A \<Longrightarrow> cutBy J prefix R M b m A"
  by (simp add: deletedBy_def cutBy_def cutVertex_def)



text \<open>
  C32: the traversal of a graph that is stored ends, and finds every vertex that can be reached from
  the root, once, and links between them: one for each of the keys, the concatenations of source,
  target and link type, that the links between these vertices have. These are all the links when no
  two of them have the same key; otherwise all but one of those that share a key are lost.
\<close>

theorem graph_state_is_reachable_graph:
  assumes "w_ok E w" and "graph_ok (w_view w)" and "vertex_id root" and "w_view w root \<noteq> None"
  shows "let reachable = reachableFrom (w_view w) root;
       links = {(A, T, B). A \<in> reachable \<and> (T, B) \<in> linksOf (w_view w) A ''*''};
       key = (\<lambda>(A, T, B). A @ B @ T) in
    \<exists>s. graphState E root w = Some (s, w) \<and>
      distinct (ts_objects s) \<and> set (ts_objects s) = reachable \<and>
      distinct (map fst (ts_links s)) \<and> fst ` set (ts_links s) = key ` links \<and>
      snd ` set (ts_links s) \<subseteq> (\<lambda>(A, T, B). stateLink A (T, B)) ` links \<and>
      (inj_on key links \<longrightarrow> snd ` set (ts_links s) = (\<lambda>(A, T, B). stateLink A (T, B)) ` links)"
proof -
  let ?R = "reachableFrom (w_view w) root"
  let ?links = "{(A, T, B). A \<in> ?R \<and> (T, B) \<in> linksOf (w_view w) A ''*''}"
  let ?key = "\<lambda>(A, T, B). A @ B @ T"
  obtain s where s: "graphState E root w = Some (s, w)" "stateOf (w_view w) root s"
    using graphState_reachable[OF assms] by blast
  note d = s(2)[unfolded stateOf_def]
  have names: "linkNames (w_view w) ?R = ?key ` ?links" 
  proof (intro equalityI subsetI)
    fix k assume "k \<in> linkNames (w_view w) ?R"
    then obtain A B T where "k = A @ B @ T" "A \<in> ?R" "(T, B) \<in> linksOf (w_view w) A ''*''" unfolding linkNames_def by blast
    then show "k \<in> ?key ` ?links" by (intro image_eqI[of _ _ "(A, T, B)"]) simp_all
  qed (auto simp: linkNames_def)
  have sub: "snd ` set (ts_links s) \<subseteq> (\<lambda>(A, T, B). stateLink A (T, B)) ` ?links"
  proof
    fix l assume "l \<in> snd ` set (ts_links s)"
    then obtain k where "(k, l) \<in> set (ts_links s)" by auto
    with d obtain A T B where "A \<in> ?R" "(T, B) \<in> linksOf (w_view w) A ''*''" "l = stateLink A (T, B)" by blast
    then show "l \<in> (\<lambda>(A, T, B). stateLink A (T, B)) ` ?links" by (intro image_eqI[of _ _ "(A, T, B)"]) simp_all
  qed
  have all: "(\<lambda>(A, T, B). stateLink A (T, B)) ` ?links \<subseteq> snd ` set (ts_links s)" if i: "inj_on ?key ?links"
  proof
    fix l assume "l \<in> (\<lambda>(A, T, B). stateLink A (T, B)) ` ?links"
    then obtain A T B where l: "l = stateLink A (T, B)" "A \<in> ?R" "(T, B) \<in> linksOf (w_view w) A ''*''" by auto
    have inj: "F = F' \<and> S = S' \<and> V = V'" if "F \<in> ?R" "(S, V) \<in> linksOf (w_view w) F ''*''" "F' \<in> ?R"
      "(S', V') \<in> linksOf (w_view w) F' ''*''" "F @ V @ S = F' @ V' @ S'" for F F' S S' V V'
      using inj_onD[OF i, of "(F, S, V)" "(F', S', V')"] that by simp
    have "stateLink A (T, B) \<in> snd ` set (ts_links s)"
      by (rule iffD2[OF state_has_link[OF s(2)] conjI[OF l(2,3)]]) (rule inj)
    then show "l \<in> snd ` set (ts_links s)" unfolding l(1) .
  qed
  have eq: "inj_on ?key ?links \<longrightarrow> snd ` set (ts_links s) = (\<lambda>(A, T, B). stateLink A (T, B)) ` ?links"
    using sub all by (intro impI equalityI)
  show ?thesis
    unfolding Let_def
    by (rule exI[of _ s])
      (intro conjI s(1) conjunct1[OF d] conjunct1[OF conjunct2[OF d]] conjunct1[OF conjunct2[OF conjunct2[OF d]]]
        state_links(1)[OF s(2), unfolded names] sub eq)
qed


section \<open>A sample transaction\<close>

lemma split_str_tx:
  "split_str ''==='' A = [A] \<Longrightarrow> A = [] \<or> last A \<noteq> CHR ''='' \<Longrightarrow> split_str ''==='' B = [B] \<Longrightarrow> B = [] \<or> hd B \<noteq> CHR ''='' \<Longrightarrow>
   split_str ''==='' (A @ CHR ''='' # B) = [A @ CHR ''='' # B]"
proof (induction A)
  case Nil
  then show ?case by (cases B) (auto simp: split_str_Cons has_prefix_def)
next
  case (Cons c A)
  have p: "\<not> has_prefix (c # A) ''===''" "split_str ''==='' A = [A]" using Cons.prems(1) by (simp_all only: split_str_Cons) auto
  have "\<not> has_prefix (c # A @ CHR ''='' # B) ''===''"
  proof (cases "length A < 2")
    case True
    then consider "A = []" | d where "A = [d]" by (cases A) auto
    then show ?thesis using Cons.prems(2) by cases (simp_all add: has_prefix_def)
  next
    case False
    then obtain d e r where "A = d # e # r" by (cases A; cases "tl A") auto
    with p(1) show ?thesis by (simp add: has_prefix_def)
  qed
  then show ?case using Cons.IH[OF p(2)] Cons.prems(2-4) by (auto simp: split_str_Cons split: if_splits)
qed

lemma vertex_id_tx:
  assumes "vertex_id A" and "vertex_id B" and "hd B \<noteq> CHR ''=''"
  shows "vertex_id (A @ CHR ''='' # B)"
proof -
  have A: "simple_id A" "last A \<noteq> CHR ''=''" "split_str ''==='' A = [A]" using assms(1) unfolding vertex_id_def by blast+
  have B: "simple_id B" "last B \<noteq> CHR ''=''" "split_str ''==='' B = [B]" using assms(2) unfolding vertex_id_def by blast+
  have "split_str ''==='' (A @ CHR ''='' # B) = [A @ CHR ''='' # B]"
    by (rule split_str_tx[OF A(3) disjI2[OF A(2)] B(3) disjI2[OF assms(3)]])
  moreover have "key_char CHR ''=''" by (simp add: key_char_def)
  then have "simple_id (A @ CHR ''='' # B)" using A(1) B(1) unfolding simple_id_def by simp
  moreover have "last (A @ CHR ''='' # B) \<noteq> CHR ''=''" using B(1,2) by (simp add: simple_not_Nil[OF B(1)])
  ultimately show ?thesis unfolding vertex_id_def by blast
qed

text \<open>A graph of one vertex, the root, and a transaction \<open>x\<close> that links a new vertex to it.\<close>

definition tx_world :: "(json, sample_kv) world" where
  "tx_world = fold (\<lambda>(k, v). wSetValue sample_env k v)
     [(''root'', enc (JObj [])), (''x=root'', enc (JObj [])), (''x=n'', enc (JObj [(''v'', JNum 1)])),
      (OutLinkBodyKey ''x=root'' ''t'' ''x=n'', enc (JObj [])), (InLinkKey ''x=n'' ''x=root'' ''t'', [])] sample_world"

lemma tx_ids:
  "vertex_id ''root''" "vertex_id ''n''" "vertex_id ''x=root''" "vertex_id ''x=n''" "simple_id ''t''"
  "link_ok (''x=root'', ''t'', ''x=n'')" "link_ok (''root'', ''t'', ''n'')"
proof -
  have s: "simple_id ''root''" "simple_id ''n''" "simple_id ''x''" "simple_id ''t''" by (simp_all add: simple_id_def key_char_def)
  have v: "vertex_id ''root''" "vertex_id ''n''" "vertex_id ''x''" using s by (simp_all add: vertex_id_plain)
  then show ids: "vertex_id ''root''" "vertex_id ''n''" "vertex_id ''x=root''" "vertex_id ''x=n''" "simple_id ''t''"
    using vertex_id_tx[OF v(3,1)] vertex_id_tx[OF v(3,2)] s by simp_all
  then show "link_ok (''x=root'', ''t'', ''x=n'')" "link_ok (''root'', ''t'', ''n'')" by (simp_all add: link_ok_def)
qed

lemma sets_view:
  "w_ok E w \<Longrightarrow> \<forall>(k, v)\<in>set kvs. valid_key k \<and> k \<noteq> [] \<Longrightarrow>
   w_ok E (fold (\<lambda>(k, v). wSetValue E k v) kvs w) \<and> running (fold (\<lambda>(k, v). wSetValue E k v) kvs w) = running w \<and>
   w_view (fold (\<lambda>(k, v). wSetValue E k v) kvs w) = fold (\<lambda>(k, v) m. m(k \<mapsto> v)) kvs (w_view w)"
proof (induction kvs arbitrary: w)
  case (Cons x kvs)
  obtain k v where x: "x = (k, v)" by (cases x)
  have "running (wSetValue E k v w) = running w" by (simp add: wSetValue_def)
  then show ?case
    using Cons.IH[of "wSetValue E k v w"] Cons.prems world.put_ok[OF Cons.prems(1)] world.put_view[OF Cons.prems(1)]
    by (simp add: x fun_upd_def)
qed simp

lemma tx_world_view:
  "w_ok sample_env tx_world" "running tx_world = []"
  "w_view tx_world = [''root'' \<mapsto> enc (JObj []), ''x=root'' \<mapsto> enc (JObj []), ''x=n'' \<mapsto> enc (JObj [(''v'', JNum 1)]),
      OutLinkBodyKey ''x=root'' ''t'' ''x=n'' \<mapsto> enc (JObj []), InLinkKey ''x=n'' ''x=root'' ''t'' \<mapsto> []]"
  using sets_view[of sample_env sample_world "[(''root'', enc (JObj [])), (''x=root'', enc (JObj [])), (''x=n'', enc (JObj [(''v'', JNum 1)])),
      (OutLinkBodyKey ''x=root'' ''t'' ''x=n'', enc (JObj [])), (InLinkKey ''x=n'' ''x=root'' ''t'', [])]"]
    tx_ids
  by (simp_all only: tx_world_def) (simp_all add: graph_keys_not_Nil)

lemma tx_world_link:
  assumes "link_ok (F, T, V)"
  shows "(w_view tx_world (OutLinkBodyKey F T V) \<noteq> None) = ((F, T, V) = (''x=root'', ''t'', ''x=n''))"
    and "(w_view tx_world (InLinkKey V F T) \<noteq> None) = ((F, T, V) = (''x=root'', ''t'', ''x=n''))"
  using body_in_apart[OF assms tx_ids(6)] keys_apart(5,6)[OF assms] tx_ids(1,3,4) by (simp_all add: tx_world_view(3))

lemma tx_world_graph: "graph_ok (w_view tx_world)"
proof -
  have "graph_key k" if "w_view tx_world k \<noteq> None" for k
    using that tx_ids by (simp add: tx_world_view(3) split: if_splits)
  then show ?thesis unfolding graph_ok_def mirrored_def using tx_world_link by blast
qed

lemma tx_world_links: "linksOf (w_view tx_world) A ''*'' = (if A = ''x=root'' then {(''t'', ''x=n'')} else {})"
  using tx_world_link(1)[of A] tx_ids(6) unfolding linksOf_def by auto

lemma tx_world_graphs:
  "reachableFrom (w_view tx_world) ''root'' = {''root''}"
  "reachableFrom (w_view tx_world) ''x=root'' = {''x=root'', ''x=n''}"
proof -
  have l: "linkedTo (w_view tx_world) = {(''x=root'', ''x=n'')}"
    by (auto simp: linkedTo_def tx_world_links split: if_splits)
  have "(linkedTo (w_view tx_world))\<^sup>* = Id \<union> {(''x=root'', ''x=n'')}"
    unfolding l by (auto elim: rtranclE)
  then show "reachableFrom (w_view tx_world) ''root'' = {''root''}"
    "reachableFrom (w_view tx_world) ''x=root'' = {''x=root'', ''x=n''}"
    by (auto simp: reachableFrom_def)
qed


lemma tx_world_stored:
  "storedJSON sample_json (w_view tx_world) ''x=root'' = Some (JObj [])"
  "storedJSON sample_json (w_view tx_world) ''x=n'' = Some (JObj [(''v'', JNum 1)])"
  "storedJSON sample_json (w_view tx_world) (OutLinkBodyKey ''x=root'' ''t'' ''x=n'') = Some (JObj [])"
proof -
  have "OutLinkBodyKey ''x=root'' ''t'' ''x=n'' \<noteq> InLinkKey ''x=n'' ''x=root'' ''t''"
    "''x=root'' \<noteq> OutLinkBodyKey ''x=root'' ''t'' ''x=n''" "''x=root'' \<noteq> InLinkKey ''x=n'' ''x=root'' ''t''"
    "''x=n'' \<noteq> OutLinkBodyKey ''x=root'' ''t'' ''x=n''" "''x=n'' \<noteq> InLinkKey ''x=n'' ''x=root'' ''t''"
    using body_in_apart(3)[OF tx_ids(6,6)] dotted_keys(4,5) vertex_simple[OF tx_ids(3)] vertex_simple[OF tx_ids(4)] by metis+
  then show "storedJSON sample_json (w_view tx_world) ''x=root'' = Some (JObj [])"
    "storedJSON sample_json (w_view tx_world) ''x=n'' = Some (JObj [(''v'', JNum 1)])"
    "storedJSON sample_json (w_view tx_world) (OutLinkBodyKey ''x=root'' ''t'' ''x=n'') = Some (JObj [])"
    unfolding storedJSON_def tx_world_view(3) by (simp_all add: sample_json_def del: enc.simps)
qed




theorem graph_state_is_reachable_graph_witness:
  "\<exists>s. graphState sample_env ''x=root'' tx_world = Some (s, tx_world) \<and> set (ts_objects s) = {''x=root'', ''x=n''} \<and>
     snd ` set (ts_links s) = {stateLink ''x=root'' (''t'', ''x=n'')}"
proof -
  have v: "w_view tx_world ''x=root'' \<noteq> None" using tx_world_stored(1) by (auto simp: storedJSON_def split: option.splits)
  have l: "{(A, T, B). A \<in> {''x=root'', ''x=n''} \<and> (T, B) \<in> linksOf (w_view tx_world) A ''*''} = {(''x=root'', ''t'', ''x=n'')}"
    by (auto simp: tx_world_links split: if_splits)
  show ?thesis
    using graph_state_is_reachable_graph[OF tx_world_view(1) tx_world_graph tx_ids(3) v]
    unfolding tx_world_graphs Let_def l by auto
qed


end
