(* ===== verification/DebugGraph.thy ===== *)
theory DebugGraph
  imports TxGraph
begin

text \<open>
  The drawing of the graph around a vertex, \<open>embedded/graph/debug/graph_cgo.go\<close>: a breadth
  first search with a mark in its queue at the end of each level, down to a given depth. The graphviz
  library is a parameter; a node of its graph is known by its name. What only sets the looks of a node
  or an edge is left out.
\<close>

record 'g graphviz =
  XDOT :: string
  PNG :: string
  SVG :: string
  gvGraph :: "string + 'g"
  CreateNode :: "string \<Rightarrow> 'g \<Rightarrow> string option \<times> 'g"
  CreateEdge :: "string \<Rightarrow> string \<Rightarrow> string \<Rightarrow> 'g \<Rightarrow> string option \<times> 'g"

record pnode =
  pn_parent :: string
  pn_id :: string
  pn_lt :: string

section \<open>The links at a vertex\<close>

definition printChild :: "string \<Rightarrow> string \<Rightarrow> pnode" where
  "printChild ident v = (let split = split_dot v in
     \<lparr>pn_parent = ident, pn_id = split ! (length split - 1), pn_lt = split ! (length split - 2)\<rparr>)"

definition printChildren :: "('j, 'kv) env \<Rightarrow> string \<Rightarrow> ('j, 'kv) world \<Rightarrow> pnode list \<times> ('j, 'kv) world" where
  "printChildren E ident w =
     (case wGetKeysByPattern E (OutLinkBodyPattern ident) w of (children, w) \<Rightarrow> (map (printChild ident) children, w))"

text \<open>\<open>getParents\<close> looks among the outgoing links as well, and takes the type for the id.\<close>

definition printParent :: "string \<Rightarrow> string \<Rightarrow> pnode" where
  "printParent ident v = (let split = split_dot v in
     \<lparr>pn_parent = ident, pn_id = split ! (length split - 2), pn_lt = split ! (length split - 1)\<rparr>)"

definition printParents :: "('j, 'kv) env \<Rightarrow> string \<Rightarrow> ('j, 'kv) world \<Rightarrow> pnode list \<times> ('j, 'kv) world" where
  "printParents E ident w =
     (case wGetKeysByPattern E (OutLinkBodyPattern ident) w of (parents, w) \<Rightarrow> (map (printParent ident) parents, w))"

fun addParent :: "'g graphviz \<Rightarrow> string \<Rightarrow> pnode \<Rightarrow> string list \<times> 'g \<Rightarrow> string list \<times> 'g" where
  "addParent V rootID p (nodes, g) =
     (if pn_id p \<in> set nodes then (nodes, snd (CreateEdge V (pn_lt p) (pn_id p) rootID g))
      else (case CreateNode V (pn_id p) g of
              (Some err, g) \<Rightarrow> (nodes, g)
            | (None, g) \<Rightarrow> (nodes @ [pn_id p], snd (CreateEdge V (pn_lt p) (pn_id p) rootID g))))"

definition addParents ::
  "('j, 'kv) env \<Rightarrow> 'g graphviz \<Rightarrow> string \<Rightarrow> string list \<times> 'g \<Rightarrow> ('j, 'kv) world \<Rightarrow> (string list \<times> 'g) \<times> ('j, 'kv) world" where
  "addParents E V rootID ng w =
     (case printParents E rootID w of (ps, w) \<Rightarrow> (fold (addParent V rootID) ps ng, w))"

section \<open>The search\<close>

text \<open>One vertex of the queue: the nodes and the graph after it, and what it puts into the queue.\<close>

definition printNode ::
  "('j, 'kv) env \<Rightarrow> 'g graphviz \<Rightarrow> bool \<Rightarrow> bool \<Rightarrow> pnode \<Rightarrow> string list \<times> 'g \<Rightarrow> ('j, 'kv) world \<Rightarrow>
    ((string list \<times> 'g) \<times> pnode list) \<times> ('j, 'kv) world" where
  "printNode E V verbose expand n ng w =
     (case (if pn_id n \<in> set (fst ng) then (None, ng)
            else (case CreateNode V (pn_id n) (snd ng) of
                    (Some err, g) \<Rightarrow> (Some err, (fst ng, g)) | (None, g) \<Rightarrow> (None, (fst ng @ [pn_id n], g)))) of
        (Some err, ng) \<Rightarrow> ((ng, []), w)
      | (None, ng) \<Rightarrow>
         (case (if verbose then addParents E V (pn_id n) ng w else (ng, w)) of
            ((nodes, g), w) \<Rightarrow>
              (case (if pn_parent n \<noteq> [] \<and> pn_lt n \<noteq> [] then CreateEdge V (pn_lt n) (pn_parent n) (pn_id n) g else (None, g)) of
                 (Some err, g) \<Rightarrow> (((nodes, g), []), w)
               | (None, g) \<Rightarrow>
                   (if expand then
                      (case printChildren E (pn_id n) w of
                         (children, w) \<Rightarrow> (((nodes, g), filter (\<lambda>c. pn_id c \<notin> set nodes) children), w))
                    else (((nodes, g), []), w)))))"

text \<open>The end of a level is \<open>None\<close> in the queue; the loop is left when two of them meet.\<close>

partial_function (option) printLoop ::
  "('j, 'kv) env \<Rightarrow> 'g graphviz \<Rightarrow> bool \<Rightarrow> nat \<Rightarrow> pnode option list \<Rightarrow> nat \<Rightarrow> string list \<times> 'g \<Rightarrow> ('j, 'kv) world \<Rightarrow>
    ((string list \<times> 'g) \<times> ('j, 'kv) world) option" where
  "printLoop E V verbose maxDepth queue currentDepth ng w =
     (case queue of
        [] \<Rightarrow> Some (ng, w)
      | None # rest \<Rightarrow>
          (if hd (rest @ [None]) = None then Some (ng, w)
           else printLoop E V verbose maxDepth (rest @ [None]) (Suc currentDepth) ng w)
      | Some n # rest \<Rightarrow>
          printLoop E V verbose maxDepth
            (rest @ map Some (snd (fst (printNode E V verbose (currentDepth < maxDepth) n ng w)))) currentDepth
            (fst (fst (printNode E V verbose (currentDepth < maxDepth) n ng w)))
            (snd (printNode E V verbose (currentDepth < maxDepth) n ng w)))"

definition printExtension :: "'j easyjson \<Rightarrow> 'g graphviz \<Rightarrow> 'j \<Rightarrow> string" where
  "printExtension J V payload =
     (let ext = AsStringDefault J (GetByPath J payload ''ext'') [] in
      if PathExists J payload ''ext'' then
        (if ext = ''png'' then PNG V else if ext = ''svg'' then SVG V else XDOT V)
      else XDOT V)"

text \<open>A \<open>uint\<close> has 64 bits.\<close>

definition printDepth :: "'j easyjson \<Rightarrow> 'j \<Rightarrow> nat" where
  "printDepth J payload =
     unat (word_of_int (case AsNumeric J (GetByPath J payload ''depth'') of Some d \<Rightarrow> d | None \<Rightarrow> 255) :: 64 word)"

text \<open>What is rendered, if anything, in which format and under which name; \<open>None\<close> if
  the search does not end.\<close>

definition LLAPIPrintGraph ::
  "('j, 'kv) env \<Rightarrow> 'g graphviz \<Rightarrow> 'j StatefunContextProcessor \<Rightarrow> ('j, 'kv) world \<Rightarrow>
    (('g \<times> string \<times> string) option \<times> ('j, 'kv) world) option" where
  "LLAPIPrintGraph E V ctx w =
     (let J = ej E; payload = Payload ctx;
          graphvizExtension = printExtension J V payload;
          verboseGraph = AsBoolDefault J (GetByPath J payload ''verbose'') True
      in case gvGraph V of
           Inl err \<Rightarrow> Some (None, w)
         | Inr graph \<Rightarrow>
             map_option (\<lambda>((nodes, graph), w). (Some (graph, graphvizExtension, ''graph.'' @ graphvizExtension), w))
               (printLoop E V verboseGraph (printDepth J payload)
                  [Some \<lparr>pn_parent = [], pn_id = SelfID ctx, pn_lt = []\<rparr>, None] 0 ([], graph) w))"

section \<open>What is drawn\<close>

definition within :: "(string \<Rightarrow> bytes option) \<Rightarrow> string \<Rightarrow> nat \<Rightarrow> string set" where
  "within m A k = {B. \<exists>n\<le>k. (A, B) \<in> linkedTo m ^^ n}"

lemma within_0 [simp]: "within m A 0 = {A}"
  by (auto simp: within_def)

lemma within_Suc: "within m A (Suc k) = within m A k \<union> linkedTo m `` within m A k"
proof (intro set_eqI iffI)
  fix B assume "B \<in> within m A (Suc k)"
  then obtain n where n: "n \<le> Suc k" "(A, B) \<in> linkedTo m ^^ n" by (auto simp: within_def)
  show "B \<in> within m A k \<union> linkedTo m `` within m A k"
  proof (cases "n \<le> k")
    case True
    with n(2) show ?thesis by (auto simp: within_def)
  next
    case False
    with n have "(A, B) \<in> linkedTo m ^^ Suc k" by (metis le_SucE)
    then obtain C where "(A, C) \<in> linkedTo m ^^ k" "(C, B) \<in> linkedTo m" by auto
    then show ?thesis unfolding within_def by blast
  qed
next
  fix B assume "B \<in> within m A k \<union> linkedTo m `` within m A k"
  then consider n where "n \<le> k" "(A, B) \<in> linkedTo m ^^ n" | n C where "n \<le> k" "(A, C) \<in> linkedTo m ^^ n" "(C, B) \<in> linkedTo m"
    unfolding within_def by blast
  then show "B \<in> within m A (Suc k)"
  proof cases
    case 1
    then show ?thesis unfolding within_def by (auto intro: le_SucI)
  next
    case 2
    then have "(A, B) \<in> linkedTo m ^^ Suc n" by auto
    with 2(1) show ?thesis unfolding within_def by (metis (mono_tags, lifting) Suc_le_mono mem_Collect_eq)
  qed
qed

lemma within_mono: "k \<le> l \<Longrightarrow> within m A k \<subseteq> within m A l"
  unfolding within_def by (auto intro: order_trans)

lemma within_closed: "A \<in> N \<Longrightarrow> linkedTo m `` N \<subseteq> N \<Longrightarrow> within m A k \<subseteq> N"
  by (induction k) (auto simp: within_Suc)

text \<open>A library that draws what it is asked to.\<close>

definition draws :: "'g graphviz \<Rightarrow> ('g \<Rightarrow> string set) \<Rightarrow> ('g \<Rightarrow> (string \<times> string \<times> string) set) \<Rightarrow> bool" where
  "draws V names edges \<longleftrightarrow>
     (\<forall>n g. \<exists>g'. CreateNode V n g = (None, g') \<and> names g' = insert n (names g) \<and> edges g' = edges g) \<and>
     (\<forall>lt p c g. \<exists>g'. CreateEdge V lt p c g = (None, g') \<and> names g' = names g \<and> edges g' = insert (p, lt, c) (edges g))"

definition linkSet :: "(string \<Rightarrow> bytes option) \<Rightarrow> (string \<times> string \<times> string) set" where
  "linkSet m = {(A, T, B). (T, B) \<in> linksOf m A ''*''}"

text \<open>What holds of the search: \<open>cur\<close> is the rest of its level, \<open>nxt\<close> the next one.\<close>

definition entry_ok :: "(string \<Rightarrow> bytes option) \<Rightarrow> string \<Rightarrow> string list \<Rightarrow> pnode \<Rightarrow> bool" where
  "entry_ok m A nodes n \<longleftrightarrow> n = \<lparr>pn_parent = [], pn_id = A, pn_lt = []\<rparr> \<or>
     (pn_parent n \<in> set nodes \<and> (pn_lt n, pn_id n) \<in> linksOf m (pn_parent n) ''*'')"

definition print_ok ::
  "(string \<Rightarrow> bytes option) \<Rightarrow> string \<Rightarrow> nat \<Rightarrow> nat \<Rightarrow> pnode list \<Rightarrow> pnode list \<Rightarrow> string list \<Rightarrow>
    string set \<Rightarrow> (string \<times> string \<times> string) set \<Rightarrow> bool" where
  "print_ok m A maxDepth k cur nxt nodes names es \<longleftrightarrow>
     k \<le> maxDepth \<and> (k = maxDepth \<longrightarrow> nxt = []) \<and> distinct nodes \<and> names = set nodes \<and>
     set nodes \<union> pn_id ` set cur \<subseteq> within m A k \<and> pn_id ` set nxt \<subseteq> within m A (Suc k) \<and>
     within m A k \<subseteq> set nodes \<union> pn_id ` set cur \<and>
     (k < maxDepth \<longrightarrow> linkedTo m `` set nodes \<subseteq> set nodes \<union> pn_id ` set cur \<union> pn_id ` set nxt) \<and>
     (\<forall>n\<in>set cur \<union> set nxt. entry_ok m A nodes n) \<and>
     es \<subseteq> linkSet m \<and> (\<forall>B\<in>set nodes. B = A \<or> (\<exists>C T. C \<in> set nodes \<and> (C, T, B) \<in> es))"

lemma children_of_print:
  assumes w: "w_ok E w" and g: "graph_ok (w_view w)" and A: "simple_id A"
  obtains cs where "printChildren E A w = (cs, w)"
    and "set cs = (\<lambda>(T, B). \<lparr>pn_parent = A, pn_id = B, pn_lt = T\<rparr>) ` linksOf (w_view w) A ''*''"
proof -
  obtain cs where cs: "getChildren E A w = (cs, w)" "set cs = childNode A ` linksOf (w_view w) A ''*''"
    using children_are_links[OF w g A] by blast
  let ?f = "\<lambda>c. \<lparr>pn_parent = A, pn_id = tn_id c, pn_lt = tn_lt c\<rparr>"
  obtain ks where ks: "wGetKeysByPattern E (OutLinkBodyPattern A) w = (ks, w)" "cs = map childOfKey ks"
    using cs(1) by (auto simp: getChildren_def split: prod.splits)
  have "printChildren E A w = (map ?f cs, w)"
    by (simp add: printChildren_def ks printChild_def childOfKey_def Let_def comp_def)
  moreover have "set (map ?f cs) = (\<lambda>(T, B). \<lparr>pn_parent = A, pn_id = B, pn_lt = T\<rparr>) ` linksOf (w_view w) A ''*''"
    unfolding set_map cs(2) image_image by (intro image_cong) (auto simp: childNode_def)
  ultimately show thesis by (rule that)
qed

lemma print_node:
  assumes w: "w_ok E w" "graph_ok (w_view w)" and A: "vertex_id A" and V: "draws V names edges"
    and ok: "print_ok (w_view w) A maxDepth k (n # cur) nxt nodes (names g) (edges g)"
  obtains nodes' g' cs where "printNode E V False (k < maxDepth) n (nodes, g) w = (((nodes', g'), cs), w)"
    and "print_ok (w_view w) A maxDepth k cur (nxt @ cs) nodes' (names g') (edges g')"
proof -
  let ?m = "w_view w" and ?B = "pn_id n"
  note o = ok[unfolded print_ok_def]
  have n: "entry_ok ?m A nodes n" and B: "?B \<in> within ?m A k" using o by auto
  define nodes' where "nodes' = (if ?B \<in> set nodes then nodes else nodes @ [?B])"
  have ids: "set nodes' = insert ?B (set nodes)" "distinct nodes'" using o by (auto simp: nodes'_def)
  obtain g1 where g1: "CreateNode V ?B g = (None, g1)" "names g1 = insert ?B (names g)" "edges g1 = edges g" using V unfolding draws_def by blast
  define g2 where "g2 = (if ?B \<in> set nodes then g else g1)"
  have e2: "edges g2 = edges g" "names g2 = set nodes'" using o ids(1) by (auto simp: g2_def g1(2,3))
  have vB: "vertex_id ?B" using n A unfolding entry_ok_def by (auto simp: linksOf_def link_ok_def)
  obtain cs0 where cs0: "printChildren E ?B w = (cs0, w)" "set cs0 = (\<lambda>(T, C). \<lparr>pn_parent = ?B, pn_id = C, pn_lt = T\<rparr>) ` linksOf ?m ?B ''*''"
    using children_of_print[OF w vertex_simple[OF vB]] by blast
  define cs where "cs = (if k < maxDepth then filter (\<lambda>c. pn_id c \<notin> set nodes') cs0 else [])"
  have csB: "pn_id c \<in> linkedTo ?m `` {?B} \<and> entry_ok ?m A nodes' c" if "c \<in> set cs" for c
  proof -
    from that have "c \<in> set cs0" by (simp add: cs_def split: if_splits)
    then obtain T C where "c = \<lparr>pn_parent = ?B, pn_id = C, pn_lt = T\<rparr>" "(T, C) \<in> linksOf ?m ?B ''*''" unfolding cs0(2) by auto
    then show ?thesis using ids(1) by (auto simp: linkedTo_def entry_ok_def)
  qed
  have all: "linkedTo ?m `` {?B} \<subseteq> set nodes' \<union> pn_id ` set cs" if "k < maxDepth"
  proof
    fix C assume "C \<in> linkedTo ?m `` {?B}"
    then obtain T where "(T, C) \<in> linksOf ?m ?B ''*''" by (auto simp: linkedTo_def)
    then have "\<lparr>pn_parent = ?B, pn_id = C, pn_lt = T\<rparr> \<in> set cs0" unfolding cs0(2) by force
    with that show "C \<in> set nodes' \<union> pn_id ` set cs" by (force simp: cs_def)
  qed
  obtain g' where run: "printNode E V False (k < maxDepth) n (nodes, g) w = (((nodes', g'), cs), w)"
    and e': "names g' = set nodes'" "edges g' \<subseteq> linkSet ?m" "edges g \<subseteq> edges g'" "?B = A \<or> (\<exists>C T. C \<in> set nodes' \<and> (C, T, ?B) \<in> edges g')"
  proof (cases "pn_parent n = [] \<or> pn_lt n = []")
    case True
    have "\<not> ((pn_lt n, ?B) \<in> linksOf ?m (pn_parent n) ''*'')"
    proof
      assume "(pn_lt n, ?B) \<in> linksOf ?m (pn_parent n) ''*''"
      then have "simple_id (pn_lt n)" "simple_id (pn_parent n)" by (auto simp: linksOf_def link_ok_def vertex_simple)
      with True show False using simple_not_Nil by blast
    qed
    then have "?B = A" using n by (auto simp: entry_ok_def)
    moreover have "printNode E V False (k < maxDepth) n (nodes, g) w = (((nodes', g2), cs), w)"
      using True by (auto simp: printNode_def nodes'_def g2_def g1(1) cs_def cs0(1) split: if_splits)
    ultimately show thesis using that[of g2] o e2 by simp
  next
    case False
    obtain g3 where g3: "CreateEdge V (pn_lt n) (pn_parent n) ?B g2 = (None, g3)" "names g3 = names g2"
      "edges g3 = insert (pn_parent n, pn_lt n, ?B) (edges g2)"
      using V unfolding draws_def by blast
    have link: "pn_parent n \<in> set nodes" "(pn_lt n, ?B) \<in> linksOf ?m (pn_parent n) ''*''" using n False by (auto simp: entry_ok_def)
    have "printNode E V False (k < maxDepth) n (nodes, g) w = (((nodes', g3), cs), w)"
      using False g3(1) by (auto simp: printNode_def nodes'_def g2_def g1(1) cs_def cs0(1) split: if_splits)
    then show thesis
      by (rule that) (use o link ids(1) in \<open>auto simp: g3(2,3) e2 linkSet_def\<close>)
  qed
  have "print_ok ?m A maxDepth k cur (nxt @ cs) nodes' (names g') (edges g')"
    unfolding print_ok_def
  proof (intro conjI)
    have "set nodes' \<union> pn_id ` set cur = set nodes \<union> pn_id ` set (n # cur)" using ids(1) by auto
    then show "set nodes' \<union> pn_id ` set cur \<subseteq> within ?m A k" "within ?m A k \<subseteq> set nodes' \<union> pn_id ` set cur" using o by simp_all
    have "pn_id ` set cs \<subseteq> within ?m A (Suc k)" using csB B unfolding within_Suc by blast
    moreover have "pn_id ` set nxt \<subseteq> within ?m A (Suc k)" using o by simp
    ultimately show "pn_id ` set (nxt @ cs) \<subseteq> within ?m A (Suc k)" by (simp add: image_Un)
    show "k < maxDepth \<longrightarrow> linkedTo ?m `` set nodes' \<subseteq> set nodes' \<union> pn_id ` set cur \<union> pn_id ` set (nxt @ cs)"
    proof
      assume k: "k < maxDepth"
      then have "linkedTo ?m `` set nodes \<subseteq> set nodes \<union> pn_id ` set (n # cur) \<union> pn_id ` set nxt" using o by simp
      with all[OF k] show "linkedTo ?m `` set nodes' \<subseteq> set nodes' \<union> pn_id ` set cur \<union> pn_id ` set (nxt @ cs)"
        unfolding ids(1) by (auto simp: image_Un)
    qed
    show "\<forall>n\<in>set cur \<union> set (nxt @ cs). entry_ok ?m A nodes' n" 
    proof
      fix e assume "e \<in> set cur \<union> set (nxt @ cs)"
      then consider "e \<in> set cs" | "entry_ok ?m A nodes e" using o by auto
      then show "entry_ok ?m A nodes' e" by cases (use csB ids(1) in \<open>auto simp: entry_ok_def\<close>)
    qed
    show "\<forall>B\<in>set nodes'. B = A \<or> (\<exists>C T. C \<in> set nodes' \<and> (C, T, B) \<in> edges g')" 
    proof
      fix C assume "C \<in> set nodes'"
      then consider "C = ?B" | "C \<in> set nodes" using ids(1) by blast
      then show "C = A \<or> (\<exists>D T. D \<in> set nodes' \<and> (D, T, C) \<in> edges g')"
      proof cases
        case 1
        then show ?thesis using e'(4) by simp
      next
        case 2
        then have "C = A \<or> (\<exists>D T. D \<in> set nodes \<and> (D, T, C) \<in> edges g)" using o by simp
        then show ?thesis using e'(3) ids(1) by blast
      qed
    qed
  qed (use o e' ids in \<open>simp_all add: cs_def\<close>)
  with run show thesis by (rule that)
qed

lemma print_loop:
  assumes w: "w_ok E w" "graph_ok (w_view w)" and A: "vertex_id A" and V: "draws V names edges"
  shows "print_ok (w_view w) A maxDepth k cur nxt nodes (names g) (edges g) \<Longrightarrow>
    \<exists>nodes' g'. printLoop E V False maxDepth (map Some cur @ None # map Some nxt) k (nodes, g) w = Some ((nodes', g'), w) \<and>
      names g' = set nodes' \<and> set nodes' = within (w_view w) A maxDepth \<and> edges g' \<subseteq> linkSet (w_view w) \<and>
      (\<forall>B\<in>set nodes'. B = A \<or> (\<exists>C T. C \<in> set nodes' \<and> (C, T, B) \<in> edges g'))"
proof (induction "(maxDepth - k, length cur)" arbitrary: k cur nxt nodes g rule: wf_induct[OF wf_lex_prod[OF wf_less_than wf_less_than]])
  case 1
  let ?m = "w_view w"
  note o = "1.prems"[unfolded print_ok_def]
  show ?case
  proof (cases cur)
    case (Cons n cur')
    from print_node[OF w A V] "1.prems" obtain nodes' g' cs where
      run: "printNode E V False (k < maxDepth) n (nodes, g) w = (((nodes', g'), cs), w)"
      "print_ok ?m A maxDepth k cur' (nxt @ cs) nodes' (names g') (edges g')" unfolding Cons by blast
    have "((maxDepth - k, length cur'), maxDepth - k, length cur) \<in> less_than <*lex*> less_than" by (simp add: Cons)
    note ih = "1.hyps"[rule_format, OF this refl run(2)]
    have "printLoop E V False maxDepth (map Some cur @ None # map Some nxt) k (nodes, g) w =
        printLoop E V False maxDepth (map Some cur' @ None # map Some (nxt @ cs)) k (nodes', g') w"
      by (subst printLoop.simps) (simp add: Cons run(1))
    with ih show ?thesis by simp
  next
    case Nil
    show ?thesis
    proof (cases nxt)
      case Nil
      have "set nodes = within ?m A k" using o \<open>cur = []\<close> by auto
      moreover have "within ?m A maxDepth \<subseteq> within ?m A k"
      proof (cases "k = maxDepth")
        case False
        then have "linkedTo ?m `` set nodes \<subseteq> set nodes" using o \<open>cur = []\<close> Nil by simp
        moreover have "A \<in> set nodes" using within_mono[of 0 k ?m A] \<open>set nodes = within ?m A k\<close> by simp
        ultimately show ?thesis using within_closed[of A "set nodes" ?m maxDepth] \<open>set nodes = within ?m A k\<close> by simp
      qed simp
      moreover have "within ?m A k \<subseteq> within ?m A maxDepth" by (rule within_mono) (use o in blast)
      ultimately have "set nodes = within ?m A maxDepth" by (simp add: subset_antisym)
      moreover have "printLoop E V False maxDepth (map Some cur @ None # map Some nxt) k (nodes, g) w = Some ((nodes, g), w)"
        by (subst printLoop.simps) (simp add: \<open>cur = []\<close> Nil)
      moreover have "names g = set nodes" "edges g \<subseteq> linkSet ?m" "\<forall>B\<in>set nodes. B = A \<or> (\<exists>C T. C \<in> set nodes \<and> (C, T, B) \<in> edges g)"
        using o by simp_all
      ultimately show ?thesis by (intro exI conjI)
    next
      case (Cons n nxt')
      then have k: "k < maxDepth" using o by auto
      have all: "set nodes = within ?m A k" using o \<open>cur = []\<close> by auto
      have "print_ok ?m A maxDepth (Suc k) nxt [] nodes (names g) (edges g)"
        unfolding print_ok_def
      proof (intro conjI)
        show "set nodes \<union> pn_id ` set nxt \<subseteq> within ?m A (Suc k)" using o within_mono[of k "Suc k" ?m A] by auto
        show "within ?m A (Suc k) \<subseteq> set nodes \<union> pn_id ` set nxt"
          using o k \<open>cur = []\<close> unfolding within_Suc all[symmetric] by auto
      qed (use o k \<open>cur = []\<close> in auto)
      moreover have "((maxDepth - Suc k, length nxt), maxDepth - k, length cur) \<in> less_than <*lex*> less_than" using k by (simp add: diff_less_mono2)
      ultimately have ih: "\<exists>nodes' g'. printLoop E V False maxDepth (map Some nxt @ None # map Some []) (Suc k) (nodes, g) w = Some ((nodes', g'), w) \<and>
        names g' = set nodes' \<and> set nodes' = within ?m A maxDepth \<and> edges g' \<subseteq> linkSet ?m \<and>
        (\<forall>B\<in>set nodes'. B = A \<or> (\<exists>C T. C \<in> set nodes' \<and> (C, T, B) \<in> edges g'))"
        using "1.hyps"[rule_format] by blast
      have "printLoop E V False maxDepth (map Some cur @ None # map Some nxt) k (nodes, g) w =
          printLoop E V False maxDepth (map Some nxt @ None # map Some []) (Suc k) (nodes, g) w"
        by (subst printLoop.simps) (simp add: \<open>cur = []\<close> Cons)
      with ih show ?thesis by simp
    qed
  qed
qed

text \<open>
  C33: without the option \<open>verbose\<close> the drawing of the graph around a vertex ends, and what is
  rendered has a node for each vertex that at most \<open>depth\<close> links lead to and for no other; its
  edges are links of the graph, and one of them leads to each node but the first.
\<close>

theorem printed_graph_is_neighbourhood:
  assumes w: "w_ok E w" "graph_ok (w_view w)" and A: "vertex_id (SelfID ctx)"
    and V: "draws V names edges" "gvGraph V = Inr g0" "names g0 = {}" "edges g0 = {}"
    and quiet: "\<not> AsBoolDefault (ej E) (GetByPath (ej E) (Payload ctx) ''verbose'') True"
  shows "\<exists>g. LLAPIPrintGraph E V ctx w =
      Some (Some (g, printExtension (ej E) V (Payload ctx), ''graph.'' @ printExtension (ej E) V (Payload ctx)), w) \<and>
    names g = within (w_view w) (SelfID ctx) (printDepth (ej E) (Payload ctx)) \<and> edges g \<subseteq> linkSet (w_view w) \<and>
    (\<forall>B\<in>names g. B = SelfID ctx \<or> (\<exists>C T. C \<in> names g \<and> (C, T, B) \<in> edges g))"
proof -
  let ?root = "\<lparr>pn_parent = [], pn_id = SelfID ctx, pn_lt = []\<rparr>" and ?d = "printDepth (ej E) (Payload ctx)"
  have "print_ok (w_view w) (SelfID ctx) ?d 0 [?root] [] [] (names g0) (edges g0)"
    by (simp add: print_ok_def entry_ok_def V(3,4))
  from print_loop[OF w A V(1) this] quiet show ?thesis
    by (auto simp: LLAPIPrintGraph_def Let_def V(2))
qed

section \<open>A sample: the drawing is the list of what is asked for\<close>

definition sample_graphviz :: "(string list \<times> (string \<times> string \<times> string) list) graphviz" where
  "sample_graphviz = \<lparr>XDOT = ''dot'', PNG = ''png'', SVG = ''svg'', gvGraph = Inr ([], []),
     CreateNode = (\<lambda>n g. (None, (n # fst g, snd g))), CreateEdge = (\<lambda>lt p c g. (None, (fst g, (p, lt, c) # snd g)))\<rparr>"

definition draw_context :: "json StatefunContextProcessor" where
  "draw_context = \<lparr>SelfTypename = ''functions.graph.api.object.debug.print.graph'', SelfID = ''a'', CallerTypename = [], CallerID = [],
     Payload = JObj [(''verbose'', JBool False), (''depth'', JNum 0), (''ext'', JStr ''svg'')], Options = JObj [], hasReply = False\<rparr>"

theorem printed_graph_is_neighbourhood_witness:
  "\<exists>g. LLAPIPrintGraph sample_env sample_graphviz draw_context link_world = Some (Some (g, ''svg'', ''graph.svg''), link_world) \<and>
     set (fst g) = {''a''}"
proof -
  have A: "vertex_id (SelfID draw_context)"
    by (rule vertex_id_plain; simp add: draw_context_def simple_id_def key_char_def)
  have V: "draws sample_graphviz (\<lambda>g. set (fst g)) (\<lambda>g. set (snd g))" by (simp add: draws_def sample_graphviz_def)
  have p: "\<not> AsBoolDefault sample_json (GetByPath sample_json (Payload draw_context) ''verbose'') True"
    "printExtension sample_json sample_graphviz (Payload draw_context) = ''svg''" "printDepth sample_json (Payload draw_context) = 0"
    by (simp_all add: draw_context_def sample_json_def printExtension_def printDepth_def sample_graphviz_def)
  have s: "SelfID draw_context = ''a''" by (simp add: draw_context_def)
  have g: "gvGraph sample_graphviz = Inr ([], [])" by (simp add: sample_graphviz_def)
  from printed_graph_is_neighbourhood[OF link_world_view(1) link_world_graph A V g] p show ?thesis
    unfolding sample_env_sel(1) p s by auto
qed

end
