(* ===== verification/SystemEnv.thy ===== *)
theory SystemEnv
  imports SystemUtils
begin

text \<open>
  How \<open>statefun/system/system.go\<close> reads numbers from text: \<open>Str2Int\<close> and the
  variables of the environment, \<open>GetEnv\<close>. The parsers of Go's \<open>strconv\<close> for base 10
  are written out with their results on an error, because the callers use them; that of floating-point
  numbers is a parameter.
\<close>

section \<open>Parsing integers\<close>

datatype parseError = SyntaxError | RangeError

fun parseDigits :: "nat \<Rightarrow> nat \<Rightarrow> string \<Rightarrow> nat \<times> parseError option" where
  "parseDigits maxVal n [] = (n, None)"
| "parseDigits maxVal n (c # cs) =
     (if of_char c < (48 :: nat) \<or> (57 :: nat) < of_char c then (0, Some SyntaxError)
      else (let n1 = 10 * n + (of_char c - 48) in if maxVal < n1 then (maxVal, Some RangeError) else parseDigits maxVal n1 cs))"

definition ParseUint :: "string \<Rightarrow> nat \<Rightarrow> nat \<times> parseError option" where
  "ParseUint s bitSize =
     (if s = [] then (0, Some SyntaxError)
      else parseDigits (2 ^ (if bitSize = 0 then 64 else bitSize) - 1) 0 s)"

definition ParseInt :: "string \<Rightarrow> nat \<Rightarrow> int \<times> parseError option" where
  "ParseInt s bitSize =
     (if s = [] then (0, Some SyntaxError)
      else
        (let neg = (hd s = CHR ''-''); digits = (if hd s = CHR ''-'' \<or> hd s = CHR ''+'' then tl s else s) in
         case ParseUint digits bitSize of
           (_, Some SyntaxError) \<Rightarrow> (0, Some SyntaxError)
         | (un, _) \<Rightarrow>
             (let cutoff = 2 ^ ((if bitSize = 0 then 64 else bitSize) - 1) in
              if \<not> neg \<and> cutoff \<le> un then (int (cutoff - 1), Some RangeError)
              else if neg \<and> cutoff < un then (- int cutoff, Some RangeError)
              else (if neg then - int un else int un, None))))"

definition ParseBool :: "string \<Rightarrow> bool \<times> parseError option" where
  "ParseBool s =
     (if s \<in> {''1'', ''t'', ''T'', ''true'', ''TRUE'', ''True''} then (True, None)
      else if s \<in> {''0'', ''f'', ''F'', ''false'', ''FALSE'', ''False''} then (False, None)
      else (False, Some SyntaxError))"

definition Str2Int :: "string \<Rightarrow> int" where
  "Str2Int s = (case ParseInt s 64 of (v, None) \<Rightarrow> v | (_, Some _) \<Rightarrow> 0)"

section \<open>Variables of the environment\<close>

text \<open>
  The type parameter of \<open>GetEnv\<close> is the type of the default value: a string, an unsigned or
  signed integer with its size (0 for the machine's), a boolean, a floating-point number with its size,
  or another type, for which the default is returned.
\<close>

datatype 'f envValue =
  EnvString string
| EnvUint nat nat
| EnvInt nat int
| EnvBool bool
| EnvFloat nat 'f
| EnvOther

definition GetEnv ::
  "(string \<Rightarrow> nat \<Rightarrow> 'f \<times> parseError option) \<Rightarrow> (string \<Rightarrow> string option) \<Rightarrow> string \<Rightarrow> 'f envValue \<Rightarrow>
    'f envValue \<times> parseError option" where
  "GetEnv ParseFloat LookupEnv key defaultVal =
     (case LookupEnv key of
        None \<Rightarrow> (defaultVal, None)
      | Some strValue \<Rightarrow>
          (case defaultVal of
             EnvString _ \<Rightarrow> (EnvString strValue, None)
           | EnvUint bits _ \<Rightarrow> map_prod (EnvUint bits) id (ParseUint strValue (if bits = 64 then 0 else bits))
           | EnvInt bits _ \<Rightarrow> map_prod (EnvInt bits) id (ParseInt strValue bits)
           | EnvBool _ \<Rightarrow> map_prod EnvBool id (ParseBool strValue)
           | EnvFloat bits _ \<Rightarrow> map_prod (EnvFloat bits) id (ParseFloat strValue bits)
           | EnvOther \<Rightarrow> (EnvOther, None)))"

definition GetEnvMustProceed ::
  "(string \<Rightarrow> nat \<Rightarrow> 'f \<times> parseError option) \<Rightarrow> (string \<Rightarrow> string option) \<Rightarrow> string \<Rightarrow> 'f envValue \<Rightarrow> 'f envValue" where
  "GetEnvMustProceed ParseFloat LookupEnv key defaultVal = fst (GetEnv ParseFloat LookupEnv key defaultVal)"

section \<open>Reading what was written\<close>

lemma parseDigits_snoc:
  "parseDigits m n cs = (v, None) \<Longrightarrow> d < 10 \<Longrightarrow>
   parseDigits m n (cs @ [dec_digit d]) = (if m < 10 * v + d then (m, Some RangeError) else (10 * v + d, None))"
  by (induction cs arbitrary: n) (auto simp: of_char_dec_digit Let_def split: if_splits)

lemma parseDigits_range:
  "parseDigits m n cs = (m, Some RangeError) \<Longrightarrow> parseDigits m n (cs @ ds) = (m, Some RangeError)"
  by (induction cs arbitrary: n) (auto simp: Let_def split: if_splits)

lemma parseDigits_dec_nat: "parseDigits m 0 (dec_nat n) = (if n \<le> m then (n, None) else (m, Some RangeError))"
proof (induction n rule: dec_nat.induct)
  case (1 n)
  show ?case
  proof (cases "n < 10")
    case True
    then show ?thesis by (subst dec_nat.simps) (auto simp: of_char_dec_digit)
  next
    case False
    then have d: "dec_nat n = dec_nat (n div 10) @ [dec_digit (n mod 10)]" by (subst dec_nat.simps) simp
    note ih = 1[OF False]
    show ?thesis
    proof (cases "n div 10 \<le> m")
      case True
      with ih have "parseDigits m 0 (dec_nat (n div 10)) = (n div 10, None)" by simp
      from parseDigits_snoc[OF this, of "n mod 10"] show ?thesis unfolding d by auto
    next
      case False
      with ih have "parseDigits m 0 (dec_nat (n div 10)) = (m, Some RangeError)" by simp
      moreover have "m < n" using False by (meson div_le_dividend le_trans not_le)
      ultimately show ?thesis unfolding d by (simp add: parseDigits_range)
    qed
  qed
qed

lemma ParseUint_dec_nat:
  "ParseUint (dec_nat n) bits =
     (let m = 2 ^ (if bits = 0 then 64 else bits) - 1 in if n \<le> m then (n, None) else (m, Some RangeError))"
  by (simp add: ParseUint_def parseDigits_dec_nat Let_def)

lemma dec_nat_hd: "hd (dec_nat n) \<noteq> CHR ''-''" "hd (dec_nat n) \<noteq> CHR ''+''"
proof -
  obtain d where "d < 10" "hd (dec_nat n) = dec_digit d" using dec_nat_digits[of "hd (dec_nat n)" n] by auto
  then have "(of_char (hd (dec_nat n)) :: nat) \<ge> 48" by (simp add: of_char_dec_digit)
  then show "hd (dec_nat n) \<noteq> CHR ''-''" "hd (dec_nat n) \<noteq> CHR ''+''" by auto
qed

text \<open>The integers of a size, and the one nearest to a given integer.\<close>

definition clampInt :: "nat \<Rightarrow> int \<Rightarrow> int" where
  "clampInt bits i = max (- (2 ^ (bits - 1))) (min (2 ^ (bits - 1) - 1) i)"

lemma ParseInt_sprintf:
  assumes "1 < bits"
  shows "fst (ParseInt (sprintf_d i) bits) = clampInt bits i"
    and "snd (ParseInt (sprintf_d i) bits) = (if clampInt bits i = i then None else Some RangeError)"
proof -
  have pow: "(2 :: nat) ^ bits = 2 * 2 ^ (bits - 1)" using assms by (cases bits) auto
  define c :: nat where "c = 2 ^ (bits - 1)"
  have "(2 :: nat) ^ 1 \<le> 2 ^ (bits - 1)" using assms by (intro power_increasing) simp_all
  then have c: "1 < c" "int c = 2 ^ (bits - 1)" "(2 :: nat) ^ bits = 2 * c" using pow by (simp_all add: c_def)
  have clamp: "clampInt bits i = max (- int c) (min (int c - 1) i)" by (simp add: clampInt_def c(2))
  define un where "un = (if nat \<bar>i\<bar> \<le> 2 * c - 1 then nat \<bar>i\<bar> else 2 * c - 1)"
  have u: "ParseUint (dec_nat (nat \<bar>i\<bar>)) bits = (un, if nat \<bar>i\<bar> \<le> 2 * c - 1 then None else Some RangeError)"
    using assms by (simp add: ParseUint_dec_nat c(3) un_def Let_def)
  have p: "ParseInt (sprintf_d i) bits =
      (if \<not> i < 0 \<and> c \<le> un then (int (c - 1), Some RangeError)
       else if i < 0 \<and> c < un then (- int c, Some RangeError) else (if i < 0 then - int un else int un, None))"
    using u assms dec_nat_hd by (auto simp: ParseInt_def sprintf_d_def Let_def c_def abs_if split: if_splits)
  show "fst (ParseInt (sprintf_d i) bits) = clampInt bits i"
    "snd (ParseInt (sprintf_d i) bits) = (if clampInt bits i = i then None else Some RangeError)"
    unfolding p clamp using c(1) by (auto simp: un_def split: if_splits)
qed

text \<open>The size of a type, and what is read of an integer as an unsigned one of that size.\<close>

definition intSize :: "nat \<Rightarrow> nat" where
  "intSize bits = (if bits = 0 then 64 else bits)"

lemma ParseInt_size: "ParseInt s (intSize bits) = ParseInt s bits"
  by (simp add: ParseInt_def ParseUint_def intSize_def)

lemma ParseUint_sprintf:
  "ParseUint (sprintf_d i) bits =
     (if i < 0 then (0, Some SyntaxError)
      else if i < 2 ^ intSize bits then (nat i, None) else (2 ^ intSize bits - 1, Some RangeError))"
proof (cases "i < 0")
  case True
  then show ?thesis by (simp add: sprintf_d_def ParseUint_def)
next
  case False
  then have "ParseUint (sprintf_d i) bits = ParseUint (dec_nat (nat i)) bits" by (simp add: sprintf_d_def abs_if)
  moreover have "nat i \<le> 2 ^ intSize bits - 1 \<longleftrightarrow> nat i < 2 ^ intSize bits"
    using zero_less_power[of "2 :: nat" "intSize bits"] by linarith
  moreover have "nat i < 2 ^ intSize bits \<longleftrightarrow> i < 2 ^ intSize bits" using False by (simp add: nat_less_iff)
  ultimately show ?thesis using False by (simp add: ParseUint_dec_nat Let_def intSize_def)
qed

text \<open>
  C34: a variable of the environment that holds an integer is read as that integer when it fits into
  the type of the default value, signed or unsigned and of whatever size, where a type without a size
  has the 64 bits of the machine. When it does not, the value read is the nearest one of the type and
  comes with an error (a negative number is no unsigned one at all and read as 0); \<open>Str2Int\<close> reads
  every 64-bit integer and gives 0 for the others.
\<close>

theorem integers_are_read_within_bounds:
  assumes "bits \<noteq> 1" and "LookupEnv key = Some (sprintf_d i)"
  shows "GetEnv ParseFloat LookupEnv key (EnvInt bits d) =
      (EnvInt bits (clampInt (intSize bits) i), if clampInt (intSize bits) i = i then None else Some RangeError) \<and>
    - (2 ^ (intSize bits - 1)) \<le> clampInt (intSize bits) i \<and> clampInt (intSize bits) i < 2 ^ (intSize bits - 1) \<and>
    GetEnv ParseFloat LookupEnv key (EnvUint bits u) =
      (if i < 0 then (EnvUint bits 0, Some SyntaxError)
       else if i < 2 ^ intSize bits then (EnvUint bits (nat i), None)
       else (EnvUint bits (2 ^ intSize bits - 1), Some RangeError)) \<and>
    Str2Int (sprintf_d i) = (if in_int64 i then i else 0)"
proof (intro conjI)
  have "1 < intSize bits" using assms(1) by (simp add: intSize_def)
  from ParseInt_sprintf[OF this, of i, unfolded ParseInt_size]
  have "ParseInt (sprintf_d i) bits =
      (clampInt (intSize bits) i, if clampInt (intSize bits) i = i then None else Some RangeError)"
    by (simp add: prod_eq_iff)
  then show "GetEnv ParseFloat LookupEnv key (EnvInt bits d) =
      (EnvInt bits (clampInt (intSize bits) i), if clampInt (intSize bits) i = i then None else Some RangeError)"
    by (simp add: GetEnv_def assms(2))
  show "- (2 ^ (intSize bits - 1)) \<le> clampInt (intSize bits) i" "clampInt (intSize bits) i < 2 ^ (intSize bits - 1)"
    by (auto simp: clampInt_def)
  have "intSize (if bits = 64 then 0 else bits) = intSize bits" by (simp add: intSize_def)
  then show "GetEnv ParseFloat LookupEnv key (EnvUint bits u) =
      (if i < 0 then (EnvUint bits 0, Some SyntaxError)
       else if i < 2 ^ intSize bits then (EnvUint bits (nat i), None)
       else (EnvUint bits (2 ^ intSize bits - 1), Some RangeError))"
    using ParseUint_sprintf[of i "if bits = 64 then 0 else bits"] by (simp add: GetEnv_def assms(2))
  have "clampInt 64 i = i \<longleftrightarrow> in_int64 i" by (auto simp: clampInt_def in_int64_def)
  moreover have "ParseInt (sprintf_d i) 64 = (clampInt 64 i, if clampInt 64 i = i then None else Some RangeError)"
    using ParseInt_sprintf[of 64 i] by (simp add: prod_eq_iff)
  ultimately show "Str2Int (sprintf_d i) = (if in_int64 i then i else 0)" by (simp add: Str2Int_def)
qed

theorem integers_are_read_within_bounds_witness:
  "let env = (\<lambda>_. Some (sprintf_d 300)) in
   GetEnv (\<lambda>_ _. ((), None)) env ''N'' (EnvInt 8 1) = (EnvInt 8 127, Some RangeError) \<and>
   GetEnv (\<lambda>_ _. ((), None)) env ''N'' (EnvUint 8 1) = (EnvUint 8 255, Some RangeError) \<and>
   GetEnv (\<lambda>_ _. ((), None)) env ''N'' (EnvUint 0 1) = (EnvUint 0 300, None) \<and> Str2Int (sprintf_d 300) = 300"
  using integers_are_read_within_bounds[of 8 "\<lambda>_. Some (sprintf_d 300)" "''N''" 300 "\<lambda>_ _. ((), None)" 1 1]
    integers_are_read_within_bounds[of 0 "\<lambda>_. Some (sprintf_d 300)" "''N''" 300 "\<lambda>_ _. ((), None)" 1 1]
  by (simp add: clampInt_def intSize_def in_int64_def)

end
