(* ===== verification/Metrics.thy ===== *)
theory Metrics
  imports SystemUtils
begin

text \<open>
  The registry of metrics of \<open>statefun/system/prometrics.go\<close>: one metric for an identifier,
  created at its first use. A metric is what it is made of; the registration with prometheus is a
  parameter that may fail. The pointer to the registry may be nil.
\<close>

datatype 'b metric =
  is_GaugeVec: GaugeVec string string "string list"
| is_HistogramVec: HistogramVec string string "'b list" "string list"

definition PrometricDifferentTypeExistsForIdError :: string where
  "PrometricDifferentTypeExistsForIdError = ''metrics with a different type exists for an id''"

definition PrometricInstanceIsNil :: string where
  "PrometricInstanceIsNil = ''prometrics instance the method is being call against to is nil''"

record ('b, 'p) Prometrics =
  metrics :: "(string \<times> 'b metric) list"
  routinesCounter :: routines_counter
  prometheus :: 'p

type_synonym ('b, 'p) registrar = "'b metric \<Rightarrow> 'p \<Rightarrow> string option \<times> 'p"

definition GetRoutinesCounter :: "('b, 'p) Prometrics option \<Rightarrow> routines_counter option" where
  "GetRoutinesCounter pm = map_option routinesCounter pm"

definition Exists :: "string \<Rightarrow> ('b, 'p) Prometrics option \<Rightarrow> bool" where
  "Exists ident pm = (case pm of None \<Rightarrow> False | Some p \<Rightarrow> map_of (metrics p) ident \<noteq> None)"

definition EnsureGaugeVec ::
  "('b, 'p) registrar \<Rightarrow> string \<Rightarrow> 'b metric \<Rightarrow> ('b, 'p) Prometrics option \<Rightarrow>
    ('b metric option \<times> string option) \<times> ('b, 'p) Prometrics option" where
  "EnsureGaugeVec Register ident metric pm =
     (case pm of
        None \<Rightarrow> ((None, Some PrometricInstanceIsNil), None)
      | Some p \<Rightarrow>
          (case map_of (metrics p) ident of
             Some (GaugeVec n h ls) \<Rightarrow> ((Some (GaugeVec n h ls), None), pm)
           | Some (HistogramVec _ _ _ _) \<Rightarrow> ((None, Some PrometricDifferentTypeExistsForIdError), pm)
           | None \<Rightarrow>
               (case Register metric (prometheus p) of
                  (err, s) \<Rightarrow> ((Some metric, err),
                    Some (p\<lparr>metrics := AList.update ident metric (metrics p), prometheus := s\<rparr>)))))"

definition EnsureGaugeVecSimple ::
  "('b, 'p) registrar \<Rightarrow> string \<Rightarrow> string \<Rightarrow> string list \<Rightarrow> ('b, 'p) Prometrics option \<Rightarrow>
    ('b metric option \<times> string option) \<times> ('b, 'p) Prometrics option" where
  "EnsureGaugeVecSimple Register ident help labelNames pm =
     (if pm = None then ((None, Some PrometricInstanceIsNil), None)
      else EnsureGaugeVec Register ident (GaugeVec (replace_all ident ''.'' []) help labelNames) pm)"

definition EnsureHistogramVec ::
  "('b, 'p) registrar \<Rightarrow> string \<Rightarrow> 'b metric \<Rightarrow> ('b, 'p) Prometrics option \<Rightarrow>
    ('b metric option \<times> string option) \<times> ('b, 'p) Prometrics option" where
  "EnsureHistogramVec Register ident metric pm =
     (case pm of
        None \<Rightarrow> ((None, Some PrometricInstanceIsNil), None)
      | Some p \<Rightarrow>
          (case map_of (metrics p) ident of
             Some (HistogramVec n h bs ls) \<Rightarrow> ((Some (HistogramVec n h bs ls), None), pm)
           | Some (GaugeVec _ _ _) \<Rightarrow> ((None, Some PrometricDifferentTypeExistsForIdError), pm)
           | None \<Rightarrow>
               (case Register metric (prometheus p) of
                  (err, s) \<Rightarrow> ((Some metric, err),
                    Some (p\<lparr>metrics := AList.update ident metric (metrics p), prometheus := s\<rparr>)))))"

definition EnsureHistogramVecSimple ::
  "('b, 'p) registrar \<Rightarrow> string \<Rightarrow> string \<Rightarrow> 'b list \<Rightarrow> string list \<Rightarrow> ('b, 'p) Prometrics option \<Rightarrow>
    ('b metric option \<times> string option) \<times> ('b, 'p) Prometrics option" where
  "EnsureHistogramVecSimple Register ident help buckets labelNames pm =
     (if pm = None then ((None, Some PrometricInstanceIsNil), None)
      else EnsureHistogramVec Register ident (HistogramVec (replace_all ident ''.'' []) help buckets labelNames) pm)"

text \<open>The counters are given to a function until it answers false.\<close>

fun ReadCounters :: "(string \<Rightarrow> int \<Rightarrow> 's \<Rightarrow> bool \<times> 's) \<Rightarrow> routines_counter \<Rightarrow> 's \<Rightarrow> 's" where
  "ReadCounters f [] s = s"
| "ReadCounters f ((key, v) # rc) s = (case f key v s of (res, s) \<Rightarrow> if res then ReadCounters f rc s else s)"

section \<open>A metric keeps its type\<close>

datatype 'b ensure = EnsureGauge string string "string list" | EnsureHistogram string string "'b list" "string list"

fun ensureStep ::
  "('b, 'p) registrar \<Rightarrow> 'b ensure \<Rightarrow> ('b, 'p) Prometrics option \<Rightarrow>
    ('b metric option \<times> string option) \<times> ('b, 'p) Prometrics option" where
  "ensureStep Register (EnsureGauge ident help labels) pm = EnsureGaugeVecSimple Register ident help labels pm"
| "ensureStep Register (EnsureHistogram ident help bs labels) pm = EnsureHistogramVecSimple Register ident help bs labels pm"

fun ensureId :: "'b ensure \<Rightarrow> string" where
  "ensureId (EnsureGauge ident _ _) = ident"
| "ensureId (EnsureHistogram ident _ _ _) = ident"

fun ensureKind :: "'b ensure \<Rightarrow> 'b metric \<Rightarrow> bool" where
  "ensureKind (EnsureGauge _ _ _) m \<longleftrightarrow> is_GaugeVec m"
| "ensureKind (EnsureHistogram _ _ _ _) m \<longleftrightarrow> is_HistogramVec m"

definition ensureAll :: "('b, 'p) registrar \<Rightarrow> 'b ensure list \<Rightarrow> ('b, 'p) Prometrics \<Rightarrow> ('b, 'p) Prometrics option" where
  "ensureAll Register calls p = fold (\<lambda>c pm. snd (ensureStep Register c pm)) calls (Some p)"

lemma ensure_returns:
  "fst (fst (ensureStep Register c (Some p))) = Some m \<Longrightarrow>
   ensureKind c m \<and> (\<exists>p'. snd (ensureStep Register c (Some p)) = Some p' \<and> map_of (metrics p') (ensureId c) = Some m)"
  by (cases c)
    (auto simp: EnsureGaugeVecSimple_def EnsureGaugeVec_def EnsureHistogramVecSimple_def EnsureHistogramVec_def
      split: option.splits metric.splits prod.splits)

lemma ensure_keeps:
  "map_of (metrics p) i = Some m \<Longrightarrow>
   \<exists>p'. snd (ensureStep Register c (Some p)) = Some p' \<and> map_of (metrics p') i = Some m"
  by (cases c)
    (auto simp: EnsureGaugeVecSimple_def EnsureGaugeVec_def EnsureHistogramVecSimple_def EnsureHistogramVec_def
      split: option.splits metric.splits prod.splits)

lemma ensureAll_keeps:
  "map_of (metrics p) i = Some m \<Longrightarrow> \<exists>p'. ensureAll Register calls p = Some p' \<and> map_of (metrics p') i = Some m"
proof (induction calls arbitrary: p)
  case (Cons c calls)
  from ensure_keeps[OF Cons.prems, of Register c] obtain p1 where
    "snd (ensureStep Register c (Some p)) = Some p1" "map_of (metrics p1) i = Some m" by blast
  with Cons.IH[of p1] show ?case by (simp add: ensureAll_def)
qed (simp add: ensureAll_def)

text \<open>
  C35: a metric keeps its type and stays what it is: what a call for an identifier gave is, after any
  other calls, given to every call of the same type and refused, with the error for it and without a
  change, to every call of another type.
\<close>

theorem metric_keeps_its_type:
  assumes "fst (fst (ensureStep Register c (Some p))) = Some m"
    and "snd (ensureStep Register c (Some p)) = Some p1"
  shows "ensureKind c m \<and> (\<exists>p2. ensureAll Register calls p1 = Some p2 \<and>
    (\<forall>c'. ensureId c' = ensureId c \<longrightarrow> ensureStep Register c' (Some p2) =
       ((if ensureKind c' m then (Some m, None) else (None, Some PrometricDifferentTypeExistsForIdError)), Some p2)))"
proof -
  from ensure_returns[OF assms(1)] assms(2) have m: "ensureKind c m" "map_of (metrics p1) (ensureId c) = Some m" by auto
  then obtain p2 where p2: "ensureAll Register calls p1 = Some p2" "map_of (metrics p2) (ensureId c) = Some m"
    using ensureAll_keeps by blast
  have "ensureStep Register c' (Some p2) =
      ((if ensureKind c' m then (Some m, None) else (None, Some PrometricDifferentTypeExistsForIdError)), Some p2)"
    if "ensureId c' = ensureId c" for c'
    using that p2(2)
    by (cases c'; cases m)
      (auto simp: EnsureGaugeVecSimple_def EnsureGaugeVec_def EnsureHistogramVecSimple_def EnsureHistogramVec_def)
  with m(1) p2(1) show ?thesis by blast
qed

theorem metric_keeps_its_type_witness:
  "ensureStep (\<lambda>m s. (None, s)) (EnsureHistogram ''a.b'' [] [1 :: nat] [])
     (Some \<lparr>metrics = [(''a.b'', GaugeVec ''ab'' [] [])], routinesCounter = [], prometheus = ()\<rparr>) =
     ((None, Some PrometricDifferentTypeExistsForIdError),
      Some \<lparr>metrics = [(''a.b'', GaugeVec ''ab'' [] [])], routinesCounter = [], prometheus = ()\<rparr>)"
proof -
  let ?p = "\<lparr>metrics = [(''a.b'', GaugeVec ''ab'' [] [])], routinesCounter = [], prometheus = ()\<rparr>"
  have "\<forall>c'. ensureId c' = ''a.b'' \<longrightarrow> ensureStep (\<lambda>m s. (None, s)) c' (Some ?p) =
      ((if ensureKind c' (GaugeVec ''ab'' [] []) then (Some (GaugeVec ''ab'' [] [] :: nat metric), None)
        else (None, Some PrometricDifferentTypeExistsForIdError)), Some ?p)"
    using metric_keeps_its_type[of "\<lambda>m s. (None, s)" "EnsureGauge ''a.b'' [] []" ?p "GaugeVec ''ab'' [] []" ?p "[]"]
    by (simp add: EnsureGaugeVecSimple_def EnsureGaugeVec_def ensureAll_def)
  from this[rule_format, of "EnsureHistogram ''a.b'' [] [1] []"] show ?thesis by simp
qed

end
