(* ===== verification/Spec2Isabelle.thy ===== *)
theory Spec2Isabelle
  imports DimChannel LocalKeyMutex KVMutexProtocol CacheUpdates KeyValueBucket LLProps HLProps DispatchProps
    MessagesProps RuntimeStart JPGAnswer JPGTreeProps TxMergeProps
    DebugGraph SystemEnv Metrics
begin

text \<open>
  A verification of the Foliage SDK, a Go library for stateful functions that exchange messages over
  NATS and keep a graph of vertices and links in a key/value store.

  The program and the theories that model it:

  \<^item> \<open>statefun/cache/cache.go\<close>: the cache, a tree of \<open>StoreValue\<close>s that are locked one
    by one, over a NATS key/value bucket. \<open>CacheTree\<close> has the tree (a pointer into it is the
    list of keys that leads there), \<open>CacheStore\<close> the operations of \<open>StoreValue\<close> and
    \<open>Store\<close>, \<open>CacheSync\<close> a pass of \<open>kvLazyWriter\<close> and the entries of
    \<open>storeUpdatesHandler\<close>. \<open>CacheFrames\<close> and \<open>CacheLaws\<close> prove that the
    operations implement a map (locale \<open>kv\_store\<close>, interpreted for the cache and again for
    the world of a handler), \<open>CacheProps\<close>, \<open>CacheFlush\<close> and
    \<open>CacheUpdates\<close> the properties.
  \<^item> \<open>statefun/system\<close>: \<open>SystemUtils\<close> (byte encodings, maps, the routines counter),
    \<open>SystemEnv\<close> (numbers in text and variables of the environment), \<open>Metrics\<close> (the registry),
    \<open>DimChannel\<close> (the unbounded channel) and \<open>LocalKeyMutex\<close> (the mutex per key), the
    last two as transition systems with one step per atomic action of a goroutine.
  \<^item> \<open>statefun/kv\_mutices.go\<close>: \<open>KVMutex\<close> (the operations run alone) and
    \<open>KVMutexProtocol\<close> (runtimes whose calls of the store interleave).
  \<^item> \<open>embedded/nats/kv/kv.go\<close>: \<open>KeyValueBucket\<close>.
  \<^item> \<open>statefun/function\_type.go\<close> and its configuration: \<open>FunctionConfig\<close>,
    \<open>Dispatch\<close> (messages, handler routines, collection of idle ids), \<open>DispatchInv\<close>
    (the invariant) and \<open>DispatchProps\<close>.
  \<^item> \<open>statefun/plugins\<close>, \<open>statefun/ingress.go\<close>, \<open>statefun/nats\_sources.go\<close>:
    \<open>StatefunContext\<close> (what a logic handler sees and does), \<open>Messages\<close> (how messages
    reach it and are answered) and \<open>MessagesProps\<close>.
  \<^item> \<open>statefun/runtime.go\<close>: \<open>RuntimeStart\<close>.
  \<^item> \<open>embedded/graph/crud/ll\_crud.go\<close>: \<open>LLCrud\<close> has the six handlers;
    \<open>LLKeys\<close> the keys they use; \<open>LLSpec\<close>, \<open>LLVertex\<close>, \<open>LLGraph\<close> and
    \<open>LLVertexOps\<close> what each does to the store; \<open>LLIndices\<close> that the index keys
    of the links stay those of their bodies; \<open>LLApi\<close> and \<open>LLProps\<close> the
    requests to them.
  \<^item> \<open>embedded/graph/crud/hl\_crud.go\<close>: \<open>HLCrud\<close> has the twelve handlers and the
    triggers; \<open>HLSpec\<close>, \<open>HLObjects\<close> and \<open>HLProps\<close> what they do.
  \<^item> \<open>embedded/graph/jpgql\<close>, the query language: \<open>Regexp\<close> (the regular expression
    package, as far as the queries use it), \<open>JPGParse\<close> (queries and filters),
    \<open>JPGLinks\<close> (the objects that a step leads to) and \<open>JPGQuery\<close> (the handler of a
    query with direct aggregation and its goroutine). \<open>JPGParseProps\<close> and \<open>JPGSelect\<close>
    prove what one step finds. \<open>CacheLevels\<close> has the subscriptions of a cache level (locale
    \<open>level\_store\<close>), \<open>JPGHistory\<close> the history of a query's processes and what the
    goroutine can know of it, \<open>JPGPaths\<close> what a query means, \<open>JPGProtocol\<close>,
    \<open>JPGInv\<close> and \<open>JPGProcess\<close> the invariant of the world during a query,
    \<open>JPGRun\<close>, \<open>JPGProgress\<close> and \<open>JPGAnswer\<close> the transition system and its
    answers. \<open>JPGTree\<close> has the handler of a query with aggregation along the tree of calls,
    \<open>JPGTreeProps\<close> the protocol of one of its processes and the timeout of both kinds of query.
  \<^item> \<open>embedded/graph/tx\<close>, transactions on the graph: \<open>TxState\<close> has the traversal
    of a graph (\<open>traverse.go\<close>) and the requests that the functions make (\<open>helper.go\<close>),
    \<open>TxMerge\<close> the merge of a transaction's graph (\<open>merge.go\<close>), \<open>TxStatefun\<close>
    the clones, commit, push and the functions that work inside a transaction
    (\<open>statefun.go\<close>). \<open>TxGraph\<close> proves what the traversal finds and that it ends,
    \<open>TxViews\<close> what the low-level operations do to single vertices and links,
    \<open>TxSpec\<close> and \<open>TxMergeProps\<close> what a merge makes of the main graph.
  \<^item> \<open>embedded/graph/debug/graph\_cgo.go\<close>, the drawing of a graph: \<open>DebugGraph\<close>, with the
    graphviz library as a parameter, and what a drawing shows.

  \<open>Prelude\<close> holds the vocabulary (bytes, Go's string functions, association lists),
  \<open>Transitions\<close> reachability and the locale \<open>invariant\_system\<close> that every protocol
  interprets. \<open>Env\<close> is the outside: one record of the JSON package, the NATS store, the clock,
  the random identifiers and the iteration order of maps, with what the SDK relies on in
  \<open>easyjson\_ok\<close>, \<open>natskv\_ok\<close> and \<open>env\_ok\<close>. \<open>SampleEnv\<close> is an instance
  that satisfies all of it, for the witnesses only.

  How the parts interact. A message comes from NATS (\<open>handleNatsMsg\<close>) or from a local request
  and is given by \<open>sendMsg\<close> to the routine of its id; the routine runs the logic handler of the
  typename on a context processor; the handler reads and writes the cache and requests other
  functions. A handler is therefore a function of the requests it can make, of its context and of the
  world (\<open>world\<close>: cache, published messages, call chain), and \<open>goLangLocalRequest\<close> closes
  the recursion. The cache writes to the bucket in the background and follows the writes of others.

  What is shown. The cache is a map, a pass of the lazy writer brings its content to the bucket (or
  leaves pending what the bucket did not accept) and from there it reaches another cache, its
  transactions are atomic and its pattern search is exact. The key mutexes exclude and the channel keeps
  the order under all interleavings. The dispatch loses and duplicates no message while the process does
  not panic, and its collector returns.
  The low-level graph operations refine functions on the store and keep links recorded at both ends with
  the indices of their bodies;
  the high-level operations refine sequences of these and fire the triggers they should. A query
  answers exactly what the paths of the graph that follow its steps lead to, whatever the order in
  which its processes run, or its timeout, and it can always finish with its answer unless the channel of its
  notifications has stranded the last one; a process of a query along the tree of calls answers
  its caller once, with all that the processes it called have answered. The
  merge of a transaction ends, and every vertex and link with its body and indices is afterwards as the
  transaction has it, with the link types in its bodies that \<open>removeTxPrefix\<close> makes. A drawing
  shows the vertices within its depth, an integer of the environment is read within its type, a metric keeps
  its type. The places
  where the program does not do what it means to are theorems or lemmas too: a stranded element of the channel and the query that then waits for its timeout,
  a deleted key that comes back, a link name given twice, an id that is locked for ever or split, a collected id that panics, an answer that is lost, a cascade that forgets its last vertex.

  Bounds and fuel. \<open>goLangLocalRequest\<close> has fuel for the depth of nested requests: the
  low-level API needs five levels, a high-level function one more, and the theorems give exactly
  that many or more. The loop of \<open>KeyMutexLock\<close> and the cascade of \<open>DeleteObject\<close>
  have fuel and give \<open>None\<close> without it; the loops of the lazy writer and of the pattern search
  have fuel computed from the size of the tree, which is proved to be enough. Integers are kept at 64
  bits where they are stored as bytes, and the comparisons of a time plus a lifetime with the clock (a lock
  of \<open>KeyMutexLock\<close>, an id in \<open>gc\<close>, the timeout of a query) wrap around as they do in the
  code; the theorems say for which values that does not matter. Counters of Go that cannot overflow in practice are unbounded.
  A panic ends the steps of \<open>ft\_step\<close>, as it ends the process, and a channel of size 0 hands
  a message over to a routine that waits for it. A reply that a handler gives after it has returned is
  an argument of \<open>handleMsgForID\<close>, with its absence the timeout.

  Not modelled: the evaluator of the gval package beyond the two operators and two functions that
  \<open>filterParseLanguage\<close> gives it, the output to the log (\<open>LLAPIObjectDebugPrint\<close> of \<open>embedded/graph/debug\<close> and
  the logger), the goroutines that serve and collect the metrics, the JavaScript plugin, which is glue to
  an engine that is not in the repository, the connection to NATS and the endless loops around the modelled
  rounds. Locks inside one operation of the cache are not modelled: an operation is atomic. So is
  the handling of one message of a query, and while a query runs nothing else changes its graph.
\<close>

end
